(* ===== verification/Prelude.thy ===== *)
theory Prelude
  imports Main "HOL-Library.Monad_Syntax" "HOL-Library.Word"
begin

text \<open>
  Generic material shared by every theory: the partial-correctness predicate \<open>post\<close> on
  results of the option monad (\<open>None\<close> is undefined behaviour or a run that does not return),
  array reads with their bound, C integer arithmetic with the wrap-around written out, and tallies
  over traces.
\<close>

named_theorems post_simps "weakest-precondition equations of the option monad"

section \<open>Results of runs\<close>

text \<open>
  A modelled C function is a function into \<open>'a option\<close>: \<open>Some r\<close> is a run that returns
  \<open>r\<close>, \<open>None\<close> a run with undefined behaviour (a NULL or out-of-range read, a write past
  a buffer) or, for the loops defined by \<open>partial_function\<close>, a run that never returns.
\<close>

definition post :: "'a option \<Rightarrow> ('a \<Rightarrow> bool) \<Rightarrow> bool" where
  "post m Q \<longleftrightarrow> (case m of None \<Rightarrow> True | Some x \<Rightarrow> Q x)"

definition returns :: "'a option \<Rightarrow> ('a \<Rightarrow> bool) \<Rightarrow> bool" where
  "returns m Q \<longleftrightarrow> (case m of None \<Rightarrow> False | Some x \<Rightarrow> Q x)"

lemma post_Some [simp, post_simps]: "post (Some x) Q = Q x"
  by (simp add: post_def)

lemma post_None [simp, post_simps]: "post None Q"
  by (simp add: post_def)

lemma post_bind [post_simps]: "post (m \<bind> f) Q = post m (\<lambda>x. post (f x) Q)"
  by (cases m) (simp_all add: post_def)

lemma post_if [post_simps]: "post (if b then m else n) Q = (if b then post m Q else post n Q)"
  by simp

lemma post_prod [post_simps]: "post (case p of (x, y) \<Rightarrow> f x y) Q = (case p of (x, y) \<Rightarrow> post (f x y) Q)"
  by (cases p) simp

lemma post_option [post_simps]:
  "post (case v of None \<Rightarrow> m | Some y \<Rightarrow> f y) Q = (case v of None \<Rightarrow> post m Q | Some y \<Rightarrow> post (f y) Q)"
  by (cases v) simp_all

lemma post_let [post_simps]: "post (let x = t in f x) Q = (let x = t in post (f x) Q)"
  by (simp add: Let_def)

lemma post_all [post_simps]: "post m (\<lambda>x. \<forall>y. Q x y) = (\<forall>y. post m (\<lambda>x. Q x y))"
  by (cases m) simp_all

lemma post_mono: "post m P \<Longrightarrow> (\<And>x. P x \<Longrightarrow> Q x) \<Longrightarrow> post m Q"
  by (cases m) simp_all

lemma postD: "post m Q \<Longrightarrow> m = Some x \<Longrightarrow> Q x"
  by simp

lemma postI: "(\<And>x. m = Some x \<Longrightarrow> Q x) \<Longrightarrow> post m Q"
  by (cases m) simp_all

lemma post_tripleI: "(\<And>a b c. m = Some (a, b, c) \<Longrightarrow> Q (a, b, c)) \<Longrightarrow> post m Q"
  by (rule postI) auto

lemma post_conj: "post m (\<lambda>x. P x \<and> Q x) = (post m P \<and> post m Q)"
  by (cases m) simp_all

lemma post_True [simp, post_simps]: "post m (\<lambda>_. True)"
  by (cases m) simp_all

text \<open>A pointer that is dereferenced: undefined when it is NULL.\<close>

definition deref :: "'a option \<Rightarrow> 'a option" where
  "deref p = p"

lemma deref_simps [simp]: "deref None = None" "deref (Some x) = Some x"
  by (simp_all add: deref_def)

lemma post_deref [post_simps]: "post (deref p) Q = (\<forall>x. p = Some x \<longrightarrow> Q x)"
  by (cases p) simp_all

lemma returns_Some [simp]: "returns (Some x) Q = Q x"
  by (simp add: returns_def)

lemma returns_None [simp]: "\<not> returns None Q"
  by (simp add: returns_def)

lemma returns_bind: "returns (m \<bind> f) Q = returns m (\<lambda>x. returns (f x) Q)"
  by (cases m) (simp_all add: returns_def)

lemma returns_if: "returns (if b then m else n) Q = (if b then returns m Q else returns n Q)"
  by simp

lemma returns_prod: "returns (case p of (x, y) \<Rightarrow> f x y) Q = (case p of (x, y) \<Rightarrow> returns (f x y) Q)"
  by (cases p) simp

lemma returns_option:
  "returns (case v of None \<Rightarrow> m | Some y \<Rightarrow> f y) Q = (case v of None \<Rightarrow> returns m Q | Some y \<Rightarrow> returns (f y) Q)"
  by (cases v) simp_all

lemma returns_deref: "returns (deref p) Q = (\<exists>x. p = Some x \<and> Q x)"
  by (cases p) simp_all

lemma returns_mono: "returns m P \<Longrightarrow> (\<And>x. P x \<Longrightarrow> Q x) \<Longrightarrow> returns m Q"
  by (cases m) simp_all

lemma returns_iff: "returns m Q \<longleftrightarrow> (\<exists>x. m = Some x \<and> Q x)"
  by (cases m) simp_all

lemma returns_postI: "m \<noteq> None \<Longrightarrow> post m Q \<Longrightarrow> returns m Q"
  by (cases m) simp_all

lemma returns_post: "returns m Q \<Longrightarrow> post m Q"
  by (cases m) simp_all

lemma returnsE: "returns m Q \<Longrightarrow> (\<And>x. m = Some x \<Longrightarrow> Q x \<Longrightarrow> P) \<Longrightarrow> P"
  by (cases m) simp_all

section \<open>Array reads\<close>

text \<open>A read of \<open>a[i]\<close>: undefined outside the array.\<close>

definition arr :: "'a list \<Rightarrow> nat \<Rightarrow> 'a option" where
  "arr xs i = (if i < length xs then Some (xs ! i) else None)"

lemma arr_in [simp]: "i < length xs \<Longrightarrow> arr xs i = Some (xs ! i)"
  by (simp add: arr_def)

lemma arr_out [simp]: "length xs \<le> i \<Longrightarrow> arr xs i = None"
  by (simp add: arr_def)

text \<open>
  A C array of \<open>n\<close> pointers that was zeroed before its first entries were filled: the entries
  after the filled ones are NULL.
\<close>

definition zero_filled :: "nat \<Rightarrow> 'a list \<Rightarrow> 'a option list" where
  "zero_filled n xs = map Some (take n xs) @ replicate (n - length xs) None"

lemma length_zero_filled [simp]: "length (zero_filled n xs) = n"
  by (simp add: zero_filled_def)

lemma zero_filled_in [simp]: "i < length xs \<Longrightarrow> i < n \<Longrightarrow> zero_filled n xs ! i = Some (xs ! i)"
  by (simp add: zero_filled_def nth_append)

lemma zero_filled_out [simp]: "length xs \<le> i \<Longrightarrow> i < n \<Longrightarrow> zero_filled n xs ! i = None"
  by (auto simp: zero_filled_def nth_append)

text \<open>
  Memory whose bytes are \<open>None\<close> until they are written, and a copy of data to a position of it,
  which is undefined when it would leave the memory.
\<close>

definition write_at :: "nat \<Rightarrow> 'a list \<Rightarrow> 'a option list \<Rightarrow> 'a option list option" where
  "write_at off d m =
     (if off + length d \<le> length m then Some (take off m @ map Some d @ drop (off + length d) m) else None)"

lemma write_at_length: "write_at off d m = Some m' \<Longrightarrow> length m' = length m"
  by (auto simp: write_at_def split: if_splits)

lemma write_at_defined: "write_at off d m \<noteq> None \<longleftrightarrow> off + length d \<le> length m"
  by (simp add: write_at_def)

section \<open>C integers\<close>

text \<open>Conversion to a 32-bit signed integer (two's complement), and to a 64-bit one.\<close>

definition to_int32 :: "int \<Rightarrow> int" where
  "to_int32 x = (x + 2 ^ 31) mod 2 ^ 32 - 2 ^ 31"

definition to_int64 :: "int \<Rightarrow> int" where
  "to_int64 x = (x + 2 ^ 63) mod 2 ^ 64 - 2 ^ 63"

lemma to_int32_id: "- (2 ^ 31) \<le> x \<Longrightarrow> x < 2 ^ 31 \<Longrightarrow> to_int32 x = x"
  by (simp add: to_int32_def)

lemma to_int32_range: "- (2 ^ 31) \<le> to_int32 x" "to_int32 x < 2 ^ 31"
  by (simp_all add: to_int32_def)

text \<open>A signed 32-bit addition: undefined when it overflows.\<close>

definition add32 :: "int \<Rightarrow> int \<Rightarrow> int option" where
  "add32 a b = (if - (2 ^ 31) \<le> a + b \<and> a + b < 2 ^ 31 then Some (a + b) else None)"

lemma post_add32 [post_simps]: "post (add32 a b) Q = (- (2 ^ 31) \<le> a + b \<and> a + b < 2 ^ 31 \<longrightarrow> Q (a + b))"
  by (auto simp: add32_def)

text \<open>Division of C rounds towards zero.\<close>

definition c_div :: "int \<Rightarrow> int \<Rightarrow> int" where
  "c_div a b = sgn a * sgn b * (\<bar>a\<bar> div \<bar>b\<bar>)"

definition c_mod :: "int \<Rightarrow> int \<Rightarrow> int" where
  "c_mod a b = a - b * c_div a b"

lemma c_div_nonneg: "0 \<le> a \<Longrightarrow> 0 < b \<Longrightarrow> c_div a b = a div b"
  by (cases "a = 0") (simp_all add: c_div_def)

lemma c_mod_zero_iff: "b \<noteq> 0 \<Longrightarrow> c_mod a b = 0 \<longleftrightarrow> b dvd a"
proof
  assume "c_mod a b = 0"
  then have "a = b * c_div a b" by (simp add: c_mod_def)
  then show "b dvd a" by (metis dvd_triv_left)
next
  assume b: "b \<noteq> 0" and "b dvd a"
  then obtain k where a: "a = b * k" by (auto elim: dvdE)
  have "sgn b * sgn b = 1" using b by (simp add: sgn_if)
  then have "c_div a b = sgn k * (\<bar>b\<bar> * \<bar>k\<bar> div \<bar>b\<bar>)"
    by (simp add: a c_div_def sgn_mult abs_mult mult.assoc mult.left_commute [of "sgn b"])
  also have "\<dots> = k" using b by (simp add: sgn_mult_abs)
  finally have "c_div a b = k" .
  then show "c_mod a b = 0" by (simp add: c_mod_def a)
qed

section \<open>Tallies\<close>

definition tally :: "('e \<Rightarrow> int) \<Rightarrow> 'e list \<Rightarrow> int" where
  "tally f h = sum_list (map f h)"

lemma tally_Nil [simp]: "tally f [] = 0"
  by (simp add: tally_def)

lemma tally_Cons [simp]: "tally f (x # xs) = f x + tally f xs"
  by (simp add: tally_def)

lemma tally_append [simp]: "tally f (xs @ ys) = tally f xs + tally f ys"
  by (simp add: tally_def)

section \<open>Lists\<close>

lemma count_list_distinct: "distinct xs \<Longrightarrow> count_list xs x = (if x \<in> set xs then 1 else 0)"
  by (induction xs) auto

end
