(* ===== verification/CString.thy ===== *)
theory CString
  imports Prelude "HOL-Library.Char_ord"
begin

text \<open>
  The part of the C standard library the modules use on strings: \<open>strcasecmp\<close>,
  \<open>strchr\<close>, \<open>strtoul\<close> in base 10, \<open>atoi\<close>, \<open>strcat\<close> into a buffer of
  known capacity, and decimal printing as \<open>printf\<close> does it. A C string is a list of
  characters without the terminating NUL; a \<open>char *\<close> that may be NULL is an option.
\<close>

definition c_isspace :: "char \<Rightarrow> bool" where
  "c_isspace c \<longleftrightarrow> of_char c = (32::nat) \<or> (9 \<le> (of_char c :: nat) \<and> (of_char c :: nat) \<le> 13)"

definition c_isdigit :: "char \<Rightarrow> bool" where
  "c_isdigit c \<longleftrightarrow> 48 \<le> (of_char c :: nat) \<and> (of_char c :: nat) \<le> 57"

definition c_digit :: "char \<Rightarrow> nat" where
  "c_digit c = of_char c - 48"

definition c_tolower :: "char \<Rightarrow> char" where
  "c_tolower c = (if 65 \<le> (of_char c :: nat) \<and> (of_char c :: nat) \<le> 90
                  then char_of ((of_char c :: nat) + 32) else c)"

text \<open>\<open>strcasecmp(a, b) == 0\<close> and \<open>strcmp(a, b) == 0\<close>.\<close>

definition strcaseeq :: "string \<Rightarrow> string \<Rightarrow> bool" where
  "strcaseeq a b \<longleftrightarrow> map c_tolower a = map c_tolower b"

text \<open>\<open>strchr(s, c)\<close>: the terminating NUL counts as part of the string.\<close>

definition strchr_found :: "string \<Rightarrow> char \<Rightarrow> bool" where
  "strchr_found s c \<longleftrightarrow> c \<in> set s \<or> of_char c = (0::nat)"

text \<open>\<open>if ((val = strchr(var, c))) *val++ = 0;\<close>: the text before the first \<open>c\<close> and after it.\<close>

fun cut_at :: "char \<Rightarrow> string \<Rightarrow> string \<times> string option" where
  "cut_at c [] = ([], None)"
| "cut_at c (x # xs) = (if x = c then ([], Some xs)
     else (let (a, b) = cut_at c xs in (x # a, b)))"

section \<open>Numbers\<close>

fun digits_val :: "nat \<Rightarrow> string \<Rightarrow> nat \<times> string" where
  "digits_val acc [] = (acc, [])"
| "digits_val acc (c # cs) = (if c_isdigit c then digits_val (10 * acc + c_digit c) cs else (acc, c # cs))"

definition ULONG_MAX :: nat where "ULONG_MAX = 2 ^ 64 - 1"

text \<open>
  \<open>strtoul(s, &end, 10)\<close>: skips white space and one sign; without a digit the result is 0
  and \<open>end\<close> is \<open>s\<close>; a value above \<open>ULONG_MAX\<close> saturates; a minus sign negates in
  the unsigned type.
\<close>

definition split_sign :: "string \<Rightarrow> bool \<times> string" where
  "split_sign s = (case s of [] \<Rightarrow> (False, [])
     | c # cs \<Rightarrow> if c = CHR ''-'' then (True, cs) else if c = CHR ''+'' then (False, cs) else (False, c # cs))"

definition starts_digit :: "string \<Rightarrow> bool" where
  "starts_digit s = (case s of [] \<Rightarrow> False | c # _ \<Rightarrow> c_isdigit c)"

definition strtoul10 :: "string \<Rightarrow> nat \<times> string" where
  "strtoul10 s = (let (neg, t) = split_sign (dropWhile c_isspace s) in
     if \<not> starts_digit t then (0, s)
     else let (v, rest) = digits_val 0 t in
       (if ULONG_MAX < v then ULONG_MAX
        else if neg then (2 ^ 64 - v) mod 2 ^ 64 else v, rest))"

text \<open>
  \<open>atoi(s)\<close> as glibc computes it: \<open>(int) strtol(s, NULL, 10)\<close>, where \<open>strtol\<close>
  saturates at the bounds of a 64-bit long.
\<close>

definition atoi :: "string \<Rightarrow> int" where
  "atoi s = (let (neg, t) = split_sign (dropWhile c_isspace s);
                 v = int (fst (digits_val 0 t));
                 l = (if neg then max (- (2 ^ 63)) (- v) else min (2 ^ 63 - 1) v)
             in to_int32 l)"

section \<open>Printing\<close>

definition digit_char :: "nat \<Rightarrow> char" where
  "digit_char d = char_of (48 + d)"

fun show_nat :: "nat \<Rightarrow> string" where
  "show_nat n = (if n < 10 then [digit_char n] else show_nat (n div 10) @ [digit_char (n mod 10)])"

declare show_nat.simps [simp del]

definition show_int :: "int \<Rightarrow> string" where
  "show_int i = (if i < 0 then CHR ''-'' # show_nat (nat (- i)) else show_nat (nat i))"

text \<open>
  \<open>snprintf(buf, n, ...)\<close> of a text: the buffer holds at most \<open>n - 1\<close> characters of it,
  the result is the length the text wanted.
\<close>

definition snprintf_buf :: "nat \<Rightarrow> string \<Rightarrow> string" where
  "snprintf_buf n s = take (n - 1) s"

text \<open>
  \<open>strcat(dst, src)\<close> where \<open>dst\<close> lies in a block of \<open>cap\<close> bytes: writing past the
  block is undefined.
\<close>

definition strcat_into :: "nat \<Rightarrow> string \<Rightarrow> string \<Rightarrow> string option" where
  "strcat_into cap dst src = (if length dst + length src + 1 \<le> cap then Some (dst @ src) else None)"

section \<open>Lemmas\<close>

lemma strcaseeq_refl [simp]: "strcaseeq a a"
  by (simp add: strcaseeq_def)

lemma strcaseeq_sym: "strcaseeq a b = strcaseeq b a"
  by (auto simp: strcaseeq_def)

lemma of_char_digit_char: "d < 10 \<Longrightarrow> of_char (digit_char d) = (48 + d :: nat)"
  by (simp add: digit_char_def)

lemma isdigit_digit_char [simp]: "d < 10 \<Longrightarrow> c_isdigit (digit_char d)"
  by (simp add: c_isdigit_def of_char_digit_char)

lemma c_digit_digit_char [simp]: "d < 10 \<Longrightarrow> c_digit (digit_char d) = d"
  by (simp add: c_digit_def of_char_digit_char)

lemma isspace_digit_char [simp]: "d < 10 \<Longrightarrow> \<not> c_isspace (digit_char d)"
  by (simp add: c_isspace_def of_char_digit_char)

lemma show_nat_nonempty: "show_nat n \<noteq> []"
  by (subst show_nat.simps) simp

lemma show_nat_digits: "c \<in> set (show_nat n) \<Longrightarrow> \<exists>d<10. c = digit_char d"
proof (induction n rule: show_nat.induct)
  case (1 n)
  then show ?case
    by (cases "n < 10") (auto simp: show_nat.simps [of n] intro: exI [of _ "n mod 10"])
qed

lemma digits_val_append:
  "(\<forall>c\<in>set xs. c_isdigit c) \<Longrightarrow> digits_val acc (xs @ ys) = digits_val (fst (digits_val acc xs)) ys"
  by (induction acc xs rule: digits_val.induct) auto

lemma digits_val_show_nat: "digits_val 0 (show_nat n) = (n, [])"
proof (induction n rule: show_nat.induct)
  case (1 n)
  show ?case
  proof (cases "n < 10")
    case True
    then show ?thesis by (simp add: show_nat.simps [of n])
  next
    case False
    then have "\<forall>c\<in>set (show_nat (n div 10)). c_isdigit c"
      using show_nat_digits isdigit_digit_char by blast
    with False 1 show ?thesis
      by (simp add: show_nat.simps [of n] digits_val_append)
  qed
qed

lemma show_nat_hd:
  obtains c cs where "show_nat n = c # cs" "c_isdigit c" "\<not> c_isspace c" "c \<noteq> CHR ''-''" "c \<noteq> CHR ''+''"
proof -
  obtain c cs where s: "show_nat n = c # cs"
    using show_nat_nonempty [of n] by (cases "show_nat n") auto
  then obtain d where d: "d < 10" "c = digit_char d"
    using show_nat_digits [of c n] by auto
  then have "of_char c = (48 + d :: nat)" by (simp add: of_char_digit_char)
  then have "c \<noteq> CHR ''-''" "c \<noteq> CHR ''+''" by auto
  with s d show ?thesis using that by simp
qed

text \<open>Printing and parsing a number that fits an unsigned long gives it back.\<close>

lemma strtoul10_show_nat: "n \<le> ULONG_MAX \<Longrightarrow> strtoul10 (show_nat n) = (n, [])"
proof -
  assume n: "n \<le> ULONG_MAX"
  obtain c cs where s: "show_nat n = c # cs" "c_isdigit c" "\<not> c_isspace c" "c \<noteq> CHR ''-''" "c \<noteq> CHR ''+''"
    by (rule show_nat_hd)
  then have "split_sign (dropWhile c_isspace (show_nat n)) = (False, show_nat n)"
    by (simp add: split_sign_def)
  moreover have "starts_digit (show_nat n)" using s by (simp add: starts_digit_def)
  ultimately show ?thesis using n by (simp add: strtoul10_def digits_val_show_nat)
qed

lemma atoi_show_nat: "n < 2 ^ 31 \<Longrightarrow> atoi (show_nat n) = int n"
proof -
  assume n: "n < 2 ^ 31"
  obtain c cs where s: "show_nat n = c # cs" "c_isdigit c" "\<not> c_isspace c" "c \<noteq> CHR ''-''" "c \<noteq> CHR ''+''"
    by (rule show_nat_hd)
  then have "split_sign (dropWhile c_isspace (show_nat n)) = (False, show_nat n)"
    by (simp add: split_sign_def)
  with n show ?thesis
    by (simp add: atoi_def digits_val_show_nat to_int32_id)
qed

lemma atoi_range: "- (2 ^ 31) \<le> atoi s" "atoi s < 2 ^ 31"
  by (auto simp: atoi_def to_int32_range to_int32_range [simplified] Let_def split: prod.split)

lemma cut_at_join: "cut_at c s = (a, Some b) \<Longrightarrow> s = a @ c # b \<and> c \<notin> set a"
  by (induction s arbitrary: a b) (auto split: if_splits prod.splits)

lemma cut_at_none: "cut_at c s = (a, None) \<Longrightarrow> a = s \<and> c \<notin> set s"
  by (induction s arbitrary: a) (auto split: if_splits prod.splits)

end
