(* ===== verification/Switch.thy ===== *)
theory Switch
  imports CString
begin

text \<open>
  The FreeSWITCH core as the modules see it. Its code is not part of the repository, so it is a
  parameter: an \<open>env\<close> holds, for every call a module makes, the answer the core gives after
  any history of earlier calls and answers. A run appends each call with its answer to the trace,
  and an environment may answer as a function of the whole trace. The behaviour the modules rely on
  is stated as named predicates on environments, and only where a theorem needs it.

  \<open>'x\<close> is the type of the calls a module makes into its own glue library.
\<close>

section \<open>Values\<close>

text \<open>The status codes the modules name; the core may return others.\<close>

datatype switch_status =
    SWITCH_STATUS_SUCCESS | SWITCH_STATUS_FALSE | SWITCH_STATUS_TERM | SWITCH_STATUS_MEMERR
  | SWITCH_STATUS_NOOP | SWITCH_STATUS_BREAK | SWITCH_STATUS_MORE_DATA | SWITCH_STATUS_NOTFOUND
  | SWITCH_STATUS_UNLOAD | SWITCH_STATUS_IGNORE | SWITCH_STATUS_NOT_INITALIZED
  | SWITCH_STATUS_OTHER nat

text \<open>The session a call is about: the caller's, the peer an originate created, the one an API command located.\<close>

datatype leg = Caller | Peer | Located

datatype cause = NORMAL_CLEARING | NORMAL_CIRCUIT_CONGESTION | DESTINATION_OUT_OF_ORDER

datatype abc_type = ABC_INIT | ABC_CLOSE | ABC_READ | ABC_WRITE | ABC_READ_REPLACE | ABC_WRITE_REPLACE | ABC_OTHER

text \<open>Media bug flags.\<close>

datatype bug_flag = SMBF_READ_STREAM | SMBF_WRITE_STREAM | SMBF_STEREO | SMBF_READ_PING
  | SMBF_READ_REPLACE | SMBF_WRITE_REPLACE

section \<open>Calls\<close>

datatype sess_op =
    Locate "string option"             \<comment> \<open>switch_core_session_locate, takes the read lock\<close>
  | Rwunlock                           \<comment> \<open>switch_core_session_rwunlock\<close>
  | Strdup "string option"             \<comment> \<open>switch_core_session_strdup: is the copy not NULL?\<close>
  | Alloc                              \<comment> \<open>switch_core_session_alloc: is the block not NULL?\<close>
  | Get_codec string                   \<comment> \<open>the codec pointers of the session\<close>
  | Get_read_impl

datatype chan_op =
    Test_ready bool bool               \<comment> \<open>switch_channel_test_ready(check_ready, check_media)\<close>
  | Ready                              \<comment> \<open>switch_channel_ready\<close>
  | Answer | Pre_answer
  | Get_variable string | Set_variable string string
  | Set_flag string | Test_flag string
  | Handle_cause cause | Hangup cause
  | Get_private string | Set_private string "nat option"
  | Is_outbound                        \<comment> \<open>switch_channel_direction == OUTBOUND\<close>
  | Is_inbound
  | State_hangup                       \<comment> \<open>switch_channel_get_state >= CS_HANGUP\<close>
  | Execute_on string

datatype event_op =
    Create string                      \<comment> \<open>switch_event_create\<close>
  | Create_subclass string
  | Set_channel_data
  | Add_header string string
  | Add_body string
  | Dup | Destroy | Queue | Fire | Fire_copy
  | Reserve_subclass string | Free_subclass string
  | Bind string | Unbind string

datatype bug_op =
    Bug_add string "bug_flag list"     \<comment> \<open>switch_core_media_bug_add\<close>
  | Bug_handle                         \<comment> \<open>the bug pointer switch_core_media_bug_add stored\<close>
  | Bug_remove
  | Bug_read

datatype sync_op =
    Lock string | Unlock string | Mutex_init string | Mutex_destroy string
  | Cond_create string | Cond_signal string | Cond_destroy string
  | Thread_create nat | Thread_join nat

datatype ivr_op =
    Originate string int               \<comment> \<open>switch_ivr_originate of a dial string with a timeout\<close>
  | Originate_cause                    \<comment> \<open>the cause code that originate stored\<close>
  | Execute_application string string
  | Sleep int
  | Signal_bridge
  | Threaded_bridge bool "string option" "string option"
  | Play_file string

datatype 'x call =
    Sess leg sess_op | Chan leg chan_op | Event event_op | Bug bug_op | Sync sync_op | Ivr ivr_op
  | Stream_write string | Log "string option list" | Time_now | Yield int | Mem string
  | Glue 'x

datatype answer = ADone | ABool bool | AStatus switch_status | AStr "string option" | AInt int | APtr "nat option"

type_synonym 'x trace = "('x call \<times> answer) list"

section \<open>Environments\<close>

record 'x env =
  ans_bool :: "'x trace \<Rightarrow> 'x call \<Rightarrow> bool"
  ans_status :: "'x trace \<Rightarrow> 'x call \<Rightarrow> switch_status"
  ans_str :: "'x trace \<Rightarrow> 'x call \<Rightarrow> string option"
  ans_int :: "'x trace \<Rightarrow> 'x call \<Rightarrow> int"
  ans_ptr :: "'x trace \<Rightarrow> 'x call \<Rightarrow> nat option"
  zstr :: "string option \<Rightarrow> bool"                            \<comment> \<open>zstr, switch_strlen_zero\<close>
  separate :: "string \<Rightarrow> char \<Rightarrow> nat \<Rightarrow> string list"       \<comment> \<open>switch_separate_string\<close>
  switch_true :: "string option \<Rightarrow> bool"
  copy_string :: "string \<Rightarrow> nat \<Rightarrow> string"                 \<comment> \<open>switch_copy_string\<close>
  sprintf :: "string \<Rightarrow> string option list \<Rightarrow> string"        \<comment> \<open>switch_core_session_sprintf\<close>
  usable_size :: "nat \<Rightarrow> nat"                               \<comment> \<open>usable bytes of a heap block of that size\<close>

text \<open>A call and its answer are appended to the trace.\<close>

definition ask_bool :: "('x, 'm) env_scheme \<Rightarrow> 'x call \<Rightarrow> 'x trace \<Rightarrow> (bool \<times> 'x trace) option" where
  "ask_bool E c h = Some (ans_bool E h c, h @ [(c, ABool (ans_bool E h c))])"

definition ask_status :: "('x, 'm) env_scheme \<Rightarrow> 'x call \<Rightarrow> 'x trace \<Rightarrow> (switch_status \<times> 'x trace) option" where
  "ask_status E c h = Some (ans_status E h c, h @ [(c, AStatus (ans_status E h c))])"

definition ask_str :: "('x, 'm) env_scheme \<Rightarrow> 'x call \<Rightarrow> 'x trace \<Rightarrow> (string option \<times> 'x trace) option" where
  "ask_str E c h = Some (ans_str E h c, h @ [(c, AStr (ans_str E h c))])"

definition ask_int :: "('x, 'm) env_scheme \<Rightarrow> 'x call \<Rightarrow> 'x trace \<Rightarrow> (int \<times> 'x trace) option" where
  "ask_int E c h = Some (ans_int E h c, h @ [(c, AInt (ans_int E h c))])"

definition ask_ptr :: "('x, 'm) env_scheme \<Rightarrow> 'x call \<Rightarrow> 'x trace \<Rightarrow> (nat option \<times> 'x trace) option" where
  "ask_ptr E c h = Some (ans_ptr E h c, h @ [(c, APtr (ans_ptr E h c))])"

definition exec :: "'x call \<Rightarrow> 'x trace \<Rightarrow> 'x trace option" where
  "exec c h = Some (h @ [(c, ADone)])"

lemmas ask_defs = ask_bool_def ask_status_def ask_str_def ask_int_def ask_ptr_def exec_def

lemma post_ask_bool [post_simps]:
  "post (ask_bool E c h) Q = Q (ans_bool E h c, h @ [(c, ABool (ans_bool E h c))])"
  by (simp add: ask_defs)

lemma post_ask_status [post_simps]:
  "post (ask_status E c h) Q = Q (ans_status E h c, h @ [(c, AStatus (ans_status E h c))])"
  by (simp add: ask_defs)

lemma post_ask_str [post_simps]:
  "post (ask_str E c h) Q = Q (ans_str E h c, h @ [(c, AStr (ans_str E h c))])"
  by (simp add: ask_defs)

lemma post_ask_int [post_simps]:
  "post (ask_int E c h) Q = Q (ans_int E h c, h @ [(c, AInt (ans_int E h c))])"
  by (simp add: ask_defs)

lemma post_ask_ptr [post_simps]:
  "post (ask_ptr E c h) Q = Q (ans_ptr E h c, h @ [(c, APtr (ans_ptr E h c))])"
  by (simp add: ask_defs)

lemma post_exec [post_simps]: "post (exec c h) Q = Q (h @ [(c, ADone)])"
  by (simp add: ask_defs)

text \<open>
  Proof rules that forget which environment gave the answer: what holds for every answer holds
  for the environment's. They keep the goals of long runs small.
\<close>

named_theorems post_intros "rules for a run, one call at a time"

lemma post_ask_boolI [post_intros]: "(\<And>b. Q (b, h @ [(c, ABool b)])) \<Longrightarrow> post (ask_bool E c h) Q"
  by (simp add: ask_defs)

lemma post_ask_statusI [post_intros]: "(\<And>st. Q (st, h @ [(c, AStatus st)])) \<Longrightarrow> post (ask_status E c h) Q"
  by (simp add: ask_defs)

lemma post_ask_strI [post_intros]: "(\<And>s. Q (s, h @ [(c, AStr s)])) \<Longrightarrow> post (ask_str E c h) Q"
  by (simp add: ask_defs)

lemma post_ask_intI [post_intros]: "(\<And>i. Q (i, h @ [(c, AInt i)])) \<Longrightarrow> post (ask_int E c h) Q"
  by (simp add: ask_defs)

lemma post_ask_ptrI [post_intros]: "(\<And>p. Q (p, h @ [(c, APtr p)])) \<Longrightarrow> post (ask_ptr E c h) Q"
  by (simp add: ask_defs)

lemma post_execI [post_intros]: "Q (h @ [(c, ADone)]) \<Longrightarrow> post (exec c h) Q"
  by (simp add: ask_defs)

text \<open>The same rules for runs that are shown to return.\<close>

named_theorems returns_intros "rules for a run that returns, one call at a time"

lemma returns_ask_boolI [returns_intros]: "(\<And>b. Q (b, h @ [(c, ABool b)])) \<Longrightarrow> returns (ask_bool E c h) Q"
  by (simp add: ask_defs)

lemma returns_ask_statusI [returns_intros]: "(\<And>st. Q (st, h @ [(c, AStatus st)])) \<Longrightarrow> returns (ask_status E c h) Q"
  by (simp add: ask_defs)

lemma returns_ask_strI [returns_intros]: "(\<And>s. Q (s, h @ [(c, AStr s)])) \<Longrightarrow> returns (ask_str E c h) Q"
  by (simp add: ask_defs)

lemma returns_ask_intI [returns_intros]: "(\<And>i. Q (i, h @ [(c, AInt i)])) \<Longrightarrow> returns (ask_int E c h) Q"
  by (simp add: ask_defs)

lemma returns_ask_ptrI [returns_intros]: "(\<And>p. Q (p, h @ [(c, APtr p)])) \<Longrightarrow> returns (ask_ptr E c h) Q"
  by (simp add: ask_defs)

lemma returns_execI [returns_intros]: "Q (h @ [(c, ADone)]) \<Longrightarrow> returns (exec c h) Q"
  by (simp add: ask_defs)

lemmas returns_simps = returns_bind returns_if returns_prod returns_option returns_deref Let_def

lemmas run_simps = post_bind post_if post_prod post_option post_deref Let_def

section \<open>Documented behaviour of the core\<close>

text \<open>\<open>zstr\<close> tests for NULL or the empty string.\<close>

definition zstr_ok :: "('x, 'm) env_scheme \<Rightarrow> bool" where
  "zstr_ok E \<longleftrightarrow> (\<forall>s. zstr E s \<longleftrightarrow> s = None \<or> s = Some [])"

text \<open>\<open>switch_separate_string\<close> fills at most as many entries as the array has.\<close>

definition separate_ok :: "('x, 'm) env_scheme \<Rightarrow> bool" where
  "separate_ok E \<longleftrightarrow> (\<forall>s d n. length (separate E s d n) \<le> n)"

text \<open>A heap block is at least as large as was asked for.\<close>

definition alloc_ok :: "('x, 'm) env_scheme \<Rightarrow> bool" where
  "alloc_ok E \<longleftrightarrow> (\<forall>n. n \<le> usable_size E n)"

text \<open>
  The private data of a channel under a key is what the last \<open>switch_channel_set_private\<close> of
  that key stored, NULL before the first.
\<close>

definition store_private :: "leg \<Rightarrow> string \<Rightarrow> nat option \<Rightarrow> 'x call \<times> answer \<Rightarrow> nat option" where
  "store_private l k v e = (case fst e of
     Chan l' op \<Rightarrow> (case op of Set_private k' w \<Rightarrow> if l' = l \<and> k' = k then w else v | _ \<Rightarrow> v)
   | _ \<Rightarrow> v)"

definition last_private :: "leg \<Rightarrow> string \<Rightarrow> 'x trace \<Rightarrow> nat option" where
  "last_private l k h = foldl (store_private l k) None h"

definition private_ok :: "('x, 'm) env_scheme \<Rightarrow> bool" where
  "private_ok E \<longleftrightarrow> (\<forall>h l k. ans_ptr E h (Chan l (Get_private k)) = last_private l k h)"

lemma last_private_append: "last_private l k (h @ t) = foldl (store_private l k) (last_private l k h) t"
  by (simp add: last_private_def)

lemma last_private_set [simp]: "last_private l k (h @ [(Chan l (Set_private k v), a)]) = v"
  by (simp add: last_private_def store_private_def)

section \<open>A sample environment\<close>

text \<open>
  A concrete core on which hypotheses are seen to hold: every call succeeds, strings are \<open>''G722''\<close>,
  integers 8000 and pointers set; strings are split at the delimiter and blocks have some slack.
\<close>

fun split_on :: "char \<Rightarrow> string \<Rightarrow> string \<Rightarrow> string list" where
  "split_on d acc [] = [rev acc]"
| "split_on d acc (c # s) = (if c = d then rev acc # split_on d [] s else split_on d (c # acc) s)"

definition sample_env :: "'x env" where
  "sample_env = \<lparr> ans_bool = (\<lambda>h c. True), ans_status = (\<lambda>h c. SWITCH_STATUS_SUCCESS),
     ans_str = (\<lambda>h c. Some ''G722''), ans_int = (\<lambda>h c. 8000), ans_ptr = (\<lambda>h c. Some 1),
     zstr = (\<lambda>s. s = None \<or> s = Some []), separate = (\<lambda>s d n. take n (split_on d [] s)), switch_true = (\<lambda>s. False),
     copy_string = (\<lambda>s n. take (n - 1) s), sprintf = (\<lambda>f args. f), usable_size = (\<lambda>n. n + 16) \<rparr>"

lemma sample_env_ok:
  "zstr_ok sample_env" "separate_ok sample_env" "alloc_ok sample_env"
  by (simp_all add: sample_env_def zstr_ok_def separate_ok_def alloc_ok_def)

lemma sample_answers:
  "ans_bool sample_env h c" "ans_status sample_env h c = SWITCH_STATUS_SUCCESS" "ans_str sample_env h c = Some ''G722''"
  "ans_int sample_env h c = 8000" "ans_ptr sample_env h c = Some 1"
  "separate sample_env s d n = take n (split_on d [] s)"
  by (simp_all add: sample_env_def)

end
