(* ===== verification/Bridge.thy ===== *)
theory Bridge
  imports Switch
begin

text \<open>
  What the three dial modules share (each has its own copy of the code): the DTMF handler of a
  bridge, the bridging of caller and peer, the copying of strings, and the tally of the read lock
  that a successful originate leaves on the peer session. The locale \<open>rotation\<close> is the contract
  of the step that moves to the next number or caller id after a failed attempt.
\<close>

type_synonym dial_env = "unit env"
type_synonym dial_trace = "unit trace"

section \<open>DTMF during a bridge\<close>

text \<open>
  \<open>buf\<close> is the key string the module passed to the bridge, \<open>input\<close> the DTMF event; both may be
  NULL. The second argument tells whether the input type is DTMF.
\<close>

definition bridge_on_dtmf :: "char option \<Rightarrow> bool \<Rightarrow> string option \<Rightarrow> switch_status" where
  "bridge_on_dtmf input is_dtmf buf =
     (case (buf, input) of
        (Some str, Some digit) \<Rightarrow>
          if is_dtmf \<and> strchr_found str digit then SWITCH_STATUS_BREAK else SWITCH_STATUS_SUCCESS
      | _ \<Rightarrow> SWITCH_STATUS_SUCCESS)"

lemma bridge_on_dtmf_break:
  "bridge_on_dtmf input is_dtmf buf = SWITCH_STATUS_BREAK \<longleftrightarrow>
     is_dtmf \<and> (\<exists>str digit. buf = Some str \<and> input = Some digit \<and> (digit \<in> set str \<or> of_char digit = (0::nat)))"
  by (auto simp: bridge_on_dtmf_def strchr_found_def split: option.splits)

section \<open>Copies\<close>

text \<open>\<open>switch_core_session_strdup\<close>: a copy, or NULL.\<close>

definition session_strdup :: "dial_env \<Rightarrow> string option \<Rightarrow> dial_trace \<Rightarrow> (string option \<times> dial_trace) option" where
  "session_strdup E p h = do {
     (ok, h) \<leftarrow> ask_bool E (Sess Caller (Strdup p)) h;
     Some (if ok then p else None, h)
   }"

text \<open>\<open>switch_safe_strdup\<close>: NULL for NULL, else a heap copy or NULL.\<close>

definition safe_strdup :: "dial_env \<Rightarrow> string option \<Rightarrow> dial_trace \<Rightarrow> (string option \<times> dial_trace) option" where
  "safe_strdup E p h = (case p of
     None \<Rightarrow> Some (None, h)
   | Some s \<Rightarrow> do { (ok, h) \<leftarrow> ask_bool E (Mem ''strdup'') h; Some (if ok then Some s else None, h) })"

text \<open>
  \<open>char *dtmfInfo = switch_safe_strdup(number); strcat(dtmfInfo, "#@400");\<close>: the block holds
  what the allocator gives for the length of the number and its NUL.
\<close>

definition dtmf_info :: "dial_env \<Rightarrow> string option \<Rightarrow> dial_trace \<Rightarrow> (string \<times> dial_trace) option" where
  "dtmf_info E number h = do {
     (d, h) \<leftarrow> safe_strdup E number h;
     s \<leftarrow> deref d;
     s \<leftarrow> strcat_into (usable_size E (length s + 1)) s ''#@400'';
     Some (s, h)
   }"

text \<open>\<open>argv[i]\<close> read as a string.\<close>

definition deref_entry :: "string option list \<Rightarrow> nat \<Rightarrow> string option" where
  "deref_entry argv i = arr argv i \<bind> deref"

section \<open>Bridging\<close>

definition BYPASS_MEDIA_AFTER_BRIDGE :: string where "BYPASS_MEDIA_AFTER_BRIDGE = ''bypass_media_after_bridge''"

definition terminate_key :: "dial_env \<Rightarrow> leg \<Rightarrow> dial_trace \<Rightarrow> (string option \<times> dial_trace) option" where
  "terminate_key E l h = ask_str E (Chan l (Get_variable ''bridge_terminate_key'')) h"

text \<open>From the bypass test to the bridge call.\<close>

definition bridge_legs :: "dial_env \<Rightarrow> dial_trace \<Rightarrow> dial_trace option" where
  "bridge_legs E h = do {
     (a, h) \<leftarrow> ask_str E (Chan Caller (Get_variable BYPASS_MEDIA_AFTER_BRIDGE)) h;
     (bypass, h) \<leftarrow> (if switch_true E a then Some (True, h)
       else do {
         (b, h) \<leftarrow> ask_str E (Chan Peer (Get_variable BYPASS_MEDIA_AFTER_BRIDGE)) h;
         Some (switch_true E b, h) });
     h \<leftarrow> (if bypass then exec (Chan Caller (Set_flag ''CF_BYPASS_MEDIA_AFTER_BRIDGE'')) h else Some h);
     (proxy, h) \<leftarrow> ask_bool E (Chan Caller (Test_flag ''CF_PROXY_MODE'')) h;
     if proxy then exec (Ivr Signal_bridge) h
     else do {
       (a_key, h) \<leftarrow> terminate_key E Caller h;
       (b_key, h) \<leftarrow> terminate_key E Peer h;
       let func = (a_key \<noteq> None \<or> b_key \<noteq> None);
       (a_key, h) \<leftarrow> (if a_key \<noteq> None then session_strdup E a_key h else Some (None, h));
       (b_key, h) \<leftarrow> (if b_key \<noteq> None then session_strdup E b_key h else Some (None, h));
       exec (Ivr (Threaded_bridge func a_key b_key)) h
     }
   }"

section \<open>The read lock of the peer\<close>

text \<open>A successful originate leaves the peer session read-locked; \<open>rwunlock\<close> releases it.\<close>

definition peer_delta :: "'x call \<times> answer \<Rightarrow> int" where
  "peer_delta e = (case fst e of
     Ivr op \<Rightarrow> (case op of Originate d t \<Rightarrow> if snd e = AStatus SWITCH_STATUS_SUCCESS then 1 else 0 | _ \<Rightarrow> 0)
   | Sess l op \<Rightarrow> (if l = Peer \<and> op = Rwunlock then -1 else 0)
   | _ \<Rightarrow> 0)"

lemma peer_delta_simps [simp]:
  "peer_delta (Ivr (Originate d t), AStatus st) = (if st = SWITCH_STATUS_SUCCESS then 1 else 0)"
  "peer_delta (Ivr Originate_cause, a) = 0" "peer_delta (Ivr (Execute_application f g), a) = 0"
  "peer_delta (Ivr (Sleep i), a) = 0" "peer_delta (Ivr Signal_bridge, a) = 0"
  "peer_delta (Ivr (Threaded_bridge b k k'), a) = 0"
  "peer_delta (Sess Peer Rwunlock, a) = -1"
  "peer_delta (Sess Caller so, a) = 0"
  "peer_delta (Chan l co, a) = 0" "peer_delta (Log ss, a) = 0" "peer_delta (Mem t', a) = 0"
  by (simp_all add: peer_delta_def)

definition peer_neutral :: "'x trace \<Rightarrow> 'x trace \<Rightarrow> bool" where
  "peer_neutral h h' \<longleftrightarrow> tally peer_delta h' = tally peer_delta h"

lemma peer_neutral_refl [simp]: "peer_neutral h h"
  by (simp add: peer_neutral_def)

lemma bridge_legs_neutral: "post (bridge_legs E h) (\<lambda>h'. peer_neutral h h')"
  by (auto simp: bridge_legs_def terminate_key_def session_strdup_def run_simps peer_neutral_def intro!: post_intros)

lemma dtmf_info_neutral: "post (dtmf_info E n h) (\<lambda>(s, h'). peer_neutral h h')"
  by (auto simp: dtmf_info_def safe_strdup_def run_simps peer_neutral_def intro!: post_intros split: option.split)

lemma session_strdup_neutral: "post (session_strdup E p h) (\<lambda>(s, h'). peer_neutral h h')"
  by (auto simp: session_strdup_def run_simps peer_neutral_def intro!: post_intros)

lemma safe_strdup_neutral: "post (safe_strdup E p h) (\<lambda>(s, h'). peer_neutral h h')"
  by (auto simp: safe_strdup_def run_simps peer_neutral_def intro!: post_intros split: option.split)

text \<open>Bridging has no undefined behaviour.\<close>

lemma bridge_legs_total: "returns (bridge_legs E h) (\<lambda>_. True)"
  by (auto simp: bridge_legs_def terminate_key_def session_strdup_def returns_simps intro!: returns_intros)

text \<open>
  Appending the five characters is defined when the allocator left that much room behind the number,
  and never with an allocator that gives exactly what was asked for.
\<close>

lemma dtmf_info_defined:
  assumes "length s + 6 \<le> usable_size E (length s + 1)" and "ans_bool E h (Mem ''strdup'')"
  shows "dtmf_info E (Some s) h = Some (s @ ''#@400'', h @ [(Mem ''strdup'', ABool True)])"
  using assms by (simp add: dtmf_info_def safe_strdup_def strcat_into_def ask_defs)

lemma dtmf_info_overflow:
  assumes "usable_size E (length s + 1) < length s + 6"
  shows "dtmf_info E (Some s) h = None"
  using assms by (simp add: dtmf_info_def safe_strdup_def strcat_into_def ask_defs)

section \<open>The numbers dialled\<close>

text \<open>The dial strings a run passed to \<open>switch_ivr_originate\<close>, in order.\<close>

definition dialled_entry :: "'x call \<times> answer \<Rightarrow> string list" where
  "dialled_entry e = (case fst e of Ivr op \<Rightarrow> (case op of Originate d t \<Rightarrow> [d] | _ \<Rightarrow> []) | _ \<Rightarrow> [])"

definition dialled :: "'x trace \<Rightarrow> string list" where
  "dialled h = concat (map dialled_entry h)"

lemma dialled_append [simp]: "dialled (h @ t) = dialled h @ dialled t"
  by (simp add: dialled_def)

lemma dialled_Nil [simp]: "dialled [] = []"
  by (simp add: dialled_def)

lemma dialled_Cons [simp]: "dialled (e # h) = dialled_entry e @ dialled h"
  by (simp add: dialled_def)

lemma dialled_entry_simps [simp]:
  "dialled_entry (Ivr (Originate d t), a) = [d]"
  "dialled_entry (Ivr Originate_cause, a) = []" "dialled_entry (Ivr (Execute_application f g), a) = []"
  "dialled_entry (Ivr (Sleep i), a) = []" "dialled_entry (Ivr Signal_bridge, a) = []"
  "dialled_entry (Ivr (Threaded_bridge b k k'), a) = []"
  "dialled_entry (Sess l so, a) = []" "dialled_entry (Chan l co, a) = []" "dialled_entry (Log ss, a) = []"
  "dialled_entry (Mem t', a) = []"
  by (simp_all add: dialled_entry_def)

section \<open>Rotating through numbers and caller ids\<close>

locale rotation =
  fixes next_pos :: "nat \<Rightarrow> nat \<Rightarrow> nat"
  assumes next_step: "p < n \<Longrightarrow> next_pos n p = (if p = n - 1 then 0 else Suc p)"
begin

lemma next_in_range: "p < n \<Longrightarrow> next_pos n p < n"
  by (auto simp: next_step)

lemma next_mod: "0 < n \<Longrightarrow> next_pos n (k mod n) = Suc k mod n"
  by (auto simp: next_step mod_Suc)

lemma iterate_mod: "0 < n \<Longrightarrow> (next_pos n ^^ k) 0 = k mod n"
  by (induction k) (simp_all add: next_mod)

end

end
