(* ===== verification/Vm.thy ===== *)
theory Vm
  imports Bridge
begin

text \<open>
  \<open>VM/mod_vm.c\<close>: the application \<open>ytel_dialvm\<close>. It dials a voice mail system up to three
  times, sends the mailbox number as DTMF and bridges the caller.
\<close>

section \<open>State\<close>

definition VM_DIAL_STR :: string where
  "VM_DIAL_STR = ''{suppress_cng=true,originate_timeout=4,progress_timeout=4,effective_caller_id_number=%s,origination_caller_id_number=%s,ignore_early_media=true,absolute_codec_string='' @ [CHR 0x27] @ ''PCMU'' @ [CHR 0x27] @ ''}sofia/internal/%s@sbc''"

text \<open>The arrays the loop reads and the counts it compares with.\<close>

record vm_args =
  vm_callers :: "string option list"      \<comment> \<open>callerIdArray, 2 entries\<close>
  vm_dests :: "string option list"        \<comment> \<open>destArray, 10 entries\<close>
  vm_calleridCount :: nat
  vm_destCount :: nat

record vm_vars =
  vm_calleridPos :: nat
  vm_destPos :: nat
  vm_status :: switch_status

definition vm_vars_init :: vm_vars where
  "vm_vars_init = \<lparr> vm_calleridPos = 0, vm_destPos = 0, vm_status = SWITCH_STATUS_FALSE \<rparr>"

section \<open>Dialing\<close>

text \<open>The step after a failed attempt compares with the count itself.\<close>

definition vm_next :: "nat \<Rightarrow> nat \<Rightarrow> nat" where
  "vm_next count pos = (if pos = count then 0 else pos + 1)"

definition vm_attempt :: "dial_env \<Rightarrow> vm_args \<Rightarrow> vm_vars \<Rightarrow> dial_trace \<Rightarrow> (bool \<times> vm_vars \<times> dial_trace) option" where
  "vm_attempt E a s h = do {
     callerid \<leftarrow> arr (vm_callers a) (vm_calleridPos s);
     dest \<leftarrow> arr (vm_dests a) (vm_destPos s);
     let dial_string = sprintf E VM_DIAL_STR [callerid, callerid, dest];
     (ready, h) \<leftarrow> ask_bool E (Chan Caller (Test_ready True False)) h;
     if \<not> ready then Some (True, s, h)
     else do {
       (st, h) \<leftarrow> ask_status E (Ivr (Originate dial_string 20)) h;
       let s = s\<lparr> vm_status := st \<rparr>;
       if st = SWITCH_STATUS_SUCCESS then Some (True, s, h)
       else Some (False, s\<lparr> vm_calleridPos := vm_next (vm_calleridCount a) (vm_calleridPos s),
                            vm_destPos := vm_next (vm_destCount a) (vm_destPos s) \<rparr>, h)
     }
   }"

text \<open>\<open>do { ... } while (--retryCount > 0 && switch_channel_ready(caller_channel));\<close> from \<open>Suc r\<close> retries.\<close>

fun vm_loop :: "dial_env \<Rightarrow> vm_args \<Rightarrow> nat \<Rightarrow> vm_vars \<Rightarrow> dial_trace \<Rightarrow> (vm_vars \<times> dial_trace) option" where
  "vm_loop E a r s h = do {
     (stop, s, h) \<leftarrow> vm_attempt E a s h;
     if stop then Some (s, h)
     else (case r of
       0 \<Rightarrow> Some (s, h)
     | Suc r' \<Rightarrow> do {
         (ready, h) \<leftarrow> ask_bool E (Chan Caller Ready) h;
         if ready then vm_loop E a r' s h else Some (s, h) })
   }"

declare vm_loop.simps [simp del]

section \<open>After the loop\<close>

text \<open>The first component tells whether the function returned, the second is \<open>connectSuccess\<close>.\<close>

definition vm_connect :: "dial_env \<Rightarrow> string option \<Rightarrow> dial_trace \<Rightarrow> (bool \<times> bool \<times> dial_trace) option" where
  "vm_connect E number h = do {
     (dtmfInfo, h) \<leftarrow> dtmf_info E number h;
     h \<leftarrow> exec (Ivr (Execute_application ''playback'' ''silence_stream://2000'')) h;
     h \<leftarrow> exec (Ivr (Execute_application ''send_dtmf'' dtmfInfo)) h;
     h \<leftarrow> exec (Ivr (Sleep 8100)) h;
     (ready, h) \<leftarrow> ask_bool E (Chan Caller Ready) h;
     if \<not> ready then do {
       h \<leftarrow> exec (Chan Peer (Handle_cause NORMAL_CLEARING)) h;
       Some (True, False, h)
     } else do {
       (_, h) \<leftarrow> ask_status E (Chan Caller Answer) h;
       (caller, h) \<leftarrow> ask_bool E (Chan Caller Ready) h;
       (peer, h) \<leftarrow> (if caller then ask_bool E (Chan Peer Ready) h else Some (False, h));
       h \<leftarrow> (if caller \<and> peer then do { h \<leftarrow> bridge_legs E h; exec (Sess Peer Rwunlock) h } else Some h);
       (up, h) \<leftarrow> ask_bool E (Chan Peer (Test_ready True False)) h;
       h \<leftarrow> (if up then exec (Chan Peer (Handle_cause NORMAL_CLEARING)) h else Some h);
       Some (False, caller \<and> peer, h)
     }
   }"

definition vm_finish :: "dial_env \<Rightarrow> string option \<Rightarrow> bool \<Rightarrow> dial_trace \<Rightarrow> dial_trace option" where
  "vm_finish E ringlessonly connectSuccess h = do {
     (ready, h) \<leftarrow> ask_bool E (Chan Caller (Test_ready True False)) h;
     if \<not> ready then Some h
     else if connectSuccess then exec (Chan Caller (Handle_cause NORMAL_CLEARING)) h
     else do {
       r \<leftarrow> deref ringlessonly;
       if strcaseeq r ''1'' then exec (Chan Caller (Handle_cause NORMAL_CIRCUIT_CONGESTION)) h else Some h
     }
   }"

definition dial_vm_app_function :: "dial_env \<Rightarrow> string option \<Rightarrow> dial_trace \<Rightarrow> dial_trace option" where
  "dial_vm_app_function E data h =
     (if zstr E data then Some h
      else do {
        (mydata, h) \<leftarrow> session_strdup E data h;
        case mydata of None \<Rightarrow> Some h
        | Some d \<Rightarrow> do {
            let argv = zero_filled 5 (separate E d CHR '' '' 5);
            (vmsystem, h) \<leftarrow> session_strdup E (argv ! 1) h;
            case vmsystem of None \<Rightarrow> Some h
            | Some v \<Rightarrow> do {
                let dests = separate E v CHR '','' 10;
                let a = \<lparr> vm_callers = [argv ! 0, argv ! 4], vm_dests = zero_filled 10 dests,
                          vm_calleridCount = 2, vm_destCount = length dests \<rparr>;
                (s, h) \<leftarrow> vm_loop E a 2 vm_vars_init h;
                (ready, h) \<leftarrow> ask_bool E (Chan Caller (Test_ready True False)) h;
                (returned, connected, h) \<leftarrow>
                  (if ready \<and> vm_status s = SWITCH_STATUS_SUCCESS then vm_connect E (argv ! 2) h
                   else Some (False, False, h));
                if returned then Some h else vm_finish E (argv ! 3) connected h
              }
          }
      })"

definition mod_vm_shutdown :: switch_status where
  "mod_vm_shutdown = SWITCH_STATUS_UNLOAD"

section \<open>The third attempt\<close>

text \<open>
  The step differs from a rotation only where the position equals the count: it goes one past
  the last entry before it returns to the first.
\<close>

lemma vm_next_past_end: "p < n \<Longrightarrow> vm_next n p = Suc p"
  by (simp add: vm_next_def)

text \<open>Two failed attempts with the caller still there lead to a read of \<open>callerIdArray[2]\<close>.\<close>

definition never_answered :: "dial_env \<Rightarrow> bool" where
  "never_answered E \<longleftrightarrow> (\<forall>h. ans_bool E h (Chan Caller (Test_ready True False)) \<and> ans_bool E h (Chan Caller Ready)) \<and>
     (\<forall>h d t. ans_status E h (Ivr (Originate d t)) \<noteq> SWITCH_STATUS_SUCCESS)"

lemma vm_loop_fail:
  assumes "vm_calleridPos s < length (vm_callers a)" and "vm_destPos s < length (vm_dests a)" and "never_answered E"
  shows "\<exists>s' h'. vm_loop E a (Suc r) s h = vm_loop E a r s' h' \<and>
    vm_calleridPos s' = vm_next (vm_calleridCount a) (vm_calleridPos s) \<and>
    vm_destPos s' = vm_next (vm_destCount a) (vm_destPos s)"
proof -
  have "\<exists>s' h'. vm_attempt E a s h = Some (False, s', h') \<and>
    vm_calleridPos s' = vm_next (vm_calleridCount a) (vm_calleridPos s) \<and>
    vm_destPos s' = vm_next (vm_destCount a) (vm_destPos s)"
    using assms by (simp add: vm_attempt_def ask_defs never_answered_def Let_def)
  then obtain s' h1 where s': "vm_attempt E a s h = Some (False, s', h1)"
    "vm_calleridPos s' = vm_next (vm_calleridCount a) (vm_calleridPos s)"
    "vm_destPos s' = vm_next (vm_destCount a) (vm_destPos s)" by blast
  then have "vm_loop E a (Suc r) s h = vm_loop E a r s' (h1 @ [(Chan Caller Ready, ABool True)])"
    using assms(3) by (subst vm_loop.simps) (simp add: ask_bool_def never_answered_def)
  then show ?thesis using s' by blast
qed

lemma vm_loop_third_attempt:
  assumes "length (vm_callers a) = 2" and "vm_calleridCount a = 2" and "length (vm_dests a) = 10" and "never_answered E"
  shows "vm_loop E a 2 vm_vars_init h = None"
proof -
  obtain s1 h1 where 1: "vm_loop E a 2 vm_vars_init h = vm_loop E a 1 s1 h1" "vm_calleridPos s1 = 1"
    "vm_destPos s1 \<le> 1"
    using vm_loop_fail [of vm_vars_init a E 1 h] assms by (auto simp: vm_vars_init_def vm_next_def numeral_2_eq_2)
  obtain s2 h2 where 2: "vm_loop E a 1 s1 h1 = vm_loop E a 0 s2 h2" "vm_calleridPos s2 = 2"
    using vm_loop_fail [of s1 a E 0 h1] assms 1 by (auto simp: vm_next_def)
  have "vm_loop E a 0 s2 h2 = None"
    using assms(1) 2(2) by (subst vm_loop.simps) (simp add: vm_attempt_def)
  with 1 2 show ?thesis by simp
qed

section \<open>The read lock of the peer\<close>

text \<open>
  The lock is released after a bridge only: when a peer answered and the caller left or the peer
  is not ready, the function returns with the peer session still read-locked.
\<close>

lemma vm_connect_lock: "post (vm_connect E n h) (\<lambda>(r, c, h'). tally peer_delta h' = tally peer_delta h - (if c then 1 else 0))"
  by (auto simp: vm_connect_def run_simps peer_neutral_def intro!: post_intros post_mono [OF dtmf_info_neutral]
      post_mono [OF bridge_legs_neutral])

lemma vm_attempt_lock:
  assumes "vm_status s \<noteq> SWITCH_STATUS_SUCCESS"
  shows "post (vm_attempt E a s h) (\<lambda>(stop, s', h').
    tally peer_delta h' = tally peer_delta h + (if vm_status s' = SWITCH_STATUS_SUCCESS then 1 else 0) \<and>
    (stop \<or> vm_status s' \<noteq> SWITCH_STATUS_SUCCESS))"
  using assms by (auto simp: vm_attempt_def run_simps intro!: post_intros postI [of "arr _ _"])

lemma vm_loop_lock:
  assumes "vm_status s \<noteq> SWITCH_STATUS_SUCCESS"
  shows "post (vm_loop E a r s h) (\<lambda>(s', h').
    tally peer_delta h' = tally peer_delta h + (if vm_status s' = SWITCH_STATUS_SUCCESS then 1 else 0))"
  using assms
proof (induction r arbitrary: s h)
  case 0
  show ?case
    by (subst vm_loop.simps) (auto simp: run_simps intro!: post_mono [OF vm_attempt_lock [OF 0]])
next
  case (Suc r)
  have sub: "post (vm_loop E a r s' h1) (\<lambda>(s', h').
    tally peer_delta h' = tally peer_delta h + (if vm_status s' = SWITCH_STATUS_SUCCESS then 1 else 0))"
    if "vm_status s' \<noteq> SWITCH_STATUS_SUCCESS" "tally peer_delta h1 = tally peer_delta h" for s' h1
    using Suc.IH [of s' h1] that by simp
  show ?case
    by (subst vm_loop.simps) (auto simp: run_simps intro!: post_intros sub post_mono [OF vm_attempt_lock [OF Suc.prems]] split: if_splits)
qed

section \<open>Properties\<close>

text \<open>
  The step of \<open>mod_vm\<close> rotates as well, but through one position more than there are entries.
\<close>

interpretation vm_rotation: rotation "\<lambda>n. vm_next (n - 1)"
  by unfold_locales (auto simp: vm_next_def)

lemma vm_app_third_attempt:
  assumes "\<not> zstr E (Some d)" and "\<And>h s. ans_bool E h (Sess Caller (Strdup s))" and "separate_ok E"
    and "1 < length (separate E d CHR '' '' 5)" and "never_answered E"
  shows "dial_vm_app_function E (Some d) h = None"
proof -
  let ?argv = "zero_filled 5 (separate E d CHR '' '' 5)"
  have one: "?argv ! 1 = Some (separate E d CHR '' '' 5 ! 1)" using assms(4) by simp
  have "vm_loop E \<lparr> vm_callers = [?argv ! 0, ?argv ! 4], vm_dests = zero_filled 10 dests, vm_calleridCount = 2,
      vm_destCount = length dests \<rparr> 2 vm_vars_init h1 = None" for dests :: "string list" and h1
    by (rule vm_loop_third_attempt) (simp_all add: assms(5))
  then show ?thesis
    using assms(1,2) one by (simp add: dial_vm_app_function_def session_strdup_def ask_bool_def)
qed

text \<open>
  The positions of the dial loop of \<open>mod_vm\<close>: after \<open>k\<close> failed attempts the position is
  \<open>k mod (n + 1)\<close> for a count of \<open>n\<close>, so it equals \<open>n\<close>, one past the last entry, at every
  attempt with \<open>k mod (n + 1) = n\<close>.
\<close>

lemma vm_positions_off_by_one:
  "(vm_next n ^^ k) 0 = k mod (n + 1) \<and> ((vm_next n ^^ k) 0 < n \<longleftrightarrow> k mod (n + 1) \<noteq> n)"
proof -
  have "(vm_next n ^^ k) 0 = k mod (n + 1)" using vm_rotation.iterate_mod [of "n + 1" k] by simp
  moreover have "k mod (n + 1) < n + 1" by (rule mod_less_divisor) simp
  ultimately show ?thesis by (auto simp: less_Suc_eq)
qed

text \<open>
  C18. The third attempt: when every attempt to reach the peer fails and the caller stays, the
  application reads past the end of the array of caller ids, whatever its arguments are.
\<close>

theorem vm_third_attempt_overruns:
  assumes "\<not> zstr E (Some d)" and "\<And>h s. ans_bool E h (Sess Caller (Strdup s))" and "separate_ok E"
    and "1 < length (separate E d CHR '' '' 5)"
    and "\<And>h. ans_bool E h (Chan Caller (Test_ready True False)) \<and> ans_bool E h (Chan Caller Ready)"
    and "\<And>h dl t. ans_status E h (Ivr (Originate dl t)) \<noteq> SWITCH_STATUS_SUCCESS"
  shows "dial_vm_app_function E (Some d) h = None"
  using assms by (intro vm_app_third_attempt) (auto simp: never_answered_def)

definition busy_env :: dial_env where
  "busy_env = sample_env\<lparr> ans_status := (\<lambda>h c. SWITCH_STATUS_FALSE) \<rparr>"

lemma vm_third_attempt_overruns_witness: "dial_vm_app_function busy_env (Some ''1 2 3 0 4'') [] = None"
  by (rule vm_third_attempt_overruns) (simp_all add: busy_env_def sample_env_def separate_ok_def)

text \<open>
  The read lock of the peer in \<open>mod_vm\<close>: a run that returns has released it only if the legs
  were bridged; when a peer answered and the caller hung up meanwhile, or one leg was not ready, the
  peer session stays read-locked.
\<close>

theorem vm_leaks_peer_lock:
  assumes "vm_loop E a r vm_vars_init h = Some (s, h1)" and "vm_status s = SWITCH_STATUS_SUCCESS"
    and "vm_connect E n h2 = Some (returned, connected, h3)" and "tally peer_delta h2 = tally peer_delta h1"
  shows "tally peer_delta h3 = tally peer_delta h + (if connected then 0 else 1)"
proof -
  have "vm_status vm_vars_init \<noteq> SWITCH_STATUS_SUCCESS" by (simp add: vm_vars_init_def)
  from postD [OF vm_loop_lock [OF this] assms(1)] postD [OF vm_connect_lock assms(3)] assms(2,4)
  show ?thesis by (auto split: if_splits)
qed

definition lonely_env :: dial_env where
  "lonely_env = sample_env\<lparr> ans_bool := (\<lambda>h c. c \<noteq> Chan Peer Ready) \<rparr>"

lemma vm_leaks_peer_lock_witness:
  "\<exists>s h1 h3. vm_loop lonely_env \<lparr> vm_callers = [None, None], vm_dests = replicate 10 None, vm_calleridCount = 2,
       vm_destCount = 1 \<rparr> 2 vm_vars_init [] = Some (s, h1) \<and>
     vm_connect lonely_env (Some ''5'') h1 = Some (False, False, h3) \<and> tally peer_delta h3 = 1"
proof -
  let ?a = "\<lparr> vm_callers = [None, None], vm_dests = replicate 10 None, vm_calleridCount = 2, vm_destCount = 1 \<rparr>"
  have "\<exists>s h1. vm_loop lonely_env ?a 2 vm_vars_init [] = Some (s, h1) \<and> vm_status s = SWITCH_STATUS_SUCCESS"
    by (subst vm_loop.simps) (simp add: vm_attempt_def vm_vars_init_def ask_defs lonely_env_def sample_env_def)
  then obtain s h1 where run: "vm_loop lonely_env ?a 2 vm_vars_init [] = Some (s, h1)" "vm_status s = SWITCH_STATUS_SUCCESS" by blast
  obtain h3 where conn: "vm_connect lonely_env (Some ''5'') h1 = Some (False, False, h3)"
    by (simp add: vm_connect_def dtmf_info_def safe_strdup_def strcat_into_def ask_defs lonely_env_def sample_env_def)
  have "tally peer_delta h3 = tally peer_delta ([] :: dial_trace) + (if False then 0 else 1)"
    by (rule vm_leaks_peer_lock [OF run conn refl])
  with run conn show ?thesis by auto
qed

end
