(* ===== verification/Ruby.thy ===== *)
theory Ruby
  imports Bridge
begin

text \<open>
  \<open>RUBY/mod_ruby.c\<close>: the application \<open>ytel_dialruby\<close>, one dial attempt and a bridge.
\<close>

definition RUBY_DIAL_STR :: string where
  "RUBY_DIAL_STR = ''{suppress_cng=true,originate_timeout=%s,progress_timeout=%s,effective_caller_id_number=%s,origination_caller_id_number=%s,ignore_early_media=true,absolute_codec_string='' @ [CHR 0x27] @ ''PCMU'' @ [CHR 0x27] @ ''}sofia/internal/%s@%s''"

text \<open>The peer answered and the caller is still there: the first component tells whether the function returned.\<close>

definition ruby_connect :: "dial_env \<Rightarrow> dial_trace \<Rightarrow> (bool \<times> dial_trace) option" where
  "ruby_connect E h = do {
     (ready, h) \<leftarrow> ask_bool E (Chan Caller Ready) h;
     if \<not> ready then Some (True, h)
     else do {
       (_, h) \<leftarrow> ask_status E (Chan Caller Answer) h;
       (peer, h) \<leftarrow> ask_bool E (Chan Peer Ready) h;
       h \<leftarrow> (if peer then bridge_legs E h else Some h);
       h \<leftarrow> exec (Sess Peer Rwunlock) h;
       (up, h) \<leftarrow> ask_bool E (Chan Peer (Test_ready True True)) h;
       h \<leftarrow> (if up then exec (Chan Peer (Handle_cause NORMAL_CLEARING)) h else Some h);
       Some (False, h)
     }
   }"

definition ruby_finish :: "dial_env \<Rightarrow> bool \<Rightarrow> dial_trace \<Rightarrow> dial_trace option" where
  "ruby_finish E connectSuccess h = do {
     (ready, h) \<leftarrow> ask_bool E (Chan Caller (Test_ready True False)) h;
     if ready \<and> connectSuccess then exec (Chan Caller (Handle_cause NORMAL_CLEARING)) h else Some h
   }"

definition dial_ruby_app_function :: "dial_env \<Rightarrow> string option \<Rightarrow> dial_trace \<Rightarrow> dial_trace option" where
  "dial_ruby_app_function E data h =
     (if zstr E data then Some h
      else do {
        (mydata, h) \<leftarrow> session_strdup E data h;
        case mydata of None \<Rightarrow> Some h
        | Some d \<Rightarrow> do {
            let argv = zero_filled 5 (separate E d CHR '' '' 5);
            timeout \<leftarrow> deref_entry argv 2;
            let dial_string = sprintf E RUBY_DIAL_STR [argv ! 2, argv ! 3, argv ! 0, argv ! 0, argv ! 1, argv ! 4];
            (st, h) \<leftarrow> ask_status E (Ivr (Originate dial_string (atoi timeout))) h;
            h \<leftarrow> exec (Ivr (Sleep 2000)) h;
            (ready, h) \<leftarrow> (if st = SWITCH_STATUS_SUCCESS then ask_bool E (Chan Caller (Test_ready True False)) h
                          else Some (False, h));
            if ready then do {
              (returned, h) \<leftarrow> ruby_connect E h;
              if returned then Some h else ruby_finish E True h }
            else ruby_finish E False h
          }
      })"

definition mod_ruby_shutdown :: switch_status where
  "mod_ruby_shutdown = SWITCH_STATUS_UNLOAD"

section \<open>Behaviour\<close>

text \<open>With fewer than three arguments \<open>atoi\<close> reads a NULL pointer.\<close>

lemma ruby_needs_timeout:
  assumes "\<not> zstr E (Some d)" and "ans_bool E h (Sess Caller (Strdup (Some d)))"
    and "length (separate E d CHR '' '' 5) < 3"
  shows "dial_ruby_app_function E (Some d) h = None"
  using assms by (simp add: dial_ruby_app_function_def session_strdup_def ask_bool_def deref_entry_def)

lemma ruby_connect_total: "returns (ruby_connect E h) (\<lambda>_. True)"
  by (auto simp: ruby_connect_def returns_simps intro!: returns_intros returns_mono [OF bridge_legs_total])

lemma ruby_finish_total: "returns (ruby_finish E c h) (\<lambda>_. True)"
  by (auto simp: ruby_finish_def returns_simps intro!: returns_intros)

lemma returns_timeout: "3 \<le> length toks \<Longrightarrow> (\<And>x. Q x) \<Longrightarrow> returns (deref_entry (zero_filled 5 toks) 2) Q"
  by (simp add: deref_entry_def)

lemma ruby_app_total:
  assumes "3 \<le> length (separate E d CHR '' '' 5)"
  shows "returns (dial_ruby_app_function E (Some d) h) (\<lambda>_. True)"
  by (auto simp: dial_ruby_app_function_def session_strdup_def returns_simps
      intro!: returns_intros returns_timeout [OF assms] returns_mono [OF ruby_connect_total] returns_mono [OF ruby_finish_total]
      split: option.split)

lemma ruby_connect_lock: "post (ruby_connect E h) (\<lambda>(r, h'). tally peer_delta h' = tally peer_delta h - (if r then 0 else 1))"
  by (auto simp: ruby_connect_def run_simps peer_neutral_def intro!: post_intros post_mono [OF bridge_legs_neutral])

section \<open>Properties\<close>

text \<open>
  The arguments of \<open>ytel_dialruby\<close>: with three or more words the application returns, whatever
  the core answers; with fewer the timeout is missing and is read as a string.
\<close>

theorem ruby_needs_three_words:
  assumes "\<not> zstr E (Some d)" and "ans_bool E h (Sess Caller (Strdup (Some d)))"
  shows "(\<exists>h'. dial_ruby_app_function E (Some d) h = Some h') \<longleftrightarrow> 3 \<le> length (separate E d CHR '' '' 5)"
proof (cases "3 \<le> length (separate E d CHR '' '' 5)")
  case True
  then show ?thesis using ruby_app_total [OF True, of h] by (auto simp: returns_iff)
next
  case False
  then show ?thesis using ruby_needs_timeout [OF assms] by simp
qed

lemma ruby_needs_three_words_witness:
  "dial_ruby_app_function sample_env (Some ''1 2'') [] = None \<and>
   (\<exists>h'. dial_ruby_app_function sample_env (Some ''1 2 3'') [] = Some h')"
  using ruby_needs_three_words [of sample_env "''1 2''" "[]"] ruby_needs_three_words [of sample_env "''1 2 3''" "[]"]
  by (simp add: sample_env_def)

end
