(* ===== verification/YtelDial.thy ===== *)
theory YtelDial
  imports Bridge
begin

text \<open>
  \<open>YTEL_DIAL/mod_ytel_dial.c\<close>: the application \<open>ytel_dial\<close>. It parses nine arguments, dials
  until an attempt succeeds, the retries are used up or the caller is gone, rotating through the
  numbers and the two caller ids, then bridges the caller to the peer.
\<close>

section \<open>State\<close>

record call_info =
  number :: string
  origTimeout :: string
  progressTimeout :: string
  dtmfVM :: string
  sipGateway :: string
  destCount :: nat
  callerIdCount :: nat
  retry :: int
  origTimeoutInt :: int
  destArray :: "string option list"        \<comment> \<open>10 entries\<close>
  callerIdArray :: "string option list"    \<comment> \<open>2 entries\<close>

text \<open>\<open>memset(callInfo, 0, sizeof(*callInfo))\<close>.\<close>

definition call_info_zero :: call_info where
  "call_info_zero = \<lparr> number = [], origTimeout = [], progressTimeout = [], dtmfVM = [], sipGateway = [],
     destCount = 0, callerIdCount = 0, retry = 0, origTimeoutInt = 0,
     destArray = replicate 10 None, callerIdArray = replicate 2 None \<rparr>"

text \<open>The local variables of the dial loop.\<close>

record dial_vars =
  destPos :: nat
  calleridPos :: nat
  lastDestPos :: nat
  lastCalleridPos :: nat
  dial_cause :: int
  dial_status :: switch_status

text \<open>\<open>SWITCH_CAUSE_NORMAL_CLEARING\<close> is 16.\<close>

definition dial_vars_init :: dial_vars where
  "dial_vars_init = \<lparr> destPos = 0, calleridPos = 0, lastDestPos = 0, lastCalleridPos = 0,
     dial_cause = 16, dial_status = SWITCH_STATUS_FALSE \<rparr>"

definition YTEL_DIAL_STR :: string where
  "YTEL_DIAL_STR = ''{suppress_cng=true,originate_timeout=%s,progress_timeout=%s,effective_caller_id_number=%s,origination_caller_id_number=%s,ignore_early_media=true,absolute_codec_string='' @ [CHR 0x27] @ ''PCMU'' @ [CHR 0x27] @ ''}sofia/internal/%s@%s''"

section \<open>Parsing the arguments\<close>

definition parseInput ::
  "dial_env \<Rightarrow> string option \<Rightarrow> call_info \<Rightarrow> dial_trace \<Rightarrow> (bool \<times> call_info \<times> dial_trace) option" where
  "parseInput E inputStr ci h =
     (if zstr E inputStr then Some (False, ci, h)
      else do {
        (mydata, h) \<leftarrow> session_strdup E inputStr h;
        case mydata of None \<Rightarrow> Some (False, ci, h)
        | Some data \<Rightarrow> do {
            let toks = separate E data CHR '' '' 10;
            if length toks \<noteq> 9 then Some (False, ci, h)
            else do {
              (c0, h) \<leftarrow> safe_strdup E (Some (toks ! 0)) h;
              (c1, h) \<leftarrow> safe_strdup E (Some (toks ! 3)) h;
              let ci = ci\<lparr> callerIdArray := [c0, c1], callerIdCount := 2,
                number := copy_string E (toks ! 2) 26, origTimeout := copy_string E (toks ! 4) 6,
                progressTimeout := copy_string E (toks ! 5) 6, sipGateway := copy_string E (toks ! 7) 256,
                dtmfVM := copy_string E (toks ! 8) 2, origTimeoutInt := atoi (toks ! 4),
                retry := atoi (toks ! 6) \<rparr>;
              (vm, h) \<leftarrow> session_strdup E (Some (toks ! 1)) h;
              case vm of None \<Rightarrow> Some (False, ci, h)
              | Some v \<Rightarrow> do {
                  let dests = separate E v CHR '','' 10;
                  Some (True, ci\<lparr> destCount := length dests, destArray := zero_filled 10 dests \<rparr>, h)
                }
            }
          }
      })"

section \<open>Dialing\<close>

text \<open>The number and the caller id of the next attempt.\<close>

definition ytel_next :: "nat \<Rightarrow> nat \<Rightarrow> nat" where
  "ytel_next count pos = (if int pos = int count - 1 then 0 else pos + 1)"

definition ytelstat :: "call_info \<Rightarrow> nat \<Rightarrow> nat \<Rightarrow> int \<Rightarrow> string option list \<Rightarrow> (string option list) option" where
  "ytelstat ci cpos dpos cause rest = do {
     callerid \<leftarrow> arr (callerIdArray ci) cpos;
     dest \<leftarrow> arr (destArray ci) dpos;
     Some ([Some ''YTELSTAT'', Some (dtmfVM ci), Some (number ci), callerid, dest, Some (show_int cause)] @ rest)
   }"

text \<open>One pass through the loop body; the first component tells whether it broke out of the loop.\<close>

definition ytel_attempt ::
  "dial_env \<Rightarrow> call_info \<Rightarrow> dial_vars \<Rightarrow> dial_trace \<Rightarrow> (bool \<times> dial_vars \<times> dial_trace) option" where
  "ytel_attempt E ci s h = do {
     let s = s\<lparr> lastDestPos := destPos s, lastCalleridPos := calleridPos s \<rparr>;
     callerid \<leftarrow> arr (callerIdArray ci) (calleridPos s);
     dest \<leftarrow> arr (destArray ci) (destPos s);
     let dial_string = sprintf E YTEL_DIAL_STR
       [Some (origTimeout ci), Some (progressTimeout ci), callerid, callerid, dest, Some (sipGateway ci)];
     (ready, h) \<leftarrow> ask_bool E (Chan Caller (Test_ready True False)) h;
     if \<not> ready then Some (True, s, h)
     else do {
       (st, h) \<leftarrow> ask_status E (Ivr (Originate dial_string (origTimeoutInt ci))) h;
       (cause, h) \<leftarrow> ask_int E (Ivr Originate_cause) h;
       let s = s\<lparr> dial_status := st, dial_cause := cause \<rparr>;
       line \<leftarrow> ytelstat ci (calleridPos s) (destPos s) cause [Some ''DIAL'', Some (show_int (retry ci))];
       h \<leftarrow> exec (Log line) h;
       if st = SWITCH_STATUS_SUCCESS then Some (True, s, h)
       else Some (False, s\<lparr> calleridPos := ytel_next (callerIdCount ci) (calleridPos s),
                            destPos := ytel_next (destCount ci) (destPos s) \<rparr>, h)
     }
   }"

text \<open>The loop; decrementing the smallest int is undefined.\<close>

function ytel_dial_loop ::
  "dial_env \<Rightarrow> call_info \<Rightarrow> dial_vars \<Rightarrow> dial_trace \<Rightarrow> (call_info \<times> dial_vars \<times> dial_trace) option" where
  "ytel_dial_loop E ci s h = do {
     (stop, s, h) \<leftarrow> ytel_attempt E ci s h;
     if stop then Some (ci, s, h)
     else if retry ci \<le> - (2 ^ 31) then None
     else if 0 < retry ci - 1 then do {
       let ci = ci\<lparr> retry := retry ci - 1 \<rparr>;
       (ready, h) \<leftarrow> ask_bool E (Chan Caller (Test_ready True False)) h;
       if ready \<and> dial_status s \<noteq> SWITCH_STATUS_SUCCESS then ytel_dial_loop E ci s h
       else Some (ci, s, h)
     } else Some (ci\<lparr> retry := retry ci - 1 \<rparr>, s, h)
   }"
  by pat_completeness auto
termination
  by (relation "measure (\<lambda>(E, ci, s, h). nat (retry ci))") auto

declare ytel_dial_loop.simps [simp del]

section \<open>After the loop\<close>

text \<open>
  The caller is still there and the peer answered. The first component tells whether the function
  returned early, the second is \<open>connectSuccess\<close>.
\<close>

definition ytel_connect ::
  "dial_env \<Rightarrow> call_info \<Rightarrow> dial_vars \<Rightarrow> dial_trace \<Rightarrow> (bool \<times> bool \<times> dial_trace) option" where
  "ytel_connect E ci s h = do {
     h \<leftarrow> (if dtmfVM ci = ''1'' then do {
         (dtmfInfo, h) \<leftarrow> dtmf_info E (Some (number ci)) h;
         h \<leftarrow> exec (Ivr (Execute_application ''playback'' ''silence_stream://2000'')) h;
         h \<leftarrow> exec (Ivr (Execute_application ''send_dtmf'' dtmfInfo)) h;
         exec (Ivr (Sleep 8100)) h }
       else exec (Ivr (Execute_application ''playback'' ''silence_stream://800'')) h);
     (ready, h) \<leftarrow> ask_bool E (Chan Caller Ready) h;
     if \<not> ready then do {
       line \<leftarrow> ytelstat ci (lastCalleridPos s) (lastDestPos s) (dial_cause s) [Some (show_int 0), Some ''END''];
       h \<leftarrow> exec (Log line) h;
       h \<leftarrow> exec (Sess Peer Rwunlock) h;
       h \<leftarrow> exec (Chan Peer (Handle_cause NORMAL_CLEARING)) h;
       Some (True, False, h)
     } else do {
       (_, h) \<leftarrow> ask_status E (Chan Caller Answer) h;
       (caller, h) \<leftarrow> ask_bool E (Chan Caller Ready) h;
       (peer, h) \<leftarrow> (if caller then ask_bool E (Chan Peer Ready) h else Some (False, h));
       h \<leftarrow> (if caller \<and> peer then bridge_legs E h else Some h);
       h \<leftarrow> exec (Sess Peer Rwunlock) h;
       (up, h) \<leftarrow> ask_bool E (Chan Peer (Test_ready True False)) h;
       h \<leftarrow> (if up then exec (Chan Peer (Handle_cause NORMAL_CLEARING)) h else Some h);
       Some (False, caller \<and> peer, h)
     }
   }"

text \<open>The peer answered, the caller is gone.\<close>

definition ytel_drop_peer :: "dial_env \<Rightarrow> dial_trace \<Rightarrow> dial_trace option" where
  "ytel_drop_peer E h = do {
     (up, h) \<leftarrow> ask_bool E (Chan Peer (Test_ready True False)) h;
     h \<leftarrow> (if up then exec (Chan Peer (Handle_cause NORMAL_CLEARING)) h else Some h);
     exec (Sess Peer Rwunlock) h
   }"

definition ytel_finish :: "dial_env \<Rightarrow> call_info \<Rightarrow> dial_vars \<Rightarrow> bool \<Rightarrow> dial_trace \<Rightarrow> dial_trace option" where
  "ytel_finish E ci s connectSuccess h = do {
     (billmsec, h) \<leftarrow> ask_str E (Chan Caller (Get_variable ''billmsec'')) h;
     line \<leftarrow> ytelstat ci (lastCalleridPos s) (lastDestPos s) (dial_cause s) [billmsec, Some ''END''];
     h \<leftarrow> exec (Log line) h;
     if connectSuccess then do {
       (ready, h) \<leftarrow> ask_bool E (Chan Caller (Test_ready True False)) h;
       if ready then exec (Chan Caller (Handle_cause NORMAL_CLEARING)) h else Some h
     } else Some h
   }"

definition ytel_dial_app_function :: "dial_env \<Rightarrow> string option \<Rightarrow> dial_trace \<Rightarrow> dial_trace option" where
  "ytel_dial_app_function E data h = do {
     (ok, h) \<leftarrow> ask_bool E (Mem ''malloc'') h;
     if \<not> ok then None
     else do {
       (parsed, ci, h) \<leftarrow> parseInput E data call_info_zero h;
       if \<not> parsed then Some h
       else do {
         (ci, s, h) \<leftarrow> ytel_dial_loop E ci dial_vars_init h;
         (ready, h) \<leftarrow> ask_bool E (Chan Caller (Test_ready True False)) h;
         if ready \<and> dial_status s = SWITCH_STATUS_SUCCESS then do {
           (returned, connected, h) \<leftarrow> ytel_connect E ci s h;
           if returned then Some h else ytel_finish E ci s connected h }
         else do {
           h \<leftarrow> (if dial_status s = SWITCH_STATUS_SUCCESS then ytel_drop_peer E h else Some h);
           ytel_finish E ci s False h }
       }
     }
   }"

definition mod_ytel_dial_shutdown :: switch_status where
  "mod_ytel_dial_shutdown = SWITCH_STATUS_UNLOAD"

section \<open>Rotation\<close>

interpretation ytel_rotation: rotation ytel_next
  by unfold_locales (auto simp: ytel_next_def)

section \<open>The loop dials in rotation\<close>

text \<open>What the loop needs of the parsed arguments.\<close>

definition ytel_ready :: "call_info \<Rightarrow> bool" where
  "ytel_ready ci \<longleftrightarrow> length (callerIdArray ci) = 2 \<and> callerIdCount ci = 2 \<and> length (destArray ci) = 10 \<and>
     0 < destCount ci \<and> destCount ci \<le> 10 \<and> - (2 ^ 31) < retry ci"

text \<open>The variables before attempt \<open>k\<close>, and the last positions after an attempt.\<close>

definition at_attempt :: "call_info \<Rightarrow> nat \<Rightarrow> dial_vars \<Rightarrow> bool" where
  "at_attempt ci k s \<longleftrightarrow> calleridPos s = k mod callerIdCount ci \<and> destPos s = k mod destCount ci"

definition last_ok :: "call_info \<Rightarrow> dial_vars \<Rightarrow> bool" where
  "last_ok ci s \<longleftrightarrow> lastCalleridPos s < length (callerIdArray ci) \<and> lastDestPos s < length (destArray ci)"

definition dial_at :: "dial_env \<Rightarrow> call_info \<Rightarrow> nat \<Rightarrow> string" where
  "dial_at E ci k = (let callerid = callerIdArray ci ! (k mod callerIdCount ci) in
     sprintf E YTEL_DIAL_STR [Some (origTimeout ci), Some (progressTimeout ci), callerid, callerid,
       destArray ci ! (k mod destCount ci), Some (sipGateway ci)])"

lemma ytel_readyD:
  assumes "ytel_ready ci"
  shows "k mod callerIdCount ci < length (callerIdArray ci)" "k mod destCount ci < length (destArray ci)"
    "ytel_next (callerIdCount ci) (k mod callerIdCount ci) = Suc k mod callerIdCount ci"
    "ytel_next (destCount ci) (k mod destCount ci) = Suc k mod destCount ci"
proof -
  have "k mod destCount ci < destCount ci" using assms by (simp add: ytel_ready_def)
  then show "k mod destCount ci < length (destArray ci)"
    using assms unfolding ytel_ready_def by linarith
qed (use assms in \<open>auto simp: ytel_ready_def ytel_rotation.next_mod\<close>)

lemma ytel_attempt_spec:
  assumes "ytel_ready ci" and "at_attempt ci k s" and "dial_status s \<noteq> SWITCH_STATUS_SUCCESS"
  shows "returns (ytel_attempt E ci s h) (\<lambda>(stop, s', h'). last_ok ci s' \<and>
    (stop \<and> dial_status s' \<noteq> SWITCH_STATUS_SUCCESS \<and> dialled h' = dialled h \<and> peer_neutral h h' \<or>
     dialled h' = dialled h @ [dial_at E ci k] \<and>
       (if stop then dial_status s' = SWITCH_STATUS_SUCCESS \<and> tally peer_delta h' = tally peer_delta h + 1
        else dial_status s' \<noteq> SWITCH_STATUS_SUCCESS \<and> peer_neutral h h' \<and> at_attempt ci (Suc k) s')))"
  using assms(2,3)
  by (auto simp: ytel_attempt_def ytelstat_def returns_simps at_attempt_def ytel_readyD [OF assms(1)] last_ok_def
      dial_at_def peer_neutral_def intro!: returns_intros)

lemma ytel_retry [simp]:
  "dial_at E (ci\<lparr> retry := r \<rparr>) k = dial_at E ci k" "at_attempt (ci\<lparr> retry := r \<rparr>) = at_attempt ci"
  "last_ok (ci\<lparr> retry := r \<rparr>) = last_ok ci"
  by (simp_all add: dial_at_def fun_eq_iff at_attempt_def last_ok_def)

definition loop_result :: "dial_env \<Rightarrow> call_info \<Rightarrow> nat \<Rightarrow> dial_trace \<Rightarrow> call_info \<times> dial_vars \<times> dial_trace \<Rightarrow> bool" where
  "loop_result E ci k h r = (case r of (ci', s', h') \<Rightarrow>
     (\<exists>r. ci' = ci\<lparr> retry := r \<rparr>) \<and> last_ok ci s' \<and>
     (\<exists>n. int n \<le> max 1 (retry ci) \<and> dialled h' = dialled h @ map (dial_at E ci) [k..<k + n]) \<and>
     tally peer_delta h' = tally peer_delta h + (if dial_status s' = SWITCH_STATUS_SUCCESS then 1 else 0))"

lemma loop_result_step:
  assumes "dialled h1 = dialled h @ [dial_at E ci k]" and "peer_neutral h h1" and "0 < retry ci - 1"
    and "loop_result E (ci\<lparr> retry := retry ci - 1 \<rparr>) (Suc k) h1 r"
  shows "loop_result E ci k h r"
proof -
  obtain ci' s' h' where r: "r = (ci', s', h')" by (cases r) auto
  obtain n q where n: "int n \<le> max 1 (retry ci - 1)" "dialled h' = dialled h1 @ map (dial_at E ci) [Suc k..<Suc k + n]"
    and q: "ci' = ci\<lparr> retry := q \<rparr>" "last_ok ci s'"
    and t: "tally peer_delta h' = tally peer_delta h1 + (if dial_status s' = SWITCH_STATUS_SUCCESS then 1 else 0)"
    using assms(4) unfolding r loop_result_def by auto
  have "dialled h' = dialled h @ map (dial_at E ci) [k..<k + Suc n]"
    using n(2) assms(1) by (simp add: upt_conv_Cons del: upt_Suc)
  moreover have "int (Suc n) \<le> max 1 (retry ci)" using n(1) assms(3) by simp
  ultimately have "\<exists>n. int n \<le> max 1 (retry ci) \<and> dialled h' = dialled h @ map (dial_at E ci) [k..<k + n]"
    by blast
  then show ?thesis using q t assms(2) by (auto simp: r loop_result_def peer_neutral_def)
qed

lemma loop_result_one:
  assumes "dialled h' = dialled h @ [dial_at E ci k]" and "last_ok ci s'"
    and "tally peer_delta h' = tally peer_delta h + (if dial_status s' = SWITCH_STATUS_SUCCESS then 1 else 0)"
  shows "loop_result E ci k h (ci\<lparr> retry := q \<rparr>, s', h')"
proof -
  have "dialled h' = dialled h @ map (dial_at E ci) [k..<k + 1]" using assms(1) by simp
  moreover have "int 1 \<le> max 1 (retry ci)" by simp
  ultimately have "\<exists>n. int n \<le> max 1 (retry ci) \<and> dialled h' = dialled h @ map (dial_at E ci) [k..<k + n]" by blast
  then show ?thesis using assms(2,3) by (auto simp: loop_result_def)
qed

lemma loop_result_none:
  assumes "dialled h' = dialled h" and "last_ok ci s'" and "peer_neutral h h'" and "dial_status s' \<noteq> SWITCH_STATUS_SUCCESS"
  shows "loop_result E ci k h (ci\<lparr> retry := q \<rparr>, s', h')"
proof -
  have "dialled h' = dialled h @ map (dial_at E ci) [k..<k + 0]" using assms(1) by simp
  moreover have "int 0 \<le> max 1 (retry ci)" by simp
  ultimately have "\<exists>n. int n \<le> max 1 (retry ci) \<and> dialled h' = dialled h @ map (dial_at E ci) [k..<k + n]" by blast
  then show ?thesis using assms(2-4) by (auto simp: loop_result_def peer_neutral_def)
qed

text \<open>The loop ends, whatever the core answers, and dials the numbers in rotation.\<close>

lemma ytel_dial_loop_spec:
  assumes "ytel_ready ci" and "at_attempt ci k s" and "dial_status s \<noteq> SWITCH_STATUS_SUCCESS"
  shows "returns (ytel_dial_loop E ci s h) (loop_result E ci k h)"
  using assms
proof (induction "nat (retry ci)" arbitrary: ci k s h rule: less_induct)
  case less
  have sub: "returns (ytel_dial_loop E (ci\<lparr>retry := retry ci - 1\<rparr>) s' (h1 @ [(Chan Caller (Test_ready True False), a)])) (loop_result E ci k h)"
    if "0 < retry ci - 1" "at_attempt ci (Suc k) s'" "dial_status s' \<noteq> SWITCH_STATUS_SUCCESS"
      "dialled h1 = dialled h @ [dial_at E ci k]" "peer_neutral h h1" for s' h1 a
  proof (rule returns_mono)
    show "returns (ytel_dial_loop E (ci\<lparr>retry := retry ci - 1\<rparr>) s' (h1 @ [(Chan Caller (Test_ready True False), a)]))
      (loop_result E (ci\<lparr>retry := retry ci - 1\<rparr>) (Suc k) (h1 @ [(Chan Caller (Test_ready True False), a)]))"
      using that less.prems(1) by (intro less.hyps) (auto simp: ytel_ready_def)
  next
    fix r assume "loop_result E (ci\<lparr>retry := retry ci - 1\<rparr>) (Suc k) (h1 @ [(Chan Caller (Test_ready True False), a)]) r"
    then show "loop_result E ci k h r"
      using that by (intro loop_result_step [OF _ _ that(1)]) (auto simp: peer_neutral_def)
  qed
  have r: "- (2 ^ 31) < retry ci" using less.prems(1) by (simp add: ytel_ready_def)
  note one = loop_result_one [where q = "retry ci" and ci = ci, simplified]
    and none = loop_result_none [where q = "retry ci" and ci = ci, simplified]
  show ?case
    using r
    apply (subst ytel_dial_loop.simps)
    apply (auto simp: returns_bind returns_if Let_def peer_neutral_def not_le
        intro!: returns_intros sub returns_mono [OF ytel_attempt_spec [OF less.prems]] split: if_splits)
       apply (rule none, simp_all add: peer_neutral_def)
      apply (rule one, simp_all)
     apply (rule loop_result_one, simp_all)
    apply (rule loop_result_one, simp_all)
    done
qed

section \<open>The read lock of the peer\<close>

lemma ytel_attempt_lock:
  assumes "dial_status s \<noteq> SWITCH_STATUS_SUCCESS"
  shows "post (ytel_attempt E ci s h) (\<lambda>(stop, s', h').
    tally peer_delta h' = tally peer_delta h + (if dial_status s' = SWITCH_STATUS_SUCCESS then 1 else 0) \<and>
    (stop \<or> dial_status s' \<noteq> SWITCH_STATUS_SUCCESS))"
  using assms
  by (auto simp: ytel_attempt_def run_simps intro!: post_intros postI [of "arr _ _"] postI [of "ytelstat _ _ _ _ _"])

lemma ytel_dial_loop_lock:
  assumes "dial_status s \<noteq> SWITCH_STATUS_SUCCESS"
  shows "post (ytel_dial_loop E ci s h) (\<lambda>(ci', s', h').
    tally peer_delta h' = tally peer_delta h + (if dial_status s' = SWITCH_STATUS_SUCCESS then 1 else 0))"
  using assms
proof (induction "nat (retry ci)" arbitrary: ci s h rule: less_induct)
  case less
  have sub: "post (ytel_dial_loop E (ci\<lparr>retry := retry ci - 1\<rparr>) s' h1) (\<lambda>(ci', s', h').
      tally peer_delta h' = tally peer_delta h + (if dial_status s' = SWITCH_STATUS_SUCCESS then 1 else 0))"
    if "1 < retry ci" "dial_status s' \<noteq> SWITCH_STATUS_SUCCESS" "tally peer_delta h1 = tally peer_delta h" for s' h1
    using less.hyps [of "ci\<lparr>retry := retry ci - 1\<rparr>" s' h1] that by simp
  show ?case
    by (subst ytel_dial_loop.simps)
      (auto simp: run_simps intro!: post_intros sub post_mono [OF ytel_attempt_lock [OF less.prems]] split: if_splits)
qed

lemma ytel_connect_lock: "post (ytel_connect E ci s h) (\<lambda>(r, c, h'). tally peer_delta h' = tally peer_delta h - 1)"
  by (auto simp: ytel_connect_def run_simps peer_neutral_def intro!: post_intros post_mono [OF dtmf_info_neutral]
      post_mono [OF bridge_legs_neutral] postI [of "ytelstat _ _ _ _ _"])

lemma ytel_drop_peer_lock: "post (ytel_drop_peer E h) (\<lambda>h'. tally peer_delta h' = tally peer_delta h - 1)"
  by (auto simp: ytel_drop_peer_def run_simps intro!: post_intros)

lemma ytel_finish_lock: "post (ytel_finish E ci s c h) (\<lambda>h'. tally peer_delta h' = tally peer_delta h)"
  by (auto simp: ytel_finish_def run_simps intro!: post_intros postI [of "ytelstat _ _ _ _ _"])

lemma parseInput_lock: "post (parseInput E data ci h) (\<lambda>(ok, ci, h'). tally peer_delta h' = tally peer_delta h)"
  by (auto simp: parseInput_def run_simps peer_neutral_def split: option.split
      intro!: post_mono [OF session_strdup_neutral] post_mono [OF safe_strdup_neutral])

lemma ytel_app_lock: "post (ytel_dial_app_function E data h) (\<lambda>h'. tally peer_delta h' = tally peer_delta h)"
  by (auto simp: ytel_dial_app_function_def run_simps dial_vars_init_def
      intro!: post_intros post_mono [OF parseInput_lock] post_mono [OF ytel_dial_loop_lock]
        post_mono [OF ytel_connect_lock] post_mono [OF ytel_finish_lock] post_mono [OF ytel_drop_peer_lock]
      split: if_splits)

section \<open>The application returns\<close>

lemma parseInput_total: "returns (parseInput E data ci h) (\<lambda>_. True)"
  if "zstr_ok E"
  using that
  by (cases data) (auto simp: parseInput_def returns_simps session_strdup_def safe_strdup_def zstr_ok_def
      intro!: returns_intros split: option.split)

lemma parseInput_ready:
  assumes "separate_ok E"
  shows "post (parseInput E data ci h) (\<lambda>(ok, ci, h'). ok \<longrightarrow>
    length (callerIdArray ci) = 2 \<and> callerIdCount ci = 2 \<and> length (destArray ci) = 10 \<and> destCount ci \<le> 10)"
  using assms
  by (auto simp: parseInput_def run_simps separate_ok_def split: option.split
      intro!: post_mono [OF session_strdup_neutral] post_mono [OF safe_strdup_neutral])

lemma ytel_start: "at_attempt ci 0 dial_vars_init" "dial_status dial_vars_init \<noteq> SWITCH_STATUS_SUCCESS"
  by (simp_all add: at_attempt_def dial_vars_init_def)

text \<open>The heap: allocations succeed and leave room behind a block.\<close>

definition heap_slack :: "dial_env \<Rightarrow> bool" where
  "heap_slack E \<longleftrightarrow> (\<forall>h t. ans_bool E h (Mem t)) \<and> (\<forall>n. n + 5 \<le> usable_size E n)"

lemma dtmf_info_total: "heap_slack E \<Longrightarrow> returns (dtmf_info E (Some s) h) (\<lambda>_. True)"
proof -
  assume E: "heap_slack E"
  then have "length s + 1 + 5 \<le> usable_size E (length s + 1)" unfolding heap_slack_def by blast
  then show ?thesis using dtmf_info_defined [of s E h] E by (simp add: heap_slack_def)
qed

lemma ytelstat_total: "last_ok ci s \<Longrightarrow> \<exists>l. ytelstat ci (lastCalleridPos s) (lastDestPos s) c r = Some l"
  by (simp add: ytelstat_def last_ok_def)

lemma returns_ytelstat: "last_ok ci s \<Longrightarrow> (\<And>l. Q l) \<Longrightarrow> returns (ytelstat ci (lastCalleridPos s) (lastDestPos s) c r) Q"
  using ytelstat_total [of ci s c r] by auto

lemma ytel_connect_total: "heap_slack E \<Longrightarrow> last_ok ci s \<Longrightarrow> returns (ytel_connect E ci s h) (\<lambda>_. True)"
  by (auto simp: ytel_connect_def returns_simps intro!: returns_intros returns_ytelstat returns_mono [OF dtmf_info_total]
      returns_mono [OF bridge_legs_total])

lemma ytel_finish_total: "last_ok ci s \<Longrightarrow> returns (ytel_finish E ci s c h) (\<lambda>_. True)"
  by (auto simp: ytel_finish_def returns_simps intro!: returns_intros returns_ytelstat)

lemma ytel_drop_peer_total: "returns (ytel_drop_peer E h) (\<lambda>_. True)"
  by (auto simp: ytel_drop_peer_def returns_simps intro!: returns_intros)

text \<open>The parsed arguments that do not lead to undefined behaviour.\<close>

definition good_args :: "call_info \<Rightarrow> bool" where
  "good_args ci \<longleftrightarrow> 0 < destCount ci \<and> - (2 ^ 31) < retry ci"

lemma ytel_app_total:
  assumes "zstr_ok E" and "separate_ok E" and "heap_slack E"
    and "\<And>h. post (parseInput E data call_info_zero h) (\<lambda>(ok, ci, h'). ok \<longrightarrow> good_args ci)"
  shows "returns (ytel_dial_app_function E data h) (\<lambda>_. True)"
proof -
  have parse: "returns (parseInput E data call_info_zero h) (\<lambda>(ok, ci, h'). ok \<longrightarrow> ytel_ready ci)" for h
  proof (rule returns_postI)
    show "parseInput E data call_info_zero h \<noteq> None"
      using parseInput_total [OF assms(1), of data call_info_zero h] by (auto simp: returns_iff)
    show "post (parseInput E data call_info_zero h) (\<lambda>(ok, ci, h'). ok \<longrightarrow> ytel_ready ci)"
      using assms(4) [of h] parseInput_ready [OF assms(2), of data call_info_zero h]
      by (cases "parseInput E data call_info_zero h") (auto simp: good_args_def ytel_ready_def)
  qed
  have loop: "returns (ytel_dial_loop E ci dial_vars_init h1) (\<lambda>(ci', s', h'). last_ok ci' s')" if "ytel_ready ci" for ci h1
    by (rule returns_mono [OF ytel_dial_loop_spec [OF that ytel_start]]) (auto simp: loop_result_def)
  have "ans_bool E h (Mem ''malloc'')" for h using assms(3) by (simp add: heap_slack_def)
  then show ?thesis
    by (auto simp: ytel_dial_app_function_def returns_simps ask_bool_def
        intro!: returns_intros returns_mono [OF parse] returns_mono [OF loop] returns_mono [OF ytel_connect_total [OF assms(3)]]
          returns_mono [OF ytel_finish_total] returns_mono [OF ytel_drop_peer_total])
qed

section \<open>Properties\<close>


definition sample_call :: call_info where
  "sample_call = call_info_zero\<lparr> callerIdArray := [Some ''1'', Some ''2''], callerIdCount := 2,
     destArray := Some ''3'' # Some ''4'' # replicate 8 None, destCount := 2, retry := 3 \<rparr>"




text \<open>
  The DTMF string: with an allocator that leaves five bytes behind a copy of the number it is the
  number and \<open>#@400\<close>; with one that gives exactly the size asked for, appending writes past the
  block, for every number.
\<close>

theorem ytel_dtmf_needs_slack:
  assumes "ans_bool E h (Mem ''strdup'')"
  shows "(length s + 6 \<le> usable_size E (length s + 1) \<longrightarrow>
      (\<exists>h'. dtmf_info E (Some s) h = Some (s @ ''#@400'', h'))) \<and>
    (usable_size E (length s + 1) = length s + 1 \<longrightarrow> dtmf_info E (Some s) h = None)"
  using dtmf_info_defined [OF _ assms, of s] dtmf_info_overflow [of E s h] by simp

lemma ytel_dtmf_witness:
  "dtmf_info (sample_env\<lparr> usable_size := (\<lambda>n. n) \<rparr>) (Some ''1303'') [] = None \<and>
   (\<exists>h'. dtmf_info sample_env (Some ''1303'') [] = Some (''1303#@400'', h'))"
  using ytel_dtmf_needs_slack [of "sample_env\<lparr> usable_size := (\<lambda>n. n) \<rparr>" "[]" "''1303''"]
    ytel_dtmf_needs_slack [of sample_env "[]" "''1303''"] by (simp add: sample_env_def)

end
