(* ===== verification/GoogleTts.thy ===== *)
theory GoogleTts
  imports Switch
begin

text \<open>
  \<open>mod_google_tts/mod_google_tts.c\<close>: the speech interface. A speech handle keeps a
  \<open>google_t\<close>; the audio file behind it is opened, read and closed by the core, whose calls
  are the file calls below. Synthesis itself is in \<open>google_glue.cpp\<close>.
\<close>

section \<open>State\<close>

record google_t =
  voice_name :: "string option"
  tts_rate :: int
  tts_file :: "string option"

datatype tts_glue =
    File_flag_open                     \<comment> \<open>switch_test_flag(fh, SWITCH_FILE_OPEN)\<close>
  | File_interface                     \<comment> \<open>fh->file_interface != NULL\<close>
  | File_open "string option" int
  | File_close
  | File_read int                      \<comment> \<open>switch_core_file_read of that many samples\<close>
  | File_read_len                      \<comment> \<open>the number of samples it stored\<close>
  | Unlink "string option"
  | Uuid                               \<comment> \<open>switch_uuid_format of a fresh UUID\<close>
  | Temp_dir
  | Google_open google_t | Google_feed google_t string | Google_load

type_synonym tts_env = "tts_glue env"
type_synonym tts_trace = "tts_glue trace"

text \<open>\<open>sh->private_info\<close>: NULL before \<open>speech_open\<close>.\<close>

type_synonym speech_handle = "google_t option"

section \<open>Operations\<close>

definition speech_open ::
  "tts_env \<Rightarrow> string option \<Rightarrow> int \<Rightarrow> tts_trace \<Rightarrow> (switch_status \<times> speech_handle \<times> tts_trace) option" where
  "speech_open E name r h = do {
     (uuid, h) \<leftarrow> ask_str E (Glue Uuid) h;
     (dir, h) \<leftarrow> ask_str E (Glue Temp_dir) h;
     u \<leftarrow> deref uuid;
     d \<leftarrow> deref dir;
     let outfile = snprintf_buf 512 (d @ ''/'' @ u @ ''.tmp.wav'');
     let google = \<lparr> voice_name = name, tts_rate = r, tts_file = Some outfile \<rparr>;
     (st, h) \<leftarrow> ask_status E (Glue (Google_open google)) h;
     Some (st, Some google, h)
   }"

definition speech_close :: "tts_env \<Rightarrow> speech_handle \<Rightarrow> tts_trace \<Rightarrow> (switch_status \<times> tts_trace) option" where
  "speech_close E sh h = do {
     google \<leftarrow> deref sh;
     (open, h) \<leftarrow> ask_bool E (Glue File_flag_open) h;
     h \<leftarrow> (if open then exec (Glue File_close) h else Some h);
     h \<leftarrow> exec (Glue (Unlink (tts_file google))) h;
     Some (SWITCH_STATUS_SUCCESS, h)
   }"

definition speech_feed_tts :: "tts_env \<Rightarrow> speech_handle \<Rightarrow> string \<Rightarrow> tts_trace \<Rightarrow> (switch_status \<times> tts_trace) option" where
  "speech_feed_tts E sh text h = do {
     google \<leftarrow> deref sh;
     (st, h) \<leftarrow> ask_status E (Glue (Google_feed google text)) h;
     if st \<noteq> SWITCH_STATUS_SUCCESS then Some (SWITCH_STATUS_FALSE, h)
     else do {
       (st, h) \<leftarrow> ask_status E (Glue (File_open (tts_file google) (tts_rate google))) h;
       if st \<noteq> SWITCH_STATUS_SUCCESS then Some (SWITCH_STATUS_FALSE, h)
       else Some (SWITCH_STATUS_SUCCESS, h)
     }
   }"

definition speech_flush_tts :: "tts_env \<Rightarrow> speech_handle \<Rightarrow> tts_trace \<Rightarrow> tts_trace option" where
  "speech_flush_tts E sh h = do {
     _ \<leftarrow> deref sh;
     (iface, h) \<leftarrow> ask_bool E (Glue File_interface) h;
     if iface then exec (Glue File_close) h else Some h
   }"

text \<open>
  \<open>datalen\<close> is a pointer: its value is read and written through it, and the test
  \<open>datalen == 0\<close> compares the pointer itself. The result is the status and the new value.
\<close>

definition speech_read_tts ::
  "tts_env \<Rightarrow> speech_handle \<Rightarrow> nat option \<Rightarrow> tts_trace \<Rightarrow> (switch_status \<times> nat option \<times> tts_trace) option" where
  "speech_read_tts E sh datalen h = do {
     len \<leftarrow> deref datalen;
     let my_datalen = len div 2;
     google \<leftarrow> deref sh;
     (iface, h) \<leftarrow> ask_bool E (Glue File_interface) h;
     if \<not> iface then do {
       h \<leftarrow> exec (Glue (Unlink (tts_file google))) h;
       Some (SWITCH_STATUS_FALSE, datalen, h) }
     else do {
       (st, h) \<leftarrow> ask_status E (Glue (File_read (int my_datalen))) h;
       (got, h) \<leftarrow> ask_int E (Glue File_read_len) h;
       if st \<noteq> SWITCH_STATUS_SUCCESS then do {
         h \<leftarrow> exec (Glue File_close) h;
         h \<leftarrow> exec (Glue (Unlink (tts_file google))) h;
         Some (SWITCH_STATUS_FALSE, datalen, h) }
       else do {
         let datalen = map_option (\<lambda>_. nat ((got * 2) mod 2 ^ 64)) datalen;
         if datalen = None then do {
           h \<leftarrow> exec (Glue File_close) h;
           h \<leftarrow> exec (Glue (Unlink (tts_file google))) h;
           Some (SWITCH_STATUS_BREAK, datalen, h) }
         else Some (SWITCH_STATUS_SUCCESS, datalen, h)
       }
     }
   }"

definition mod_google_tts_load :: "tts_env \<Rightarrow> tts_trace \<Rightarrow> (switch_status \<times> tts_trace) option" where
  "mod_google_tts_load E h = ask_status E (Glue Google_load) h"

definition mod_google_tts_shutdown :: switch_status where
  "mod_google_tts_shutdown = SWITCH_STATUS_UNLOAD"

section \<open>The file handle\<close>

text \<open>
  The core sets \<open>file_interface\<close> and the open flag when an open succeeds and clears both when
  the file is closed: what it answers is whether the file is open after the trace.
\<close>

definition file_step :: "bool \<Rightarrow> tts_glue call \<times> answer \<Rightarrow> bool" where
  "file_step b e = (case fst e of
     Glue g \<Rightarrow> (case g of
         File_open f r \<Rightarrow> snd e = AStatus SWITCH_STATUS_SUCCESS \<or> b
       | File_close \<Rightarrow> False
       | _ \<Rightarrow> b)
   | _ \<Rightarrow> b)"

definition file_is_open :: "tts_trace \<Rightarrow> bool" where
  "file_is_open h = foldl file_step False h"

definition file_ok :: "tts_env \<Rightarrow> bool" where
  "file_ok E \<longleftrightarrow> (\<forall>h. ans_bool E h (Glue File_flag_open) = file_is_open h \<and> ans_bool E h (Glue File_interface) = file_is_open h)"

text \<open>Every close in the trace is of an open file.\<close>

fun closes_open :: "bool \<Rightarrow> tts_trace \<Rightarrow> bool" where
  "closes_open b [] = True"
| "closes_open b (e # h) = ((fst e = Glue File_close \<longrightarrow> b) \<and> closes_open (file_step b e) h)"

lemma closes_open_append [simp]: "closes_open b (h @ t) = (closes_open b h \<and> closes_open (foldl file_step b h) t)"
  by (induction h arbitrary: b) auto

lemma file_is_open_append [simp]: "file_is_open (h @ t) = foldl file_step (file_is_open h) t"
  by (simp add: file_is_open_def)

lemma file_okD:
  "file_ok E \<Longrightarrow> ans_bool E h (Glue File_flag_open) = file_is_open h"
  "file_ok E \<Longrightarrow> ans_bool E h (Glue File_interface) = file_is_open h"
  by (simp_all add: file_ok_def)

lemma file_step_simps [simp]:
  "file_step b (Glue (File_open f r), AStatus st) = (st = SWITCH_STATUS_SUCCESS \<or> b)"
  "file_step b (Glue File_close, a) = False"
  "file_step b (Glue File_flag_open, a) = b" "file_step b (Glue File_interface, a) = b"
  "file_step b (Glue (File_read i), a) = b" "file_step b (Glue File_read_len, a) = b"
  "file_step b (Glue (Unlink f), a) = b" "file_step b (Glue Uuid, a) = b" "file_step b (Glue Temp_dir, a) = b"
  "file_step b (Glue (Google_open g), a) = b" "file_step b (Glue (Google_feed g s), a) = b"
  by (simp_all add: file_step_def)

definition closes_ok :: "tts_trace \<Rightarrow> bool" where
  "closes_ok h = closes_open False h"

lemma closes_ok_append [simp]: "closes_ok (h @ t) = (closes_ok h \<and> closes_open (file_is_open h) t)"
  by (simp add: closes_ok_def file_is_open_def)

text \<open>One call of the speech interface after \<open>speech_open\<close>.\<close>

datatype speech_call = Feed string | Read nat | Flush

fun speech_step :: "tts_env \<Rightarrow> speech_handle \<Rightarrow> speech_call \<Rightarrow> tts_trace \<Rightarrow> tts_trace option" where
  "speech_step E sh (Feed text) h = do { (_, h) \<leftarrow> speech_feed_tts E sh text h; Some h }"
| "speech_step E sh (Read n) h = do { (_, _, h) \<leftarrow> speech_read_tts E sh (Some n) h; Some h }"
| "speech_step E sh Flush h = speech_flush_tts E sh h"

fun speech_steps :: "tts_env \<Rightarrow> speech_handle \<Rightarrow> speech_call list \<Rightarrow> tts_trace \<Rightarrow> tts_trace option" where
  "speech_steps E sh [] h = Some h"
| "speech_steps E sh (c # cs) h = do { h \<leftarrow> speech_step E sh c h; speech_steps E sh cs h }"

lemmas speech_defs = speech_feed_tts_def speech_read_tts_def speech_flush_tts_def

lemma speech_step_closes:
  assumes "file_ok E" and "closes_ok h"
  shows "post (speech_step E sh c h) closes_ok"
  using assms(2)
  by (cases c) (simp_all add: speech_defs run_simps post_simps file_okD [OF assms(1)])

lemma speech_steps_closes:
  assumes "file_ok E" and "closes_ok h"
  shows "post (speech_steps E sh cs h) closes_ok"
  using assms(2)
proof (induction cs arbitrary: h)
  case (Cons c cs)
  show ?case
    using Cons.IH by (auto simp: post_bind intro!: post_mono [OF speech_step_closes [OF assms(1) Cons.prems]])
qed simp

lemma speech_close_closes:
  assumes "file_ok E" and "closes_ok h"
  shows "post (speech_close E sh h) (\<lambda>(st, h'). closes_ok h' \<and> \<not> file_is_open h')"
  using assms(2) by (simp add: speech_close_def run_simps post_simps file_okD [OF assms(1)])

text \<open>A handle that is set makes every call return.\<close>

lemma speech_step_total: "returns (speech_step E (Some g) c h) (\<lambda>_. True)"
  by (cases c) (auto simp: speech_defs returns_simps intro!: returns_intros)

lemma speech_steps_total: "returns (speech_steps E (Some g) cs h) (\<lambda>_. True)"
proof (induction cs arbitrary: h)
  case (Cons c cs)
  then show ?case by (auto simp: returns_bind intro!: returns_mono [OF speech_step_total])
qed simp

section \<open>Properties\<close>

text \<open>
  On an opened handle any sequence of feeds, reads and flushes returns, the close after it
  returns, the file is only ever closed while it is open, and it is closed at the end.
\<close>

theorem speech_files_closed:
  assumes "file_ok E" and "closes_ok h"
  shows "returns (speech_steps E (Some g) cs h \<bind> speech_close E (Some g))
    (\<lambda>(st, h'). st = SWITCH_STATUS_SUCCESS \<and> closes_ok h' \<and> \<not> file_is_open h')"
proof -
  have close: "returns (speech_close E (Some g) h') (\<lambda>(st, h'). st = SWITCH_STATUS_SUCCESS \<and> closes_ok h' \<and> \<not> file_is_open h')"
    if "closes_ok h'" for h'
    using that by (simp add: speech_close_def ask_bool_def exec_def returns_simps file_okD [OF assms(1)])
  have steps: "returns (speech_steps E (Some g) cs h) closes_ok"
    using speech_steps_total [of E g cs h] speech_steps_closes [OF assms, of "Some g" cs] by (auto simp: returns_iff)
  show ?thesis
    unfolding returns_bind by (rule returns_mono [OF steps]) (rule close)
qed

definition sample_tts_env :: tts_env where
  "sample_tts_env = sample_env \<lparr> ans_bool := \<lambda>h c. file_is_open h \<rparr>"

theorem speech_files_closed_witness:
  "returns (speech_steps sample_tts_env (Some \<lparr> voice_name = None, tts_rate = 8000, tts_file = Some ''f'' \<rparr>)
      [Feed ''hello'', Read 320, Flush] [] \<bind> speech_close sample_tts_env (Some \<lparr> voice_name = None, tts_rate = 8000, tts_file = Some ''f'' \<rparr>))
    (\<lambda>(st, h'). st = SWITCH_STATUS_SUCCESS \<and> closes_ok h' \<and> \<not> file_is_open h')"
  by (rule speech_files_closed) (simp_all add: sample_tts_env_def file_ok_def closes_ok_def)

text \<open>
  A read never reports the end of the data: \<open>SWITCH_STATUS_BREAK\<close> depends on a pointer
  that has been read through being NULL, so a read of no samples is a success.
\<close>

lemma speech_read_never_breaks:
  assumes "speech_read_tts E sh len h = Some (st, len', h')"
  shows "st = SWITCH_STATUS_SUCCESS \<or> st = SWITCH_STATUS_FALSE"
  using assms
  by (auto simp: speech_read_tts_def ask_defs Let_def bind_eq_Some_conv split: if_splits option.splits)

lemma speech_read_never_breaks_witness:
  "\<exists>st len' h'. speech_read_tts (sample_env \<lparr> ans_int := \<lambda>h c. 0 \<rparr>) (Some \<lparr> voice_name = None, tts_rate = 8000, tts_file = Some ''f'' \<rparr>)
      (Some 320) [] = Some (st, len', h') \<and> (st = SWITCH_STATUS_SUCCESS \<or> st = SWITCH_STATUS_FALSE)"
proof -
  have "returns (speech_read_tts (sample_env \<lparr> ans_int := \<lambda>h c. 0 \<rparr>)
      (Some \<lparr> voice_name = None, tts_rate = 8000, tts_file = Some ''f'' \<rparr>) (Some 320) []) (\<lambda>_. True)"
    by (auto simp: speech_read_tts_def returns_simps intro!: returns_intros)
  then obtain st len' h' where r: "speech_read_tts (sample_env \<lparr> ans_int := \<lambda>h c. 0 \<rparr>)
      (Some \<lparr> voice_name = None, tts_rate = 8000, tts_file = Some ''f'' \<rparr>) (Some 320) [] = Some (st, len', h')"
    unfolding returns_iff by (elim exE conjE) (metis surj_pair)
  show ?thesis using speech_read_never_breaks [OF r] r by blast
qed

end
