(* ===== verification/Api.thy ===== *)
theory Api
  imports Switch
begin

text \<open>
  What the API commands of the media modules share: splitting the command line into \<open>argv\<close>,
  the reply on the stream, and the discipline on the read lock that
  \<open>switch_core_session_locate\<close> takes on the session it finds. The locale
  \<open>session_command\<close> is the contract of one command; its client is a sequence of commands on
  one stream, and every command of the modules interprets it.
\<close>

section \<open>Command lines\<close>

definition nl :: string where "nl = [CHR 0x0A]"

text \<open>\<open>argv[i]\<close> used as a string: undefined when the entry is NULL or out of the array.\<close>

definition deref_at :: "'a option list \<Rightarrow> nat \<Rightarrow> 'a option" where
  "deref_at argv i = arr argv i \<bind> deref"

lemma deref_at_filled: "i < n \<Longrightarrow> deref_at (zero_filled n toks) i = (if i < length toks then Some (toks ! i) else None)"
  by (simp add: deref_at_def)

lemma deref_at_out: "n \<le> i \<Longrightarrow> deref_at (zero_filled n toks) i = None"
  by (simp add: deref_at_def)

lemma post_deref_atI [post_intros]: "(\<And>x. Q x) \<Longrightarrow> post (deref_at argv i) Q"
  by (rule postI)

text \<open>
  \<open>if (!zstr(cmd) && (mycmd = strdup(cmd))) argc = switch_separate_string(mycmd, ' ', argv, n);\<close>
  the result is the list of the \<open>argc\<close> filled entries.
\<close>

definition split_command :: "('x, 'm) env_scheme \<Rightarrow> nat \<Rightarrow> string option \<Rightarrow> 'x trace \<Rightarrow> (string list \<times> 'x trace) option" where
  "split_command E n cmd h =
     (if zstr E cmd then Some ([], h)
      else do {
        (ok, h) \<leftarrow> ask_bool E (Mem ''strdup'') h;
        if ok then do { c \<leftarrow> deref cmd; Some (separate E c CHR '' '' n, h) } else Some ([], h)
      })"

definition REPLY_OK :: string where "REPLY_OK = ''+OK Success'' @ nl"
definition REPLY_FAILED :: string where "REPLY_FAILED = ''-ERR Operation Failed'' @ nl"

definition usage_text :: "string \<Rightarrow> string" where
  "usage_text syntax = ''-USAGE: '' @ syntax @ nl"

text \<open>The reply by the final status.\<close>

definition reply :: "switch_status \<Rightarrow> 'x trace \<Rightarrow> 'x trace option" where
  "reply st h =
     (if st = SWITCH_STATUS_SUCCESS then exec (Stream_write REPLY_OK) h
      else exec (Stream_write REPLY_FAILED) h)"

section \<open>The read lock of the located session\<close>

text \<open>
  One step of the lock automaton: the state says whether the command holds the lock. Locating a
  session while one is held, and releasing none, have no successor.
\<close>

definition lock_step :: "bool \<Rightarrow> 'x call \<times> answer \<Rightarrow> bool option" where
  "lock_step b e = (case fst e of
     Sess l op \<Rightarrow> (if l = Located then (case op of
         Locate u \<Rightarrow> (if snd e = ABool True then (if b then None else Some True) else Some b)
       | Rwunlock \<Rightarrow> (if b then Some False else None)
       | _ \<Rightarrow> Some b) else Some b)
   | _ \<Rightarrow> Some b)"

fun lock_run :: "bool \<Rightarrow> 'x trace \<Rightarrow> bool option" where
  "lock_run b [] = Some b"
| "lock_run b (e # h) = lock_step b e \<bind> (\<lambda>b. lock_run b h)"

lemma lock_run_append [simp]: "lock_run b (h @ t) = lock_run b h \<bind> (\<lambda>b. lock_run b t)"
  by (induction h arbitrary: b) (auto simp: bind_assoc split: option.splits)

lemma lock_step_simps [simp]:
  "lock_step b (Sess Located (Locate u), ABool found) = (if found then (if b then None else Some True) else Some b)"
  "lock_step b (Sess Located Rwunlock, a) = (if b then Some False else None)"
  "lock_step b (Sess l (Strdup s), a) = Some b"
  "lock_step b (Sess l Alloc, a) = Some b"
  "lock_step b (Sess l (Get_codec nm), a) = Some b"
  "lock_step b (Sess l Get_read_impl, a) = Some b"
  "lock_step b (Chan l co, a) = Some b"
  "lock_step b (Event eo, a) = Some b"
  "lock_step b (Bug bo, a) = Some b"
  "lock_step b (Sync so, a) = Some b"
  "lock_step b (Ivr io, a) = Some b"
  "lock_step b (Stream_write txt, a) = Some b"
  "lock_step b (Log ss, a) = Some b"
  "lock_step b (Time_now, a) = Some b"
  "lock_step b (Yield i, a) = Some b"
  "lock_step b (Mem txt, a) = Some b"
  "lock_step b (Glue g, a) = Some b"
  by (simp_all add: lock_step_def split: option.split)

text \<open>Operations that leave the lock alone.\<close>

definition lock_neutral :: "'x trace \<Rightarrow> 'x trace \<Rightarrow> bool" where
  "lock_neutral h h' \<longleftrightarrow> (\<forall>b. lock_run b h' = lock_run b h)"

lemma lock_neutral_refl [simp]: "lock_neutral h h"
  by (simp add: lock_neutral_def)

lemma lock_neutral_trans: "lock_neutral h h1 \<Longrightarrow> lock_neutral h1 h2 \<Longrightarrow> lock_neutral h h2"
  by (simp add: lock_neutral_def)

lemma lock_neutral_snoc: "(\<And>b. lock_step b e = Some b) \<Longrightarrow> lock_neutral h h1 \<Longrightarrow> lock_neutral h (h1 @ [e])"
  by (simp add: lock_neutral_def bind_rzero split: option.split)

lemma lock_neutral_run: "lock_neutral h h' \<Longrightarrow> lock_run b h' = lock_run b h"
  by (simp add: lock_neutral_def)

lemma split_command_neutral: "post (split_command E n cmd h) (\<lambda>(toks, h'). lock_neutral h h')"
  by (cases cmd) (simp_all add: split_command_def post_simps lock_neutral_def)

lemma reply_neutral: "post (reply st h) (\<lambda>h'. lock_neutral h h')"
  by (simp add: reply_def post_simps lock_neutral_def)

text \<open>Splitting a command always returns; without a copy there are no tokens.\<close>

lemma split_command_returns:
  assumes "zstr_ok E"
  shows "returns (split_command E n cmd h) (\<lambda>(toks, h'). lock_neutral h h' \<and>
    (toks = [] \<or> (\<exists>c. cmd = Some c \<and> \<not> zstr E cmd \<and> toks = separate E c CHR '' '' n)))"
proof (cases "zstr E cmd")
  case True
  then show ?thesis by (simp add: split_command_def)
next
  case False
  then obtain c where "cmd = Some c" using assms by (cases cmd) (auto simp: zstr_ok_def)
  then show ?thesis
    using False by (simp add: split_command_def ask_bool_def lock_neutral_def returns_if)
qed

lemma reply_returns: "returns (reply st h) (\<lambda>h'. lock_neutral h h')"
  by (auto simp: reply_def returns_simps lock_neutral_def intro!: returns_intros)

lemma returns_deref_at:
  "i < length toks \<Longrightarrow> length toks \<le> n \<Longrightarrow> Q (toks ! i) \<Longrightarrow> returns (deref_at (zero_filled n toks) i) Q"
  by (simp add: deref_at_filled)

section \<open>The contract of an API command\<close>

text \<open>
  \<open>run E cmd\<close> is one command. Started without the lock, it ends without it, never holds two
  and never releases one it does not hold.
\<close>

fun run_commands :: "(string option \<Rightarrow> 'x trace \<Rightarrow> 'x trace option) \<Rightarrow> string option list \<Rightarrow> 'x trace \<Rightarrow> 'x trace option" where
  "run_commands run [] h = Some h"
| "run_commands run (c # cs) h = run c h \<bind> run_commands run cs"

locale session_command =
  fixes run :: "'e \<Rightarrow> string option \<Rightarrow> 'x trace \<Rightarrow> 'x trace option"
  assumes run_releases: "lock_run False h = Some False \<Longrightarrow> post (run E c h) (\<lambda>h'. lock_run False h' = Some False)"
begin

lemma run_commands_release:
  "lock_run False h = Some False \<Longrightarrow> post (run_commands (run E) cs h) (\<lambda>h'. lock_run False h' = Some False)"
proof (induction cs arbitrary: h)
  case Nil
  then show ?case by simp
next
  case (Cons c cs)
  have "post (run E c h) (\<lambda>h'. lock_run False h' = Some False)"
    using Cons.prems by (rule run_releases)
  then show ?case
    by (auto simp: post_bind intro: post_mono [OF _ Cons.IH])
qed

text \<open>At no point of the run is the lock released twice or taken twice.\<close>

lemma run_commands_prefix:
  assumes "lock_run False h = Some False" and "run_commands (run E) cs h = Some (p @ q)"
  shows "lock_run False p \<noteq> None"
proof -
  have "lock_run False (p @ q) = Some False"
    using run_commands_release [OF assms(1), of E cs] assms(2) by simp
  then show ?thesis by (cases "lock_run False p") auto
qed

end

text \<open>A branch of a command holds the lock when it returns a status, and has released it when it returns none.\<close>

definition branch_lock :: "'x trace \<Rightarrow> switch_status option \<times> 'x trace \<Rightarrow> bool" where
  "branch_lock h r \<longleftrightarrow> (lock_run False h = Some True \<longrightarrow> lock_run False (snd r) = Some (fst r \<noteq> None))"

section \<open>Attaching a media bug\<close>

text \<open>Media bugs attached by a run, and writes to the private slot of the channel under a key.\<close>

definition bug_delta :: "'x call \<times> answer \<Rightarrow> int" where
  "bug_delta e = (case fst e of
     Bug op \<Rightarrow> (case op of Bug_add n fl \<Rightarrow> if snd e = AStatus SWITCH_STATUS_SUCCESS then 1 else 0 | _ \<Rightarrow> 0)
   | _ \<Rightarrow> 0)"

definition slot_delta :: "string \<Rightarrow> 'x call \<times> answer \<Rightarrow> int" where
  "slot_delta k e = (case fst e of
     Chan l op \<Rightarrow> (case op of Set_private k' v \<Rightarrow> if k' = k then 1 else 0 | _ \<Rightarrow> 0)
   | _ \<Rightarrow> 0)"

lemma bug_delta_simps [simp]:
  "bug_delta (Bug (Bug_add n fl), AStatus st) = (if st = SWITCH_STATUS_SUCCESS then 1 else 0)"
  "bug_delta (Bug Bug_handle, a) = 0" "bug_delta (Chan l co, a) = 0" "bug_delta (Sess l so, a) = 0"
  "bug_delta (Glue g, a) = 0" "bug_delta (Ivr io, a) = 0" "bug_delta (Event ev, a) = 0"
  "bug_delta (Sync sy, a) = 0" "bug_delta (Time_now, a) = 0" "bug_delta (Stream_write t, a) = 0" "bug_delta (Mem t, a) = 0"
  "bug_delta (Bug Bug_remove, a) = 0"
  by (simp_all add: bug_delta_def)

lemma slot_delta_simps [simp]:
  "slot_delta k (Chan l (Set_private k' v), a) = (if k' = k then 1 else 0)"
  "slot_delta k (Chan l (Get_private k'), a) = 0" "slot_delta k (Chan l Pre_answer, a) = 0"
  "slot_delta k (Chan l (Get_variable n), a) = 0"
  "slot_delta k (Bug bo, a) = 0" "slot_delta k (Sess l so, a) = 0" "slot_delta k (Glue g, a) = 0"
  "slot_delta k (Ivr io, a) = 0" "slot_delta k (Event ev, a) = 0"
  by (simp_all add: slot_delta_def)

text \<open>Steps that neither attach a bug nor write a slot.\<close>

definition bug_neutral :: "string \<Rightarrow> 'x trace \<Rightarrow> 'x trace \<Rightarrow> bool" where
  "bug_neutral k h h' \<longleftrightarrow> tally bug_delta h' = tally bug_delta h \<and> tally (slot_delta k) h' = tally (slot_delta k) h"

text \<open>
  The contract of the function that starts a capture: it reports success exactly when it attached
  one bug and recorded it once in the channel's slot, and attached and recorded nothing otherwise.
\<close>

fun run_starts :: "('a \<Rightarrow> 'x trace \<Rightarrow> (switch_status \<times> 'x trace) option) \<Rightarrow> 'a list \<Rightarrow> 'x trace \<Rightarrow> (nat \<times> 'x trace) option" where
  "run_starts start [] h = Some (0, h)"
| "run_starts start (a # as) h = do {
     (st, h) \<leftarrow> start a h;
     (n, h) \<leftarrow> run_starts start as h;
     Some (if st = SWITCH_STATUS_SUCCESS then Suc n else n, h)
   }"

definition attached_iff_success :: "string \<Rightarrow> 'x trace \<Rightarrow> switch_status \<times> 'x trace \<Rightarrow> bool" where
  "attached_iff_success k h r \<longleftrightarrow>
     tally bug_delta (snd r) = tally bug_delta h + (if fst r = SWITCH_STATUS_SUCCESS then 1 else 0) \<and>
     tally (slot_delta k) (snd r) = tally (slot_delta k) h + (if fst r = SWITCH_STATUS_SUCCESS then 1 else 0)"

locale capture_start =
  fixes start :: "'e \<Rightarrow> 'a \<Rightarrow> 'x trace \<Rightarrow> (switch_status \<times> 'x trace) option"
    and key :: string
  assumes start_attaches: "post (start E a h) (attached_iff_success key h)"
begin

lemma run_starts_counts:
  "post (run_starts (start E) as h) (\<lambda>(n, h').
     tally bug_delta h' = tally bug_delta h + int n \<and> tally (slot_delta key) h' = tally (slot_delta key) h + int n)"
proof (induction as arbitrary: h)
  case Nil
  then show ?case by simp
next
  case (Cons a as)
  show ?case
    by (auto simp: run_simps attached_iff_success_def intro!: post_mono [OF start_attaches] post_mono [OF Cons.IH])
qed

end

section \<open>Event subclasses of a module\<close>

text \<open>A load function reserves subclasses in order and stops at the first failure; shutdown frees a list.\<close>

fun reserve_all :: "('x, 'm) env_scheme \<Rightarrow> string list \<Rightarrow> 'x trace \<Rightarrow> (bool \<times> 'x trace) option" where
  "reserve_all E [] h = Some (True, h)"
| "reserve_all E (e # es) h = do {
     (st, h) \<leftarrow> ask_status E (Event (Reserve_subclass e)) h;
     if st \<noteq> SWITCH_STATUS_SUCCESS then Some (False, h) else reserve_all E es h
   }"

fun free_all :: "string list \<Rightarrow> 'x trace \<Rightarrow> 'x trace option" where
  "free_all [] h = Some h"
| "free_all (e # es) h = do { h \<leftarrow> exec (Event (Free_subclass e)) h; free_all es h }"

text \<open>Reservations of one name, less its releases.\<close>

definition reserve_delta :: "string \<Rightarrow> 'x call \<times> answer \<Rightarrow> int" where
  "reserve_delta n e = (case fst e of
     Event op \<Rightarrow> (case op of
         Reserve_subclass m \<Rightarrow> if m = n \<and> snd e = AStatus SWITCH_STATUS_SUCCESS then 1 else 0
       | Free_subclass m \<Rightarrow> if m = n then -1 else 0
       | _ \<Rightarrow> 0)
   | _ \<Rightarrow> 0)"

lemma reserve_delta_simps [simp]:
  "reserve_delta n (Event (Reserve_subclass m), AStatus st) = (if m = n \<and> st = SWITCH_STATUS_SUCCESS then 1 else 0)"
  "reserve_delta n (Event (Free_subclass m), a) = (if m = n then -1 else 0)"
  "reserve_delta n (Glue g, a) = 0"
  "reserve_delta n (Sync so, a) = 0"
  by (simp_all add: reserve_delta_def)

lemma reserve_all_tally:
  "post (reserve_all E es h) (\<lambda>(ok, h').
     ok \<longrightarrow> tally (reserve_delta n) h' = tally (reserve_delta n) h + int (count_list es n))"
proof (induction es arbitrary: h)
  case Nil
  then show ?case by simp
next
  case (Cons e es)
  show ?case
    by (auto simp: post_simps intro!: post_mono [OF Cons.IH])
qed

lemma free_all_tally:
  "post (free_all es h) (\<lambda>h'. tally (reserve_delta n) h' = tally (reserve_delta n) h - int (count_list es n))"
proof (induction es arbitrary: h)
  case Nil
  then show ?case by simp
next
  case (Cons e es)
  show ?case
    by (auto simp: post_simps intro!: post_mono [OF Cons.IH])
qed

text \<open>
  The contract of a module's pair of lists: it frees every subclass it reserved, each once. Then
  a load that succeeded and the shutdown after it leave every count where it was.
\<close>

locale event_subclasses =
  fixes reserved freed :: "string list"
  assumes same_names: "set freed = set reserved"
    and freed_once: "distinct freed"
    and reserved_once: "distinct reserved"
begin

lemma count_freed: "count_list freed n = count_list reserved n"
  using same_names freed_once reserved_once by (simp add: count_list_distinct)

lemma load_shutdown_balanced:
  assumes "reserve_all E reserved h = Some (True, h1)" and "free_all freed h2 = Some h3"
    and "tally (reserve_delta n) h2 = tally (reserve_delta n) h1"
  shows "tally (reserve_delta n) h3 = tally (reserve_delta n) h"
  using postD [OF reserve_all_tally assms(1)] postD [OF free_all_tally assms(2)] assms(3)
  by (auto simp: count_freed)

end

end
