(* ===== verification/Dialogflow.thy ===== *)
theory Dialogflow
  imports Api
begin

text \<open>
  \<open>mod_dialogflow/mod_dialogflow.c\<close>: the API commands \<open>dialogflow_start\<close> and
  \<open>dialogflow_stop\<close>, the handlers of responses and errors, the media bug callback, and module
  load and shutdown. The functions of \<open>google_glue.cpp\<close> the module calls are glue calls.
\<close>

section \<open>Constants and glue calls\<close>

definition DIALOGFLOW_BUG_NAME :: string where "DIALOGFLOW_BUG_NAME = ''__dialogflow_bug__''"
definition DIALOGFLOW_MEDIA_BUG :: string where "DIALOGFLOW_MEDIA_BUG = ''dialogflow''"
definition DIALOGFLOW_EVENT_INTENT :: string where "DIALOGFLOW_EVENT_INTENT = ''dialogflow::intent''"
definition DIALOGFLOW_EVENT_TRANSCRIPTION :: string where "DIALOGFLOW_EVENT_TRANSCRIPTION = ''dialogflow::transcription''"
definition DIALOGFLOW_EVENT_AUDIO_PROVIDED :: string where "DIALOGFLOW_EVENT_AUDIO_PROVIDED = ''dialogflow::audio_provided''"
definition DIALOGFLOW_EVENT_END_OF_UTTERANCE :: string where "DIALOGFLOW_EVENT_END_OF_UTTERANCE = ''dialogflow::end_of_utterance''"
definition DIALOGFLOW_EVENT_ERROR :: string where "DIALOGFLOW_EVENT_ERROR = ''dialogflow::error''"

definition DIALOGFLOW_START_SYNTAX :: string where "DIALOGFLOW_START_SYNTAX = ''<uuid> project-id lang-code [event]''"
definition DIALOGFLOW_STOP_SYNTAX :: string where "DIALOGFLOW_STOP_SYNTAX = ''<uuid>''"

datatype dialogflow_glue =
    Df_session_init int "string option" "string option" "string option" "string option"
      \<comment> \<open>rate, language, project, event, text\<close>
  | Df_user_data                       \<comment> \<open>the capture data the session stored: cb\<close>
  | Df_destroy
  | Df_session_stop int
  | Df_frame | Df_init | Df_cleanup

type_synonym dialogflow_env = "dialogflow_glue env"
type_synonym dialogflow_trace = "dialogflow_glue trace"

section \<open>Handlers and callback\<close>

definition dialogflow_responseHandler ::
  "dialogflow_env \<Rightarrow> string \<Rightarrow> string \<Rightarrow> dialogflow_trace \<Rightarrow> dialogflow_trace option" where
  "dialogflow_responseHandler E type json h = do {
     (_, h) \<leftarrow> ask_status E (Event (Create_subclass type)) h;
     h \<leftarrow> exec (Event Set_channel_data) h;
     h \<leftarrow> exec (Event (Add_body json)) h;
     exec (Event Fire) h
   }"

definition dialogflow_do_stop :: "dialogflow_env \<Rightarrow> dialogflow_trace \<Rightarrow> (switch_status \<times> dialogflow_trace) option" where
  "dialogflow_do_stop E h = do {
     (bug, h) \<leftarrow> ask_ptr E (Chan Located (Get_private DIALOGFLOW_BUG_NAME)) h;
     if bug \<noteq> None then ask_status E (Glue (Df_session_stop 0)) h
     else Some (SWITCH_STATUS_SUCCESS, h)
   }"

definition dialogflow_errorHandler :: "dialogflow_env \<Rightarrow> string \<Rightarrow> dialogflow_trace \<Rightarrow> dialogflow_trace option" where
  "dialogflow_errorHandler E json h = do {
     (_, h) \<leftarrow> ask_status E (Event (Create_subclass DIALOGFLOW_EVENT_ERROR)) h;
     h \<leftarrow> exec (Event Set_channel_data) h;
     h \<leftarrow> exec (Event (Add_body json)) h;
     h \<leftarrow> exec (Event Fire) h;
     (_, h) \<leftarrow> dialogflow_do_stop E h;
     Some h
   }"

definition dialogflow_capture_callback ::
  "dialogflow_env \<Rightarrow> abc_type \<Rightarrow> dialogflow_trace \<Rightarrow> (bool \<times> dialogflow_trace) option" where
  "dialogflow_capture_callback E type h = (case type of
     ABC_CLOSE \<Rightarrow> do { (_, h) \<leftarrow> ask_status E (Glue (Df_session_stop 1)) h; Some (True, h) }
   | ABC_READ \<Rightarrow> ask_bool E (Glue Df_frame) h
   | _ \<Rightarrow> Some (True, h))"

section \<open>Start\<close>

text \<open>
  What follows the check for a running dialogflow, up to \<open>done\<close>: the status and \<open>cb\<close>.
\<close>

definition dialogflow_attach ::
  "dialogflow_env \<Rightarrow> bug_flag list \<Rightarrow> string option \<Rightarrow> string option \<Rightarrow> string option \<Rightarrow> string option \<Rightarrow>
   dialogflow_trace \<Rightarrow> (switch_status \<times> nat option \<times> dialogflow_trace) option" where
  "dialogflow_attach E flags lang projectId event text h = do {
     (st, h) \<leftarrow> ask_status E (Chan Located Pre_answer) h;
     if st \<noteq> SWITCH_STATUS_SUCCESS then Some (SWITCH_STATUS_FALSE, None, h)
     else do {
       (rate, h) \<leftarrow> ask_int E (Sess Located Get_read_impl) h;
       (st, h) \<leftarrow> ask_status E (Glue (Df_session_init rate lang projectId event text)) h;
       (cb, h) \<leftarrow> ask_ptr E (Glue Df_user_data) h;
       if st = SWITCH_STATUS_FALSE then Some (SWITCH_STATUS_FALSE, cb, h)
       else do {
         (st, h) \<leftarrow> ask_status E (Bug (Bug_add DIALOGFLOW_MEDIA_BUG flags)) h;
         if st \<noteq> SWITCH_STATUS_SUCCESS then Some (SWITCH_STATUS_FALSE, cb, h)
         else do {
           (bug, h) \<leftarrow> ask_ptr E (Bug Bug_handle) h;
           h \<leftarrow> exec (Chan Located (Set_private DIALOGFLOW_BUG_NAME bug)) h;
           Some (SWITCH_STATUS_SUCCESS, cb, h)
         }
       }
     }
   }"

definition dialogflow_start_capture ::
  "dialogflow_env \<Rightarrow> bug_flag list \<Rightarrow> string option \<Rightarrow> string option \<Rightarrow> string option \<Rightarrow> string option \<Rightarrow>
   dialogflow_trace \<Rightarrow> (switch_status \<times> dialogflow_trace) option" where
  "dialogflow_start_capture E flags lang projectId event text h = do {
     (bug, h) \<leftarrow> ask_ptr E (Chan Located (Get_private DIALOGFLOW_BUG_NAME)) h;
     h \<leftarrow> (if bug \<noteq> None then do { (_, h) \<leftarrow> dialogflow_do_stop E h; Some h } else Some h);
     (st, cb, h) \<leftarrow> dialogflow_attach E flags lang projectId event text h;
     h \<leftarrow> (if st = SWITCH_STATUS_FALSE \<and> cb \<noteq> None then exec (Glue Df_destroy) h else Some h);
     Some (st, h)
   }"

section \<open>The API commands\<close>

definition dialogflow_start_function :: "dialogflow_env \<Rightarrow> string option \<Rightarrow> dialogflow_trace \<Rightarrow> dialogflow_trace option" where
  "dialogflow_start_function E cmd h = do {
     (toks, h) \<leftarrow> split_command E 10 cmd h;
     let argc = length toks;
     let argv = zero_filled 10 toks;
     if zstr E cmd \<or> argc < 3 then exec (Stream_write (usage_text DIALOGFLOW_START_SYNTAX)) h
     else do {
       (found, h) \<leftarrow> ask_bool E (Sess Located (Locate (argv ! 0))) h;
       if found then do {
         let event = (if argc > 3 then argv ! 3 else None);
         event \<leftarrow> (if argc > 4 then do { e \<leftarrow> deref event; Some (if e = ''none'' then None else Some e) }
                   else Some event);
         let text = (if argc > 4 then argv ! 4 else None);
         (st, h) \<leftarrow> dialogflow_start_capture E [SMBF_READ_STREAM, SMBF_READ_PING] (argv ! 2) (argv ! 1) event text h;
         h \<leftarrow> exec (Sess Located Rwunlock) h;
         reply st h
       } else reply SWITCH_STATUS_FALSE h
     }
   }"

definition dialogflow_stop_function :: "dialogflow_env \<Rightarrow> string option \<Rightarrow> dialogflow_trace \<Rightarrow> dialogflow_trace option" where
  "dialogflow_stop_function E cmd h = do {
     (toks, h) \<leftarrow> split_command E 10 cmd h;
     let argc = length toks;
     let argv = zero_filled 10 toks;
     if zstr E cmd \<or> argc \<noteq> 1 then exec (Stream_write (usage_text DIALOGFLOW_STOP_SYNTAX)) h
     else do {
       (found, h) \<leftarrow> ask_bool E (Sess Located (Locate (argv ! 0))) h;
       if found then do {
         (st, h) \<leftarrow> dialogflow_do_stop E h;
         h \<leftarrow> exec (Sess Located Rwunlock) h;
         reply st h
       } else reply SWITCH_STATUS_FALSE h
     }
   }"

section \<open>Load and shutdown\<close>

definition dialogflow_reserved :: "string list" where
  "dialogflow_reserved = [DIALOGFLOW_EVENT_INTENT, DIALOGFLOW_EVENT_TRANSCRIPTION,
     DIALOGFLOW_EVENT_END_OF_UTTERANCE, DIALOGFLOW_EVENT_AUDIO_PROVIDED, DIALOGFLOW_EVENT_ERROR]"

definition mod_dialogflow_load :: "dialogflow_env \<Rightarrow> dialogflow_trace \<Rightarrow> (switch_status \<times> dialogflow_trace) option" where
  "mod_dialogflow_load E h = do {
     (ok, h) \<leftarrow> reserve_all E dialogflow_reserved h;
     if \<not> ok then Some (SWITCH_STATUS_TERM, h)
     else do {
       (_, h) \<leftarrow> ask_status E (Glue Df_init) h;
       Some (SWITCH_STATUS_SUCCESS, h)
     }
   }"

definition mod_dialogflow_shutdown :: "dialogflow_env \<Rightarrow> dialogflow_trace \<Rightarrow> (switch_status \<times> dialogflow_trace) option" where
  "mod_dialogflow_shutdown E h = do {
     (_, h) \<leftarrow> ask_status E (Glue Df_cleanup) h;
     h \<leftarrow> free_all dialogflow_reserved h;
     Some (SWITCH_STATUS_SUCCESS, h)
   }"

section \<open>The read lock\<close>

lemma dialogflow_do_stop_neutral: "post (dialogflow_do_stop E h) (\<lambda>(st, h'). lock_neutral h h')"
  by (auto simp: dialogflow_do_stop_def run_simps lock_neutral_def intro!: post_intros)

lemma dialogflow_attach_neutral: "post (dialogflow_attach E fl l p e t h) (\<lambda>(st, cb, h'). lock_neutral h h')"
  by (auto simp: dialogflow_attach_def run_simps lock_neutral_def intro!: post_intros)

lemma dialogflow_start_capture_neutral:
  "post (dialogflow_start_capture E fl l p e t h) (\<lambda>(st, h'). lock_neutral h h')"
  by (auto simp: dialogflow_start_capture_def run_simps lock_neutral_def
      intro!: post_intros post_mono [OF dialogflow_do_stop_neutral] post_mono [OF dialogflow_attach_neutral])

lemma dialogflow_start_function_lock:
  assumes "lock_run False h = Some False"
  shows "post (dialogflow_start_function E cmd h) (\<lambda>h'. lock_run False h' = Some False)"
  using assms
  by (auto simp: dialogflow_start_function_def run_simps lock_neutral_def reply_def
      intro!: post_intros post_mono [OF dialogflow_start_capture_neutral] post_mono [OF split_command_neutral])

lemma dialogflow_stop_function_lock:
  assumes "lock_run False h = Some False"
  shows "post (dialogflow_stop_function E cmd h) (\<lambda>h'. lock_run False h' = Some False)"
  using assms
  by (auto simp: dialogflow_stop_function_def run_simps lock_neutral_def reply_def
      intro!: post_intros post_mono [OF dialogflow_do_stop_neutral] post_mono [OF split_command_neutral])

interpretation dialogflow_start_command: session_command dialogflow_start_function
  by unfold_locales (rule dialogflow_start_function_lock)

interpretation dialogflow_stop_command: session_command dialogflow_stop_function
  by unfold_locales (rule dialogflow_stop_function_lock)

section \<open>Attaching the bug\<close>

lemma dialogflow_do_stop_bug_neutral: "post (dialogflow_do_stop E h) (\<lambda>(st, h'). bug_neutral k h h')"
  by (auto simp: dialogflow_do_stop_def run_simps bug_neutral_def intro!: post_intros)

type_synonym dialogflow_start_args =
  "bug_flag list \<times> string option \<times> string option \<times> string option \<times> string option"

fun dialogflow_start_with :: "dialogflow_env \<Rightarrow> dialogflow_start_args \<Rightarrow> dialogflow_trace \<Rightarrow> (switch_status \<times> dialogflow_trace) option" where
  "dialogflow_start_with E (fl, l, p, e, t) h = dialogflow_start_capture E fl l p e t h"

lemma dialogflow_attach_attaches:
  "post (dialogflow_attach E fl l p e t h) (\<lambda>(st, cb, h'). attached_iff_success DIALOGFLOW_BUG_NAME h (st, h'))"
  by (auto simp: dialogflow_attach_def run_simps attached_iff_success_def intro!: post_intros)

lemma dialogflow_start_attaches: "post (dialogflow_start_with E a h) (attached_iff_success DIALOGFLOW_BUG_NAME h)"
  by (cases a) (auto simp: dialogflow_start_capture_def run_simps attached_iff_success_def bug_neutral_def
      intro!: post_intros post_mono [OF dialogflow_attach_attaches]
        post_mono [OF dialogflow_do_stop_bug_neutral [where k = DIALOGFLOW_BUG_NAME]])

interpretation dialogflow_capture: capture_start dialogflow_start_with DIALOGFLOW_BUG_NAME
  by unfold_locales (rule dialogflow_start_attaches)

section \<open>The capture data\<close>

text \<open>
  Capture data in flight: one for every session start that stored data, less the ones destroyed
  and less the ones handed to an attached bug.
\<close>

definition cb_delta :: "dialogflow_glue call \<times> answer \<Rightarrow> int" where
  "cb_delta e = (case fst e of
     Glue g \<Rightarrow> (case g of
         Df_user_data \<Rightarrow> (case snd e of APtr (Some p) \<Rightarrow> 1 | _ \<Rightarrow> 0)
       | Df_destroy \<Rightarrow> -1
       | _ \<Rightarrow> 0)
   | _ \<Rightarrow> 0)"

lemma cb_delta_simps [simp]:
  "cb_delta (Glue Df_user_data, APtr p) = (if p = None then 0 else 1)"
  "cb_delta (Glue Df_destroy, a) = -1"
  "cb_delta (Glue (Df_session_init r l p' e t), a) = 0" "cb_delta (Glue (Df_session_stop i), a) = 0"
  "cb_delta (Chan l' co, a) = 0" "cb_delta (Sess l' so, a) = 0" "cb_delta (Bug bo, a) = 0"
  by (simp_all add: cb_delta_def split: option.split)

lemma dialogflow_do_stop_cb: "post (dialogflow_do_stop E h) (\<lambda>(st, h'). tally cb_delta h' = tally cb_delta h)"
  by (auto simp: dialogflow_do_stop_def run_simps intro!: post_intros)

lemma dialogflow_attach_cb:
  "post (dialogflow_attach E fl l p e t h) (\<lambda>(st, cb, h').
     tally cb_delta h' = tally cb_delta h + (if cb = None then 0 else 1) \<and> (st = SWITCH_STATUS_SUCCESS \<or> st = SWITCH_STATUS_FALSE))"
  by (auto simp: dialogflow_attach_def run_simps intro!: post_intros)

lemma dialogflow_start_capture_cb:
  "post (dialogflow_start_capture E fl l p e t h) (\<lambda>(st, h').
     st \<noteq> SWITCH_STATUS_SUCCESS \<longrightarrow> tally cb_delta h' = tally cb_delta h)"
  by (auto simp: dialogflow_start_capture_def run_simps
      intro!: post_intros post_mono [OF dialogflow_attach_cb] post_mono [OF dialogflow_do_stop_cb])

section \<open>Event subclasses\<close>

interpretation dialogflow_events: event_subclasses dialogflow_reserved dialogflow_reserved
  by unfold_locales (auto simp: dialogflow_reserved_def DIALOGFLOW_EVENT_INTENT_def
      DIALOGFLOW_EVENT_TRANSCRIPTION_def DIALOGFLOW_EVENT_END_OF_UTTERANCE_def
      DIALOGFLOW_EVENT_AUDIO_PROVIDED_def DIALOGFLOW_EVENT_ERROR_def)

section \<open>Definedness\<close>

lemma dialogflow_do_stop_returns: "returns (dialogflow_do_stop E h) (\<lambda>_. True)"
  by (auto simp: dialogflow_do_stop_def returns_simps intro!: returns_intros)

lemma dialogflow_attach_returns: "returns (dialogflow_attach E fl l p e t h) (\<lambda>_. True)"
  by (auto simp: dialogflow_attach_def returns_simps intro!: returns_intros)

lemma dialogflow_start_capture_returns: "returns (dialogflow_start_capture E fl l p e t h) (\<lambda>_. True)"
  by (auto simp: dialogflow_start_capture_def returns_simps
      intro!: returns_intros returns_mono [OF dialogflow_do_stop_returns] returns_mono [OF dialogflow_attach_returns])

lemma dialogflow_start_function_defined:
  assumes "zstr_ok E" and "separate_ok E"
  shows "returns (dialogflow_start_function E cmd h) (\<lambda>_. True)"
proof -
  have split: "returns (split_command E 10 cmd h) (\<lambda>(toks, h'). length toks \<le> 10)"
    by (rule returns_mono [OF split_command_returns [OF assms(1)]]) (use assms(2) in \<open>auto simp: separate_ok_def\<close>)
  show ?thesis
    by (auto simp: dialogflow_start_function_def returns_simps
        intro!: returns_mono [OF split] returns_intros returns_mono [OF dialogflow_start_capture_returns]
          returns_mono [OF reply_returns])
qed

lemma dialogflow_stop_function_defined:
  assumes "zstr_ok E"
  shows "returns (dialogflow_stop_function E cmd h) (\<lambda>_. True)"
  by (auto simp: dialogflow_stop_function_def returns_simps
      intro!: returns_mono [OF split_command_returns [OF assms]] returns_intros returns_mono [OF dialogflow_do_stop_returns]
        returns_mono [OF reply_returns])

section \<open>Properties\<close>

text \<open>
  \<open>dialogflow_start\<close> and \<open>dialogflow_stop\<close> return on every command line, none
  included, and end with the read lock of the session released.
\<close>

theorem dialogflow_commands_sound:
  assumes "zstr_ok E" and "separate_ok E" and "lock_run False h = Some False"
  shows "returns (dialogflow_start_function E cmd h) (\<lambda>h'. lock_run False h' = Some False) \<and>
    returns (dialogflow_stop_function E cmd h) (\<lambda>h'. lock_run False h' = Some False)"
  using dialogflow_start_function_defined [OF assms(1,2), of cmd h] dialogflow_start_function_lock [OF assms(3), of E cmd]
    dialogflow_stop_function_defined [OF assms(1), of cmd h] dialogflow_stop_function_lock [OF assms(3), of E cmd]
  by (auto simp: returns_iff)

theorem dialogflow_commands_sound_witness:
  "returns (dialogflow_start_function sample_env (Some ''u p en none hi'') []) (\<lambda>h'. lock_run False h' = Some False) \<and>
   returns (dialogflow_stop_function sample_env (Some ''u p en none hi'') []) (\<lambda>h'. lock_run False h' = Some False)"
  by (rule dialogflow_commands_sound [OF sample_env_ok(1,2)]) simp

lemma dialogflow_start_capture_data:
  "post (dialogflow_start_capture E fl l p e t h) (\<lambda>(st, h'). tally cb_delta h \<le> tally cb_delta h' \<and>
    tally cb_delta h' \<le> tally cb_delta h + (if st = SWITCH_STATUS_SUCCESS then 1 else 0))"
  by (auto simp: dialogflow_start_capture_def run_simps
      intro!: post_intros post_mono [OF dialogflow_attach_cb] post_mono [OF dialogflow_do_stop_cb])

text \<open>
  No capture data is leaked or destroyed twice: a start that does not succeed leaves as many
  in flight as there were, one that succeeds leaves one more for the attached bug when the session
  stored some.
\<close>

theorem dialogflow_capture_data:
  assumes "dialogflow_start_capture E fl l p e t h = Some (st, h')"
  shows "tally cb_delta h \<le> tally cb_delta h' \<and>
    tally cb_delta h' \<le> tally cb_delta h + (if st = SWITCH_STATUS_SUCCESS then 1 else 0)"
  using postD [OF dialogflow_start_capture_data assms] by simp

theorem dialogflow_capture_data_witness:
  "\<exists>st h'. dialogflow_start_capture sample_env [SMBF_READ_STREAM] None None None None [] = Some (st, h') \<and>
     tally cb_delta h' \<le> (if st = SWITCH_STATUS_SUCCESS then 1 else 0)"
proof -
  obtain st h' where r: "dialogflow_start_capture sample_env [SMBF_READ_STREAM] None None None None [] = Some (st, h')"
    using dialogflow_start_capture_returns [of sample_env "[SMBF_READ_STREAM]" None None None None "[]"]
    unfolding returns_iff by (elim exE conjE) (metis surj_pair)
  show ?thesis using dialogflow_capture_data [OF r] by (intro exI [of _ st] exI [of _ h'] conjI r) simp
qed

end
