(* ===== verification/AudioFork.thy ===== *)
theory AudioFork
  imports Api
begin

text \<open>
  \<open>mod_audio_fork/mod_audio_fork.c\<close>: the API command \<open>uuid_audio_fork\<close> with its start,
  stop, pause, resume, graceful-shutdown and send_text actions, the media bug callback, the event
  handler, and module load and shutdown. The functions of \<open>lws_glue.cpp\<close> the module calls
  are glue calls answered by the environment.
\<close>

section \<open>Constants and glue calls\<close>

definition FORK_BUG_NAME :: string where "FORK_BUG_NAME = ''audio_fork''"
definition EVENT_TRANSCRIPTION :: string where "EVENT_TRANSCRIPTION = ''mod_audio_fork::transcription''"
definition EVENT_TRANSFER :: string where "EVENT_TRANSFER = ''mod_audio_fork::transfer''"
definition EVENT_PLAY_AUDIO :: string where "EVENT_PLAY_AUDIO = ''mod_audio_fork::play_audio''"
definition EVENT_KILL_AUDIO :: string where "EVENT_KILL_AUDIO = ''mod_audio_fork::kill_audio''"
definition EVENT_DISCONNECT :: string where "EVENT_DISCONNECT = ''mod_audio_fork::disconnect''"
definition EVENT_ERROR :: string where "EVENT_ERROR = ''mod_audio_fork::error''"

definition FORK_API_SYNTAX :: string where
  "FORK_API_SYNTAX = ''<uuid> [start | stop | send_text | pause | resume | graceful-shutdown ] [wss-url | path] [mono | mixed | stereo] [8000 | 16000 | 24000 | 32000 | 64000] [metadata]''"

datatype fork_glue =
    Parse_ws_uri string | Ws_host | Ws_path | Ws_port | Ws_ssl_flags
  | Fork_session_init int "string option" int "string option" int int int "string option"
  | Fork_session_cleanup "string option" int
  | Fork_session_pauseresume int
  | Fork_session_graceful_shutdown
  | Fork_session_send_text string
  | Fork_frame | Fork_init | Fork_cleanup

type_synonym fork_env = "fork_glue env"
type_synonym fork_trace = "fork_glue trace"

section \<open>Event handler and media bug callback\<close>

definition fork_responseHandler :: "fork_env \<Rightarrow> string \<Rightarrow> string option \<Rightarrow> fork_trace \<Rightarrow> fork_trace option" where
  "fork_responseHandler E eventName json h = do {
     (_, h) \<leftarrow> ask_status E (Event (Create_subclass eventName)) h;
     h \<leftarrow> exec (Event Set_channel_data) h;
     h \<leftarrow> (case json of Some j \<Rightarrow> exec (Event (Add_body j)) h | None \<Rightarrow> Some h);
     exec (Event Fire) h
   }"

definition fork_capture_callback :: "fork_env \<Rightarrow> abc_type \<Rightarrow> fork_trace \<Rightarrow> (bool \<times> fork_trace) option" where
  "fork_capture_callback E type h = (case type of
     ABC_CLOSE \<Rightarrow> do { (_, h) \<leftarrow> ask_status E (Glue (Fork_session_cleanup None 1)) h; Some (True, h) }
   | ABC_READ \<Rightarrow> ask_bool E (Glue Fork_frame) h
   | _ \<Rightarrow> Some (True, h))"

section \<open>Actions\<close>

definition fork_start_capture ::
  "fork_env \<Rightarrow> bug_flag list \<Rightarrow> string option \<Rightarrow> int \<Rightarrow> string option \<Rightarrow> int \<Rightarrow> int \<Rightarrow> string option \<Rightarrow>
   fork_trace \<Rightarrow> (switch_status \<times> fork_trace) option" where
  "fork_start_capture E flags host port path sampling sslFlags metadata h = do {
     let channels = (if SMBF_STEREO \<in> set flags then 2 else 1);
     (bug, h) \<leftarrow> ask_ptr E (Chan Located (Get_private FORK_BUG_NAME)) h;
     if bug \<noteq> None then Some (SWITCH_STATUS_FALSE, h)
     else do {
       (read_codec, h) \<leftarrow> ask_ptr E (Sess Located (Get_codec ''read'')) h;
       (st, h) \<leftarrow> ask_status E (Chan Located Pre_answer) h;
       if st \<noteq> SWITCH_STATUS_SUCCESS then Some (SWITCH_STATUS_FALSE, h)
       else do {
         _ \<leftarrow> deref read_codec;
         (rate, h) \<leftarrow> ask_int E (Sess Located (Get_codec ''actual_samples_per_second'')) h;
         (st, h) \<leftarrow> ask_status E (Glue (Fork_session_init rate host port path sampling sslFlags channels metadata)) h;
         if st = SWITCH_STATUS_FALSE then Some (SWITCH_STATUS_FALSE, h)
         else do {
           (st, h) \<leftarrow> ask_status E (Bug (Bug_add FORK_BUG_NAME flags)) h;
           if st \<noteq> SWITCH_STATUS_SUCCESS then Some (st, h)
           else do {
             (bug, h) \<leftarrow> ask_ptr E (Bug Bug_handle) h;
             h \<leftarrow> exec (Chan Located (Set_private FORK_BUG_NAME bug)) h;
             Some (SWITCH_STATUS_SUCCESS, h)
           }
         }
       }
     }
   }"

definition fork_do_stop :: "fork_env \<Rightarrow> string option \<Rightarrow> fork_trace \<Rightarrow> (switch_status \<times> fork_trace) option" where
  "fork_do_stop E text h = ask_status E (Glue (Fork_session_cleanup text 0)) h"

definition fork_do_pauseresume :: "fork_env \<Rightarrow> int \<Rightarrow> fork_trace \<Rightarrow> (switch_status \<times> fork_trace) option" where
  "fork_do_pauseresume E pause h = ask_status E (Glue (Fork_session_pauseresume pause)) h"

definition fork_do_graceful_shutdown :: "fork_env \<Rightarrow> fork_trace \<Rightarrow> (switch_status \<times> fork_trace) option" where
  "fork_do_graceful_shutdown E h = ask_status E (Glue Fork_session_graceful_shutdown) h"

definition fork_send_text :: "fork_env \<Rightarrow> string \<Rightarrow> fork_trace \<Rightarrow> (switch_status \<times> fork_trace) option" where
  "fork_send_text E text h = do {
     (bug, h) \<leftarrow> ask_ptr E (Chan Located (Get_private FORK_BUG_NAME)) h;
     if bug \<noteq> None then ask_status E (Glue (Fork_session_send_text text)) h
     else Some (SWITCH_STATUS_FALSE, h)
   }"

section \<open>The API command\<close>

text \<open>The mix type of \<open>start\<close>; \<open>None\<close> is "invalid mix type".\<close>

definition fork_mix_flags :: "string \<Rightarrow> bug_flag list option" where
  "fork_mix_flags mix =
     (if mix = ''mixed'' then Some [SMBF_READ_STREAM, SMBF_WRITE_STREAM]
      else if mix = ''stereo'' then Some [SMBF_READ_STREAM, SMBF_WRITE_STREAM, SMBF_STEREO]
      else if mix = ''mono'' then Some [SMBF_READ_STREAM]
      else None)"

definition fork_sampling :: "string \<Rightarrow> int" where
  "fork_sampling s = (if s = ''16k'' then 16000 else if s = ''8k'' then 8000 else atoi s)"

text \<open>
  The \<open>start\<close> branch. The status is \<open>None\<close> when the branch unlocks the session itself and
  goes to \<open>done\<close> without a reply.
\<close>

definition fork_start ::
  "fork_env \<Rightarrow> string option list \<Rightarrow> nat \<Rightarrow> fork_trace \<Rightarrow> (switch_status option \<times> fork_trace) option" where
  "fork_start E argv argc h = do {
     let metadata = (if argc > 5 then argv ! 5 else None);
     mix \<leftarrow> deref_at argv 3;
     case fork_mix_flags mix of
       None \<Rightarrow> do { h \<leftarrow> exec (Sess Located Rwunlock) h; Some (None, h) }
     | Some flags \<Rightarrow> do {
         rate \<leftarrow> deref_at argv 4;
         let sampling = fork_sampling rate;
         uri \<leftarrow> deref_at argv 2;
         (ok, h) \<leftarrow> ask_bool E (Glue (Parse_ws_uri uri)) h;
         if \<not> ok then Some (Some SWITCH_STATUS_FALSE, h)
         else if c_mod sampling 8000 \<noteq> 0 then Some (Some SWITCH_STATUS_FALSE, h)
         else do {
           (host, h) \<leftarrow> ask_str E (Glue Ws_host) h;
           (port, h) \<leftarrow> ask_int E (Glue Ws_port) h;
           (path, h) \<leftarrow> ask_str E (Glue Ws_path) h;
           (ssl, h) \<leftarrow> ask_int E (Glue Ws_ssl_flags) h;
           (st, h) \<leftarrow> fork_start_capture E flags host port path sampling ssl metadata h;
           Some (Some st, h)
         }
       }
   }"

definition fork_action ::
  "fork_env \<Rightarrow> string option list \<Rightarrow> nat \<Rightarrow> string \<Rightarrow> fork_trace \<Rightarrow> (switch_status option \<times> fork_trace) option" where
  "fork_action E argv argc cmd h =
     (if strcaseeq cmd ''stop'' then do {
        (st, h) \<leftarrow> fork_do_stop E (if argc > 2 then argv ! 2 else None) h; Some (Some st, h) }
      else if strcaseeq cmd ''pause'' then do { (st, h) \<leftarrow> fork_do_pauseresume E 1 h; Some (Some st, h) }
      else if strcaseeq cmd ''resume'' then do { (st, h) \<leftarrow> fork_do_pauseresume E 0 h; Some (Some st, h) }
      else if strcaseeq cmd ''graceful-shutdown'' then do {
        (st, h) \<leftarrow> fork_do_graceful_shutdown E h; Some (Some st, h) }
      else if strcaseeq cmd ''send_text'' then
        (if argc < 3 then do { h \<leftarrow> exec (Sess Located Rwunlock) h; Some (None, h) }
         else do { text \<leftarrow> deref_at argv 2; (st, h) \<leftarrow> fork_send_text E text h; Some (Some st, h) })
      else if strcaseeq cmd ''start'' then fork_start E argv argc h
      else Some (Some SWITCH_STATUS_FALSE, h))"

definition fork_function :: "fork_env \<Rightarrow> string option \<Rightarrow> fork_trace \<Rightarrow> fork_trace option" where
  "fork_function E cmd h = do {
     (toks, h) \<leftarrow> split_command E 6 cmd h;
     let argc = length toks;
     let argv = zero_filled 6 toks;
     _ \<leftarrow> deref cmd;
     usage \<leftarrow> (if zstr E cmd \<or> argc < 2 then Some True
               else do { a1 \<leftarrow> deref_at argv 1; Some (a1 = ''start'' \<and> argc < 4) });
     if usage then exec (Stream_write (usage_text FORK_API_SYNTAX)) h
     else do {
       (found, h) \<leftarrow> ask_bool E (Sess Located (Locate (argv ! 0))) h;
       if found then do {
         a1 \<leftarrow> deref_at argv 1;
         (st, h) \<leftarrow> fork_action E argv argc a1 h;
         case st of
           None \<Rightarrow> Some h
         | Some st \<Rightarrow> do { h \<leftarrow> exec (Sess Located Rwunlock) h; reply st h }
       } else reply SWITCH_STATUS_FALSE h
     }
   }"

section \<open>Load and shutdown\<close>

definition fork_reserved :: "string list" where
  "fork_reserved = [EVENT_TRANSCRIPTION, EVENT_TRANSFER, EVENT_PLAY_AUDIO, EVENT_KILL_AUDIO, EVENT_ERROR, EVENT_DISCONNECT]"

definition mod_audio_fork_load :: "fork_env \<Rightarrow> fork_trace \<Rightarrow> (switch_status \<times> fork_trace) option" where
  "mod_audio_fork_load E h = do {
     (ok, h) \<leftarrow> reserve_all E fork_reserved h;
     if \<not> ok then Some (SWITCH_STATUS_TERM, h)
     else do {
       (_, h) \<leftarrow> ask_status E (Glue Fork_init) h;
       Some (SWITCH_STATUS_SUCCESS, h)
     }
   }"

definition fork_freed :: "string list" where
  "fork_freed = [EVENT_TRANSCRIPTION, EVENT_TRANSFER, EVENT_PLAY_AUDIO, EVENT_KILL_AUDIO, EVENT_DISCONNECT, EVENT_ERROR]"

definition mod_audio_fork_shutdown :: "fork_env \<Rightarrow> fork_trace \<Rightarrow> (switch_status \<times> fork_trace) option" where
  "mod_audio_fork_shutdown E h = do {
     (_, h) \<leftarrow> ask_status E (Glue Fork_cleanup) h;
     h \<leftarrow> free_all fork_freed h;
     Some (SWITCH_STATUS_SUCCESS, h)
   }"

section \<open>The read lock\<close>

lemma fork_start_capture_neutral:
  "post (fork_start_capture E fl ho po pa sa ss me h) (\<lambda>(st, h'). lock_neutral h h')"
  by (auto simp: fork_start_capture_def run_simps lock_neutral_def intro!: post_intros)

lemma fork_send_text_neutral: "post (fork_send_text E text h) (\<lambda>(st, h'). lock_neutral h h')"
  by (auto simp: fork_send_text_def run_simps lock_neutral_def intro!: post_intros)

lemma fork_start_lock: "post (fork_start E argv argc h) (branch_lock h)"
  by (auto simp: fork_start_def run_simps branch_lock_def lock_neutral_def
      intro!: post_intros post_mono [OF fork_start_capture_neutral] split: option.split)

lemma fork_action_lock: "post (fork_action E argv argc cmd h) (branch_lock h)"
  by (auto simp: fork_action_def run_simps fork_do_stop_def fork_do_pauseresume_def fork_do_graceful_shutdown_def
      branch_lock_def lock_neutral_def
      intro!: post_intros post_mono [OF fork_start_lock, unfolded branch_lock_def] post_mono [OF fork_send_text_neutral])

lemma fork_function_lock:
  assumes "lock_run False h = Some False"
  shows "post (fork_function E cmd h) (\<lambda>h'. lock_run False h' = Some False)"
  using assms
  by (auto simp: fork_function_def run_simps lock_neutral_def branch_lock_def reply_def
      intro!: post_intros post_mono [OF fork_action_lock] post_mono [OF split_command_neutral] split: option.splits)

interpretation fork_command: session_command fork_function
  by unfold_locales (rule fork_function_lock)

section \<open>Attaching the bug\<close>

text \<open>The parameters of a start as one value.\<close>

type_synonym fork_start_args =
  "bug_flag list \<times> string option \<times> int \<times> string option \<times> int \<times> int \<times> string option"

fun fork_start_with :: "fork_env \<Rightarrow> fork_start_args \<Rightarrow> fork_trace \<Rightarrow> (switch_status \<times> fork_trace) option" where
  "fork_start_with E (fl, ho, po, pa, sa, ss, me) h = fork_start_capture E fl ho po pa sa ss me h"

lemma fork_start_attaches: "post (fork_start_with E a h) (attached_iff_success FORK_BUG_NAME h)"
  by (cases a) (auto simp: fork_start_capture_def run_simps attached_iff_success_def intro!: post_intros)

interpretation fork_capture: capture_start fork_start_with FORK_BUG_NAME
  by unfold_locales (rule fork_start_attaches)

section \<open>Event subclasses\<close>

lemmas fork_event_defs = EVENT_TRANSCRIPTION_def EVENT_TRANSFER_def EVENT_PLAY_AUDIO_def EVENT_KILL_AUDIO_def
  EVENT_ERROR_def EVENT_DISCONNECT_def

interpretation fork_events: event_subclasses fork_reserved fork_freed
  by unfold_locales (auto simp: fork_reserved_def fork_freed_def fork_event_defs)

section \<open>Definedness\<close>

text \<open>The session has a read codec.\<close>

definition codec_ok :: "fork_env \<Rightarrow> bool" where
  "codec_ok E \<longleftrightarrow> (\<forall>h. ans_ptr E h (Sess Located (Get_codec ''read'')) \<noteq> None)"

text \<open>
  The command lines that do not lead to a read of a NULL entry: a \<open>start\<close> needs its sampling
  rate unless it is rejected before, by the usage test (which looks for the lower-case word) or by
  its mix type.
\<close>

definition fork_args_ok :: "string list \<Rightarrow> bool" where
  "fork_args_ok toks \<longleftrightarrow> length toks < 2 \<or> \<not> strcaseeq (toks ! 1) ''start'' \<or>
     (toks ! 1 = ''start'' \<and> length toks < 4) \<or> 5 \<le> length toks \<or>
     (length toks = 4 \<and> fork_mix_flags (toks ! 3) = None)"

lemma fork_start_capture_returns:
  assumes "codec_ok E"
  shows "returns (fork_start_capture E fl ho po pa sa ss me h) (\<lambda>_. True)"
  using assms by (auto simp: fork_start_capture_def ask_defs codec_ok_def returns_simps)

lemma fork_start_returns:
  assumes "codec_ok E" and "length toks \<le> 6" and "5 \<le> length toks \<or> length toks = 4 \<and> fork_mix_flags (toks ! 3) = None"
  shows "returns (fork_start E (zero_filled 6 toks) (length toks) h) (\<lambda>_. True)"
  using assms(2,3)
  by (auto simp: fork_start_def returns_simps split: option.split
      intro!: returns_deref_at returns_intros returns_mono [OF fork_start_capture_returns [OF assms(1)]])

lemma fork_send_text_returns: "returns (fork_send_text E text h) (\<lambda>_. True)"
  by (auto simp: fork_send_text_def returns_simps intro!: returns_intros)

lemma fork_action_returns:
  assumes "codec_ok E" and "length toks \<le> 6" and "2 \<le> length toks" and "fork_args_ok toks"
    and "\<not> (toks ! 1 = ''start'' \<and> length toks < 4)"
  shows "returns (fork_action E (zero_filled 6 toks) (length toks) (toks ! 1) h) (\<lambda>_. True)"
proof -
  have start: "strcaseeq (toks ! 1) ''start'' \<Longrightarrow> returns (fork_start E (zero_filled 6 toks) (length toks) h) (\<lambda>_. True)"
    using assms by (intro fork_start_returns) (auto simp: fork_args_ok_def)
  show ?thesis
    using assms(2,3) start
    by (auto simp: fork_action_def fork_do_stop_def fork_do_pauseresume_def fork_do_graceful_shutdown_def returns_simps
        intro!: returns_deref_at returns_intros returns_mono [OF fork_send_text_returns])
qed

lemma fork_function_defined:
  assumes "zstr_ok E" and "separate_ok E" and "codec_ok E" and "fork_args_ok (separate E c CHR '' '' 6)"
  shows "returns (fork_function E (Some c) h) (\<lambda>_. True)"
proof -
  let ?toks = "separate E c CHR '' '' 6"
  have len: "length ?toks \<le> 6" using assms(2) by (simp add: separate_ok_def)
  have split: "returns (split_command E 6 (Some c) h) (\<lambda>(toks, h'). toks = [] \<or> toks = ?toks)"
    by (rule returns_mono [OF split_command_returns [OF assms(1)]]) auto
  have action: "returns (fork_action E (zero_filled 6 ?toks) (length ?toks) (?toks ! 1) h1) (\<lambda>_. True)"
    if "\<not> length ?toks < 2" "\<not> (?toks ! 1 = ''start'' \<and> length ?toks < 4)" for h1
    using fork_action_returns [OF assms(3) len _ assms(4)] that by simp
  have a1: "returns (deref_at (zero_filled 6 ?toks) 1) (\<lambda>a. a = ?toks ! 1)" if "\<not> length ?toks < 2"
    using that len by (intro returns_deref_at) simp_all
  show ?thesis
    by (auto simp: fork_function_def returns_simps simp del: One_nat_def split: option.split
        intro!: returns_mono [OF split] returns_intros returns_mono [OF a1] returns_mono [OF action] returns_mono [OF reply_returns])
qed

section \<open>Properties\<close>

lemma fork_load_shutdown_tally:
  assumes "mod_audio_fork_load E h = Some (SWITCH_STATUS_SUCCESS, h1)"
    and "mod_audio_fork_shutdown E' h1 = Some (st, h2)"
  shows "tally (reserve_delta n) h2 = tally (reserve_delta n) h"
proof -
  obtain g1 where r: "reserve_all E fork_reserved h = Some (True, g1)"
    and h1: "h1 = g1 @ [(Glue Fork_init, AStatus (ans_status E g1 (Glue Fork_init)))]"
    using assms(1) by (auto simp: mod_audio_fork_load_def ask_status_def bind_eq_Some_conv split: if_splits)
  let ?g2 = "h1 @ [(Glue Fork_cleanup, AStatus (ans_status E' h1 (Glue Fork_cleanup)))]"
  have f: "free_all fork_freed ?g2 = Some h2"
    using assms(2) by (auto simp: mod_audio_fork_shutdown_def ask_status_def bind_eq_Some_conv)
  show ?thesis
    by (rule fork_events.load_shutdown_balanced [OF r f]) (simp add: h1)
qed

text \<open>
  \<open>uuid_audio_fork\<close> returns on every command line that gives \<open>start\<close> its sampling
  rate (or is rejected before it is read), and ends with the read lock of the session released.
\<close>

theorem fork_command_sound:
  assumes "zstr_ok E" and "separate_ok E" and "codec_ok E" and "fork_args_ok (separate E c CHR '' '' 6)"
    and "lock_run False h = Some False"
  shows "returns (fork_function E (Some c) h) (\<lambda>h'. lock_run False h' = Some False)"
  using fork_function_defined [OF assms(1-4), of h] fork_function_lock [OF assms(5), of E "Some c"]
  by (auto simp: returns_iff)

lemma fork_sample_tokens:
  "split_on CHR '' '' [] ''u start ws://h mono 8k'' = [''u'', ''start'', ''ws://h'', ''mono'', ''8k'']"
  by code_simp

theorem fork_command_sound_witness:
  "returns (fork_function sample_env (Some ''u start ws://h mono 8k'') []) (\<lambda>h'. lock_run False h' = Some False)"
  by (rule fork_command_sound [OF sample_env_ok(1,2)])
    (simp_all add: codec_ok_def sample_answers fork_args_ok_def fork_sample_tokens)

text \<open>
  A \<open>start\<close> with four tokens and a valid mix type passes the usage test, and the code
  then compares the missing sampling rate, a NULL pointer.
\<close>

theorem fork_start_needs_rate:
  assumes "zstr_ok E" and "ans_bool E h (Mem ''strdup'')" and "c \<noteq> []"
    and "separate E c CHR '' '' 6 = [u, ''start'', uri, mix]" and "fork_mix_flags mix = Some flags"
    and "\<And>h. ans_bool E h (Sess Located (Locate (Some u)))"
  shows "fork_function E (Some c) h = None"
proof -
  have cmds: "strcaseeq ''start'' ''start''" "\<not> strcaseeq ''start'' ''stop''" "\<not> strcaseeq ''start'' ''pause''"
    "\<not> strcaseeq ''start'' ''resume''" "\<not> strcaseeq ''start'' ''graceful-shutdown''" "\<not> strcaseeq ''start'' ''send_text''"
    by code_simp+
  show ?thesis
    using assms
    by (simp add: fork_function_def fork_action_def fork_start_def split_command_def ask_bool_def zstr_ok_def deref_at_filled
        cmds zero_filled_in)
qed

theorem fork_start_needs_rate_witness:
  "fork_function sample_env (Some ''u start ws://h mono'') [] = None"
proof -
  have "separate sample_env ''u start ws://h mono'' CHR '' '' 6 = [''u'', ''start'', ''ws://h'', ''mono'']"
    unfolding sample_answers by code_simp
  then show ?thesis
    by (rule fork_start_needs_rate [OF sample_env_ok(1), rotated 2, where flags = "[SMBF_READ_STREAM]"])
      (simp_all add: sample_answers fork_mix_flags_def)
qed

text \<open>
  Over any sequence of starts a media bug is attached, and the channel's slot written, once
  for every start that reported success and never for one that failed.
\<close>

theorem fork_starts_count:
  assumes "run_starts (fork_start_with E) as h = Some (n, h')"
  shows "tally bug_delta h' = tally bug_delta h + int n \<and>
    tally (slot_delta FORK_BUG_NAME) h' = tally (slot_delta FORK_BUG_NAME) h + int n"
  using postD [OF fork_capture.run_starts_counts assms] by simp

theorem fork_starts_count_witness:
  "\<exists>n h'. run_starts (fork_start_with sample_env) [([SMBF_READ_STREAM], None, 80, None, 8000, 0, None)] [] = Some (n, h') \<and>
    tally bug_delta h' = int n"
proof -
  have "returns (run_starts (fork_start_with sample_env) [([SMBF_READ_STREAM], None, 80, None, 8000, 0, None)] []) (\<lambda>_. True)"
    by (auto simp: returns_simps codec_ok_def sample_answers intro!: returns_mono [OF fork_start_capture_returns])
  then obtain n h' where r: "run_starts (fork_start_with sample_env) [([SMBF_READ_STREAM], None, 80, None, 8000, 0, None)] [] = Some (n, h')"
    unfolding returns_iff by (elim exE conjE) (metis surj_pair)
  show ?thesis using fork_starts_count [OF r] by (intro exI [of _ n] exI [of _ h'] conjI r) simp
qed

text \<open>
  Module load reserves six event subclasses and shutdown frees the same six, each once.
\<close>

theorem fork_load_shutdown:
  assumes "mod_audio_fork_load E h = Some (SWITCH_STATUS_SUCCESS, h1)"
    and "mod_audio_fork_shutdown E h1 = Some (st, h2)"
  shows "tally (reserve_delta n) h2 = tally (reserve_delta n) h \<and> st = SWITCH_STATUS_SUCCESS"
  using fork_load_shutdown_tally [OF assms] assms(2)
  by (auto simp: mod_audio_fork_shutdown_def bind_eq_Some_conv)

theorem fork_load_shutdown_witness:
  "\<exists>h1 h2 st. mod_audio_fork_load sample_env [] = Some (SWITCH_STATUS_SUCCESS, h1) \<and>
     mod_audio_fork_shutdown sample_env h1 = Some (st, h2) \<and> tally (reserve_delta EVENT_ERROR) h2 = 0"
proof -
  obtain h1 where l: "mod_audio_fork_load sample_env [] = Some (SWITCH_STATUS_SUCCESS, h1)"
    by (auto simp: mod_audio_fork_load_def fork_reserved_def ask_status_def sample_answers)
  obtain st h2 where s: "mod_audio_fork_shutdown sample_env h1 = Some (st, h2)"
    by (auto simp: mod_audio_fork_shutdown_def fork_freed_def ask_status_def exec_def)
  show ?thesis using fork_load_shutdown [OF l s, of EVENT_ERROR] l s by auto
qed

end
