(* ===== verification/Transcribe.thy ===== *)
theory Transcribe
  imports Api
begin

text \<open>
  \<open>mod_google_transcribe/mod_google_transcribe.c\<close>: the API commands
  \<open>uuid_google_transcribe\<close> and \<open>uuid_google_transcribe2\<close>, the functions that start and
  stop a transcription, the media bug callback, the handler of results, and module load and
  shutdown. The functions of \<open>google_glue.cpp\<close> and of cJSON are glue calls.
\<close>

section \<open>Constants and glue calls\<close>

definition TRANSCRIBE_BUG_NAME :: string where "TRANSCRIBE_BUG_NAME = ''google_transcribe''"
definition TRANSCRIBE_EVENT_RESULTS :: string where "TRANSCRIBE_EVENT_RESULTS = ''google_transcribe::transcription''"
definition TRANSCRIBE_EVENT_END_OF_UTTERANCE :: string where
  "TRANSCRIBE_EVENT_END_OF_UTTERANCE = ''google_transcribe::end_of_utterance''"
definition TRANSCRIBE_EVENT_START_OF_TRANSCRIPT :: string where
  "TRANSCRIBE_EVENT_START_OF_TRANSCRIPT = ''google_transcribe::start_of_transcript''"
definition TRANSCRIBE_EVENT_END_OF_TRANSCRIPT :: string where
  "TRANSCRIBE_EVENT_END_OF_TRANSCRIPT = ''google_transcribe::end_of_transcript''"
definition TRANSCRIBE_EVENT_NO_AUDIO_DETECTED :: string where
  "TRANSCRIBE_EVENT_NO_AUDIO_DETECTED = ''google_transcribe::no_audio_detected''"
definition TRANSCRIBE_EVENT_MAX_DURATION_EXCEEDED :: string where
  "TRANSCRIBE_EVENT_MAX_DURATION_EXCEEDED = ''google_transcribe::max_duration_exceeded''"
definition TRANSCRIBE_EVENT_PLAY_INTERRUPT :: string where
  "TRANSCRIBE_EVENT_PLAY_INTERRUPT = ''google_transcribe::play_interrupt''"
definition TRANSCRIBE_EVENT_VAD_DETECTED :: string where
  "TRANSCRIBE_EVENT_VAD_DETECTED = ''google_transcribe::vad_detected''"
definition TRANSCRIBE_EVENT_ERROR :: string where "TRANSCRIBE_EVENT_ERROR = ''jambonz_transcribe::error''"

definition TRANSCRIBE_API_SYNTAX :: string where
  "TRANSCRIBE_API_SYNTAX = ''<uuid> [start|stop] [lang-code] [interim|full] [stereo|mono] [bug-name]''"
definition TRANSCRIBE2_API_SYNTAX :: string where
  "TRANSCRIBE2_API_SYNTAX = ''<uuid> [start|stop] [lang-code] [interim]  [single-utterance] [seperate-recognition] [max-alternatives] [profinity-filter] [word-time] [punctuation] [model] [enhanced] [hints] [play-file]''"

text \<open>The recognition options a start passes on.\<close>

record speech_options =
  lang :: "string option"
  interim :: bool
  single_utterance :: bool
  separate_recognition :: bool
  max_alternatives :: int
  profanity_filter :: bool
  word_time_offset :: bool
  punctuation :: bool
  model :: "string option"
  enhanced :: bool
  hints :: "string option"
  play_file :: "string option"

datatype transcribe_glue =
    Speech_session_init int int string speech_options
  | Speech_session_cleanup int "nat option"
  | Speech_frame | Speech_init | Speech_cleanup
  | Json_parse string | Json_type

type_synonym transcribe_env = "transcribe_glue env"
type_synonym transcribe_trace = "transcribe_glue trace"

section \<open>Results\<close>

definition transcribe_event :: "transcribe_env \<Rightarrow> string \<Rightarrow> transcribe_trace \<Rightarrow> transcribe_trace option" where
  "transcribe_event E name h = do {
     (_, h) \<leftarrow> ask_status E (Event (Create_subclass name)) h;
     h \<leftarrow> exec (Event Set_channel_data) h;
     exec (Event (Add_header ''transcription-vendor'' ''google'')) h
   }"

definition transcribe_interrupt :: "transcribe_env \<Rightarrow> transcribe_trace \<Rightarrow> transcribe_trace option" where
  "transcribe_interrupt E h = do {
     (st, h) \<leftarrow> ask_status E (Event (Create ''DETECTED_SPEECH'')) h;
     if st = SWITCH_STATUS_SUCCESS then do { (_, h) \<leftarrow> ask_status E (Event Queue) h; Some h }
     else Some h
   }"

definition transcribe_result :: "transcribe_env \<Rightarrow> string \<Rightarrow> transcribe_trace \<Rightarrow> transcribe_trace option" where
  "transcribe_result E json h = do {
     (parsed, h) \<leftarrow> ask_bool E (Glue (Json_parse json)) h;
     (err, h) \<leftarrow> (if parsed then do {
         (ty, h) \<leftarrow> ask_str E (Glue Json_type) h;
         if ty = Some ''error'' then do {
           (_, h) \<leftarrow> ask_status E (Event (Create_subclass TRANSCRIBE_EVENT_ERROR)) h; Some (True, h) }
         else Some (False, h) }
       else Some (False, h));
     h \<leftarrow> (if \<not> err then do {
         (_, h) \<leftarrow> ask_status E (Event (Create_subclass TRANSCRIBE_EVENT_RESULTS)) h; Some h }
       else Some h);
     h \<leftarrow> exec (Event Set_channel_data) h;
     h \<leftarrow> exec (Event (Add_header ''transcription-vendor'' ''google'')) h;
     exec (Event (Add_body json)) h
   }"

definition transcribe_responseHandler ::
  "transcribe_env \<Rightarrow> string \<Rightarrow> string option \<Rightarrow> transcribe_trace \<Rightarrow> transcribe_trace option" where
  "transcribe_responseHandler E json bugname h = do {
     h \<leftarrow> (if json = ''vad_detected'' then transcribe_event E TRANSCRIBE_EVENT_VAD_DETECTED h
       else if json = ''end_of_utterance'' then transcribe_event E TRANSCRIBE_EVENT_END_OF_UTTERANCE h
       else if json = ''end_of_transcript'' then transcribe_event E TRANSCRIBE_EVENT_END_OF_TRANSCRIPT h
       else if json = ''start_of_transcript'' then transcribe_event E TRANSCRIBE_EVENT_START_OF_TRANSCRIPT h
       else if json = ''max_duration_exceeded'' then transcribe_event E TRANSCRIBE_EVENT_MAX_DURATION_EXCEEDED h
       else if json = ''no_audio'' then transcribe_event E TRANSCRIBE_EVENT_NO_AUDIO_DETECTED h
       else if json = ''play_interrupt'' then do {
         h \<leftarrow> transcribe_interrupt E h;
         transcribe_event E TRANSCRIBE_EVENT_PLAY_INTERRUPT h }
       else transcribe_result E json h);
     h \<leftarrow> (case bugname of Some b \<Rightarrow> exec (Event (Add_header ''media-bugname'' b)) h | None \<Rightarrow> Some h);
     exec (Event Fire) h
   }"

definition transcribe_capture_callback ::
  "transcribe_env \<Rightarrow> abc_type \<Rightarrow> nat option \<Rightarrow> string \<Rightarrow> transcribe_trace \<Rightarrow> (bool \<times> transcribe_trace) option" where
  "transcribe_capture_callback E type bug bugname h = (case type of
     ABC_INIT \<Rightarrow> do { h \<leftarrow> transcribe_responseHandler E ''start_of_transcript'' (Some bugname) h; Some (True, h) }
   | ABC_CLOSE \<Rightarrow> do {
       h \<leftarrow> transcribe_responseHandler E ''end_of_transcript'' (Some bugname) h;
       (_, h) \<leftarrow> ask_status E (Glue (Speech_session_cleanup 1 bug)) h;
       Some (True, h) }
   | ABC_READ \<Rightarrow> ask_bool E (Glue Speech_frame) h
   | _ \<Rightarrow> Some (True, h))"

text \<open>Playback stops at the event that \<open>play_interrupt\<close> queues.\<close>

definition transcribe_input_callback :: "bool \<Rightarrow> bool \<Rightarrow> switch_status" where
  "transcribe_input_callback is_event is_detected_speech =
     (if is_event \<and> is_detected_speech then SWITCH_STATUS_BREAK else SWITCH_STATUS_SUCCESS)"

section \<open>Start and stop\<close>

definition transcribe_do_stop :: "transcribe_env \<Rightarrow> string \<Rightarrow> transcribe_trace \<Rightarrow> (switch_status \<times> transcribe_trace) option" where
  "transcribe_do_stop E bugname h = do {
     (bug, h) \<leftarrow> ask_ptr E (Chan Located (Get_private bugname)) h;
     if bug \<noteq> None then ask_status E (Glue (Speech_session_cleanup 0 bug)) h
     else Some (SWITCH_STATUS_SUCCESS, h)
   }"

definition transcribe_stop_previous :: "transcribe_env \<Rightarrow> string \<Rightarrow> transcribe_trace \<Rightarrow> transcribe_trace option" where
  "transcribe_stop_previous E bugname h = do {
     (bug, h) \<leftarrow> ask_ptr E (Chan Located (Get_private bugname)) h;
     if bug \<noteq> None then do { (_, h) \<leftarrow> transcribe_do_stop E bugname h; Some h } else Some h
   }"

text \<open>
  From the read implementation to the attached bug, the same in both start functions but for the
  name given to the bug and to the session.
\<close>

definition transcribe_attach ::
  "transcribe_env \<Rightarrow> bug_flag list \<Rightarrow> string \<Rightarrow> speech_options \<Rightarrow> transcribe_trace \<Rightarrow> (switch_status \<times> transcribe_trace) option" where
  "transcribe_attach E flags bugname opts h = do {
     (iananame, h) \<leftarrow> ask_str E (Sess Located Get_read_impl) h;
     (st, h) \<leftarrow> ask_status E (Chan Located Pre_answer) h;
     if st \<noteq> SWITCH_STATUS_SUCCESS then Some (SWITCH_STATUS_FALSE, h)
     else do {
       iana \<leftarrow> deref iananame;
       (rate, h) \<leftarrow> ask_int E (Sess Located (Get_codec
         (if strcaseeq iana ''g722'' then ''actual_samples_per_second'' else ''samples_per_second''))) h;
       (st, h) \<leftarrow> ask_status E (Glue (Speech_session_init rate (if SMBF_STEREO \<in> set flags then 2 else 1) bugname opts)) h;
       if st = SWITCH_STATUS_FALSE then Some (SWITCH_STATUS_FALSE, h)
       else do {
         (st, h) \<leftarrow> ask_status E (Bug (Bug_add bugname flags)) h;
         if st \<noteq> SWITCH_STATUS_SUCCESS then Some (st, h)
         else do {
           (bug, h) \<leftarrow> ask_ptr E (Bug Bug_handle) h;
           h \<leftarrow> exec (Chan Located (Set_private bugname bug)) h;
           Some (SWITCH_STATUS_SUCCESS, h)
         }
       }
     }
   }"

definition transcribe_start_capture2 ::
  "transcribe_env \<Rightarrow> bug_flag list \<Rightarrow> speech_options \<Rightarrow> transcribe_trace \<Rightarrow> (switch_status \<times> transcribe_trace) option" where
  "transcribe_start_capture2 E flags opts h = do {
     h \<leftarrow> transcribe_stop_previous E TRANSCRIBE_BUG_NAME h;
     (st, h) \<leftarrow> transcribe_attach E flags TRANSCRIBE_BUG_NAME opts h;
     if st \<noteq> SWITCH_STATUS_SUCCESS then Some (st, h)
     else case play_file opts of
       Some f \<Rightarrow> do { (_, h) \<leftarrow> ask_status E (Ivr (Play_file f)) h; Some (SWITCH_STATUS_SUCCESS, h) }
     | None \<Rightarrow> Some (SWITCH_STATUS_SUCCESS, h)
   }"

definition get_true :: "('x, 'm) env_scheme \<Rightarrow> string \<Rightarrow> 'x trace \<Rightarrow> (bool \<times> 'x trace) option" where
  "get_true E name h = do {
     (v, h) \<leftarrow> ask_str E (Chan Located (Get_variable name)) h;
     Some (switch_true E v, h)
   }"

definition transcribe_start_capture ::
  "transcribe_env \<Rightarrow> bug_flag list \<Rightarrow> string option \<Rightarrow> bool \<Rightarrow> string \<Rightarrow> transcribe_trace \<Rightarrow> (switch_status \<times> transcribe_trace) option" where
  "transcribe_start_capture E flags lng itm bugname h = do {
     h \<leftarrow> transcribe_stop_previous E bugname h;
     (su, h) \<leftarrow> get_true E ''GOOGLE_SPEECH_SINGLE_UTTERANCE'' h;
     (sr, h) \<leftarrow> get_true E ''GOOGLE_SPEECH_SEPARATE_RECOGNITION_PER_CHANNEL'' h;
     (ma, h) \<leftarrow> ask_str E (Chan Located (Get_variable ''GOOGLE_SPEECH_MAX_ALTERNATIVES'')) h;
     (pf, h) \<leftarrow> get_true E ''GOOGLE_SPEECH_PROFANITY_FILTER'' h;
     (wt, h) \<leftarrow> get_true E ''GOOGLE_SPEECH_ENABLE_WORD_TIME_OFFSETS'' h;
     (pu, h) \<leftarrow> get_true E ''GOOGLE_SPEECH_ENABLE_AUTOMATIC_PUNCTUATION'' h;
     (mo, h) \<leftarrow> ask_str E (Chan Located (Get_variable ''GOOGLE_SPEECH_MODEL'')) h;
     (en, h) \<leftarrow> get_true E ''GOOGLE_SPEECH_USE_ENHANCED'' h;
     (hi, h) \<leftarrow> ask_str E (Chan Located (Get_variable ''GOOGLE_SPEECH_HINTS'')) h;
     transcribe_attach E flags bugname
       \<lparr> lang = lng, interim = itm, single_utterance = su, separate_recognition = sr,
         max_alternatives = (case ma of Some v \<Rightarrow> atoi v | None \<Rightarrow> 0),
         profanity_filter = pf, word_time_offset = wt, punctuation = pu, model = mo,
         enhanced = en, hints = hi, play_file = None \<rparr> h
   }"

section \<open>The API commands\<close>

text \<open>
  The test before the command runs: a usage message or not. It compares \<open>argv[1]\<close> before it
  looks at \<open>argc\<close>.
\<close>

definition transcribe_usage ::
  "transcribe_env \<Rightarrow> string option \<Rightarrow> string option list \<Rightarrow> nat \<Rightarrow> nat \<Rightarrow> bool option" where
  "transcribe_usage E cmd argv argc start_min =
     (if zstr E cmd then Some True
      else do {
        a1 \<leftarrow> deref_at argv 1;
        Some ((strcaseeq a1 ''stop'' \<and> argc < 2) \<or> (strcaseeq a1 ''start'' \<and> argc < start_min) \<or> zstr E (argv ! 0))
      })"

definition is_true_at :: "string option list \<Rightarrow> nat \<Rightarrow> bool option" where
  "is_true_at argv i = do { a \<leftarrow> deref_at argv i; Some (a = ''true'') }"

definition transcribe2_options :: "string option list \<Rightarrow> nat \<Rightarrow> speech_options option" where
  "transcribe2_options argv argc = do {
     itm \<leftarrow> (if argc > 3 then is_true_at argv 3 else Some False);
     su \<leftarrow> is_true_at argv 4;
     sr \<leftarrow> is_true_at argv 5;
     ma \<leftarrow> deref_at argv 6;
     pf \<leftarrow> is_true_at argv 7;
     wt \<leftarrow> is_true_at argv 8;
     pu \<leftarrow> is_true_at argv 9;
     en \<leftarrow> (if argc > 9 then is_true_at argv 11 else Some False);
     Some \<lparr> lang = argv ! 2, interim = itm, single_utterance = su, separate_recognition = sr,
       max_alternatives = atoi ma, profanity_filter = pf, word_time_offset = wt, punctuation = pu,
       model = (if argc > 9 then argv ! 10 else None), enhanced = en,
       hints = (if argc > 11 then argv ! 12 else None),
       play_file = (if argc > 12 then argv ! 13 else None) \<rparr>
   }"

definition transcribe2_function :: "transcribe_env \<Rightarrow> string option \<Rightarrow> transcribe_trace \<Rightarrow> transcribe_trace option" where
  "transcribe2_function E cmd h = do {
     (toks, h) \<leftarrow> split_command E 20 cmd h;
     let argc = length toks;
     let argv = zero_filled 20 toks;
     usage \<leftarrow> transcribe_usage E cmd argv argc 9;
     if usage then exec (Stream_write (usage_text TRANSCRIBE2_API_SYNTAX)) h
     else do {
       (found, h) \<leftarrow> ask_bool E (Sess Located (Locate (argv ! 0))) h;
       if found then do {
         a1 \<leftarrow> deref_at argv 1;
         (st, h) \<leftarrow> (if strcaseeq a1 ''stop'' then transcribe_do_stop E TRANSCRIBE_BUG_NAME h
           else if strcaseeq a1 ''start'' then do {
             opts \<leftarrow> transcribe2_options argv argc;
             transcribe_start_capture2 E [SMBF_READ_STREAM] opts h }
           else Some (SWITCH_STATUS_FALSE, h));
         h \<leftarrow> exec (Sess Located Rwunlock) h;
         reply st h
       } else reply SWITCH_STATUS_FALSE h
     }
   }"

definition transcribe_start :: "transcribe_env \<Rightarrow> string option list \<Rightarrow> nat \<Rightarrow> transcribe_trace \<Rightarrow> (switch_status \<times> transcribe_trace) option" where
  "transcribe_start E argv argc h = do {
     itm \<leftarrow> (if argc > 3 then do { a \<leftarrow> deref_at argv 3; Some (a = ''interim'') } else Some False);
     bugname \<leftarrow> (if argc > 5 then deref_at argv 5 else Some TRANSCRIBE_BUG_NAME);
     stereo \<leftarrow> (if argc > 4 then do { a \<leftarrow> deref_at argv 4; Some (a = ''stereo'') } else Some False);
     transcribe_start_capture E
       (if stereo then [SMBF_READ_STREAM, SMBF_WRITE_STREAM, SMBF_STEREO] else [SMBF_READ_STREAM])
       (argv ! 2) itm bugname h
   }"

definition transcribe_function :: "transcribe_env \<Rightarrow> string option \<Rightarrow> transcribe_trace \<Rightarrow> transcribe_trace option" where
  "transcribe_function E cmd h = do {
     (toks, h) \<leftarrow> split_command E 6 cmd h;
     let argc = length toks;
     let argv = zero_filled 6 toks;
     usage \<leftarrow> transcribe_usage E cmd argv argc 3;
     if usage then exec (Stream_write (usage_text TRANSCRIBE_API_SYNTAX)) h
     else do {
       (found, h) \<leftarrow> ask_bool E (Sess Located (Locate (argv ! 0))) h;
       if found then do {
         a1 \<leftarrow> deref_at argv 1;
         (st, h) \<leftarrow> (if strcaseeq a1 ''stop'' then do {
             bugname \<leftarrow> (if argc > 2 then deref_at argv 2 else Some TRANSCRIBE_BUG_NAME);
             transcribe_do_stop E bugname h }
           else if strcaseeq a1 ''start'' then transcribe_start E argv argc h
           else Some (SWITCH_STATUS_FALSE, h));
         h \<leftarrow> exec (Sess Located Rwunlock) h;
         reply st h
       } else reply SWITCH_STATUS_FALSE h
     }
   }"

section \<open>Load and shutdown\<close>

definition transcribe_reserved :: "string list" where
  "transcribe_reserved = [TRANSCRIBE_EVENT_RESULTS, TRANSCRIBE_EVENT_END_OF_UTTERANCE,
     TRANSCRIBE_EVENT_START_OF_TRANSCRIPT, TRANSCRIBE_EVENT_END_OF_TRANSCRIPT,
     TRANSCRIBE_EVENT_NO_AUDIO_DETECTED, TRANSCRIBE_EVENT_MAX_DURATION_EXCEEDED,
     TRANSCRIBE_EVENT_PLAY_INTERRUPT]"

definition mod_transcribe_load :: "transcribe_env \<Rightarrow> transcribe_trace \<Rightarrow> (switch_status \<times> transcribe_trace) option" where
  "mod_transcribe_load E h = do {
     (ok, h) \<leftarrow> reserve_all E transcribe_reserved h;
     if \<not> ok then Some (SWITCH_STATUS_TERM, h)
     else do {
       (_, h) \<leftarrow> ask_status E (Glue Speech_init) h;
       Some (SWITCH_STATUS_SUCCESS, h)
     }
   }"

definition transcribe_freed :: "string list" where
  "transcribe_freed = [TRANSCRIBE_EVENT_RESULTS, TRANSCRIBE_EVENT_END_OF_UTTERANCE,
     TRANSCRIBE_EVENT_START_OF_TRANSCRIPT, TRANSCRIBE_EVENT_END_OF_TRANSCRIPT,
     TRANSCRIBE_EVENT_NO_AUDIO_DETECTED, TRANSCRIBE_EVENT_MAX_DURATION_EXCEEDED,
     TRANSCRIBE_EVENT_END_OF_UTTERANCE, TRANSCRIBE_EVENT_PLAY_INTERRUPT]"

definition mod_transcribe_shutdown :: "transcribe_env \<Rightarrow> transcribe_trace \<Rightarrow> (switch_status \<times> transcribe_trace) option" where
  "mod_transcribe_shutdown E h = do {
     (_, h) \<leftarrow> ask_status E (Glue Speech_cleanup) h;
     h \<leftarrow> free_all transcribe_freed h;
     Some (SWITCH_STATUS_SUCCESS, h)
   }"

section \<open>The read lock\<close>

lemma get_true_neutral: "post (get_true E n h) (\<lambda>(b, h'). lock_neutral h h')"
  by (auto simp: get_true_def run_simps lock_neutral_def intro!: post_intros)

lemma transcribe_do_stop_neutral: "post (transcribe_do_stop E b h) (\<lambda>(st, h'). lock_neutral h h')"
  by (auto simp: transcribe_do_stop_def run_simps lock_neutral_def intro!: post_intros)

lemma transcribe_stop_previous_neutral: "post (transcribe_stop_previous E b h) (\<lambda>h'. lock_neutral h h')"
  by (auto simp: transcribe_stop_previous_def run_simps lock_neutral_def
      intro!: post_intros post_mono [OF transcribe_do_stop_neutral])

lemma transcribe_attach_neutral: "post (transcribe_attach E fl b opts h) (\<lambda>(st, h'). lock_neutral h h')"
  by (auto simp: transcribe_attach_def run_simps lock_neutral_def intro!: post_intros)

lemma transcribe_start_capture2_neutral: "post (transcribe_start_capture2 E fl opts h) (\<lambda>(st, h'). lock_neutral h h')"
  by (auto simp: transcribe_start_capture2_def run_simps lock_neutral_def split: option.split
      intro!: post_intros post_mono [OF transcribe_attach_neutral] post_mono [OF transcribe_stop_previous_neutral])

lemma transcribe_start_capture_neutral: "post (transcribe_start_capture E fl l i b h) (\<lambda>(st, h'). lock_neutral h h')"
  by (auto simp: transcribe_start_capture_def run_simps lock_neutral_def
      intro!: post_intros post_mono [OF transcribe_attach_neutral] post_mono [OF transcribe_stop_previous_neutral]
        post_mono [OF get_true_neutral])

lemma transcribe_start_neutral: "post (transcribe_start E argv argc h) (\<lambda>(st, h'). lock_neutral h h')"
  by (auto simp: transcribe_start_def run_simps intro!: post_intros transcribe_start_capture_neutral)

lemma transcribe_function_lock:
  assumes "lock_run False h = Some False"
  shows "post (transcribe_function E cmd h) (\<lambda>h'. lock_run False h' = Some False)"
  using assms
  by (auto simp: transcribe_function_def transcribe_usage_def run_simps lock_neutral_def reply_def
      intro!: post_intros post_mono [OF transcribe_do_stop_neutral] post_mono [OF transcribe_start_neutral]
        post_mono [OF split_command_neutral])

lemma transcribe2_function_lock:
  assumes "lock_run False h = Some False"
  shows "post (transcribe2_function E cmd h) (\<lambda>h'. lock_run False h' = Some False)"
  using assms
  by (auto simp: transcribe2_function_def transcribe_usage_def run_simps lock_neutral_def reply_def
      intro!: post_intros post_mono [OF transcribe_do_stop_neutral] post_mono [OF transcribe_start_capture2_neutral]
        post_mono [OF split_command_neutral] postI [of "transcribe2_options _ _"])

interpretation transcribe_command: session_command transcribe_function
  by unfold_locales (rule transcribe_function_lock)

interpretation transcribe2_command: session_command transcribe2_function
  by unfold_locales (rule transcribe2_function_lock)

section \<open>Attaching the bug\<close>

lemma get_true_bug_neutral: "post (get_true E n h) (\<lambda>(b, h'). bug_neutral k h h')"
  by (auto simp: get_true_def run_simps bug_neutral_def intro!: post_intros)

lemma transcribe_stop_previous_bug_neutral: "post (transcribe_stop_previous E b h) (\<lambda>h'. bug_neutral k h h')"
  by (auto simp: transcribe_stop_previous_def transcribe_do_stop_def run_simps bug_neutral_def intro!: post_intros)

lemma transcribe_attach_attaches: "post (transcribe_attach E fl b opts h) (attached_iff_success b h)"
  by (auto simp: transcribe_attach_def run_simps attached_iff_success_def intro!: post_intros)

lemma transcribe_start_capture2_attaches:
  "post (transcribe_start_capture2 E fl opts h) (attached_iff_success TRANSCRIBE_BUG_NAME h)"
  by (auto simp: transcribe_start_capture2_def run_simps attached_iff_success_def bug_neutral_def split: option.split
      intro!: post_intros post_mono [OF transcribe_attach_attaches] post_mono [OF transcribe_stop_previous_bug_neutral [where k = TRANSCRIBE_BUG_NAME]])

lemma transcribe_start_capture_attaches:
  "post (transcribe_start_capture E fl l i b h) (attached_iff_success b h)"
  by (auto simp: transcribe_start_capture_def run_simps attached_iff_success_def bug_neutral_def
      intro!: post_intros post_mono [OF transcribe_attach_attaches] post_mono [OF transcribe_stop_previous_bug_neutral [where k = b]]
        post_mono [OF get_true_bug_neutral [where k = b]])

fun transcribe2_start_with :: "transcribe_env \<Rightarrow> bug_flag list \<times> speech_options \<Rightarrow> transcribe_trace \<Rightarrow> (switch_status \<times> transcribe_trace) option" where
  "transcribe2_start_with E (fl, opts) h = transcribe_start_capture2 E fl opts h"

fun transcribe_start_with :: "transcribe_env \<Rightarrow> bug_flag list \<times> string option \<times> bool \<Rightarrow> transcribe_trace \<Rightarrow> (switch_status \<times> transcribe_trace) option" where
  "transcribe_start_with E (fl, l, i) h = transcribe_start_capture E fl l i TRANSCRIBE_BUG_NAME h"

interpretation transcribe_capture: capture_start transcribe_start_with TRANSCRIBE_BUG_NAME
  by unfold_locales (auto intro: transcribe_start_capture_attaches)

interpretation transcribe2_capture: capture_start transcribe2_start_with TRANSCRIBE_BUG_NAME
  by unfold_locales (auto intro: transcribe_start_capture2_attaches)

section \<open>Definedness\<close>

text \<open>The read implementation of the session has a name.\<close>

definition impl_ok :: "transcribe_env \<Rightarrow> bool" where
  "impl_ok E \<longleftrightarrow> (\<forall>h. ans_str E h (Sess Located Get_read_impl) \<noteq> None)"

lemma transcribe_attach_returns: "impl_ok E \<Longrightarrow> returns (transcribe_attach E fl b opts h) (\<lambda>_. True)"
  by (auto simp: transcribe_attach_def ask_defs impl_ok_def returns_simps)

lemma transcribe_do_stop_returns: "returns (transcribe_do_stop E b h) (\<lambda>_. True)"
  by (auto simp: transcribe_do_stop_def returns_simps intro!: returns_intros)

lemma transcribe_stop_previous_returns: "returns (transcribe_stop_previous E b h) (\<lambda>_. True)"
  by (auto simp: transcribe_stop_previous_def returns_simps intro!: returns_intros returns_mono [OF transcribe_do_stop_returns])

lemma transcribe_start_capture2_returns: "impl_ok E \<Longrightarrow> returns (transcribe_start_capture2 E fl opts h) (\<lambda>_. True)"
  by (auto simp: transcribe_start_capture2_def returns_simps split: option.split
      intro!: returns_intros returns_mono [OF transcribe_stop_previous_returns] returns_mono [OF transcribe_attach_returns])

lemma transcribe_start_capture_returns: "impl_ok E \<Longrightarrow> returns (transcribe_start_capture E fl l i b h) (\<lambda>_. True)"
proof -
  assume E: "impl_ok E"
  have true: "returns (get_true E n h) (\<lambda>_. True)" for n h
    by (auto simp: get_true_def returns_simps intro!: returns_intros)
  show ?thesis
    by (auto simp: transcribe_start_capture_def returns_simps
        intro!: returns_intros returns_mono [OF true] returns_mono [OF transcribe_stop_previous_returns]
          returns_mono [OF transcribe_attach_returns [OF E]])
qed

lemma is_true_at_returns: "i < length toks \<Longrightarrow> length toks \<le> n \<Longrightarrow> returns (is_true_at (zero_filled n toks) i) (\<lambda>_. True)"
  by (simp add: is_true_at_def deref_at_filled)

text \<open>The options of the second command need twelve arguments; its usage test asks for nine.\<close>

lemma transcribe2_options_defined:
  assumes "length toks \<le> 20" and "9 \<le> length toks"
  shows "transcribe2_options (zero_filled 20 toks) (length toks) \<noteq> None \<longleftrightarrow> 12 \<le> length toks"
proof
  assume "transcribe2_options (zero_filled 20 toks) (length toks) \<noteq> None"
  then show "12 \<le> length toks"
    using assms
    by (auto simp: transcribe2_options_def is_true_at_def deref_at_filled bind_eq_Some_conv split: if_splits)
next
  assume "12 \<le> length toks"
  then show "transcribe2_options (zero_filled 20 toks) (length toks) \<noteq> None"
    using assms(1) by (simp add: transcribe2_options_def is_true_at_def deref_at_filled)
qed

text \<open>
  The command lines on which the commands are defined: at least two tokens, and for the start of
  the second command twelve, or so few that the usage message is printed.
\<close>

definition transcribe2_args_ok :: "string list \<Rightarrow> bool" where
  "transcribe2_args_ok toks \<longleftrightarrow> 2 \<le> length toks \<and>
     (strcaseeq (toks ! 1) ''start'' \<longrightarrow> length toks < 9 \<or> 12 \<le> length toks)"

lemma usage_returns:
  assumes "zstr_ok E" and "2 \<le> length toks" and "length toks \<le> n" and "c \<noteq> []"
  shows "returns (transcribe_usage E (Some c) (zero_filled n toks) (length toks) m)
    (\<lambda>u. u = (strcaseeq (toks ! 1) ''start'' \<and> length toks < m \<or> toks ! 0 = []))"
proof -
  have "zero_filled n toks ! 0 = Some (toks ! 0)" using assms(2,3) by (intro zero_filled_in) linarith+
  then have "\<not> zstr E (Some c)" "zstr E (zero_filled n toks ! 0) \<longleftrightarrow> toks ! 0 = []"
    using assms(1,4) by (simp_all add: zstr_ok_def)
  then show ?thesis using assms(2,3) by (simp add: transcribe_usage_def deref_at_filled)
qed

lemma transcribe_start_returns:
  assumes "impl_ok E" and "length toks \<le> 6"
  shows "returns (transcribe_start E (zero_filled 6 toks) (length toks) h) (\<lambda>_. True)"
  using assms(2)
  by (auto simp: transcribe_start_def returns_simps
      intro!: returns_deref_at returns_mono [OF transcribe_start_capture_returns [OF assms(1)]])

text \<open>Splitting succeeds when the copy of the command does.\<close>

definition copies_ok :: "('x, 'm) env_scheme \<Rightarrow> bool" where
  "copies_ok E \<longleftrightarrow> (\<forall>h. ans_bool E h (Mem ''strdup''))"

lemma split_command_copied:
  assumes "zstr_ok E" and "copies_ok E" and "c \<noteq> []"
  shows "split_command E n (Some c) h = Some (separate E c CHR '' '' n, h @ [(Mem ''strdup'', ABool True)])"
  using assms by (simp add: split_command_def ask_bool_def zstr_ok_def copies_ok_def)

lemma transcribe_function_defined:
  assumes "zstr_ok E" and "separate_ok E" and "copies_ok E" and "impl_ok E" and "c \<noteq> []"
    and "2 \<le> length (separate E c CHR '' '' 6)"
  shows "returns (transcribe_function E (Some c) h) (\<lambda>_. True)"
proof -
  let ?toks = "separate E c CHR '' '' 6"
  have len: "length ?toks \<le> 6" using assms(2) by (simp add: separate_ok_def)
  have a1: "returns (deref_at (zero_filled 6 ?toks) 1) (\<lambda>a. a = ?toks ! 1)"
    using assms(6) len by (intro returns_deref_at) simp_all
  have a2: "returns (deref_at (zero_filled 6 ?toks) 2) (\<lambda>_. True)" if "2 < length ?toks"
    using that len by (intro returns_deref_at) simp_all
  show ?thesis
    by (auto simp: transcribe_function_def split_command_copied [OF assms(1,3,5)] returns_simps simp del: One_nat_def
        intro!: returns_mono [OF usage_returns [OF assms(1,6) len assms(5)]] returns_intros returns_mono [OF a1]
          returns_mono [OF a2] returns_mono [OF transcribe_do_stop_returns] returns_mono [OF reply_returns]
          returns_mono [OF transcribe_start_returns [OF assms(4) len]])
qed

lemma transcribe2_function_defined:
  assumes "zstr_ok E" and "separate_ok E" and "copies_ok E" and "impl_ok E" and "c \<noteq> []"
    and "transcribe2_args_ok (separate E c CHR '' '' 20)"
  shows "returns (transcribe2_function E (Some c) h) (\<lambda>_. True)"
proof -
  let ?toks = "separate E c CHR '' '' 20"
  have len: "length ?toks \<le> 20" "2 \<le> length ?toks" using assms(2,6) by (simp_all add: separate_ok_def transcribe2_args_ok_def)
  have a1: "returns (deref_at (zero_filled 20 ?toks) 1) (\<lambda>a. a = ?toks ! 1)"
    using len by (intro returns_deref_at) simp_all
  have opts: "returns (transcribe2_options (zero_filled 20 ?toks) (length ?toks)) (\<lambda>_. True)"
    if "strcaseeq (?toks ! 1) ''start''" "\<not> length ?toks < 9"
    using transcribe2_options_defined [of ?toks] assms(6) len(1) that by (auto simp: transcribe2_args_ok_def returns_iff)
  show ?thesis
    by (auto simp: transcribe2_function_def split_command_copied [OF assms(1,3,5)] returns_simps simp del: One_nat_def
        intro!: returns_mono [OF usage_returns [OF assms(1) len(2,1) assms(5)]] returns_intros returns_mono [OF a1]
          returns_mono [OF opts] returns_mono [OF transcribe_do_stop_returns] returns_mono [OF reply_returns]
          returns_mono [OF transcribe_start_capture2_returns [OF assms(4)]])
qed

text \<open>A command line with one token: \<open>argv[1]\<close> is compared before the count is looked at.\<close>

lemma transcribe_one_token:
  assumes "zstr_ok E" and "copies_ok E" and "c \<noteq> []" and "length (separate E c CHR '' '' 6) = 1"
  shows "transcribe_function E (Some c) h = None"
  using assms
  by (simp add: transcribe_function_def split_command_copied transcribe_usage_def deref_at_filled zstr_ok_def)

text \<open>Nine to eleven arguments pass the usage test of the second command and are not enough.\<close>

lemma transcribe2_too_few:
  assumes "zstr_ok E" and "separate_ok E" and "copies_ok E" and "c \<noteq> []"
    and "\<And>h u. ans_bool E h (Sess Located (Locate u))"
    and "9 \<le> length (separate E c CHR '' '' 20)" and "length (separate E c CHR '' '' 20) < 12"
    and "strcaseeq (separate E c CHR '' '' 20 ! 1) ''start''" and "separate E c CHR '' '' 20 ! 0 \<noteq> []"
  shows "transcribe2_function E (Some c) h = None"
proof -
  let ?toks = "separate E c CHR '' '' 20"
  have u: "transcribe_usage E (Some c) (zero_filled 20 ?toks) (length ?toks) 9 = Some False"
    using usage_returns [of E ?toks 20 c 9] assms(1,4,6,7,9) by (auto simp: returns_iff)
  have o: "transcribe2_options (zero_filled 20 ?toks) (length ?toks) = None"
    using transcribe2_options_defined [of ?toks] assms(6,7) by auto
  have "\<not> strcaseeq (?toks ! 1) ''stop''"
    using assms(8) by (auto simp: strcaseeq_def)
  then show ?thesis
    using u o assms(5,6,7,8)
    by (simp add: transcribe2_function_def split_command_copied [OF assms(1,3,4)] ask_bool_def deref_at_filled)
qed

section \<open>Properties\<close>

text \<open>
  \<open>uuid_google_transcribe\<close> returns on every command line of two tokens or more, and ends
  with the read lock of the session released.
\<close>

theorem transcribe_command_sound:
  assumes "zstr_ok E" and "separate_ok E" and "copies_ok E" and "impl_ok E" and "c \<noteq> []"
    and "2 \<le> length (separate E c CHR '' '' 6)" and "lock_run False h = Some False"
  shows "returns (transcribe_function E (Some c) h) (\<lambda>h'. lock_run False h' = Some False)"
  using transcribe_function_defined [OF assms(1-6), of h] transcribe_function_lock [OF assms(7), of E "Some c"]
  by (auto simp: returns_iff)

lemma transcribe_sample_ok: "copies_ok (sample_env :: transcribe_env)" "impl_ok sample_env"
  by (simp_all add: copies_ok_def impl_ok_def sample_answers)

theorem transcribe_command_sound_witness:
  "returns (transcribe_function sample_env (Some ''u start en-US'') []) (\<lambda>h'. lock_run False h' = Some False)"
proof (rule transcribe_command_sound [OF sample_env_ok(1,2) transcribe_sample_ok])
  show "2 \<le> length (separate (sample_env :: transcribe_env) ''u start en-US'' CHR '' '' 6)"
    unfolding sample_answers by code_simp
qed simp_all

text \<open>
  \<open>uuid_google_transcribe2\<close> returns, with the lock released, on every command line of two
  tokens or more whose \<open>start\<close> has fewer than nine or at least twelve of them.
\<close>

theorem transcribe2_command_sound:
  assumes "zstr_ok E" and "separate_ok E" and "copies_ok E" and "impl_ok E" and "c \<noteq> []"
    and "transcribe2_args_ok (separate E c CHR '' '' 20)" and "lock_run False h = Some False"
  shows "returns (transcribe2_function E (Some c) h) (\<lambda>h'. lock_run False h' = Some False)"
  using transcribe2_function_defined [OF assms(1-6), of h] transcribe2_function_lock [OF assms(7), of E "Some c"]
  by (auto simp: returns_iff)

theorem transcribe2_command_sound_witness:
  "returns (transcribe2_function sample_env (Some ''u start a b c d e f g h i j'') []) (\<lambda>h'. lock_run False h' = Some False)"
proof (rule transcribe2_command_sound [OF sample_env_ok(1,2) transcribe_sample_ok])
  show "transcribe2_args_ok (separate (sample_env :: transcribe_env) ''u start a b c d e f g h i j'' CHR '' '' 20)"
    unfolding sample_answers by code_simp
qed simp_all

text \<open>
  A \<open>start\<close> of \<open>uuid_google_transcribe2\<close> with nine to eleven tokens passes the usage
  test, which asks for nine, and then reads arguments that are not there.
\<close>

theorem transcribe2_needs_twelve:
  assumes "zstr_ok E" and "separate_ok E" and "copies_ok E" and "c \<noteq> []"
    and "\<And>h u. ans_bool E h (Sess Located (Locate u))"
    and "9 \<le> length (separate E c CHR '' '' 20)" and "length (separate E c CHR '' '' 20) < 12"
    and "strcaseeq (separate E c CHR '' '' 20 ! 1) ''start''" and "separate E c CHR '' '' 20 ! 0 \<noteq> []"
  shows "transcribe2_function E (Some c) h = None"
  using assms by (rule transcribe2_too_few)

theorem transcribe2_needs_twelve_witness:
  "transcribe2_function sample_env (Some ''u start a b c d e f g'') [] = None"
proof -
  have toks: "separate (sample_env :: transcribe_env) ''u start a b c d e f g'' CHR '' '' 20 =
    [''u'', ''start'', ''a'', ''b'', ''c'', ''d'', ''e'', ''f'', ''g'']"
    unfolding sample_answers by code_simp
  show ?thesis
    by (rule transcribe2_needs_twelve [OF sample_env_ok(1,2) transcribe_sample_ok(1)]) (simp_all add: toks sample_answers)
qed

text \<open>
  With a single token the command word is compared although it is NULL: the usage test that
  should reject the line is itself undefined on it.
\<close>

lemma transcribe_needs_two:
  assumes "zstr_ok E" and "copies_ok E" and "c \<noteq> []" and "length (separate E c CHR '' '' 6) = 1"
  shows "transcribe_function E (Some c) h = None"
  using assms by (rule transcribe_one_token)

lemma transcribe_needs_two_witness: "transcribe_function sample_env (Some ''u'') [] = None"
  by (rule transcribe_needs_two [OF sample_env_ok(1) transcribe_sample_ok(1)]) (simp_all add: sample_answers)

lemma transcribe_freed_count:
  "int (count_list transcribe_reserved n) - int (count_list transcribe_freed n) =
   (if n = TRANSCRIBE_EVENT_END_OF_UTTERANCE then -1 else 0)"
  by (simp add: transcribe_reserved_def transcribe_freed_def)

text \<open>
  Load and shutdown do not balance: shutdown frees \<open>end_of_utterance\<close> twice, and every other
  event name exactly as often as load reserved it.
\<close>

theorem transcribe_load_shutdown:
  assumes "mod_transcribe_load E h = Some (SWITCH_STATUS_SUCCESS, h1)"
    and "mod_transcribe_shutdown E h1 = Some (st, h2)"
  shows "tally (reserve_delta n) h2 =
    tally (reserve_delta n) h + (if n = TRANSCRIBE_EVENT_END_OF_UTTERANCE then -1 else 0)"
proof -
  obtain g1 where r: "reserve_all E transcribe_reserved h = Some (True, g1)"
    and h1: "h1 = g1 @ [(Glue Speech_init, AStatus (ans_status E g1 (Glue Speech_init)))]"
    using assms(1) by (auto simp: mod_transcribe_load_def ask_status_def bind_eq_Some_conv split: if_splits)
  have f: "free_all transcribe_freed (h1 @ [(Glue Speech_cleanup, AStatus (ans_status E h1 (Glue Speech_cleanup)))]) = Some h2"
    using assms(2) by (auto simp: mod_transcribe_shutdown_def ask_status_def bind_eq_Some_conv)
  show ?thesis
    using postD [OF reserve_all_tally r, of n] postD [OF free_all_tally f, of n] transcribe_freed_count [of n]
    by (simp add: h1)
qed

theorem transcribe_load_shutdown_witness:
  "\<exists>h1 h2 st. mod_transcribe_load sample_env [] = Some (SWITCH_STATUS_SUCCESS, h1) \<and>
     mod_transcribe_shutdown sample_env h1 = Some (st, h2) \<and>
     tally (reserve_delta TRANSCRIBE_EVENT_END_OF_UTTERANCE) h2 = -1"
proof -
  obtain h1 where l: "mod_transcribe_load sample_env [] = Some (SWITCH_STATUS_SUCCESS, h1)"
    by (auto simp: mod_transcribe_load_def transcribe_reserved_def ask_status_def sample_answers)
  obtain st h2 where s: "mod_transcribe_shutdown sample_env h1 = Some (st, h2)"
    by (auto simp: mod_transcribe_shutdown_def transcribe_freed_def ask_status_def exec_def)
  show ?thesis using transcribe_load_shutdown [OF l s, of TRANSCRIBE_EVENT_END_OF_UTTERANCE] l s by auto
qed

end
