(* ===== verification/Settings.thy ===== *)
theory Settings
  imports CString
begin

text \<open>
  The contract of a settings block that is filled one name and value at a time: an entry for a name
  replaces the earlier one for the same name, and entries for different names do not disturb each
  other. Its client is a list of entries applied in order: an entry that a later one overrides can
  be left out.
\<close>

locale keyed_settings =
  fixes set_entry :: "'k \<Rightarrow> 'v \<Rightarrow> 's \<Rightarrow> 's" and same :: "'k \<Rightarrow> 'k \<Rightarrow> bool"
  assumes overwrite: "same k k' \<Longrightarrow> set_entry k' w (set_entry k v s) = set_entry k' w s"
    and commute: "\<not> same k k' \<Longrightarrow> set_entry k' w (set_entry k v s) = set_entry k v (set_entry k' w s)"
begin

definition entries :: "('k \<times> 'v) list \<Rightarrow> 's \<Rightarrow> 's" where
  "entries es s = foldl (\<lambda>s (k, v). set_entry k v s) s es"

lemma entries_Nil [simp]: "entries [] s = s"
  by (simp add: entries_def)

lemma entries_Cons [simp]: "entries ((k, v) # es) s = entries es (set_entry k v s)"
  by (simp add: entries_def)

lemma entries_append [simp]: "entries (es @ fs) s = entries fs (entries es s)"
  by (simp add: entries_def)

lemma entries_override:
  "\<exists>e\<in>set es. same k (fst e) \<Longrightarrow> entries es (set_entry k v s) = entries es s"
proof (induction es arbitrary: s)
  case (Cons e es)
  obtain k' w where e: "e = (k', w)" by (cases e)
  show ?case
  proof (cases "same k k'")
    case True
    then show ?thesis by (simp add: e overwrite)
  next
    case False
    then have "\<exists>e\<in>set es. same k (fst e)" using Cons.prems by (simp add: e)
    from Cons.IH [OF this] show ?thesis using False by (simp add: e commute)
  qed
qed simp

lemma entries_drop_overridden:
  "\<exists>e\<in>set fs. same k (fst e) \<Longrightarrow> entries (es @ (k, v) # fs) s = entries (es @ fs) s"
  by (simp add: entries_override)

end

end
