(* ===== verification/Amd.thy ===== *)
theory Amd
  imports Switch Settings
begin

text \<open>
  \<open>AMD/mod_amd.c\<close>: answering machine detection. A media bug feeds every frame of audio to
  \<open>amd_function\<close>, which classifies it as noise or silence, counts bursts of noise and decides
  person, machine or unsure; the application \<open>waitforresult\<close> polls for the verdict. The
  settings come from \<open>amd.conf\<close> and from the arguments of \<open>voice_start\<close>.

  Debug logging, and the reads of the clock made only for it, are left out. Times are 64-bit
  microseconds in the code and unbounded integers here.
\<close>

section \<open>State\<close>

datatype amd_status = AMD_STATUS_UNKNOWN | AMD_STATUS_PERSON | AMD_STATUS_MACHINE

datatype amd_result =
    AMD_RESULT_TOO_LONG | AMD_RESULT_MAX_COUNT | AMD_RESULT_MAX_INTRO
  | AMD_RESULT_SILENT_INITIAL | AMD_RESULT_SILENT_AFTER_INTRO

definition STATE_NONE :: int where "STATE_NONE = -1"
definition STATE_SILENT :: int where "STATE_SILENT = 0"
definition STATE_NOISE :: int where "STATE_NOISE = 1"

record amd_settings =
  silent_threshold :: int
  silent_initial :: int
  silent_after_intro :: int
  silent_max_session :: int
  noise_max_intro :: int
  noise_min_length :: int
  noise_inter_silence :: int
  noise_max_count :: int
  total_analysis_time :: int
  as_debug :: int

text \<open>\<open>amd_result\<close> is \<open>None\<close> while the field holds none of the named values.\<close>

record amd_helper =
  settings :: amd_settings
  state :: int
  state_silent_initial :: int
  state_intro :: int
  complete :: int
  ah_status :: amd_status
  ah_result :: "amd_result option"
  total_time :: int
  total_noise_count :: int
  total_call_time :: int
  talking_min :: int
  end_session :: int
  last_noisy :: int
  last_silent :: int
  first_noisy :: int
  first_silent :: int
  intro_silent :: int
  samples_counted :: int
  frame_count :: int
  noisy_frames :: int
  silent_frames :: int
  hangover_hits :: "32 word"
  hangunder_hits :: "32 word"
  wait_for_answer :: int

datatype amd_glue =
    Epoch_seconds                      \<comment> \<open>time(NULL)\<close>
  | Handle_complete                    \<comment> \<open>ah->complete, set by the media thread\<close>

type_synonym amd_env = "amd_glue env"
type_synonym amd_trace = "amd_glue trace"

definition AMD_EVENT :: string where "AMD_EVENT = ''AMD::EVENT''"

section \<open>The energy of a frame\<close>

text \<open>
  The loop over the samples: \<open>fdata\<close> is the whole buffer behind the frame, read at
  \<open>j\<close>, which advances by the number of channels.
\<close>

fun amd_energy :: "int list \<Rightarrow> nat \<Rightarrow> nat \<Rightarrow> nat \<Rightarrow> int \<Rightarrow> int option" where
  "amd_energy fdata ch 0 j energy = Some energy"
| "amd_energy fdata ch (Suc n) j energy = do {
     x \<leftarrow> arr fdata j;
     amd_energy fdata ch n (j + ch) (energy + \<bar>x\<bar>)
   }"

text \<open>
  \<open>score >= as->silent_threshold\<close> for \<open>score = energy / samples\<close> in double. The energy and
  the threshold are integers, the score of 16-bit samples is at most 32768 and there are fewer than
  \<open>2 ^ 31\<close> samples, so the comparison of the rounded quotient is the exact one; with no samples
  the score is NaN and the comparison fails.
\<close>

definition score_ge :: "int \<Rightarrow> int \<Rightarrow> int \<Rightarrow> bool" where
  "score_ge energy samples threshold \<longleftrightarrow> 0 < samples \<and> threshold * samples \<le> energy"

definition score_diff :: "int \<Rightarrow> int \<Rightarrow> int \<Rightarrow> nat" where
  "score_diff energy samples threshold = nat ((energy - threshold * samples) div samples)"

section \<open>The detector\<close>

definition now :: "amd_env \<Rightarrow> amd_trace \<Rightarrow> (int \<times> amd_trace) option" where
  "now E h = ask_int E Time_now h"

text \<open>\<open>(switch_micro_time_now() - since)/1000 >= limit\<close>.\<close>

definition elapsed :: "amd_env \<Rightarrow> int \<Rightarrow> int \<Rightarrow> amd_trace \<Rightarrow> (bool \<times> amd_trace) option" where
  "elapsed E since limit h = do { (t, h) \<leftarrow> now E h; Some (limit \<le> c_div (t - since) 1000, h) }"

definition amd_event :: "amd_env \<Rightarrow> string \<Rightarrow> amd_trace \<Rightarrow> amd_trace option" where
  "amd_event E action h = do {
     (st, h) \<leftarrow> ask_status E (Event (Create_subclass AMD_EVENT)) h;
     if st = SWITCH_STATUS_SUCCESS then do {
       h \<leftarrow> exec (Event Set_channel_data) h;
       h \<leftarrow> exec (Event (Add_header ''Action'' action)) h;
       exec (Event Fire) h
     } else Some h
   }"

text \<open>
  Where the code waits for the session to end: return with the verdict when \<open>end_session\<close>
  has reached its limit, else add to it. The first component tells whether the function returned.
\<close>

definition amd_end_session :: "amd_env \<Rightarrow> amd_helper \<Rightarrow> amd_trace \<Rightarrow> (bool \<times> amd_helper \<times> amd_trace) option" where
  "amd_end_session E ah h =
     (if silent_max_session (settings ah) \<le> end_session ah then Some (True, ah, h)
      else do {
        (t, h) \<leftarrow> now E h;
        Some (False, ah\<lparr> end_session := end_session ah + c_div (t - last_noisy ah) 1000 \<rparr>, h)
      })"

text \<open>The counters and the check of the total time.\<close>

definition amd_prologue :: "amd_env \<Rightarrow> amd_helper \<Rightarrow> nat \<Rightarrow> amd_trace \<Rightarrow> (bool \<times> amd_helper \<times> amd_trace) option" where
  "amd_prologue E ah len h = do {
     sc \<leftarrow> add32 (samples_counted ah) (int (len div 2));
     fc \<leftarrow> add32 (frame_count ah) 1;
     let ah = ah\<lparr> samples_counted := sc, frame_count := fc, total_time := to_int32 (total_time ah + int len) \<rparr>;
     if total_analysis_time (settings ah) \<le> c_div (total_time ah) 1000 then
       amd_end_session E (ah\<lparr> ah_result := Some AMD_RESULT_TOO_LONG, ah_status := AMD_STATUS_UNKNOWN \<rparr>) h
     else Some (False, ah, h)
   }"

text \<open>A frame of noise long enough to count: the block under \<open>talking_min == 1\<close>.\<close>

definition amd_burst :: "amd_env \<Rightarrow> amd_helper \<Rightarrow> amd_trace \<Rightarrow> (bool \<times> amd_helper \<times> amd_trace) option" where
  "amd_burst E ah h = do {
     (gap, h) \<leftarrow> elapsed E (last_silent ah) (noise_inter_silence (settings ah)) h;
     ah \<leftarrow> (if gap then do { n \<leftarrow> add32 (total_noise_count ah) 1; Some (ah\<lparr> total_noise_count := n \<rparr>) } else Some ah);
     let ah = ah\<lparr> talking_min := 0 \<rparr>;
     let ah = (if state_silent_initial ah = 1 then ah\<lparr> state_silent_initial := 0, state_intro := 1 \<rparr> else ah);
     if noise_max_count (settings ah) \<le> total_noise_count ah then
       Some (True, ah\<lparr> ah_result := Some AMD_RESULT_MAX_COUNT, ah_status := AMD_STATUS_MACHINE \<rparr>, h)
     else Some (False, ah, h)
   }"

text \<open>The block under \<open>state_intro == 1\<close>.\<close>

definition amd_intro :: "amd_env \<Rightarrow> amd_helper \<Rightarrow> amd_trace \<Rightarrow> (bool \<times> amd_helper \<times> amd_trace) option" where
  "amd_intro E ah h = do {
     (t, h) \<leftarrow> now E h;
     let ah = ah\<lparr> intro_silent := t \<rparr>;
     (long, h) \<leftarrow> elapsed E (last_silent ah) (noise_max_intro (settings ah)) h;
     if long then
       Some (True, ah\<lparr> ah_result := Some AMD_RESULT_MAX_COUNT, ah_status := AMD_STATUS_MACHINE \<rparr>, h)
     else do {
       (long, h) \<leftarrow> elapsed E (last_noisy ah) (noise_max_intro (settings ah)) h;
       if long then
         amd_end_session E (ah\<lparr> ah_result := Some AMD_RESULT_MAX_INTRO, ah_status := AMD_STATUS_MACHINE \<rparr>) h
       else Some (False, ah, h)
     }
   }"

definition amd_noisy :: "amd_env \<Rightarrow> amd_helper \<Rightarrow> nat \<Rightarrow> amd_trace \<Rightarrow> (bool \<times> amd_helper \<times> amd_trace) option" where
  "amd_noisy E ah diff h = do {
     let ah = (if hangover_hits ah \<noteq> 0 then ah\<lparr> hangover_hits := hangover_hits ah - 1 \<rparr> else ah);
     let (pass, ah) = (if 400 \<le> diff then (True, ah)
       else (let n = hangunder_hits ah + 1 in (0 \<le> n, ah\<lparr> hangunder_hits := n \<rparr>)));
     if \<not> pass then Some (False, ah, h)
     else do {
       let ah = ah\<lparr> hangover_hits := 0, hangunder_hits := 0 \<rparr>;
       (ah, h) \<leftarrow> (if state ah = 0 then do {
           let ah = ah\<lparr> state := STATE_NOISE \<rparr>;
           (t, h) \<leftarrow> now E h;
           h \<leftarrow> amd_event E ''start-talking'' h;
           Some (ah\<lparr> first_noisy := t \<rparr>, h) }
         else Some (ah, h));
       (long, h) \<leftarrow> elapsed E (first_noisy ah) (noise_min_length (settings ah)) h;
       if \<not> long then Some (False, ah, h)
       else do {
         (ret, ah, h) \<leftarrow> (if talking_min ah = 1 then amd_burst E ah h else Some (False, ah, h));
         if ret then Some (True, ah, h)
         else if state_intro ah = 1 then amd_intro E ah h
         else Some (False, ah, h)
       }
     }
   }"

text \<open>The end of a noise: the first part of the block of a silent frame.\<close>

definition amd_stop_talking :: "amd_env \<Rightarrow> amd_helper \<Rightarrow> amd_trace \<Rightarrow> (amd_helper \<times> amd_trace) option" where
  "amd_stop_talking E ah h = do {
     let ah = (if hangunder_hits ah \<noteq> 0 then ah\<lparr> hangunder_hits := hangunder_hits ah - 1 \<rparr> else ah);
     if state ah = STATE_NOISE then do {
       let ah = ah\<lparr> hangover_hits := hangover_hits ah + 1 \<rparr>;
       if 0 \<le> hangover_hits ah then do {
         let ah = ah\<lparr> hangover_hits := 0, hangunder_hits := 0, state := STATE_SILENT \<rparr>;
         (t, h) \<leftarrow> now E h;
         h \<leftarrow> amd_event E ''stop-talking'' h;
         h \<leftarrow> (if state_silent_initial ah = 1 then do { (_, h) \<leftarrow> now E h; Some h } else Some h);
         Some (ah\<lparr> first_silent := t \<rparr>, h)
       } else Some (ah, h) }
     else Some (ah, h)
   }"

text \<open>The initial silence has lasted, and the silence after the intro.\<close>

definition amd_initial_silence :: "amd_env \<Rightarrow> amd_helper \<Rightarrow> amd_trace \<Rightarrow> (bool \<times> amd_helper \<times> amd_trace) option" where
  "amd_initial_silence E ah h = do {
     (person, h) \<leftarrow> (if first_silent ah \<noteq> 0 \<and> state_silent_initial ah = 1
       then elapsed E (first_silent ah) (silent_initial (settings ah)) h else Some (False, h));
     if person
     then amd_end_session E (ah\<lparr> ah_result := Some AMD_RESULT_SILENT_INITIAL, ah_status := AMD_STATUS_PERSON \<rparr>) h
     else Some (False, ah, h)
   }"

definition amd_silence_after_intro :: "amd_env \<Rightarrow> amd_helper \<Rightarrow> amd_trace \<Rightarrow> (bool \<times> amd_helper \<times> amd_trace) option" where
  "amd_silence_after_intro E ah h = do {
     (after, h) \<leftarrow> (if state_intro ah = 1
       then elapsed E (intro_silent ah) (silent_after_intro (settings ah)) h else Some (False, h));
     if after then Some (True, ah\<lparr> state_intro := 0, ah_result := Some AMD_RESULT_SILENT_AFTER_INTRO,
                                   ah_status := AMD_STATUS_PERSON \<rparr>, h)
     else Some (False, ah, h)
   }"

definition amd_silent :: "amd_env \<Rightarrow> amd_helper \<Rightarrow> amd_trace \<Rightarrow> (bool \<times> amd_helper \<times> amd_trace) option" where
  "amd_silent E ah h = do {
     (ah, h) \<leftarrow> amd_stop_talking E ah h;
     (ret, ah, h) \<leftarrow> amd_initial_silence E ah h;
     if ret then Some (True, ah, h) else amd_silence_after_intro E ah h
   }"

definition amd_epilogue :: "amd_env \<Rightarrow> amd_helper \<Rightarrow> amd_trace \<Rightarrow> (amd_helper \<times> amd_trace) option" where
  "amd_epilogue E ah h =
     (if state ah = STATE_NOISE then do {
        n \<leftarrow> add32 (noisy_frames ah) 1;
        (t, h) \<leftarrow> now E h;
        Some (ah\<lparr> noisy_frames := n, last_noisy := t \<rparr>, h)
      } else do {
        n \<leftarrow> add32 (silent_frames ah) 1;
        (t, h) \<leftarrow> now E h;
        let ah = ah\<lparr> silent_frames := n, last_silent := t, talking_min := 1 \<rparr>;
        if first_silent ah = 0 then do { (t, h) \<leftarrow> now E h; Some (ah\<lparr> first_silent := t \<rparr>, h) }
        else Some (ah, h)
      })"

definition amd_function ::
  "amd_env \<Rightarrow> amd_helper \<Rightarrow> int list \<Rightarrow> nat \<Rightarrow> amd_trace \<Rightarrow> (switch_status \<times> amd_helper \<times> amd_trace) option" where
  "amd_function E ah fdata len h = do {
     (codec, h) \<leftarrow> ask_ptr E (Sess Caller (Get_codec ''read'')) h;
     let samples = len div 2;
     (ch, h) \<leftarrow> (if 0 < samples then do { _ \<leftarrow> deref codec; ask_int E (Sess Caller (Get_codec ''number_of_channels'')) h }
                else Some (0, h));
     energy \<leftarrow> amd_energy fdata (nat ch) samples 0 0;
     (ret, ah, h) \<leftarrow> amd_prologue E ah len h;
     if ret then Some (SWITCH_STATUS_FALSE, ah, h)
     else do {
       let thr = silent_threshold (settings ah);
       (ret, ah, h) \<leftarrow> (if score_ge energy (int samples) thr
         then amd_noisy E ah (score_diff energy (int samples) thr) h else amd_silent E ah h);
       if ret then Some (SWITCH_STATUS_FALSE, ah, h)
       else do { (ah, h) \<leftarrow> amd_epilogue E ah h; Some (SWITCH_STATUS_SUCCESS, ah, h) }
     }
   }"

section \<open>The media bug\<close>

definition amd_stat_name :: "amd_status \<Rightarrow> string" where
  "amd_stat_name st = (case st of
     AMD_STATUS_MACHINE \<Rightarrow> ''machine'' | AMD_STATUS_PERSON \<Rightarrow> ''person'' | AMD_STATUS_UNKNOWN \<Rightarrow> ''unsure'')"

definition amd_result_name :: "amd_result option \<Rightarrow> string" where
  "amd_result_name r = (case r of
     Some AMD_RESULT_TOO_LONG \<Rightarrow> ''too-long''
   | Some AMD_RESULT_MAX_COUNT \<Rightarrow> ''max-count''
   | Some AMD_RESULT_MAX_INTRO \<Rightarrow> ''max-intro''
   | Some AMD_RESULT_SILENT_INITIAL \<Rightarrow> ''silent-initial''
   | Some AMD_RESULT_SILENT_AFTER_INTRO \<Rightarrow> ''silent-after-intro''
   | None \<Rightarrow> [])"

text \<open>
  Publishing the verdict. When the event cannot be created, its pointer is used uninitialised.
\<close>

definition amd_report :: "amd_env \<Rightarrow> amd_helper \<Rightarrow> amd_trace \<Rightarrow> amd_trace option" where
  "amd_report E ah h = do {
     let res = amd_result_name (ah_result ah);
     let stat = amd_stat_name (ah_status ah);
     h \<leftarrow> exec (Chan Caller (Set_variable ''amd_result'' res)) h;
     h \<leftarrow> exec (Chan Caller (Set_variable ''amd_status'' stat)) h;
     (st, h) \<leftarrow> ask_status E (Event (Create ''DETECTED_SPEECH'')) h;
     if st \<noteq> SWITCH_STATUS_SUCCESS then None
     else do {
       h \<leftarrow> exec (Event (Add_header ''amd_result'' res)) h;
       h \<leftarrow> exec (Event (Add_header ''amd_status'' stat)) h;
       h \<leftarrow> exec (Event (Add_body ''amd_complete'')) h;
       (st, h) \<leftarrow> ask_status E (Event Queue) h;
       if st \<noteq> SWITCH_STATUS_SUCCESS then do {
         h \<leftarrow> exec (Event (Add_header ''delivery-failure'' ''true'')) h;
         exec (Event Fire) h }
       else Some h
     }
   }"

text \<open>
  \<open>fdata\<close> and \<open>len\<close> are what \<open>switch_core_media_bug_read\<close> left in the buffer. The
  first component is the value returned: False removes the bug.
\<close>

definition amd_callback ::
  "amd_env \<Rightarrow> amd_helper option \<Rightarrow> abc_type \<Rightarrow> int list \<Rightarrow> nat \<Rightarrow> amd_trace \<Rightarrow> (bool \<times> amd_helper option \<times> amd_trace) option" where
  "amd_callback E user_data type fdata len h = (case type of
     ABC_READ \<Rightarrow> (case user_data of
         None \<Rightarrow> Some (True, None, h)
       | Some ah \<Rightarrow> do {
           (skip, h) \<leftarrow> (if wait_for_answer ah \<noteq> 0 then do {
               (ans, h) \<leftarrow> ask_bool E (Chan Caller (Test_flag ''CF_ANSWERED'')) h; Some (\<not> ans, h) }
             else Some (False, h));
           if skip then Some (True, Some ah, h)
           else do {
             (st, h) \<leftarrow> ask_status E (Bug Bug_read) h;
             if st \<noteq> SWITCH_STATUS_SUCCESS then Some (True, Some ah, h)
             else do {
               (st, ah, h) \<leftarrow> amd_function E ah fdata len h;
               if st \<noteq> SWITCH_STATUS_SUCCESS then do {
                 h \<leftarrow> amd_report E ah h;
                 Some (False, Some (ah\<lparr> complete := 1 \<rparr>), h) }
               else Some (True, Some ah, h)
             }
           }
         })
   | _ \<Rightarrow> Some (True, user_data, h))"

section \<open>Settings\<close>

text \<open>One name and value, the same chain of names in \<open>do_config\<close> and \<open>voice_start\<close>.\<close>

definition amd_set_param :: "('x, 'm) env_scheme \<Rightarrow> string \<Rightarrow> string \<Rightarrow> amd_settings \<Rightarrow> amd_settings" where
  "amd_set_param E var val as =
     (if strcaseeq var ''silent_threshold'' then as\<lparr> silent_threshold := atoi val \<rparr>
      else if strcaseeq var ''silent_initial'' then as\<lparr> silent_initial := atoi val \<rparr>
      else if strcaseeq var ''silent_after_intro'' then as\<lparr> silent_after_intro := atoi val \<rparr>
      else if strcaseeq var ''noise_max_intro'' then as\<lparr> noise_max_intro := atoi val \<rparr>
      else if strcaseeq var ''noise_min_length'' then as\<lparr> noise_min_length := atoi val \<rparr>
      else if strcaseeq var ''noise_inter_silence'' then as\<lparr> noise_inter_silence := atoi val \<rparr>
      else if strcaseeq var ''noise_max_count'' then as\<lparr> noise_max_count := atoi val \<rparr>
      else if strcaseeq var ''total_analysis_time'' then as\<lparr> total_analysis_time := atoi val \<rparr>
      else if strcaseeq var ''debug'' then as\<lparr> as_debug := (if switch_true E (Some val) then 1 else 0) \<rparr>
      else as)"

text \<open>The test that both strings are there and not empty.\<close>

definition amd_param :: "('x, 'm) env_scheme \<Rightarrow> string option \<times> string option \<Rightarrow> amd_settings \<Rightarrow> amd_settings option" where
  "amd_param E p as =
     (if zstr E (fst p) \<or> zstr E (snd p) then Some as
      else do { var \<leftarrow> deref (fst p); val \<leftarrow> deref (snd p); Some (amd_set_param E var val as) })"

fun amd_params :: "('x, 'm) env_scheme \<Rightarrow> (string option \<times> string option) list \<Rightarrow> amd_settings \<Rightarrow> amd_settings option" where
  "amd_params E [] as = Some as"
| "amd_params E (p # ps) as = do { as \<leftarrow> amd_param E p as; amd_params E ps as }"

definition amd_defaults :: "amd_settings \<Rightarrow> amd_settings" where
  "amd_defaults as = as\<lparr> silent_threshold := 256, silent_initial := 4500, silent_after_intro := 1000,
     silent_max_session := 200, noise_max_intro := 1250, noise_min_length := 120,
     noise_inter_silence := 30, noise_max_count := 6, total_analysis_time := 5000 \<rparr>"

text \<open>
  \<open>xml\<close> is what \<open>switch_xml_open_cfg\<close> gave: NULL, or a document whose settings element
  may be missing; the parameters are the name and value attributes in order.
\<close>

definition do_config ::
  "('x, 'm) env_scheme \<Rightarrow> (string option \<times> string option) list option option \<Rightarrow> amd_settings \<Rightarrow> amd_settings option" where
  "do_config E xml globals_as = (let as = amd_defaults globals_as in
     case xml of
       None \<Rightarrow> Some as
     | Some cfg \<Rightarrow> (case cfg of None \<Rightarrow> Some as | Some params \<Rightarrow> amd_params E params as))"

definition mod_amd_load ::
  "amd_env \<Rightarrow> (string option \<times> string option) list option option \<Rightarrow> amd_settings \<Rightarrow> amd_trace \<Rightarrow>
   (switch_status \<times> amd_settings \<times> amd_trace) option" where
  "mod_amd_load E xml globals_as h = do {
     as \<leftarrow> do_config E xml globals_as;
     (st, h) \<leftarrow> ask_status E (Event (Reserve_subclass AMD_EVENT)) h;
     Some (if st \<noteq> SWITCH_STATUS_SUCCESS then SWITCH_STATUS_TERM else SWITCH_STATUS_SUCCESS, as, h)
   }"

section \<open>The applications\<close>

text \<open>\<open>argv[x]\<close> split at its first equals sign.\<close>

definition amd_arg :: "string \<Rightarrow> string option \<times> string option" where
  "amd_arg s = (let (var, val) = cut_at CHR ''='' s in (Some var, val))"

text \<open>The helper before the settings are parsed; \<open>ah0\<close> is the fresh block of memory.\<close>

definition amd_init_helper :: "amd_helper \<Rightarrow> amd_settings \<Rightarrow> int \<Rightarrow> bool \<Rightarrow> amd_helper" where
  "amd_init_helper ah0 as seconds wait = (let ah = ah0\<lparr> settings := as, state := STATE_SILENT,
       state_silent_initial := 1, state_intro := 0, total_call_time := 3600000 + seconds,
       total_time := 0, total_noise_count := 0, samples_counted := 0, frame_count := 0,
       noisy_frames := 0, silent_frames := 0, hangover_hits := 0, hangunder_hits := 0 \<rparr>
     in if wait then ah\<lparr> wait_for_answer := 1 \<rparr> else ah)"

text \<open>
  \<open>voice_start\<close>: the helper is the result when one was set up. \<open>bug\<close> is still the NULL
  that \<open>get_private\<close> gave when it is stored under \<open>_amd_\<close>.
\<close>

definition voice_start_function ::
  "amd_env \<Rightarrow> amd_settings \<Rightarrow> amd_helper \<Rightarrow> string option \<Rightarrow> amd_trace \<Rightarrow> (amd_helper option \<times> amd_trace) option" where
  "voice_start_function E globals_as ah0 data h = do {
     (amdebug, h) \<leftarrow> ask_str E (Chan Caller (Get_variable ''amd_debug'')) h;
     (bug, h) \<leftarrow> ask_ptr E (Chan Caller (Get_private ''_amd_'')) h;
     if bug \<noteq> None then Some (None, h)
     else do {
       (ok, h) \<leftarrow> ask_bool E (Sess Caller Alloc) h;
       if \<not> ok then None
       else do {
         (seconds, h) \<leftarrow> ask_int E (Glue Epoch_seconds) h;
         (wait, h) \<leftarrow> ask_str E (Chan Caller (Get_variable ''amd_wait_for_answer'')) h;
         (ok, h) \<leftarrow> ask_bool E (Sess Caller Alloc) h;
         if \<not> ok then None
         else do {
           let ah = amd_init_helper ah0 globals_as seconds (switch_true E wait);
           (parsed, h) \<leftarrow> (if zstr E data then Some (Some globals_as, h)
             else do {
               (copied, h) \<leftarrow> ask_bool E (Sess Caller (Strdup data)) h;
               if \<not> copied then Some (None, h)
               else do {
                 d \<leftarrow> deref data;
                 as \<leftarrow> amd_params E (map amd_arg (separate E d CHR '','' 20)) globals_as;
                 Some (Some as, h)
               } });
           case parsed of
             None \<Rightarrow> do { h \<leftarrow> exec (Chan Caller (Hangup DESTINATION_OUT_OF_ORDER)) h; Some (None, h) }
           | Some as \<Rightarrow> do {
               let as = (if switch_true E amdebug then as\<lparr> as_debug := 1 \<rparr> else as);
               let ah = ah\<lparr> settings := as \<rparr>;
               h \<leftarrow> exec (Chan Caller (Set_private ''_amd_'' bug)) h;
               h \<leftarrow> exec (Chan Caller (Set_private ''_amd_handle_'' (Some 0))) h;
               (st, h) \<leftarrow> ask_status E (Bug (Bug_add ''amd'' [SMBF_READ_STREAM])) h;
               h \<leftarrow> (if st \<noteq> SWITCH_STATUS_SUCCESS then exec (Chan Caller (Hangup DESTINATION_OUT_OF_ORDER)) h else Some h);
               Some (Some ah, h)
             }
         }
       }
     }
   }"

definition voice_stop_function :: "amd_env \<Rightarrow> amd_trace \<Rightarrow> amd_trace option" where
  "voice_stop_function E h = do {
     (bug, h) \<leftarrow> ask_ptr E (Chan Caller (Get_private ''_amd_'')) h;
     if bug \<noteq> None then do {
       h \<leftarrow> exec (Chan Caller (Set_private ''_amd_'' None)) h;
       exec (Bug Bug_remove) h }
     else Some h
   }"

text \<open>The polling loop; \<open>ah->complete\<close> is set by the media thread, so the environment answers it.\<close>

partial_function (option) amd_wait :: "amd_env \<Rightarrow> amd_trace \<Rightarrow> amd_trace option" where
  "amd_wait E h = do {
     (complete, h) \<leftarrow> ask_bool E (Glue Handle_complete) h;
     (result, h) \<leftarrow> (if complete then ask_str E (Chan Caller (Get_variable ''amd_result'')) h else Some (None, h));
     if result \<noteq> None then Some h
     else do {
       (hangup, h) \<leftarrow> ask_bool E (Chan Caller State_hangup) h;
       if hangup then do {
         h \<leftarrow> exec (Chan Caller (Set_variable ''amd_wait_status'' ''hangup'')) h;
         h \<leftarrow> exec (Chan Caller (Set_variable ''amd_wait_result'' ''hangup'')) h;
         exec (Chan Caller (Hangup NORMAL_CLEARING)) h
       } else do {
         h \<leftarrow> exec (Yield 10000) h;
         amd_wait E h
       }
     }
   }"

definition result_function :: "amd_env \<Rightarrow> amd_trace \<Rightarrow> amd_trace option" where
  "result_function E h = do {
     (_, h) \<leftarrow> ask_status E (Chan Caller Answer) h;
     (ah, h) \<leftarrow> ask_ptr E (Chan Caller (Get_private ''_amd_handle_'')) h;
     if ah = None then Some h else amd_wait E h
   }"

section \<open>Invariants of the detector\<close>

text \<open>The verdicts that are published.\<close>

definition verdict :: "amd_helper \<Rightarrow> bool" where
  "verdict ah \<longleftrightarrow> (ah_status ah, ah_result ah) \<in> {
     (AMD_STATUS_UNKNOWN, Some AMD_RESULT_TOO_LONG), (AMD_STATUS_MACHINE, Some AMD_RESULT_MAX_COUNT),
     (AMD_STATUS_MACHINE, Some AMD_RESULT_MAX_INTRO), (AMD_STATUS_PERSON, Some AMD_RESULT_SILENT_INITIAL),
     (AMD_STATUS_PERSON, Some AMD_RESULT_SILENT_AFTER_INTRO)}"

text \<open>
  Well-formed between two frames: a two-valued state, at most one of the two phase flags set, no
  pending hangover, every frame counted once as noisy or silent, and no more bursts of noise
  counted than silent frames seen, one less while a burst may still be counted.
\<close>

definition amd_phase_ok :: "amd_helper \<Rightarrow> bool" where
  "amd_phase_ok ah \<longleftrightarrow> (state_silent_initial ah, state_intro ah) \<in> {(1, 0), (0, 1), (0, 0)} \<and>
     hangover_hits ah = 0 \<and> hangunder_hits ah = 0 \<and> state ah \<in> {0, 1}"

definition amd_bursts_ok :: "int \<Rightarrow> amd_helper \<Rightarrow> bool" where
  "amd_bursts_ok c ah \<longleftrightarrow> total_noise_count ah + (if talking_min ah = 1 then 1 else 0) \<le> silent_frames ah + c"

definition amd_frames_ok :: "amd_helper \<Rightarrow> bool" where
  "amd_frames_ok ah \<longleftrightarrow> frame_count ah = noisy_frames ah + silent_frames ah"

definition amd_inv :: "int \<Rightarrow> amd_helper \<Rightarrow> bool" where
  "amd_inv c ah \<longleftrightarrow> amd_phase_ok ah \<and> amd_bursts_ok c ah \<and> amd_frames_ok ah"

text \<open>What the steps between the counters and the last block leave alone.\<close>

definition same_counts :: "amd_helper \<Rightarrow> amd_helper \<Rightarrow> bool" where
  "same_counts ah ah' \<longleftrightarrow> frame_count ah' = frame_count ah \<and> noisy_frames ah' = noisy_frames ah \<and>
     silent_frames ah' = silent_frames ah \<and> settings ah' = settings ah \<and> complete ah' = complete ah"

definition mid_ok :: "int \<Rightarrow> amd_helper \<Rightarrow> bool \<times> amd_helper \<times> amd_trace \<Rightarrow> bool" where
  "mid_ok c ah r \<longleftrightarrow> (case r of (ret, ah', h') \<Rightarrow>
     same_counts ah ah' \<and> amd_phase_ok ah' \<and> amd_bursts_ok c ah' \<and> (ret \<longrightarrow> verdict ah'))"

lemma state_simps [simp]: "STATE_SILENT = 0" "STATE_NOISE \<noteq> 0"
  by (simp_all add: STATE_SILENT_def STATE_NOISE_def)

named_theorems amd_frame "fields a predicate on the helper does not look at"

lemma phase_frame [amd_frame]:
  "amd_phase_ok (ah\<lparr> end_session := e \<rparr>) = amd_phase_ok ah"
  "amd_phase_ok (ah\<lparr> ah_result := r \<rparr>) = amd_phase_ok ah"
  "amd_phase_ok (ah\<lparr> ah_status := st \<rparr>) = amd_phase_ok ah"
  "amd_phase_ok (ah\<lparr> samples_counted := i \<rparr>) = amd_phase_ok ah"
  "amd_phase_ok (ah\<lparr> frame_count := i \<rparr>) = amd_phase_ok ah"
  "amd_phase_ok (ah\<lparr> total_time := i \<rparr>) = amd_phase_ok ah"
  "amd_phase_ok (ah\<lparr> first_noisy := i \<rparr>) = amd_phase_ok ah"
  "amd_phase_ok (ah\<lparr> first_silent := i \<rparr>) = amd_phase_ok ah"
  "amd_phase_ok (ah\<lparr> intro_silent := i \<rparr>) = amd_phase_ok ah"
  "amd_phase_ok (ah\<lparr> last_noisy := i \<rparr>) = amd_phase_ok ah"
  "amd_phase_ok (ah\<lparr> last_silent := i \<rparr>) = amd_phase_ok ah"
  "amd_phase_ok (ah\<lparr> noisy_frames := i \<rparr>) = amd_phase_ok ah"
  "amd_phase_ok (ah\<lparr> total_noise_count := i \<rparr>) = amd_phase_ok ah"
  "amd_phase_ok (ah\<lparr> talking_min := i \<rparr>) = amd_phase_ok ah"
  "amd_phase_ok (ah\<lparr> silent_frames := i \<rparr>) = amd_phase_ok ah"
  by (simp_all add: amd_phase_ok_def)

lemma phase_set [amd_frame]:
  "amd_phase_ok ah \<Longrightarrow> amd_phase_ok (ah\<lparr> state := STATE_NOISE \<rparr>)"
  "amd_phase_ok ah \<Longrightarrow> amd_phase_ok (ah\<lparr> state := 0 \<rparr>)"
  "amd_phase_ok ah \<Longrightarrow> amd_phase_ok (ah\<lparr> hangover_hits := 0 \<rparr>)"
  "amd_phase_ok ah \<Longrightarrow> amd_phase_ok (ah\<lparr> hangunder_hits := 0 \<rparr>)"
  "amd_phase_ok ah \<Longrightarrow> amd_phase_ok (ah\<lparr> hangover_hits := v, hangunder_hits := 0, hangover_hits := 0 \<rparr>)"
  "amd_phase_ok ah \<Longrightarrow> amd_phase_ok (ah\<lparr> hangunder_hits := 0, hangover_hits := 0 \<rparr>)"
  "amd_phase_ok ah \<Longrightarrow> amd_phase_ok (ah\<lparr> state_intro := 0 \<rparr>)"
  "amd_phase_ok ah \<Longrightarrow> amd_phase_ok (ah\<lparr> state_silent_initial := 0, state_intro := 1 \<rparr>)"
  "amd_phase_ok ah \<Longrightarrow> hangover_hits ah = 0"
  "amd_phase_ok ah \<Longrightarrow> hangunder_hits ah = 0"
  by (auto simp: amd_phase_ok_def STATE_NOISE_def STATE_SILENT_def)

lemma bursts_frame [amd_frame]:
  "amd_bursts_ok c (ah\<lparr> end_session := e \<rparr>) = amd_bursts_ok c ah"
  "amd_bursts_ok c (ah\<lparr> ah_result := r \<rparr>) = amd_bursts_ok c ah"
  "amd_bursts_ok c (ah\<lparr> ah_status := st \<rparr>) = amd_bursts_ok c ah"
  "amd_bursts_ok c (ah\<lparr> samples_counted := i \<rparr>) = amd_bursts_ok c ah"
  "amd_bursts_ok c (ah\<lparr> frame_count := i \<rparr>) = amd_bursts_ok c ah"
  "amd_bursts_ok c (ah\<lparr> total_time := i \<rparr>) = amd_bursts_ok c ah"
  "amd_bursts_ok c (ah\<lparr> first_noisy := i \<rparr>) = amd_bursts_ok c ah"
  "amd_bursts_ok c (ah\<lparr> first_silent := i \<rparr>) = amd_bursts_ok c ah"
  "amd_bursts_ok c (ah\<lparr> intro_silent := i \<rparr>) = amd_bursts_ok c ah"
  "amd_bursts_ok c (ah\<lparr> last_noisy := i \<rparr>) = amd_bursts_ok c ah"
  "amd_bursts_ok c (ah\<lparr> last_silent := i \<rparr>) = amd_bursts_ok c ah"
  "amd_bursts_ok c (ah\<lparr> state := i \<rparr>) = amd_bursts_ok c ah"
  "amd_bursts_ok c (ah\<lparr> hangover_hits := w \<rparr>) = amd_bursts_ok c ah"
  "amd_bursts_ok c (ah\<lparr> hangunder_hits := w \<rparr>) = amd_bursts_ok c ah"
  "amd_bursts_ok c (ah\<lparr> state_silent_initial := i \<rparr>) = amd_bursts_ok c ah"
  "amd_bursts_ok c (ah\<lparr> state_intro := i \<rparr>) = amd_bursts_ok c ah"
  "amd_bursts_ok c (ah\<lparr> noisy_frames := i \<rparr>) = amd_bursts_ok c ah"
  by (simp_all add: amd_bursts_ok_def)

lemma bursts_set [amd_frame]:
  "amd_bursts_ok c ah \<Longrightarrow> amd_bursts_ok c (ah\<lparr> talking_min := 0 \<rparr>)"
  "amd_bursts_ok c ah \<Longrightarrow> talking_min ah = 1 \<Longrightarrow>
     amd_bursts_ok c (ah\<lparr> total_noise_count := total_noise_count ah + 1, talking_min := 0 \<rparr>)"
  by (auto simp: amd_bursts_ok_def split: if_splits)

lemma phase_state: "amd_phase_ok ah \<Longrightarrow> state ah = 0 \<or> state ah = STATE_NOISE"
  by (auto simp: amd_phase_ok_def STATE_NOISE_def)

lemmas amd_mid_simps = run_simps amd_frame mid_ok_def same_counts_def

lemma amd_event_mono: "(\<And>h'. Q h') \<Longrightarrow> post (amd_event E a h) Q"
  by (rule postI)

lemma elapsed_mono: "(\<And>b h'. Q (b, h')) \<Longrightarrow> post (elapsed E t l h) Q"
  by (rule postI) (auto simp: elapsed_def now_def ask_int_def)

lemma now_mono: "(\<And>t h'. Q (t, h')) \<Longrightarrow> post (now E h) Q"
  by (rule postI) (auto simp: now_def ask_int_def)

lemma add32_mono: "(\<And>x. x = a + b \<Longrightarrow> Q x) \<Longrightarrow> post (add32 a b) Q"
  by (auto simp: add32_def)

lemmas amd_intros = post_intros amd_event_mono elapsed_mono now_mono

lemma amd_end_session_frame:
  "post (amd_end_session E ah h) (\<lambda>(ret, ah', h'). \<exists>e. ah' = ah\<lparr> end_session := e \<rparr>)"
  by (auto simp: amd_end_session_def run_simps intro!: amd_intros intro: exI [of _ "end_session ah"])

lemma amd_prologue_ok:
  "amd_phase_ok ah \<Longrightarrow> amd_bursts_ok c ah \<Longrightarrow>
   post (amd_prologue E ah len h) (\<lambda>(ret, ah', h'). frame_count ah' = frame_count ah + 1 \<and>
     noisy_frames ah' = noisy_frames ah \<and> silent_frames ah' = silent_frames ah \<and> settings ah' = settings ah \<and>
     state ah' = state ah \<and> amd_phase_ok ah' \<and> amd_bursts_ok c ah' \<and> (ret \<longrightarrow> verdict ah'))"
  by (auto simp: amd_prologue_def amd_mid_simps verdict_def intro!: add32_mono post_mono [OF amd_end_session_frame])

lemma amd_burst_ok:
  "amd_phase_ok ah \<Longrightarrow> amd_bursts_ok c ah \<Longrightarrow> talking_min ah = 1 \<Longrightarrow>
   post (amd_burst E ah h) (\<lambda>r. mid_ok c ah r \<and> state (fst (snd r)) = state ah)"
  by (auto simp: amd_burst_def amd_mid_simps verdict_def intro!: amd_intros add32_mono)

lemma amd_intro_ok:
  "amd_phase_ok ah \<Longrightarrow> amd_bursts_ok c ah \<Longrightarrow>
   post (amd_intro E ah h) (\<lambda>r. mid_ok c ah r \<and> state (fst (snd r)) = state ah)"
  by (auto simp: amd_intro_def amd_mid_simps verdict_def intro!: amd_intros post_mono [OF amd_end_session_frame])

lemma amd_noisy_ok:
  assumes "amd_phase_ok ah" and "amd_bursts_ok c ah"
  shows "post (amd_noisy E ah diff h) (\<lambda>r. mid_ok c ah r \<and> state (fst (snd r)) = STATE_NOISE)"
  using assms phase_state [OF assms(1)]
  by (auto simp: amd_noisy_def amd_mid_simps
      intro!: amd_intros post_mono [OF amd_burst_ok [where c = c]] post_mono [OF amd_intro_ok [where c = c]])

lemma amd_stop_talking_ok:
  assumes "amd_phase_ok ah" and "amd_bursts_ok c ah"
  shows "post (amd_stop_talking E ah h) (\<lambda>(ah', h'). mid_ok c ah (False, ah', h') \<and> state ah' = 0)"
  using assms phase_state [OF assms(1)]
  by (auto simp: amd_stop_talking_def amd_mid_simps intro!: amd_intros)

lemma amd_initial_silence_ok:
  assumes "amd_phase_ok ah" and "amd_bursts_ok c ah"
  shows "post (amd_initial_silence E ah h) (\<lambda>r. mid_ok c ah r \<and> state (fst (snd r)) = state ah)"
  using assms
  by (auto simp: amd_initial_silence_def amd_mid_simps verdict_def intro!: amd_intros post_mono [OF amd_end_session_frame])

lemma amd_silence_after_intro_ok:
  assumes "amd_phase_ok ah" and "amd_bursts_ok c ah"
  shows "post (amd_silence_after_intro E ah h) (\<lambda>r. mid_ok c ah r \<and> state (fst (snd r)) = state ah)"
  using assms
  by (auto simp: amd_silence_after_intro_def amd_mid_simps verdict_def intro!: amd_intros)

lemma amd_silent_ok:
  assumes "amd_phase_ok ah" and "amd_bursts_ok c ah"
  shows "post (amd_silent E ah h) (\<lambda>r. mid_ok c ah r \<and> state (fst (snd r)) = 0)"
  using assms
  by (auto simp: amd_silent_def run_simps mid_ok_def same_counts_def
      intro!: post_mono [OF amd_stop_talking_ok [where c = c]] post_mono [OF amd_initial_silence_ok [where c = c]]
        post_mono [OF amd_silence_after_intro_ok [where c = c]])

lemma amd_epilogue_ok:
  assumes "amd_phase_ok ah" and "amd_bursts_ok c ah" and "frame_count ah = noisy_frames ah + silent_frames ah + 1"
  shows "post (amd_epilogue E ah h) (\<lambda>(ah', h'). amd_inv c ah' \<and> state ah' = state ah)"
  using assms
  by (auto simp: amd_epilogue_def amd_mid_simps amd_inv_def amd_frames_ok_def amd_bursts_ok_def
      intro!: amd_intros add32_mono split: if_splits)

text \<open>One frame: the invariant, the verdict, and the state follow.\<close>

lemma amd_function_ok:
  assumes "amd_inv c ah"
  shows "post (amd_function E ah fdata len h) (\<lambda>(st, ah', h').
    (st = SWITCH_STATUS_SUCCESS \<longrightarrow> amd_inv c ah') \<and> (st \<noteq> SWITCH_STATUS_SUCCESS \<longrightarrow> st = SWITCH_STATUS_FALSE \<and> verdict ah'))"
  using assms
  by (auto simp: amd_function_def run_simps amd_inv_def [of c ah] amd_frames_ok_def mid_ok_def same_counts_def
      intro!: amd_intros postI [of "amd_energy _ _ _ _ _"] post_mono [OF amd_prologue_ok [where c = c]] post_mono [OF amd_noisy_ok [where c = c]]
        post_mono [OF amd_silent_ok [where c = c]] post_mono [OF amd_epilogue_ok [where c = c]])

section \<open>Settings by name\<close>

text \<open>The field a name selects; names are compared without regard to case.\<close>

datatype amd_key =
    K_silent_threshold | K_silent_initial | K_silent_after_intro | K_noise_max_intro | K_noise_min_length
  | K_noise_inter_silence | K_noise_max_count | K_total_analysis_time | K_debug | K_other

definition amd_key :: "string \<Rightarrow> amd_key" where
  "amd_key var =
     (if strcaseeq var ''silent_threshold'' then K_silent_threshold
      else if strcaseeq var ''silent_initial'' then K_silent_initial
      else if strcaseeq var ''silent_after_intro'' then K_silent_after_intro
      else if strcaseeq var ''noise_max_intro'' then K_noise_max_intro
      else if strcaseeq var ''noise_min_length'' then K_noise_min_length
      else if strcaseeq var ''noise_inter_silence'' then K_noise_inter_silence
      else if strcaseeq var ''noise_max_count'' then K_noise_max_count
      else if strcaseeq var ''total_analysis_time'' then K_total_analysis_time
      else if strcaseeq var ''debug'' then K_debug else K_other)"

primrec amd_set_key :: "('x, 'm) env_scheme \<Rightarrow> amd_key \<Rightarrow> string \<Rightarrow> amd_settings \<Rightarrow> amd_settings" where
  "amd_set_key E K_silent_threshold val as = as\<lparr> silent_threshold := atoi val \<rparr>"
| "amd_set_key E K_silent_initial val as = as\<lparr> silent_initial := atoi val \<rparr>"
| "amd_set_key E K_silent_after_intro val as = as\<lparr> silent_after_intro := atoi val \<rparr>"
| "amd_set_key E K_noise_max_intro val as = as\<lparr> noise_max_intro := atoi val \<rparr>"
| "amd_set_key E K_noise_min_length val as = as\<lparr> noise_min_length := atoi val \<rparr>"
| "amd_set_key E K_noise_inter_silence val as = as\<lparr> noise_inter_silence := atoi val \<rparr>"
| "amd_set_key E K_noise_max_count val as = as\<lparr> noise_max_count := atoi val \<rparr>"
| "amd_set_key E K_total_analysis_time val as = as\<lparr> total_analysis_time := atoi val \<rparr>"
| "amd_set_key E K_debug val as = as\<lparr> as_debug := (if switch_true E (Some val) then 1 else 0) \<rparr>"
| "amd_set_key E K_other val as = as"

lemma amd_set_param_key: "amd_set_param E var val as = amd_set_key E (amd_key var) val as"
  by (simp add: amd_set_param_def amd_key_def)

lemma amd_key_cong: "strcaseeq k k' \<Longrightarrow> amd_key k = amd_key k'"
  by (simp add: amd_key_def strcaseeq_def)

lemma amd_key_inj: "amd_key k = amd_key k' \<Longrightarrow> amd_key k \<noteq> K_other \<Longrightarrow> strcaseeq k k'"
proof -
  have *: "\<exists>n. \<forall>k. amd_key k = K \<longrightarrow> strcaseeq k n" if "K \<noteq> K_other" for K
    using that by (cases K) (auto simp: amd_key_def split: if_splits intro!: exI)
  assume "amd_key k = amd_key k'" "amd_key k \<noteq> K_other"
  with * [of "amd_key k"] obtain n where "strcaseeq k n" "strcaseeq k' n" by auto
  then show ?thesis by (auto simp: strcaseeq_def)
qed

lemma amd_set_key_overwrite: "amd_set_key E K w (amd_set_key E K v s) = amd_set_key E K w s"
  by (cases K) simp_all

lemma amd_set_key_commute: "K \<noteq> K' \<Longrightarrow> amd_set_key E K' w (amd_set_key E K v s) = amd_set_key E K v (amd_set_key E K' w s)"
  by (cases K; cases K') simp_all

lemma amd_set_overwrite: "strcaseeq k k' \<Longrightarrow> amd_set_param E k' w (amd_set_param E k v s) = amd_set_param E k' w s"
  by (simp add: amd_set_param_key amd_key_cong [of k k'] amd_set_key_overwrite)

lemma amd_set_commute:
  assumes "\<not> strcaseeq k k'"
  shows "amd_set_param E k' w (amd_set_param E k v s) = amd_set_param E k v (amd_set_param E k' w s)"
proof (cases "amd_key k = amd_key k'")
  case True
  then have "amd_key k = K_other" "amd_key k' = K_other" using assms amd_key_inj by auto
  then show ?thesis by (simp add: amd_set_param_key)
next
  case False
  then show ?thesis by (simp add: amd_set_param_key amd_set_key_commute)
qed

interpretation amd_entries: keyed_settings "amd_set_param E" strcaseeq for E :: amd_env
  by unfold_locales (auto intro: amd_set_overwrite amd_set_commute)

text \<open>The parameters with both strings present, which are the ones that have an effect.\<close>

fun effective :: "(string option \<times> string option) list \<Rightarrow> (string \<times> string) list" where
  "effective [] = []"
| "effective ((Some var, Some val) # ps) = (if var = [] \<or> val = [] then effective ps else (var, val) # effective ps)"
| "effective (p # ps) = effective ps"

lemma amd_params_entries: "zstr_ok E \<Longrightarrow> amd_params E ps as = Some (amd_entries.entries E (effective ps) as)"
  by (induction ps arbitrary: as rule: effective.induct) (auto simp: amd_param_def zstr_ok_def)

lemma amd_set_param_session: "silent_max_session (amd_set_param E var val as) = silent_max_session as"
  by (simp add: amd_set_param_def)

lemma amd_entries_session: "silent_max_session (amd_entries.entries E es as) = silent_max_session as"
  by (induction es arbitrary: as) (auto simp: amd_set_param_session)

lemma amd_params_session: "post (amd_params E ps as) (\<lambda>as'. silent_max_session as' = silent_max_session as)"
proof (induction ps arbitrary: as)
  case (Cons p ps)
  show ?case
    by (auto simp: amd_param_def run_simps amd_set_param_session intro!: post_mono [OF Cons.IH])
qed simp

section \<open>The energy of a frame in closed form\<close>

lemma amd_energy_defined: "amd_energy fdata ch (Suc n) j e \<noteq> None \<longleftrightarrow> j + ch * n < length fdata"
proof (induction n arbitrary: j e)
  case 0
  show ?case by (simp add: arr_def)
next
  case (Suc n)
  show ?case
  proof (cases "j < length fdata")
    case True
    then have "amd_energy fdata ch (Suc (Suc n)) j e = amd_energy fdata ch (Suc n) (j + ch) (e + \<bar>fdata ! j\<bar>)" by simp
    then show ?thesis using Suc.IH [of "j + ch" "e + \<bar>fdata ! j\<bar>"] by (simp add: algebra_simps)
  next
    case False
    then show ?thesis by simp
  qed
qed

lemma amd_energy_mono:
  "j + n \<le> length fdata \<Longrightarrow> amd_energy fdata 1 n j e = Some (e + sum_list (map abs (take n (drop j fdata))))"
proof (induction n arbitrary: j e)
  case (Suc n)
  then have "drop j fdata = fdata ! j # drop (Suc j) fdata" by (simp add: Cons_nth_drop_Suc)
  then show ?case using Suc by simp
qed simp

text \<open>The two-state classifier: after a frame the state says whether its score reached the threshold.\<close>

lemma amd_function_state:
  assumes "amd_inv c ah"
  shows "post (amd_function E ah fdata len h) (\<lambda>(st, ah', h'). st = SWITCH_STATUS_SUCCESS \<longrightarrow>
    settings ah' = settings ah \<and>
    (\<exists>ch e. amd_energy fdata ch (len div 2) 0 0 = Some e \<and>
      (state ah' = STATE_NOISE \<longleftrightarrow> score_ge e (int (len div 2)) (silent_threshold (settings ah)))))"
proof -
  have ep: "post (amd_epilogue E a h) (\<lambda>(a', h'). settings a' = settings a \<and> state a' = state a)" for a h
    by (auto simp: amd_epilogue_def run_simps intro!: amd_intros add32_mono)
  have en: "post (amd_energy fdata ch n 0 0) (\<lambda>e. amd_energy fdata ch n 0 0 = Some e)" for ch n
    by (rule postI)
  show ?thesis
    using assms
    by ((auto simp: amd_function_def run_simps amd_inv_def [of c ah] mid_ok_def same_counts_def
      intro!: amd_intros post_mono [OF en] post_mono [OF amd_prologue_ok [where c = c]] post_mono [OF amd_noisy_ok [where c = c]]
        post_mono [OF amd_silent_ok [where c = c]] post_mono [OF ep]), blast+)
qed

section \<open>Runs of the media bug\<close>

text \<open>The helpers a sequence of frames leads to while the bug stays attached.\<close>

inductive amd_reachable :: "amd_env \<Rightarrow> amd_helper \<Rightarrow> amd_helper \<Rightarrow> bool" for E ah0 where
  start: "amd_reachable E ah0 ah0"
| frame: "amd_reachable E ah0 ah \<Longrightarrow> amd_callback E (Some ah) type fdata len h = Some (True, Some ah', h') \<Longrightarrow>
    amd_reachable E ah0 ah'"

inductive_cases amd_reachableE: "amd_reachable E ah0 ah"

lemma amd_callback_ok:
  assumes "amd_inv c ah"
  shows "post (amd_callback E (Some ah) type fdata len h) (\<lambda>(keep, r, h'). \<exists>ah'. r = Some ah' \<and>
    (keep \<longrightarrow> amd_inv c ah') \<and> (\<not> keep \<longrightarrow> verdict ah' \<and> complete ah' = 1))"
  using assms
  by (auto simp: amd_callback_def run_simps verdict_def intro!: amd_intros post_mono [OF amd_function_ok [where c = c]]
      postI [of "amd_report _ _ _"] split: abc_type.split)

lemma amd_reachable_inv: "amd_reachable E ah0 ah \<Longrightarrow> amd_inv c ah0 \<Longrightarrow> amd_inv c ah"
proof (induction rule: amd_reachable.induct)
  case (frame ah type fdata len h ah' h')
  then have "amd_inv c ah" by simp
  from postD [OF amd_callback_ok [OF this] frame.hyps(2)] show ?case by simp
qed

text \<open>The helper that \<open>voice_start\<close> sets up.\<close>

lemma voice_start_inv:
  "post (voice_start_function E globals_as ah0 data h) (\<lambda>(r, h'). \<forall>ah. r = Some ah \<longrightarrow>
     amd_inv (if talking_min ah0 = 1 then 1 else 0) ah)"
  by (auto simp: voice_start_function_def run_simps amd_init_helper_def amd_inv_def amd_phase_ok_def amd_bursts_ok_def amd_frames_ok_def
      intro!: amd_intros postI [of "amd_params _ _ _"] split: option.splits)

section \<open>Publishing the verdict\<close>

text \<open>The values a run gave to a channel variable, in order.\<close>

definition set_value :: "string \<Rightarrow> 'x call \<times> answer \<Rightarrow> string list" where
  "set_value n e = (case fst e of
     Chan l op \<Rightarrow> (case op of Set_variable m v \<Rightarrow> if m = n then [v] else [] | _ \<Rightarrow> [])
   | _ \<Rightarrow> [])"

definition set_values :: "string \<Rightarrow> 'x trace \<Rightarrow> string list" where
  "set_values n h = concat (map (set_value n) h)"

lemma set_values_append [simp]: "set_values n (h @ t) = set_values n h @ set_values n t"
  by (simp add: set_values_def)

lemma set_values_simps [simp]:
  "set_values n [] = []" "set_values n (e # h) = set_value n e @ set_values n h"
  by (simp_all add: set_values_def)

lemma set_value_simps [simp]:
  "set_value n (Chan l (Set_variable m v), a) = (if m = n then [v] else [])"
  "set_value n (Chan l (Test_flag m), a) = []"
  "set_value n (Event eo, a) = []" "set_value n (Bug bo, a) = []" "set_value n (Sess l so, a) = []"
  "set_value n (Time_now, a) = []"
  by (simp_all add: set_value_def)

definition quiet :: "amd_trace \<Rightarrow> amd_trace \<Rightarrow> bool" where
  "quiet h h' \<longleftrightarrow> (\<forall>n. set_values n h' = set_values n h)"

lemma quiet_now: "post (now E h) (\<lambda>(t, h'). quiet h h')"
  by (auto simp: now_def quiet_def intro!: post_intros)

lemma quiet_elapsed: "post (elapsed E t l h) (\<lambda>(b, h'). quiet h h')"
  by (auto simp: elapsed_def now_def run_simps quiet_def intro!: post_intros)

lemma quiet_event: "post (amd_event E a h) (\<lambda>h'. quiet h h')"
  by (auto simp: amd_event_def run_simps quiet_def intro!: post_intros)

lemma quiet_end: "post (amd_end_session E ah h) (\<lambda>(b, a, h'). quiet h h')"
  by (auto simp: amd_end_session_def now_def run_simps quiet_def intro!: post_intros)

lemmas quiet_intros = post_intros post_mono [OF quiet_now] post_mono [OF quiet_elapsed] post_mono [OF quiet_event]
  post_mono [OF quiet_end] add32_mono

lemma quiet_parts:
  "post (amd_prologue E ah len h) (\<lambda>(b, a, h'). quiet h h')"
  "post (amd_burst E ah h) (\<lambda>(b, a, h'). quiet h h')"
  "post (amd_intro E ah h) (\<lambda>(b, a, h'). quiet h h')"
  "post (amd_stop_talking E ah h) (\<lambda>(a, h'). quiet h h')"
  "post (amd_initial_silence E ah h) (\<lambda>(b, a, h'). quiet h h')"
  "post (amd_silence_after_intro E ah h) (\<lambda>(b, a, h'). quiet h h')"
  "post (amd_epilogue E ah h) (\<lambda>(a, h'). quiet h h')"
  by (auto simp: amd_prologue_def amd_burst_def amd_intro_def amd_stop_talking_def amd_initial_silence_def
      amd_silence_after_intro_def amd_epilogue_def run_simps quiet_def intro!: quiet_intros)

lemma quiet_silent: "post (amd_silent E ah h) (\<lambda>(b, a, h'). quiet h h')"
  by (auto simp: amd_silent_def run_simps quiet_def intro!: quiet_intros post_mono [OF quiet_parts(4)]
      post_mono [OF quiet_parts(5)] post_mono [OF quiet_parts(6)])

lemma quiet_noisy: "post (amd_noisy E ah d h) (\<lambda>(b, a, h'). quiet h h')"
  by (auto simp: amd_noisy_def run_simps quiet_def intro!: quiet_intros post_mono [OF quiet_parts(2)]
      post_mono [OF quiet_parts(3)])

lemma quiet_function: "post (amd_function E ah fd len h) (\<lambda>(b, a, h'). quiet h h')"
  by (auto simp: amd_function_def run_simps quiet_def intro!: quiet_intros postI [of "amd_energy _ _ _ _ _"]
      post_mono [OF quiet_parts(1)] post_mono [OF quiet_silent] post_mono [OF quiet_noisy] post_mono [OF quiet_parts(7)])

text \<open>A frame publishes nothing while the bug stays, and the helper's verdict once when it goes.\<close>

lemma amd_callback_publishes:
  "post (amd_callback E (Some ah) ty fdata len h) (\<lambda>(keep, r, h'). \<exists>ah'. r = Some ah' \<and>
     set_values ''amd_status'' h' = set_values ''amd_status'' h @ (if keep then [] else [amd_stat_name (ah_status ah')]) \<and>
     set_values ''amd_result'' h' = set_values ''amd_result'' h @ (if keep then [] else [amd_result_name (ah_result ah')]))"
  by (auto simp: amd_callback_def amd_report_def run_simps quiet_def intro!: post_intros post_mono [OF quiet_function]
      split: abc_type.split)

section \<open>The slot of the bug\<close>

text \<open>
  \<open>voice_start\<close> stores the NULL it found under \<open>_amd_\<close>, before the bug exists, so the slot
  stays NULL and \<open>voice_stop\<close> never removes a bug.
\<close>

lemma last_private_skip [simp]:
  "store_private l k v (Chan l' (Set_private k' w), a) = (if l' = l \<and> k' = k then w else v)"
  "store_private l k v (Chan l' (Get_variable n), a) = v" "store_private l k v (Chan l' (Get_private n), a) = v"
  "store_private l k v (Chan l' (Hangup c), a) = v"
  "store_private l k v (Sess l' so, a) = v" "store_private l k v (Glue g, a) = v" "store_private l k v (Bug bo, a) = v"
  by (simp_all add: store_private_def)

lemma voice_start_slot:
  "post (voice_start_function E globals_as ah0 data h) (\<lambda>(r, h').
     last_private Caller ''_amd_'' h = None \<longrightarrow> last_private Caller ''_amd_'' h' = None)"
  by (auto simp: voice_start_function_def run_simps last_private_append
      intro!: post_intros postI [of "amd_params _ _ _"] split: option.splits)

lemma voice_stop_slot:
  assumes "private_ok E" and "last_private Caller ''_amd_'' h = None"
  shows "voice_stop_function E h = Some (h @ [(Chan Caller (Get_private ''_amd_''), APtr None)])"
  using assms by (simp add: voice_stop_function_def ask_ptr_def private_ok_def)

section \<open>Waiting for the verdict\<close>

text \<open>
  \<open>waitforresult\<close> returns when the call is eventually hung up, whatever else happens: each turn
  of the loop adds to the trace, and from some length on the channel is in a hangup state.
\<close>

lemma amd_wait_returns_hangup:
  assumes "\<And>h. n \<le> length h \<Longrightarrow> ans_bool E h (Chan Caller State_hangup)"
  shows "returns (amd_wait E h) (\<lambda>_. True)"
proof (induction "n - length h" arbitrary: h rule: less_induct)
  case less
  have sub: "returns (amd_wait E (h @ t)) (\<lambda>_. True)" if "\<not> ans_bool E (h @ u) (Chan Caller State_hangup)" "t \<noteq> []" for t u
  proof -
    have "length h < n" using assms [of "h @ u"] that(1) by (cases "n \<le> length (h @ u)") auto
    then show ?thesis using that(2) by (intro less.hyps) (cases t; simp)
  qed
  show ?case
    by (subst amd_wait.simps) (auto simp: returns_simps ask_defs intro: sub)
qed

section \<open>Properties\<close>

text \<open>
  C14. The invariant of the answering-machine detector: as long as the bug that \<open>voice_start\<close>
  installed stays, whatever frames arrive, at most one of the two phases (initial silence, intro)
  is on, no hangover is pending, the state is silence or noise, every frame counted is a noisy or a
  silent one, and no more bursts of noise are counted than silent frames were seen (one more when
  the fresh block of memory happened to hold 1 in \<open>talking_min\<close>, which is never initialised).
\<close>

theorem amd_detector_invariant:
  assumes "voice_start_function E globals_as ah0 data h = Some (Some ah1, h1)" and "amd_reachable E ah1 ah"
  shows "(state_silent_initial ah, state_intro ah) \<in> {(1, 0), (0, 1), (0, 0)} \<and>
    state ah \<in> {STATE_SILENT, STATE_NOISE} \<and> hangover_hits ah = 0 \<and> hangunder_hits ah = 0 \<and>
    frame_count ah = noisy_frames ah + silent_frames ah \<and>
    total_noise_count ah \<le> silent_frames ah + (if talking_min ah0 = 1 then 1 else 0)"
proof -
  let ?c = "if talking_min ah0 = 1 then 1 else (0 :: int)"
  have "amd_inv ?c ah1" using postD [OF voice_start_inv assms(1)] by simp
  then have "amd_inv ?c ah" by (rule amd_reachable_inv [OF assms(2)])
  then show ?thesis
    by (auto simp: amd_inv_def amd_phase_ok_def amd_bursts_ok_def amd_frames_ok_def STATE_NOISE_def split: if_splits)
qed

definition sample_settings :: amd_settings where
  "sample_settings = \<lparr> silent_threshold = 256, silent_initial = 4500, silent_after_intro = 1000, silent_max_session = 200,
     noise_max_intro = 1250, noise_min_length = 120, noise_inter_silence = 30, noise_max_count = 6,
     total_analysis_time = 5000, as_debug = 0 \<rparr>"

definition sample_helper :: amd_helper where
  "sample_helper = \<lparr> settings = sample_settings, state = 0, state_silent_initial = 0, state_intro = 0,
     complete = 0, ah_status = AMD_STATUS_UNKNOWN, ah_result = None, total_time = 0, total_noise_count = 0,
     total_call_time = 0, talking_min = 0, end_session = 0, last_noisy = 0, last_silent = 0, first_noisy = 0,
     first_silent = 0, intro_silent = 0, samples_counted = 0, frame_count = 0, noisy_frames = 0,
     silent_frames = 0, hangover_hits = 0, hangunder_hits = 0, wait_for_answer = 0 \<rparr>"

text \<open>The sample core on a channel without private data.\<close>

definition fresh_env :: amd_env where
  "fresh_env = sample_env\<lparr> ans_ptr := (\<lambda>h c. None), ans_int := (\<lambda>h c. 1), ans_bool := (\<lambda>h c. c \<noteq> Chan Caller (Test_flag ''CF_ANSWERED'')) \<rparr>"

lemma sample_voice_start:
  "\<exists>ah1 h1. voice_start_function fresh_env sample_settings sample_helper None [] = Some (Some ah1, h1) \<and>
     wait_for_answer ah1 = 0 \<and> settings ah1 = sample_settings \<and> state ah1 = 0 \<and> state_silent_initial ah1 = 1 \<and>
     h1 \<noteq> []"
  by (simp add: voice_start_function_def ask_defs fresh_env_def sample_env_def amd_init_helper_def sample_helper_def)

lemma amd_detector_invariant_witness:
  "\<exists>ah1 h1. voice_start_function fresh_env sample_settings sample_helper None [] = Some (Some ah1, h1) \<and>
     frame_count ah1 = noisy_frames ah1 + silent_frames ah1"
proof -
  obtain ah1 h1 where "voice_start_function fresh_env sample_settings sample_helper None [] = Some (Some ah1, h1)"
    using sample_voice_start by blast
  with amd_detector_invariant [OF this amd_reachable.start] show ?thesis by blast
qed

text \<open>
  C15. What a detector that was removed has published: the callback keeps the bug and publishes
  nothing, or it removes the bug, publishes the status and the result exactly once, and they are one
  of the five verdicts of the algorithm, with the handle marked complete.
\<close>

theorem amd_publishes_verdict:
  assumes "voice_start_function E globals_as ah0 data h = Some (Some ah1, h1)" and "amd_reachable E ah1 ah"
    and "amd_callback E (Some ah) type fdata len h2 = Some (keep, r, h3)"
  shows "if keep then set_values ''amd_status'' h3 = set_values ''amd_status'' h2 \<and>
      set_values ''amd_result'' h3 = set_values ''amd_result'' h2
    else \<exists>ah' stat res. r = Some ah' \<and> complete ah' = 1 \<and>
      set_values ''amd_status'' h3 = set_values ''amd_status'' h2 @ [stat] \<and>
      set_values ''amd_result'' h3 = set_values ''amd_result'' h2 @ [res] \<and>
      (stat, res) \<in> {(''unsure'', ''too-long''), (''machine'', ''max-count''), (''machine'', ''max-intro''),
        (''person'', ''silent-initial''), (''person'', ''silent-after-intro'')}"
proof -
  have inv: "amd_inv (if talking_min ah0 = 1 then 1 else 0) ah"
    using amd_reachable_inv [OF assms(2)] postD [OF voice_start_inv assms(1)] by simp
  show ?thesis
    using postD [OF amd_callback_ok [OF inv] assms(3)] postD [OF amd_callback_publishes assms(3)]
    by (auto simp: verdict_def amd_stat_name_def amd_result_name_def)
qed

lemma amd_publishes_verdict_witness:
  "\<exists>ah1 h1 r h3. voice_start_function fresh_env sample_settings sample_helper None [] = Some (Some ah1, h1) \<and>
     amd_callback fresh_env (Some ah1) ABC_INIT [] 0 [] = Some (True, r, h3) \<and> set_values ''amd_status'' h3 = []"
proof -
  obtain ah1 h1 where start: "voice_start_function fresh_env sample_settings sample_helper None [] = Some (Some ah1, h1)"
    using sample_voice_start by blast
  have run: "amd_callback fresh_env (Some ah1) ABC_INIT [] 0 [] = Some (True, Some ah1, [])"
    by (simp add: amd_callback_def)
  from amd_publishes_verdict [OF start amd_reachable.start run] start run show ?thesis by auto
qed

text \<open>
  The two-state classifier: after a frame that did not end the detection, the state is noise
  exactly when the mean magnitude of the samples read reached the threshold.
\<close>

theorem amd_classifies:
  assumes "voice_start_function E globals_as ah0 data h = Some (Some ah1, h1)" and "amd_reachable E ah1 ah"
    and "amd_function E ah fdata len h2 = Some (SWITCH_STATUS_SUCCESS, ah', h3)"
  shows "\<exists>ch e. amd_energy fdata ch (len div 2) 0 0 = Some e \<and>
    (state ah' = STATE_NOISE \<longleftrightarrow> 0 < len div 2 \<and> silent_threshold (settings ah) * int (len div 2) \<le> e)"
proof -
  have inv: "amd_inv (if talking_min ah0 = 1 then 1 else 0) ah"
    using amd_reachable_inv [OF assms(2)] postD [OF voice_start_inv assms(1)] by simp
  from postD [OF amd_function_state [OF inv] assms(3)] show ?thesis by (auto simp: score_ge_def)
qed

lemma amd_classifies_witness:
  "\<exists>ah1 h1 ah' h3. voice_start_function fresh_env sample_settings sample_helper None [] = Some (Some ah1, h1) \<and>
     amd_function fresh_env ah1 [] 0 [] = Some (SWITCH_STATUS_SUCCESS, ah', h3) \<and> state ah' \<noteq> STATE_NOISE"
proof -
  obtain ah1 h1 where start: "voice_start_function fresh_env sample_settings sample_helper None [] = Some (Some ah1, h1)"
    using sample_voice_start by blast
  have "\<exists>ah' h3. amd_function fresh_env ah1 [] 0 [] = Some (SWITCH_STATUS_SUCCESS, ah', h3)"
    using start
    by (auto simp: voice_start_function_def ask_defs fresh_env_def sample_env_def amd_init_helper_def sample_helper_def
        sample_settings_def amd_function_def amd_prologue_def add32_def to_int32_def c_div_def score_ge_def amd_silent_def
        amd_stop_talking_def amd_initial_silence_def amd_silence_after_intro_def amd_epilogue_def now_def elapsed_def
        STATE_NOISE_def)
  then obtain ah' h3 where run: "amd_function fresh_env ah1 [] 0 [] = Some (SWITCH_STATUS_SUCCESS, ah', h3)" by blast
  from amd_classifies [OF start amd_reachable.start run] have "state ah' \<noteq> STATE_NOISE" by auto
  with start run show ?thesis by blast
qed

text \<open>
  The reads of a frame: the loop over the samples stays inside the buffer exactly when the
  samples of all channels are in it, and for one channel the energy is the sum of the magnitudes. The
  count of samples is that of the whole frame, so with two channels a buffer that holds only the
  frame is read past its end.
\<close>

theorem amd_energy_reads:
  "(amd_energy fdata ch n 0 0 \<noteq> None \<longleftrightarrow> n = 0 \<or> ch * (n - 1) < length fdata) \<and>
   amd_energy fdata 1 (length fdata) 0 0 = Some (\<Sum>x\<leftarrow>fdata. \<bar>x\<bar>) \<and>
   (2 < length fdata \<longrightarrow> amd_energy fdata 2 (length fdata) 0 0 = None)"
proof -
  have reads: "amd_energy fdata ch n 0 0 \<noteq> None \<longleftrightarrow> n = 0 \<or> ch * (n - 1) < length fdata" for ch n
    by (cases n) (use amd_energy_defined in \<open>simp_all del: amd_energy.simps(2)\<close>)
  show ?thesis
    using reads [of ch n] reads [of 2 "length fdata"] amd_energy_mono [of 0 "length fdata" fdata 0] by auto
qed

lemma amd_energy_reads_witness: "amd_energy [3, -4, 5] 2 3 0 0 = None \<and> amd_energy [3, -4, 5] 1 3 0 0 = Some 12"
  using amd_energy_reads [of "[3, -4, 5]" 1 3] by (simp add: numeral_3_eq_3)

text \<open>
  The arguments of \<open>voice_start\<close> and the parameters of the configuration file are read in
  order: they never fail, an entry whose name (in any case) is given again later has no effect, and
  none of them can change \<open>silent_max_session\<close>.
\<close>

theorem amd_params_override:
  fixes E :: amd_env
  assumes "zstr_ok E"
  shows "\<exists>s. amd_params E ps as = Some s \<and> silent_max_session s = silent_max_session as \<and>
    ((\<exists>w v'. v' \<noteq> [] \<and> w \<noteq> [] \<and> strcaseeq v w \<and> (Some w, Some v') \<in> set qs) \<longrightarrow>
      amd_params E (ps @ (Some v, x) # qs) as = amd_params E (ps @ qs) as)"
proof -
  have eff: "effective (xs @ ys) = effective xs @ effective ys" for xs ys
    by (induction xs rule: effective.induct) auto
  have mem: "(Some w, Some v') \<in> set qs \<Longrightarrow> w \<noteq> [] \<Longrightarrow> v' \<noteq> [] \<Longrightarrow> (w, v') \<in> set (effective qs)" for w v'
    by (induction qs rule: effective.induct) auto
  have drop: "amd_params E (ps @ (Some v, x) # qs) as = amd_params E (ps @ qs) as"
    if "v' \<noteq> []" "w \<noteq> []" "strcaseeq v w" "(Some w, Some v') \<in> set qs" for w v'
  proof -
    have "\<exists>e\<in>set (effective qs). strcaseeq v (fst e)" using mem [OF that(4,2,1)] that(3) by force
    then show ?thesis
      using amd_entries.entries_drop_overridden [of "effective qs" v E "effective ps"]
      by (cases x) (simp_all add: amd_params_entries [OF assms] eff)
  qed
  show ?thesis
    using drop amd_entries_session by (auto simp: amd_params_entries [OF assms])
qed

lemma amd_params_override_witness:
  "amd_params fresh_env [(Some ''Debug'', Some ''x''), (Some ''debug'', Some ''y'')] sample_settings =
   amd_params fresh_env [(Some ''debug'', Some ''y'')] sample_settings"
proof -
  have E: "zstr_ok fresh_env" by (simp add: zstr_ok_def fresh_env_def sample_env_def)
  have "strcaseeq ''Debug'' ''debug''" by code_simp
  with amd_params_override [OF E, of "[]" sample_settings "''Debug''" "[(Some ''debug'', Some ''y'')]" "Some ''x''"]
  show ?thesis by auto
qed

text \<open>
  \<open>waitforresult\<close> ends with the call: if from some point on the channel is reported to be in a
  hangup state, the application returns, whether or not a verdict ever arrives.
\<close>

theorem amd_wait_ends:
  assumes "\<And>h. n \<le> length h \<Longrightarrow> ans_bool E h (Chan Caller State_hangup)"
  shows "\<exists>h'. result_function E h = Some h'"
proof -
  have "returns (result_function E h) (\<lambda>_. True)"
    by (auto simp: result_function_def returns_simps
        intro!: returns_intros amd_wait_returns_hangup [of n] assms)
  then show ?thesis by (auto simp: returns_iff)
qed

lemma amd_wait_ends_witness: "\<exists>h'. result_function fresh_env [] = Some h'"
  by (rule amd_wait_ends [of 0]) (simp add: fresh_env_def sample_env_def)

text \<open>
  The detector cannot be stopped by hand: on a channel without an entry under \<open>_amd_\<close>,
  \<open>voice_start\<close> leaves none (it stores the NULL it read, before the bug exists), so the guard
  against a second detector never fires and \<open>voice_stop\<close> only looks, and removes nothing.
\<close>

theorem amd_stop_never_removes:
  assumes "private_ok E" and "last_private Caller ''_amd_'' h = None"
    and "voice_start_function E globals_as ah0 data h = Some (r, h1)"
  shows "last_private Caller ''_amd_'' h1 = None \<and>
    voice_stop_function E h1 = Some (h1 @ [(Chan Caller (Get_private ''_amd_''), APtr None)])"
proof -
  have "last_private Caller ''_amd_'' h1 = None"
    using postD [OF voice_start_slot assms(3)] assms(2) by simp
  with voice_stop_slot [OF assms(1)] show ?thesis by simp
qed

definition slot_env :: amd_env where
  "slot_env = fresh_env\<lparr> ans_ptr := (\<lambda>h c. case c of Chan l (Get_private k) \<Rightarrow> last_private l k h | _ \<Rightarrow> None) \<rparr>"

lemma amd_stop_never_removes_witness:
  "\<exists>r h1. voice_start_function slot_env sample_settings sample_helper None [] = Some (Some r, h1) \<and>
     voice_stop_function slot_env h1 = Some (h1 @ [(Chan Caller (Get_private ''_amd_''), APtr None)])"
proof -
  have ok: "private_ok slot_env" by (simp add: private_ok_def slot_env_def)
  have none: "last_private Caller ''_amd_'' ([] :: amd_trace) = None" by (simp add: last_private_def)
  obtain r h1 where run: "voice_start_function slot_env sample_settings sample_helper None [] = Some (Some r, h1)"
    by (simp add: voice_start_function_def ask_defs slot_env_def fresh_env_def sample_env_def amd_init_helper_def sample_helper_def
        last_private_def store_private_def)
  from amd_stop_never_removes [OF ok none run] run show ?thesis by blast
qed

end
