(* ===== verification/AvmdSettings.thy ===== *)
theory AvmdSettings
  imports Api Settings
begin

text \<open>
  The settings of \<open>mod_avmd.new.c\<close>: \<open>struct avmd_settings\<close>, the parsing of numbers and of
  option=value strings, the XML configuration with its per-parameter fallback to the default, and
  the printing of the settings by \<open>avmd show\<close>.
\<close>

section \<open>The settings\<close>

datatype avmd_detection_mode = AVMD_DETECT_AMP | AVMD_DETECT_FREQ | AVMD_DETECT_BOTH | AVMD_DETECT_NONE

text \<open>The numbers of the enumeration, which is compared and printed as an unsigned integer.\<close>

definition mode_num :: "avmd_detection_mode \<Rightarrow> nat" where
  "mode_num m = (case m of AVMD_DETECT_AMP \<Rightarrow> 0 | AVMD_DETECT_FREQ \<Rightarrow> 1 | AVMD_DETECT_BOTH \<Rightarrow> 2 | AVMD_DETECT_NONE \<Rightarrow> 3)"

definition mode_of :: "nat \<Rightarrow> avmd_detection_mode" where
  "mode_of n = (if n = 0 then AVMD_DETECT_AMP else if n = 1 then AVMD_DETECT_FREQ
     else if n = 2 then AVMD_DETECT_BOTH else AVMD_DETECT_NONE)"

instantiation avmd_detection_mode :: linorder
begin

definition less_eq_avmd_detection_mode :: "avmd_detection_mode \<Rightarrow> avmd_detection_mode \<Rightarrow> bool" where
  "m \<le> m' \<longleftrightarrow> mode_num m \<le> mode_num m'"

definition less_avmd_detection_mode :: "avmd_detection_mode \<Rightarrow> avmd_detection_mode \<Rightarrow> bool" where
  "m < m' \<longleftrightarrow> mode_num m < mode_num m'"

instance
proof
  fix x y :: avmd_detection_mode
  show "x \<le> y \<Longrightarrow> y \<le> x \<Longrightarrow> x = y"
    by (cases x; cases y) (simp_all add: less_eq_avmd_detection_mode_def mode_num_def)
qed (auto simp: less_eq_avmd_detection_mode_def less_avmd_detection_mode_def)

end

lemma mode_of_num [simp]: "mode_of (mode_num m) = m"
  by (cases m) (simp_all add: mode_num_def mode_of_def)

record avmd_settings =
  debug :: "8 word"
  report_status :: "8 word"
  fast_math :: "8 word"
  require_continuous_streak :: "8 word"
  sample_n_continuous_streak :: "16 word"
  sample_n_to_skip :: "16 word"
  require_continuous_streak_amp :: "8 word"
  sample_n_continuous_streak_amp :: "16 word"
  simplified_estimation :: "8 word"
  inbound_channnel :: "8 word"
  outbound_channnel :: "8 word"
  mode :: avmd_detection_mode
  detectors_n :: "8 word"
  detectors_lagged_n :: "8 word"

definition avmd_zero_settings :: avmd_settings where
  "avmd_zero_settings = \<lparr> debug = 0, report_status = 0, fast_math = 0, require_continuous_streak = 0,
     sample_n_continuous_streak = 0, sample_n_to_skip = 0, require_continuous_streak_amp = 0,
     sample_n_continuous_streak_amp = 0, simplified_estimation = 0, inbound_channnel = 0,
     outbound_channnel = 0, mode = AVMD_DETECT_AMP, detectors_n = 0, detectors_lagged_n = 0 \<rparr>"

section \<open>Numbers\<close>

text \<open>
  \<open>avmd_parse_u8_user_input\<close> and \<open>avmd_parse_u16_user_input\<close>: \<open>None\<close> is the result
  -1, which leaves the output alone. The end pointer equals the input when nothing was converted.
\<close>

definition avmd_parse_u8_user_input :: "string \<Rightarrow> nat \<Rightarrow> nat \<Rightarrow> nat option" where
  "avmd_parse_u8_user_input input lo hi = (let (helper, pCh) = strtoul10 input in
     if helper < lo \<or> 255 < helper \<or> hi < helper \<or> pCh = input \<or> pCh \<noteq> [] then None else Some helper)"

definition avmd_parse_u16_user_input :: "string \<Rightarrow> nat \<Rightarrow> nat \<Rightarrow> nat option" where
  "avmd_parse_u16_user_input input lo hi =
     (if hi < lo then None
      else let (helper, pCh) = strtoul10 input in
        if helper < lo \<or> 65535 < helper \<or> hi < helper \<or> pCh = input \<or> pCh \<noteq> [] then None else Some helper)"

section \<open>Options by name\<close>

datatype avmd_key =
    K_debug | K_report_status | K_fast_math | K_require_continuous_streak | K_sample_n_continuous_streak
  | K_sample_n_to_skip | K_require_continuous_streak_amp | K_sample_n_continuous_streak_amp
  | K_simplified_estimation | K_inbound_channel | K_outbound_channel | K_detection_mode
  | K_detectors_n | K_detectors_lagged_n

text \<open>The chain of \<open>strcmp\<close> tests, the same for the XML parameters and for the options of the application.\<close>

definition avmd_key_of :: "string \<Rightarrow> avmd_key option" where
  "avmd_key_of name =
     (if name = ''debug'' then Some K_debug
      else if name = ''report_status'' then Some K_report_status
      else if name = ''fast_math'' then Some K_fast_math
      else if name = ''require_continuous_streak'' then Some K_require_continuous_streak
      else if name = ''sample_n_continuous_streak'' then Some K_sample_n_continuous_streak
      else if name = ''sample_n_to_skip'' then Some K_sample_n_to_skip
      else if name = ''require_continuous_streak_amp'' then Some K_require_continuous_streak_amp
      else if name = ''sample_n_continuous_streak_amp'' then Some K_sample_n_continuous_streak_amp
      else if name = ''simplified_estimation'' then Some K_simplified_estimation
      else if name = ''inbound_channel'' then Some K_inbound_channel
      else if name = ''outbound_channel'' then Some K_outbound_channel
      else if name = ''detection_mode'' then Some K_detection_mode
      else if name = ''detectors_n'' then Some K_detectors_n
      else if name = ''detectors_lagged_n'' then Some K_detectors_lagged_n
      else None)"

text \<open>The value an option takes from a string, and the field it is stored in.\<close>

definition avmd_value :: "('x, 'm) env_scheme \<Rightarrow> avmd_key \<Rightarrow> string \<Rightarrow> nat option" where
  "avmd_value E k val =
     (case k of
        K_sample_n_continuous_streak \<Rightarrow> avmd_parse_u16_user_input val 0 65535
      | K_sample_n_to_skip \<Rightarrow> avmd_parse_u16_user_input val 0 65535
      | K_sample_n_continuous_streak_amp \<Rightarrow> avmd_parse_u16_user_input val 0 65535
      | K_detection_mode \<Rightarrow> avmd_parse_u8_user_input val 0 2
      | K_detectors_n \<Rightarrow> avmd_parse_u8_user_input val 0 255
      | K_detectors_lagged_n \<Rightarrow> avmd_parse_u8_user_input val 0 255
      | _ \<Rightarrow> Some (if switch_true E (Some val) then 1 else 0))"

primrec avmd_assign :: "avmd_key \<Rightarrow> nat \<Rightarrow> avmd_settings \<Rightarrow> avmd_settings" where
  "avmd_assign K_debug n s = s\<lparr> debug := of_nat n \<rparr>"
| "avmd_assign K_report_status n s = s\<lparr> report_status := of_nat n \<rparr>"
| "avmd_assign K_fast_math n s = s\<lparr> fast_math := of_nat n \<rparr>"
| "avmd_assign K_require_continuous_streak n s = s\<lparr> require_continuous_streak := of_nat n \<rparr>"
| "avmd_assign K_sample_n_continuous_streak n s = s\<lparr> sample_n_continuous_streak := of_nat n \<rparr>"
| "avmd_assign K_sample_n_to_skip n s = s\<lparr> sample_n_to_skip := of_nat n \<rparr>"
| "avmd_assign K_require_continuous_streak_amp n s = s\<lparr> require_continuous_streak_amp := of_nat n \<rparr>"
| "avmd_assign K_sample_n_continuous_streak_amp n s = s\<lparr> sample_n_continuous_streak_amp := of_nat n \<rparr>"
| "avmd_assign K_simplified_estimation n s = s\<lparr> simplified_estimation := of_nat n \<rparr>"
| "avmd_assign K_inbound_channel n s = s\<lparr> inbound_channnel := of_nat n \<rparr>"
| "avmd_assign K_outbound_channel n s = s\<lparr> outbound_channnel := of_nat n \<rparr>"
| "avmd_assign K_detection_mode n s = s\<lparr> mode := mode_of n \<rparr>"
| "avmd_assign K_detectors_n n s = s\<lparr> detectors_n := of_nat n \<rparr>"
| "avmd_assign K_detectors_lagged_n n s = s\<lparr> detectors_lagged_n := of_nat n \<rparr>"

section \<open>Options of the application\<close>

text \<open>
  One \<open>option=value\<close>: the status and the settings after it. The candidate is never NULL here.
  The core clears \<open>candidate_parsed\<close> before it fills it, so a missing value is NULL.
\<close>

definition avmd_parse_cmd_data_one_entry ::
  "('x, 'm) env_scheme \<Rightarrow> string \<Rightarrow> avmd_settings \<Rightarrow> (switch_status \<times> avmd_settings) option" where
  "avmd_parse_cmd_data_one_entry E candidate s = do {
     let parts = separate E candidate CHR ''='' 3;
     let argv = zero_filled 3 parts;
     if 2 < length parts then Some (SWITCH_STATUS_IGNORE, s)
     else if zstr E (argv ! 0) then Some (SWITCH_STATUS_NOT_INITALIZED, s)
     else if zstr E (argv ! 1) then Some (SWITCH_STATUS_MORE_DATA, s)
     else do {
       key \<leftarrow> deref (argv ! 0);
       val \<leftarrow> deref (argv ! 1);
       (case avmd_key_of key of
          None \<Rightarrow> Some (SWITCH_STATUS_NOTFOUND, s)
        | Some k \<Rightarrow> (case avmd_value E k val of
            None \<Rightarrow> Some (SWITCH_STATUS_FALSE, s)
          | Some n \<Rightarrow> Some (SWITCH_STATUS_SUCCESS, avmd_assign k n s)))
     }
   }"

fun avmd_parse_entries ::
  "('x, 'm) env_scheme \<Rightarrow> string list \<Rightarrow> avmd_settings \<Rightarrow> (switch_status \<times> avmd_settings) option" where
  "avmd_parse_entries E [] s = Some (SWITCH_STATUS_SUCCESS, s)"
| "avmd_parse_entries E (a # as) s = do {
     (st, s) \<leftarrow> avmd_parse_cmd_data_one_entry E a s;
     if st \<noteq> SWITCH_STATUS_SUCCESS then Some (SWITCH_STATUS_FALSE, s) else avmd_parse_entries E as s
   }"

datatype avmd_app = AVMD_APP_START_APP | AVMD_APP_STOP_APP | AVMD_APP_START_FUNCTION

text \<open>
  \<open>avmd_parse_cmd_data\<close>: the status and the settings of the session, given the global ones.
  A copy of the data that fails is passed on as NULL, which the core splits into no parts.
\<close>

definition avmd_parse_cmd_data ::
  "('x, 'm) env_scheme \<Rightarrow> avmd_settings \<Rightarrow> avmd_settings \<Rightarrow> string option \<Rightarrow> avmd_app \<Rightarrow> 'x trace \<Rightarrow>
   (switch_status \<times> avmd_settings \<times> 'x trace) option" where
  "avmd_parse_cmd_data E globals s cmd_data app h =
     (if zstr E cmd_data then Some (SWITCH_STATUS_SUCCESS, globals, h)
      else if app \<noteq> AVMD_APP_START_APP then Some (SWITCH_STATUS_NOTFOUND, s, h)
      else do {
        (ok, h) \<leftarrow> ask_bool E (Sess Caller (Strdup cmd_data)) h;
        data \<leftarrow> deref cmd_data;
        let argv = (if ok then separate E data CHR '','' 60 else []);
        if 20 < length argv then Some (SWITCH_STATUS_MORE_DATA, s, h)
        else do {
          (st, settings) \<leftarrow> avmd_parse_entries E argv globals;
          if st \<noteq> SWITCH_STATUS_SUCCESS then Some (st, s, h)
          else Some (SWITCH_STATUS_SUCCESS, settings, h)
        }
      })"

section \<open>XML configuration\<close>

definition avmd_default_value :: "avmd_key \<Rightarrow> nat" where
  "avmd_default_value k = (case k of
     K_debug \<Rightarrow> 0 | K_report_status \<Rightarrow> 1 | K_fast_math \<Rightarrow> 0 | K_require_continuous_streak \<Rightarrow> 1
   | K_sample_n_continuous_streak \<Rightarrow> 3 | K_sample_n_to_skip \<Rightarrow> 0 | K_require_continuous_streak_amp \<Rightarrow> 1
   | K_sample_n_continuous_streak_amp \<Rightarrow> 3 | K_simplified_estimation \<Rightarrow> 1 | K_inbound_channel \<Rightarrow> 0
   | K_outbound_channel \<Rightarrow> 1 | K_detection_mode \<Rightarrow> 2 | K_detectors_n \<Rightarrow> 36 | K_detectors_lagged_n \<Rightarrow> 1)"

definition avmd_keys :: "avmd_key list" where
  "avmd_keys = [K_debug, K_report_status, K_fast_math, K_require_continuous_streak, K_sample_n_continuous_streak,
     K_sample_n_to_skip, K_require_continuous_streak_amp, K_sample_n_continuous_streak_amp,
     K_simplified_estimation, K_inbound_channel, K_outbound_channel, K_detection_mode,
     K_detectors_n, K_detectors_lagged_n]"

text \<open>\<open>bad k\<close> is the flag \<open>bad_...\<close> of the parameter.\<close>

definition avmd_xml_param ::
  "('x, 'm) env_scheme \<Rightarrow> string option \<times> string option \<Rightarrow> avmd_settings \<times> (avmd_key \<Rightarrow> bool) \<Rightarrow>
   (avmd_settings \<times> (avmd_key \<Rightarrow> bool)) option" where
  "avmd_xml_param E p sb = (case sb of (s, bad) \<Rightarrow>
     if zstr E (fst p) \<or> zstr E (snd p) then Some (s, bad)
     else do {
       name \<leftarrow> deref (fst p);
       val \<leftarrow> deref (snd p);
       (case avmd_key_of name of
          None \<Rightarrow> Some (s, bad)
        | Some k \<Rightarrow> (case avmd_value E k val of
            None \<Rightarrow> Some (s, bad)
          | Some n \<Rightarrow> Some (avmd_assign k n s, bad(k := False))))
     })"

fun avmd_xml_params ::
  "('x, 'm) env_scheme \<Rightarrow> (string option \<times> string option) list \<Rightarrow> avmd_settings \<times> (avmd_key \<Rightarrow> bool) \<Rightarrow>
   (avmd_settings \<times> (avmd_key \<Rightarrow> bool)) option" where
  "avmd_xml_params E [] sb = Some sb"
| "avmd_xml_params E (p # ps) sb = do { sb \<leftarrow> avmd_xml_param E p sb; avmd_xml_params E ps sb }"

text \<open>The last part: every parameter still bad gets its default.\<close>

definition avmd_fix_bad :: "avmd_settings \<Rightarrow> (avmd_key \<Rightarrow> bool) \<Rightarrow> avmd_settings" where
  "avmd_fix_bad s bad = foldl (\<lambda>s k. if bad k then avmd_assign k (avmd_default_value k) s else s) s avmd_keys"

text \<open>
  \<open>xml\<close> is NULL, or a document whose settings element may be missing. The function
  always returns success.
\<close>

definition avmd_load_xml_configuration ::
  "('x, 'm) env_scheme \<Rightarrow> (string option \<times> string option) list option option \<Rightarrow> avmd_settings \<Rightarrow> avmd_settings option" where
  "avmd_load_xml_configuration E xml s = do {
     (s, bad) \<leftarrow> (case xml of
         None \<Rightarrow> Some (s, \<lambda>_. True)
       | Some cfg \<Rightarrow> (case cfg of None \<Rightarrow> Some (s, \<lambda>_. True) | Some params \<Rightarrow> avmd_xml_params E params (s, \<lambda>_. True)));
     Some (avmd_fix_bad s bad)
   }"

definition avmd_set_xml_default_configuration :: "avmd_settings \<Rightarrow> avmd_settings" where
  "avmd_set_xml_default_configuration s = s\<lparr> debug := 0, report_status := 1, fast_math := 0,
     require_continuous_streak := 1, sample_n_continuous_streak := 3, sample_n_to_skip := 0,
     require_continuous_streak_amp := 1, sample_n_continuous_streak_amp := 3, simplified_estimation := 1,
     inbound_channnel := 0, outbound_channnel := 1, mode := AVMD_DETECT_BOTH, detectors_n := 36,
     detectors_lagged_n := 1 \<rparr>"

definition avmd_set_xml_inbound_configuration :: "avmd_settings \<Rightarrow> avmd_settings" where
  "avmd_set_xml_inbound_configuration s = s\<lparr> inbound_channnel := 1, outbound_channnel := 0 \<rparr>"

definition avmd_set_xml_outbound_configuration :: "avmd_settings \<Rightarrow> avmd_settings" where
  "avmd_set_xml_outbound_configuration s = s\<lparr> inbound_channnel := 0, outbound_channnel := 1 \<rparr>"

definition avmd_load_xml_inbound_configuration ::
  "('x, 'm) env_scheme \<Rightarrow> (string option \<times> string option) list option option \<Rightarrow> avmd_settings \<Rightarrow> avmd_settings option" where
  "avmd_load_xml_inbound_configuration E xml s = do {
     s \<leftarrow> avmd_load_xml_configuration E xml s;
     Some (s\<lparr> inbound_channnel := 1, outbound_channnel := 0 \<rparr>)
   }"

definition avmd_load_xml_outbound_configuration ::
  "('x, 'm) env_scheme \<Rightarrow> (string option \<times> string option) list option option \<Rightarrow> avmd_settings \<Rightarrow> avmd_settings option" where
  "avmd_load_xml_outbound_configuration E xml s = do {
     s \<leftarrow> avmd_load_xml_configuration E xml s;
     Some (s\<lparr> inbound_channnel := 0, outbound_channnel := 1 \<rparr>)
   }"

section \<open>Printing\<close>

definition u8_text :: "8 word \<Rightarrow> string" where "u8_text w = show_nat (unat w)"
definition u16_text :: "16 word \<Rightarrow> string" where "u16_text w = show_nat (unat w)"

definition show_line :: "string \<Rightarrow> string \<Rightarrow> string" where
  "show_line label v = label @ [CHR 0x09] @ v @ nl"

fun write_all :: "string list \<Rightarrow> 'x trace \<Rightarrow> 'x trace option" where
  "write_all [] h = Some h"
| "write_all (t # ts) h = do { h \<leftarrow> exec (Stream_write t) h; write_all ts h }"

definition avmd_show_lines :: "avmd_settings \<Rightarrow> nat \<Rightarrow> string list" where
  "avmd_show_lines s session_n =
     [nl @ nl, replicate 97 CHR ''='' @ nl @ nl, ''Avmd global settings'' @ nl @ nl @ nl,
      show_line ''debug                          '' (u8_text (debug s)),
      show_line ''report status                  '' (u8_text (report_status s)),
      show_line ''fast_math                      '' (u8_text (fast_math s)),
      show_line ''require continuous streak      '' (u8_text (require_continuous_streak s)),
      show_line ''sample n continuous streak     '' (u16_text (sample_n_continuous_streak s)),
      show_line ''sample n to skip               '' (u16_text (sample_n_to_skip s)),
      show_line ''require continuous streak amp  '' (u8_text (require_continuous_streak_amp s)),
      show_line ''sample n continuous streak amp '' (u16_text (sample_n_continuous_streak_amp s)),
      show_line ''simplified estimation          '' (u8_text (simplified_estimation s)),
      show_line ''inbound channel                '' (u8_text (inbound_channnel s)),
      show_line ''outbound channel               '' (u8_text (outbound_channnel s)),
      show_line ''detection mode                 '' (show_nat (mode_num (mode s))),
      show_line ''sessions                       '' (show_nat session_n),
      show_line ''detectors n                    '' (u8_text (detectors_n s)),
      show_line ''detectors lagged n             '' (u8_text (detectors_lagged_n s)),
      nl @ nl]"

definition avmd_show :: "avmd_settings \<Rightarrow> nat \<Rightarrow> 'x trace \<Rightarrow> 'x trace option" where
  "avmd_show s session_n h = write_all (avmd_show_lines s session_n) h"

section \<open>Parsing numbers\<close>

lemma digits_val_rest: "length (snd (digits_val acc s)) \<le> length s"
  by (induction acc s rule: digits_val.induct) auto

lemma avmd_parse_u8_bounds:
  "avmd_parse_u8_user_input s lo hi = Some n \<Longrightarrow> lo \<le> n \<and> n \<le> hi \<and> n \<le> 255"
  by (auto simp: avmd_parse_u8_user_input_def split: prod.splits if_splits)

lemma avmd_parse_u16_bounds:
  "avmd_parse_u16_user_input s lo hi = Some n \<Longrightarrow> lo \<le> n \<and> n \<le> hi \<and> n \<le> 65535"
  by (auto simp: avmd_parse_u16_user_input_def split: prod.splits if_splits)

lemma avmd_parse_u8_show: "lo \<le> n \<Longrightarrow> n \<le> hi \<Longrightarrow> n \<le> 255 \<Longrightarrow> avmd_parse_u8_user_input (show_nat n) lo hi = Some n"
  using strtoul10_show_nat [of n] show_nat_nonempty [of n] by (simp add: avmd_parse_u8_user_input_def ULONG_MAX_def)

lemma avmd_parse_u16_show: "lo \<le> n \<Longrightarrow> n \<le> hi \<Longrightarrow> n \<le> 65535 \<Longrightarrow> avmd_parse_u16_user_input (show_nat n) lo hi = Some n"
  using strtoul10_show_nat [of n] show_nat_nonempty [of n] by (simp add: avmd_parse_u16_user_input_def ULONG_MAX_def)

lemma avmd_value_bound: "avmd_value E k val = Some n \<Longrightarrow> n \<le> 65535"
  by (cases k) (auto simp: avmd_value_def dest: avmd_parse_u8_bounds avmd_parse_u16_bounds split: if_splits)

section \<open>The settings as a keyed block\<close>

lemma avmd_assign_overwrite: "avmd_assign k n (avmd_assign k m s) = avmd_assign k n s"
  by (cases k) simp_all

lemma avmd_assign_commute: "k \<noteq> k' \<Longrightarrow> avmd_assign k' n (avmd_assign k m s) = avmd_assign k m (avmd_assign k' n s)"
  by (cases k; cases k') simp_all

interpretation avmd_entries: keyed_settings avmd_assign "(=)"
  by unfold_locales (auto simp: avmd_assign_overwrite avmd_assign_commute)

text \<open>The accepted entries of a list of options, parsed.\<close>

definition avmd_entry :: "('x, 'm) env_scheme \<Rightarrow> string \<Rightarrow> (avmd_key \<times> nat) option" where
  "avmd_entry E candidate = (let parts = separate E candidate CHR ''='' 3 in
     if length parts \<noteq> 2 \<or> zstr E (Some (parts ! 0)) \<or> zstr E (Some (parts ! 1)) then None
     else case avmd_key_of (parts ! 0) of None \<Rightarrow> None
       | Some k \<Rightarrow> map_option (Pair k) (avmd_value E k (parts ! 1)))"

lemma avmd_one_entry:
  assumes "zstr_ok E"
  shows "\<exists>st. avmd_parse_cmd_data_one_entry E c s = Some (st, (case avmd_entry E c of None \<Rightarrow> s | Some (k, n) \<Rightarrow> avmd_assign k n s)) \<and>
    (st = SWITCH_STATUS_SUCCESS \<longleftrightarrow> avmd_entry E c \<noteq> None)"
proof -
  have z: "zstr E None" "zstr E (Some x) = (x = [])" for x using assms by (auto simp: zstr_ok_def)
  define parts where "parts = separate E c CHR ''='' 3"
  consider "parts = []" | a where "parts = [a]" | a b where "parts = [a, b]" | "2 < length parts"
    by (cases parts rule: remdups_adj.cases; cases "tl (tl parts)") auto
  then show ?thesis
    unfolding avmd_parse_cmd_data_one_entry_def avmd_entry_def parts_def [symmetric] Let_def
    by cases (auto simp: z zero_filled_def numeral_3_eq_3 split: option.splits)
qed

text \<open>A list of options is accepted when each of them is, and then applied in order to the global settings.\<close>

lemma avmd_parse_entries_spec:
  assumes "zstr_ok E"
  shows "\<exists>st s'. avmd_parse_entries E as s = Some (st, s') \<and>
    (st = SWITCH_STATUS_SUCCESS \<or> st = SWITCH_STATUS_FALSE) \<and>
    (st = SWITCH_STATUS_SUCCESS \<longleftrightarrow> (\<forall>a\<in>set as. avmd_entry E a \<noteq> None)) \<and>
    (st = SWITCH_STATUS_SUCCESS \<longrightarrow> s' = avmd_entries.entries (map (the \<circ> avmd_entry E) as) s)"
proof (induction as arbitrary: s)
  case (Cons a as)
  obtain st where st: "avmd_parse_cmd_data_one_entry E a s = Some (st, (case avmd_entry E a of None \<Rightarrow> s | Some (k, n) \<Rightarrow> avmd_assign k n s))"
    "st = SWITCH_STATUS_SUCCESS \<longleftrightarrow> avmd_entry E a \<noteq> None"
    using avmd_one_entry [OF assms, of a s] by blast
  show ?case
  proof (cases "avmd_entry E a")
    case None
    then show ?thesis using st by simp
  next
    case (Some e)
    then show ?thesis using st Cons.IH [of "avmd_assign (fst e) (snd e) s"] by (cases e) auto
  qed
qed simp

text \<open>
  All or nothing: the session gets the new settings on success and keeps its own otherwise, and
  which of the two happens is decided by the options alone.
\<close>

definition avmd_options :: "('x, 'm) env_scheme \<Rightarrow> bool \<Rightarrow> string \<Rightarrow> string list" where
  "avmd_options E copied data = (if copied then separate E data CHR '','' 60 else [])"

lemma avmd_parse_cmd_data_spec:
  fixes E :: "('x, 'm) env_scheme" and h :: "'x trace"
  assumes "zstr_ok E" and "data \<noteq> []"
  defines "opts \<equiv> avmd_options E (ans_bool E h (Sess Caller (Strdup (Some data)))) data"
  shows "\<exists>st s' h'. avmd_parse_cmd_data E globals s (Some data) AVMD_APP_START_APP h = Some (st, s', h') \<and>
    (st = SWITCH_STATUS_SUCCESS \<longleftrightarrow> length opts \<le> 20 \<and> (\<forall>a\<in>set opts. avmd_entry E a \<noteq> None)) \<and>
    s' = (if st = SWITCH_STATUS_SUCCESS then avmd_entries.entries (map (the \<circ> avmd_entry E) opts) globals else s)"
proof -
  obtain st s1 where s1: "avmd_parse_entries E opts globals = Some (st, s1)"
    "st = SWITCH_STATUS_SUCCESS \<or> st = SWITCH_STATUS_FALSE"
    "st = SWITCH_STATUS_SUCCESS \<longleftrightarrow> (\<forall>a\<in>set opts. avmd_entry E a \<noteq> None)"
    "st = SWITCH_STATUS_SUCCESS \<longrightarrow> s1 = avmd_entries.entries (map (the \<circ> avmd_entry E) opts) globals"
    using avmd_parse_entries_spec [OF assms(1), of opts globals] by (elim exE conjE) (rule that)
  have run: "\<exists>h'. avmd_parse_cmd_data E globals s (Some data) AVMD_APP_START_APP h =
    (if 20 < length opts then Some (SWITCH_STATUS_MORE_DATA, s, h')
     else if st \<noteq> SWITCH_STATUS_SUCCESS then Some (st, s, h') else Some (SWITCH_STATUS_SUCCESS, s1, h'))"
    using assms(1,2) s1(1) by (auto simp: avmd_parse_cmd_data_def ask_bool_def zstr_ok_def opts_def avmd_options_def Let_def)
  consider "20 < length opts" | "length opts \<le> 20" "st = SWITCH_STATUS_SUCCESS" | "length opts \<le> 20" "st \<noteq> SWITCH_STATUS_SUCCESS"
    by linarith
  then show ?thesis
  proof cases
    case 1
    then show ?thesis using run by auto
  next
    case 2
    then show ?thesis using run s1(3,4) by auto
  next
    case 3
    with run obtain h' where "avmd_parse_cmd_data E globals s (Some data) AVMD_APP_START_APP h = Some (st, s, h')" by auto
    moreover have "st = SWITCH_STATUS_SUCCESS \<longleftrightarrow> length opts \<le> 20 \<and> (\<forall>a\<in>set opts. avmd_entry E a \<noteq> None)"
      using s1(3) 3 by blast
    ultimately show ?thesis using 3 by (intro exI [of _ st] exI [of _ s] exI [of _ h'] conjI) (simp, blast, simp)
  qed
qed

section \<open>Reloading the configuration\<close>

lemma avmd_keys_all: "k \<in> set avmd_keys"
  by (cases k) (simp_all add: avmd_keys_def)

text \<open>The number an option holds.\<close>

primrec avmd_field :: "avmd_key \<Rightarrow> avmd_settings \<Rightarrow> nat" where
  "avmd_field K_debug s = unat (debug s)"
| "avmd_field K_report_status s = unat (report_status s)"
| "avmd_field K_fast_math s = unat (fast_math s)"
| "avmd_field K_require_continuous_streak s = unat (require_continuous_streak s)"
| "avmd_field K_sample_n_continuous_streak s = unat (sample_n_continuous_streak s)"
| "avmd_field K_sample_n_to_skip s = unat (sample_n_to_skip s)"
| "avmd_field K_require_continuous_streak_amp s = unat (require_continuous_streak_amp s)"
| "avmd_field K_sample_n_continuous_streak_amp s = unat (sample_n_continuous_streak_amp s)"
| "avmd_field K_simplified_estimation s = unat (simplified_estimation s)"
| "avmd_field K_inbound_channel s = unat (inbound_channnel s)"
| "avmd_field K_outbound_channel s = unat (outbound_channnel s)"
| "avmd_field K_detection_mode s = mode_num (mode s)"
| "avmd_field K_detectors_n s = unat (detectors_n s)"
| "avmd_field K_detectors_lagged_n s = unat (detectors_lagged_n s)"

lemma mode_num_inj: "mode_num m = mode_num m' \<Longrightarrow> m = m'"
  by (metis mode_of_num)

lemma avmd_settings_eqI: "(\<And>k. avmd_field k s = avmd_field k s') \<Longrightarrow> s = s'"
proof -
  assume a: "\<And>k. avmd_field k s = avmd_field k s'"
  show ?thesis
    using a [of K_debug] a [of K_report_status] a [of K_fast_math]
      a [of K_require_continuous_streak] a [of K_sample_n_continuous_streak]
      a [of K_sample_n_to_skip] a [of K_require_continuous_streak_amp]
      a [of K_sample_n_continuous_streak_amp] a [of K_simplified_estimation]
      a [of K_inbound_channel] a [of K_outbound_channel] a [of K_detection_mode]
      a [of K_detectors_n] a [of K_detectors_lagged_n]
    by (cases s; cases s') (simp add: unsigned_word_eqI mode_num_inj)
qed

text \<open>The number an option holds after it was given one.\<close>

definition avmd_stored :: "avmd_key \<Rightarrow> nat \<Rightarrow> nat" where
  "avmd_stored k n = avmd_field k (avmd_assign k n avmd_zero_settings)"

lemma avmd_field_assign:
  "avmd_field k' (avmd_assign k n s) = (if k' = k then avmd_stored k n else avmd_field k' s)"
  by (cases k; cases k') (simp_all add: avmd_stored_def)

text \<open>
  The invariant of reading the parameters twice, from two old settings: the flags agree, and so do
  the fields whose flag is cleared.
\<close>

definition same_good :: "avmd_settings \<times> (avmd_key \<Rightarrow> bool) \<Rightarrow> avmd_settings \<times> (avmd_key \<Rightarrow> bool) \<Rightarrow> bool" where
  "same_good p q \<longleftrightarrow> snd p = snd q \<and> (\<forall>k. \<not> snd p k \<longrightarrow> avmd_field k (fst p) = avmd_field k (fst q))"

definition avmd_xml_entry :: "('x, 'm) env_scheme \<Rightarrow> string option \<times> string option \<Rightarrow> (avmd_key \<times> nat) option option" where
  "avmd_xml_entry E p =
     (if zstr E (fst p) \<or> zstr E (snd p) then Some None
      else case p of
        (Some name, Some val) \<Rightarrow> Some (case avmd_key_of name of None \<Rightarrow> None | Some k \<Rightarrow> map_option (Pair k) (avmd_value E k val))
      | _ \<Rightarrow> None)"

definition apply_entry :: "(avmd_key \<times> nat) option \<Rightarrow> avmd_settings \<times> (avmd_key \<Rightarrow> bool) \<Rightarrow> avmd_settings \<times> (avmd_key \<Rightarrow> bool)" where
  "apply_entry e sb = (case e of None \<Rightarrow> sb | Some (k, n) \<Rightarrow> (avmd_assign k n (fst sb), (snd sb)(k := False)))"

lemma avmd_xml_param_entry: "avmd_xml_param E p sb = map_option (\<lambda>e. apply_entry e sb) (avmd_xml_entry E p)"
  by (cases p; cases sb; cases "fst p"; cases "snd p")
    (auto simp: avmd_xml_param_def avmd_xml_entry_def apply_entry_def split: option.split)

lemma same_good_apply: "same_good p q \<Longrightarrow> same_good (apply_entry e p) (apply_entry e q)"
  by (auto simp: same_good_def apply_entry_def avmd_field_assign split: option.split)

lemma same_good_params:
  "same_good p q \<Longrightarrow> rel_option same_good (avmd_xml_params E ps p) (avmd_xml_params E ps q)"
proof (induction ps arbitrary: p q)
  case (Cons e ps)
  then show ?case
    by (cases "avmd_xml_entry E e") (simp_all add: avmd_xml_param_entry same_good_apply)
qed simp

lemma avmd_field_fix_list:
  "avmd_field k (foldl (\<lambda>s k. if bad k then avmd_assign k (avmd_default_value k) s else s) s ks) =
     (if bad k \<and> k \<in> set ks then avmd_stored k (avmd_default_value k) else avmd_field k s)"
  by (induction ks arbitrary: s) (auto simp: avmd_field_assign)

lemma avmd_field_fix_bad:
  "avmd_field k (avmd_fix_bad s bad) =
     (if bad k then avmd_stored k (avmd_default_value k) else avmd_field k s)"
  by (simp add: avmd_fix_bad_def avmd_field_fix_list avmd_keys_all)

lemma same_good_fix: "same_good (s, bad) (s', bad') \<Longrightarrow> avmd_fix_bad s bad = avmd_fix_bad s' bad'"
  by (rule avmd_settings_eqI) (auto simp: same_good_def avmd_field_fix_bad)

text \<open>A reload forgets the settings before it.\<close>

lemma avmd_load_xml_history: "avmd_load_xml_configuration E xml s = avmd_load_xml_configuration E xml s'"
proof -
  have "same_good (s, \<lambda>_. True) (s', \<lambda>_. True)" by (simp add: same_good_def)
  note fixed = same_good_fix [OF this] and ps = same_good_params [OF this, of E]
  show ?thesis
  proof (cases xml)
    case None
    then show ?thesis using fixed by (simp add: avmd_load_xml_configuration_def)
  next
    case (Some cfg)
    show ?thesis
    proof (cases cfg)
      case None
      then show ?thesis using fixed Some by (simp add: avmd_load_xml_configuration_def)
    next
      case (Some params)
      from ps [of params] show ?thesis using \<open>xml = Some cfg\<close> Some
        by (auto simp: avmd_load_xml_configuration_def same_good_fix elim: option.rel_cases)
    qed
  qed
qed

text \<open>Without a file the reload is the reset to the defaults.\<close>

lemma avmd_load_xml_missing: "avmd_load_xml_configuration E None s = Some (avmd_set_xml_default_configuration s)"
  by (simp add: avmd_load_xml_configuration_def avmd_fix_bad_def avmd_keys_def avmd_default_value_def
      avmd_set_xml_default_configuration_def mode_of_def)

lemma avmd_load_xml_total: "zstr_ok E \<Longrightarrow> \<exists>s'. avmd_load_xml_configuration E xml s = Some s'"
proof -
  assume E: "zstr_ok E"
  have one: "\<exists>q. avmd_xml_param E e p = Some q" for e p
    using E by (cases e; cases "fst e"; cases "snd e") (auto simp: avmd_xml_param_entry avmd_xml_entry_def zstr_ok_def)
  have all: "\<exists>q. avmd_xml_params E ps p = Some q" for ps p
  proof (induction ps arbitrary: p)
    case (Cons e ps)
    obtain q where "avmd_xml_param E e p = Some q" using one by blast
    then show ?case using Cons.IH by simp
  qed simp
  show ?thesis
  proof (cases "\<exists>params. xml = Some (Some params)")
    case True
    then obtain params q where "xml = Some (Some params)" "avmd_xml_params E params (s, \<lambda>_. True) = Some q"
      using all by blast
    then show ?thesis by (cases q) (simp add: avmd_load_xml_configuration_def)
  next
    case False
    then show ?thesis by (auto simp: avmd_load_xml_configuration_def split: option.split)
  qed
qed

section \<open>The settings as a map\<close>

text \<open>
  The specification of the settings: each option holds the last value the list of entries gives it,
  and otherwise what it held before.
\<close>

definition last_value :: "avmd_key \<Rightarrow> (avmd_key \<times> nat) list \<Rightarrow> nat \<Rightarrow> nat" where
  "last_value k es d = foldl (\<lambda>v (k', n). if k' = k then n else v) d es"

lemma last_value_simps [simp]:
  "last_value k [] d = d"
  "last_value k ((k', n) # es) d = last_value k es (if k' = k then n else d)"
  by (simp_all add: last_value_def)

text \<open>The values that are accepted fit the field they are stored in.\<close>

lemma avmd_stored_id: "avmd_value E k val = Some n \<Longrightarrow> avmd_stored k n = n"
  by (cases k)
    (auto simp: avmd_value_def avmd_stored_def avmd_zero_settings_def unat_of_nat mode_num_def mode_of_def
      dest!: avmd_parse_u8_bounds avmd_parse_u16_bounds split: if_splits)

lemma avmd_default_stored: "avmd_stored k (avmd_default_value k) = avmd_default_value k"
  by (cases k) (simp_all add: avmd_stored_def avmd_zero_settings_def avmd_default_value_def mode_num_def mode_of_def)

definition accepted :: "(avmd_key \<times> nat) list \<Rightarrow> bool" where
  "accepted es \<longleftrightarrow> (\<forall>e\<in>set es. avmd_stored (fst e) (snd e) = snd e)"

lemma entries_field:
  "accepted es \<Longrightarrow> avmd_field k (avmd_entries.entries es s) = last_value k es (avmd_field k s)"
  by (induction es arbitrary: s) (auto simp: accepted_def avmd_field_assign)

lemma avmd_entry_accepted: "avmd_entry E c = Some (k, n) \<Longrightarrow> avmd_stored k n = n"
  by (auto simp: avmd_entry_def Let_def avmd_stored_id split: if_splits option.splits)

text \<open>The entries of the file that count.\<close>

fun xml_entries :: "('x, 'm) env_scheme \<Rightarrow> (string option \<times> string option) list \<Rightarrow> (avmd_key \<times> nat) list" where
  "xml_entries E [] = []"
| "xml_entries E (p # ps) = (case avmd_xml_entry E p of Some (Some e) \<Rightarrow> e # xml_entries E ps | _ \<Rightarrow> xml_entries E ps)"

lemma xml_entry_accepted: "avmd_xml_entry E p = Some (Some (k, n)) \<Longrightarrow> avmd_stored k n = n"
  by (auto simp: avmd_xml_entry_def avmd_stored_id split: if_splits option.splits prod.splits)

lemma xml_params_field:
  assumes "avmd_xml_params E ps (s, bad) = Some (s', bad')"
  shows "avmd_field k s' = last_value k (xml_entries E ps) (avmd_field k s) \<and>
    (bad' k \<longleftrightarrow> bad k \<and> k \<notin> fst ` set (xml_entries E ps))"
  using assms
proof (induction ps arbitrary: s bad)
  case (Cons p ps)
  obtain e where e: "avmd_xml_entry E p = Some e"
    using Cons.prems by (cases "avmd_xml_entry E p") (simp_all add: avmd_xml_param_entry)
  show ?case
  proof (cases e)
    case None
    then show ?thesis using Cons e by (simp add: avmd_xml_param_entry apply_entry_def)
  next
    case (Some kn)
    obtain k' n where kn: "kn = (k', n)" by fastforce
    have "avmd_xml_params E ps (avmd_assign k' n s, bad(k' := False)) = Some (s', bad')"
      using Cons.prems e Some kn by (simp add: avmd_xml_param_entry apply_entry_def)
    from Cons.IH [OF this] show ?thesis
      using e Some kn xml_entry_accepted [of E p k' n] by (auto simp: avmd_field_assign)
  qed
qed simp

lemma last_value_mentioned: "k \<in> fst ` set es \<Longrightarrow> last_value k es d = last_value k es d'"
proof (induction es arbitrary: d d')
  case (Cons e es)
  then show ?case by (cases "fst e = k"; cases e) (simp, simp)
qed simp

lemma last_value_unmentioned: "k \<notin> fst ` set es \<Longrightarrow> last_value k es d = d"
  by (induction es arbitrary: d) auto

section \<open>Properties\<close>

text \<open>
  C8. Reloading the configuration: it always succeeds, and afterwards every option holds the last
  valid value the file gives it and its factory default when the file gives it none, whatever the
  settings were before; in particular a missing file resets the module to the factory settings.
\<close>

theorem avmd_reload_spec:
  assumes "zstr_ok E"
  shows "\<exists>s'. avmd_load_xml_configuration E xml s = Some s' \<and>
    (\<forall>k. avmd_field k s' = last_value k (case xml of Some (Some ps) \<Rightarrow> xml_entries E ps | _ \<Rightarrow> []) (avmd_default_value k)) \<and>
    (xml = None \<longrightarrow> s' = avmd_set_xml_default_configuration s)"
proof -
  obtain s' where s': "avmd_load_xml_configuration E xml s = Some s'"
    using avmd_load_xml_total [OF assms] by blast
  have "avmd_field k s' = last_value k (case xml of Some (Some ps) \<Rightarrow> xml_entries E ps | _ \<Rightarrow> []) (avmd_default_value k)" for k
  proof (cases "\<exists>ps. xml = Some (Some ps)")
    case True
    then obtain ps s1 bad where ps: "xml = Some (Some ps)" "avmd_xml_params E ps (s, \<lambda>_. True) = Some (s1, bad)"
      using s' by (auto simp: avmd_load_xml_configuration_def split: bind_splits)
    then have "s' = avmd_fix_bad s1 bad" using s' by (simp add: avmd_load_xml_configuration_def)
    then show ?thesis
      using xml_params_field [OF ps(2), of k] ps(1) avmd_default_stored [of k]
        last_value_mentioned [of k "xml_entries E ps" "avmd_field k s" "avmd_default_value k"]
        last_value_unmentioned [of k "xml_entries E ps" "avmd_default_value k"]
      by (auto simp: avmd_field_fix_bad)
  next
    case False
    then have "s' = avmd_fix_bad s (\<lambda>_. True)"
      using s' by (auto simp: avmd_load_xml_configuration_def split: option.splits)
    then show ?thesis using False by (auto simp: avmd_field_fix_bad avmd_default_stored split: option.splits)
  qed
  then show ?thesis using s' avmd_load_xml_missing [of E s] by auto
qed

lemma avmd_reload_spec_witness:
  "\<exists>s'. avmd_load_xml_configuration (sample_env :: unit env) (Some (Some [(Some ''detectors_n'', Some ''7''), (Some ''detectors_n'', Some ''x'')])) avmd_zero_settings = Some s' \<and>
     avmd_field K_detectors_n s' = 7"
proof -
  let ?E = "sample_env :: unit env"
  let ?xml = "Some (Some [(Some ''detectors_n'', Some ''7''), (Some ''detectors_n'', Some ''x'')])"
  have "xml_entries ?E [(Some ''detectors_n'', Some ''7''), (Some ''detectors_n'', Some ''x'')] = [(K_detectors_n, 7)]"
    by (simp add: sample_env_def avmd_xml_entry_def avmd_key_of_def avmd_value_def avmd_parse_u8_user_input_def strtoul10_def
        split_sign_def starts_digit_def c_isdigit_def c_isspace_def c_digit_def ULONG_MAX_def)
  moreover have "\<exists>s'. avmd_load_xml_configuration ?E ?xml avmd_zero_settings = Some s' \<and>
    (\<forall>k. avmd_field k s' = last_value k (case ?xml of Some (Some ps) \<Rightarrow> xml_entries ?E ps | _ \<Rightarrow> []) (avmd_default_value k)) \<and>
    (?xml = None \<longrightarrow> s' = avmd_set_xml_default_configuration avmd_zero_settings)"
    by (rule avmd_reload_spec [OF sample_env_ok(1)])
  moreover from this obtain s' where "avmd_load_xml_configuration ?E ?xml avmd_zero_settings = Some s'"
    and F: "\<And>k. avmd_field k s' = last_value k (case ?xml of Some (Some ps) \<Rightarrow> xml_entries ?E ps | _ \<Rightarrow> []) (avmd_default_value k)"
    by blast
  moreover have "avmd_field K_detectors_n s' = 7" using F [of K_detectors_n] calculation(1) by simp
  ultimately show ?thesis by blast
qed

text \<open>
  C9. The options of \<open>avmd_start\<close> are all or nothing: with at most 20 options of which each is
  valid, every option of the session holds the last value it is given and otherwise the value in
  the global settings; in any other case the session keeps its settings and the status is not success.
\<close>

theorem avmd_options_all_or_nothing:
  assumes "zstr_ok E" and "data \<noteq> []" and "ans_bool E h (Sess Caller (Strdup (Some data)))"
  defines "opts \<equiv> separate E data CHR '','' 60"
  shows "\<exists>st s' h'. avmd_parse_cmd_data E globals s (Some data) AVMD_APP_START_APP h = Some (st, s', h') \<and>
    (st = SWITCH_STATUS_SUCCESS \<longleftrightarrow> length opts \<le> 20 \<and> (\<forall>a\<in>set opts. avmd_entry E a \<noteq> None)) \<and>
    (if st = SWITCH_STATUS_SUCCESS
     then \<forall>k. avmd_field k s' = last_value k (map (the \<circ> avmd_entry E) opts) (avmd_field k globals) else s' = s)"
proof -
  have "\<exists>st s' h'. avmd_parse_cmd_data E globals s (Some data) AVMD_APP_START_APP h = Some (st, s', h') \<and>
    (st = SWITCH_STATUS_SUCCESS \<longleftrightarrow> length opts \<le> 20 \<and> (\<forall>a\<in>set opts. avmd_entry E a \<noteq> None)) \<and>
    s' = (if st = SWITCH_STATUS_SUCCESS then avmd_entries.entries (map (the \<circ> avmd_entry E) opts) globals else s)"
    using avmd_parse_cmd_data_spec [OF assms(1,2), where h = h and globals = globals and s = s]
    by (simp only: avmd_options_def assms(3) if_True opts_def)
  then obtain st s' h' where run: "avmd_parse_cmd_data E globals s (Some data) AVMD_APP_START_APP h = Some (st, s', h')"
    and st: "st = SWITCH_STATUS_SUCCESS \<longleftrightarrow> length opts \<le> 20 \<and> (\<forall>a\<in>set opts. avmd_entry E a \<noteq> None)"
    and s': "s' = (if st = SWITCH_STATUS_SUCCESS then avmd_entries.entries (map (the \<circ> avmd_entry E) opts) globals else s)"
    by (elim exE conjE) (rule that)
  have "avmd_field k s' = last_value k (map (the \<circ> avmd_entry E) opts) (avmd_field k globals)"
    if "st = SWITCH_STATUS_SUCCESS" for k
  proof -
    have "accepted (map (the \<circ> avmd_entry E) opts)"
      using st that by (auto simp: accepted_def intro: avmd_entry_accepted)
    then show ?thesis using s' that by (simp add: entries_field)
  qed
  with run st s' show ?thesis by auto
qed

lemma avmd_options_witness:
  "\<exists>s' h'. avmd_parse_cmd_data (sample_env :: unit env) avmd_zero_settings avmd_zero_settings
     (Some ''detectors_n=9,detectors_n=7'') AVMD_APP_START_APP [] = Some (SWITCH_STATUS_SUCCESS, s', h') \<and>
     avmd_field K_detectors_n s' = 7"
proof -
  let ?E = "sample_env :: unit env"
  have split: "separate ?E ''detectors_n=9,detectors_n=7'' CHR '','' 60 = [''detectors_n=9'', ''detectors_n=7'']"
    by (simp add: sample_answers)
  have parse: "avmd_entry ?E ''detectors_n=9'' = Some (K_detectors_n, 9)" "avmd_entry ?E ''detectors_n=7'' = Some (K_detectors_n, 7)"
    by (simp_all add: sample_env_def avmd_xml_entry_def avmd_key_of_def avmd_value_def avmd_parse_u8_user_input_def strtoul10_def
        split_sign_def starts_digit_def c_isdigit_def c_isspace_def c_digit_def ULONG_MAX_def
        avmd_entry_def)
  have "\<exists>st s' h'. avmd_parse_cmd_data ?E avmd_zero_settings avmd_zero_settings
      (Some ''detectors_n=9,detectors_n=7'') AVMD_APP_START_APP [] = Some (st, s', h') \<and>
    (st = SWITCH_STATUS_SUCCESS \<longleftrightarrow> length (separate ?E ''detectors_n=9,detectors_n=7'' CHR '','' 60) \<le> 20 \<and>
      (\<forall>a\<in>set (separate ?E ''detectors_n=9,detectors_n=7'' CHR '','' 60). avmd_entry ?E a \<noteq> None)) \<and>
    (if st = SWITCH_STATUS_SUCCESS then \<forall>k. avmd_field k s' = last_value k
      (map (the \<circ> avmd_entry ?E) (separate ?E ''detectors_n=9,detectors_n=7'' CHR '','' 60))
      (avmd_field k avmd_zero_settings) else s' = avmd_zero_settings)"
    by (rule avmd_options_all_or_nothing [OF sample_env_ok(1) _ sample_answers(1)]) simp
  then obtain st s' h' where run: "avmd_parse_cmd_data ?E avmd_zero_settings avmd_zero_settings
      (Some ''detectors_n=9,detectors_n=7'') AVMD_APP_START_APP [] = Some (st, s', h')"
    and st: "st = SWITCH_STATUS_SUCCESS \<longleftrightarrow> length [''detectors_n=9'', ''detectors_n=7''] \<le> 20 \<and>
      (\<forall>a\<in>set [''detectors_n=9'', ''detectors_n=7'']. avmd_entry ?E a \<noteq> None)"
    and F: "if st = SWITCH_STATUS_SUCCESS then \<forall>k. avmd_field k s' = last_value k
      (map (the \<circ> avmd_entry ?E) [''detectors_n=9'', ''detectors_n=7'']) (avmd_field k avmd_zero_settings) else s' = avmd_zero_settings"
    unfolding split by (elim exE conjE) (rule that)
  have "st = SWITCH_STATUS_SUCCESS" using st parse by simp
  moreover from this F parse have "avmd_field K_detectors_n s' = 7" by simp
  ultimately show ?thesis using run by blast
qed

text \<open>
  C10. Numbers: a parsed number is between the bounds and fits its type, and every number between the
  bounds that fits is read back from its decimal text.
\<close>

theorem avmd_number_bounds_roundtrip:
  "(avmd_parse_u8_user_input inp lo hi = Some m \<longrightarrow> lo \<le> m \<and> m \<le> hi \<and> m \<le> 255) \<and>
   (avmd_parse_u16_user_input inp lo hi = Some m \<longrightarrow> lo \<le> m \<and> m \<le> hi \<and> m \<le> 65535) \<and>
   (avmd_parse_u8_user_input (show_nat n) lo hi = Some n \<longleftrightarrow> lo \<le> n \<and> n \<le> hi \<and> n \<le> 255) \<and>
   (avmd_parse_u16_user_input (show_nat n) lo hi = Some n \<longleftrightarrow> lo \<le> n \<and> n \<le> hi \<and> n \<le> 65535)"
  using avmd_parse_u8_bounds [of inp lo hi m] avmd_parse_u16_bounds [of inp lo hi m]
    avmd_parse_u8_bounds [of "show_nat n" lo hi n] avmd_parse_u16_bounds [of "show_nat n" lo hi n]
    avmd_parse_u8_show [of lo n hi] avmd_parse_u16_show [of lo n hi] by blast

lemma avmd_number_witness:
  "avmd_parse_u8_user_input (show_nat 200) 0 255 = Some 200 \<and> avmd_parse_u16_user_input (show_nat 70000) 0 65535 \<noteq> Some 70000"
  using avmd_number_bounds_roundtrip [of "[]" 0 255 0 200] avmd_number_bounds_roundtrip [of "[]" 0 65535 0 70000] by simp

end
