(* ===== verification/Dbl.thy ===== *)
theory Dbl
  imports Complex_Main CString
begin

text \<open>
  IEEE 754 doubles as \<open>mod_avmd.new.c\<close> computes with them: rounding to 53 bits, ties to even,
  with infinities and NaN. The sign of a zero is not kept; the code never divides by a zero that
  could carry one. \<open>sqrt\<close> and \<open>acos\<close> are taken from the math library as parameters of the
  detector.
\<close>

datatype dbl = NaN | Inf bool | Fin rat     \<comment> \<open>the flag of an infinity is its sign\<close>

section \<open>Rounding\<close>

definition round_even :: "rat \<Rightarrow> int" where
  "round_even r = (let f = \<lfloor>r\<rfloor>; d = r - of_int f in
     if d < 1 / 2 then f else if 1 / 2 < d then f + 1 else if even f then f else f + 1)"

fun bits :: "nat \<Rightarrow> nat" where
  "bits n = (if n = 0 then 0 else Suc (bits (n div 2)))"

declare bits.simps [simp del]

text \<open>The exponent of a positive number: \<open>2 ^ e \<le> r < 2 ^ (e + 1)\<close>.\<close>

definition exponent :: "rat \<Rightarrow> int" where
  "exponent r = (let (n, d) = quotient_of r; e = int (bits (nat n)) - int (bits (nat d))
     in if 2 powi e \<le> r then e else e - 1)"

definition round_dbl :: "rat \<Rightarrow> dbl" where
  "round_dbl r =
     (if r = 0 then Fin 0
      else let e = max (exponent \<bar>r\<bar>) (-1022);
               q = 2 powi (e - 52);
               v = of_int (round_even (r / q)) * q
           in if 2 ^ 1024 \<le> \<bar>v\<bar> then Inf (r < 0) else Fin v)"

section \<open>Arithmetic\<close>

fun dbl_neg :: "dbl \<Rightarrow> dbl" where
  "dbl_neg NaN = NaN"
| "dbl_neg (Inf s) = Inf (\<not> s)"
| "dbl_neg (Fin r) = Fin (- r)"

fun dbl_abs :: "dbl \<Rightarrow> dbl" where
  "dbl_abs NaN = NaN"
| "dbl_abs (Inf s) = Inf False"
| "dbl_abs (Fin r) = Fin \<bar>r\<bar>"

fun dbl_add :: "dbl \<Rightarrow> dbl \<Rightarrow> dbl" where
  "dbl_add (Fin a) (Fin b) = round_dbl (a + b)"
| "dbl_add (Inf s) (Inf t) = (if s = t then Inf s else NaN)"
| "dbl_add (Inf s) (Fin b) = Inf s"
| "dbl_add (Fin a) (Inf t) = Inf t"
| "dbl_add _ _ = NaN"

definition dbl_sub :: "dbl \<Rightarrow> dbl \<Rightarrow> dbl" where
  "dbl_sub a b = dbl_add a (dbl_neg b)"

fun dbl_mul :: "dbl \<Rightarrow> dbl \<Rightarrow> dbl" where
  "dbl_mul (Fin a) (Fin b) = round_dbl (a * b)"
| "dbl_mul (Inf s) (Inf t) = Inf (s \<noteq> t)"
| "dbl_mul (Inf s) (Fin b) = (if b = 0 then NaN else Inf (s \<noteq> (b < 0)))"
| "dbl_mul (Fin a) (Inf t) = (if a = 0 then NaN else Inf ((a < 0) \<noteq> t))"
| "dbl_mul _ _ = NaN"

fun dbl_div :: "dbl \<Rightarrow> dbl \<Rightarrow> dbl" where
  "dbl_div (Fin a) (Fin b) = (if b = 0 then (if a = 0 then NaN else Inf (a < 0)) else round_dbl (a / b))"
| "dbl_div (Inf s) (Fin b) = Inf (s \<noteq> (b < 0))"
| "dbl_div (Fin a) (Inf t) = Fin 0"
| "dbl_div _ _ = NaN"

text \<open>Comparisons are false when an operand is NaN.\<close>

fun dbl_less :: "dbl \<Rightarrow> dbl \<Rightarrow> bool" where
  "dbl_less (Fin a) (Fin b) = (a < b)"
| "dbl_less (Inf s) (Fin b) = s"
| "dbl_less (Fin a) (Inf t) = (\<not> t)"
| "dbl_less (Inf s) (Inf t) = (s \<and> \<not> t)"
| "dbl_less _ _ = False"

fun dbl_le :: "dbl \<Rightarrow> dbl \<Rightarrow> bool" where
  "dbl_le (Fin a) (Fin b) = (a \<le> b)"
| "dbl_le (Inf s) (Fin b) = s"
| "dbl_le (Fin a) (Inf t) = (\<not> t)"
| "dbl_le (Inf s) (Inf t) = (s \<or> \<not> t)"
| "dbl_le _ _ = False"

definition is_nan :: "dbl \<Rightarrow> bool" where "is_nan d \<longleftrightarrow> d = NaN"
definition is_inf :: "dbl \<Rightarrow> bool" where "is_inf d \<longleftrightarrow> d = Inf True \<or> d = Inf False"

text \<open>A decimal literal of the program, and \<open>M_PI\<close>.\<close>

definition lit :: "int \<Rightarrow> int \<Rightarrow> dbl" where
  "lit n d = round_dbl (of_int n / of_int d)"

definition M_PI :: dbl where
  "M_PI = Fin (884279719003555 / 281474976710656)"

section \<open>Printing\<close>

text \<open>Six digits after the point, rounded to even as \<open>printf("%f")\<close> does; the sign of a NaN is not kept.\<close>

definition pad6 :: "nat \<Rightarrow> string" where
  "pad6 n = (let s = show_nat n in replicate (6 - length s) CHR ''0'' @ s)"

definition print_f :: "dbl \<Rightarrow> string" where
  "print_f d = (case d of
     NaN \<Rightarrow> ''nan''
   | Inf s \<Rightarrow> (if s then ''-inf'' else ''inf'')
   | Fin r \<Rightarrow> (let n = nat \<bar>round_even (r * 1000000)\<bar> in
       (if r < 0 then ''-'' else []) @ show_nat (n div 1000000) @ ''.'' @ pad6 (n mod 1000000)))"

section \<open>Lemmas\<close>

lemma dbl_less_irrefl [simp]: "\<not> dbl_less a a"
  by (cases a) simp_all

lemma not_less_le: "\<not> is_nan a \<Longrightarrow> \<not> is_nan b \<Longrightarrow> \<not> dbl_less a b \<longleftrightarrow> dbl_le b a"
  by (cases a; cases b) (auto simp: is_nan_def)

lemma dbl_less_nan [simp]: "\<not> dbl_less NaN b" "\<not> dbl_less a NaN"
  by (cases b; simp) (cases a; simp)

end
