(* ===== verification/AvmdDetector.thy ===== *)
theory AvmdDetector
  imports AvmdSettings Dbl
begin

text \<open>
  The detectors of \<open>mod_avmd.new.c\<close>: their layout over the samples of a frame, the analysis of
  one sample, the decisions on amplitude and frequency, the round of a detector thread, and the
  master that hands a frame to the detectors and collects their verdict.

  The moving-average and circular buffers, DESA-2 and the median filter are in headers that are not
  part of the repository: they are the parameter \<open>lib\<close>, together with \<open>sqrt\<close> and the arc
  cosine of the math library. Bytes used as counters below 256 are natural numbers; the loops whose
  byte counter can wrap keep it at its width.
\<close>

section \<open>State\<close>

record ('sma, 'circ) avmd_lib =
  sma_new :: "nat \<Rightarrow> 'sma"                       \<comment> \<open>INIT_SMA_BUFFER\<close>
  sma_append :: "'sma \<Rightarrow> dbl \<Rightarrow> 'sma"              \<comment> \<open>APPEND_SMA_VAL\<close>
  sma_reset :: "'sma \<Rightarrow> 'sma"                     \<comment> \<open>RESET_SMA_BUFFER\<close>
  sma_mean :: "'sma \<Rightarrow> dbl"                       \<comment> \<open>the field sma\<close>
  sma_lpos :: "'sma \<Rightarrow> nat"
  sma_pos :: "'sma \<Rightarrow> nat"
  sma_data :: "'sma \<Rightarrow> nat \<Rightarrow> dbl option"         \<comment> \<open>a read of data, None out of range\<close>
  circ_new :: "nat \<Rightarrow> nat \<Rightarrow> 'circ"                \<comment> \<open>INIT_CIRC_BUFFER\<close>
  circ_insert :: "'circ \<Rightarrow> int list \<Rightarrow> 'circ"       \<comment> \<open>INSERT_INT16_FRAME\<close>
  circ_mask :: "'circ \<Rightarrow> nat"
  desa2 :: "'circ \<Rightarrow> nat \<Rightarrow> dbl \<times> dbl"            \<comment> \<open>avmd_desa2_tweaked: omega and amplitude\<close>
  median3 :: "dbl \<Rightarrow> dbl \<Rightarrow> dbl \<Rightarrow> dbl"
  arc_cos :: "dbl \<Rightarrow> dbl"
  c_sqrt :: "dbl \<Rightarrow> dbl"

record 'sma avmd_buffer =
  sma_b :: 'sma
  sqa_b :: 'sma
  sma_b_fir :: 'sma
  sqa_b_fir :: 'sma
  sma_amp_b :: 'sma
  sqa_amp_b :: 'sma
  resolution :: nat
  offset :: nat
  amplitude_max :: dbl
  samples_streak :: nat
  samples_streak_amp :: nat

text \<open>
  \<open>thread_pos\<close> and \<open>thread_res\<close> are the local variables \<open>pos\<close> and \<open>res\<close> of the
  detector's thread.
\<close>

record 'sma avmd_detector =
  thread :: bool                             \<comment> \<open>thread != NULL\<close>
  flag_processing_done :: bool
  flag_should_exit :: bool
  result :: avmd_detection_mode
  buffer :: "'sma avmd_buffer"
  samples :: nat
  idx :: "8 word"
  lagged :: bool
  lag :: nat
  thread_pos :: nat
  thread_res :: avmd_detection_mode

datatype avmd_beep_state = BEEP_DETECTED | BEEP_NOTDETECTED

record ('sma, 'circ) avmd_session =
  has_session :: bool                        \<comment> \<open>session != NULL\<close>
  a_settings :: avmd_settings
  rate :: nat
  circ :: 'circ
  pos :: nat
  f :: dbl
  beep_state :: avmd_beep_state
  last_beep :: nat
  start_time :: int
  stop_time :: int
  detection_start_time :: int
  detection_stop_time :: int
  frame_n :: nat
  frame_n_to_skip :: nat
  detectors :: "'sma avmd_detector list"

section \<open>Constants\<close>

text \<open>The macros on the sample rate: \<open>r / (1000 / m)\<close> for the times 2, 0.125 and 20 ms.\<close>

definition AVMD_BEEP_LEN :: "nat \<Rightarrow> nat" where "AVMD_BEEP_LEN r = r div 500"
definition AVMD_SINE_LEN :: "nat \<Rightarrow> nat" where "AVMD_SINE_LEN r = r div 8000"
definition AVMD_FRAME_LEN :: "nat \<Rightarrow> nat" where "AVMD_FRAME_LEN r = r div 50"
definition AVMD_P :: nat where "AVMD_P = 5"
definition AVMD_MIN_AMP :: dbl where "AVMD_MIN_AMP = Fin 17"
definition AVMD_MIN_FREQUENCY :: dbl where "AVMD_MIN_FREQUENCY = Fin 440"
definition AVMD_MAX_FREQUENCY :: dbl where "AVMD_MAX_FREQUENCY = Fin 2000"
definition AVMD_VARIANCE_RSD_THRESHOLD :: dbl where "AVMD_VARIANCE_RSD_THRESHOLD = lit 25 1000000"
definition AVMD_AMPLITUDE_RSD_THRESHOLD :: dbl where "AVMD_AMPLITUDE_RSD_THRESHOLD = lit 148 10000"

definition AVMD_TO_HZ :: "nat \<Rightarrow> dbl \<Rightarrow> dbl" where
  "AVMD_TO_HZ r w = dbl_div (dbl_mul (Fin (of_nat r)) w) (dbl_mul (Fin 2) M_PI)"

section \<open>Decisions\<close>

text \<open>The common test: enough samples and no pending streak.\<close>

definition enough_samples :: "nat \<Rightarrow> nat \<Rightarrow> nat \<Rightarrow> 8 word \<Rightarrow> 16 word \<Rightarrow> nat \<Rightarrow> nat \<Rightarrow> bool" where
  "enough_samples r res lpos require n streak_lpos streak \<longleftrightarrow>
     AVMD_BEEP_LEN r div res \<le> lpos \<and>
     (require = 1 \<and> unat n < streak_lpos \<and> streak = 0 \<or> require = 0 \<and> 1 < streak_lpos)"

definition avmd_decision_amplitude ::
  "('sma, 'circ) avmd_lib \<Rightarrow> nat \<Rightarrow> avmd_settings \<Rightarrow> 'sma avmd_buffer \<Rightarrow> dbl \<Rightarrow> dbl \<Rightarrow> bool" where
  "avmd_decision_amplitude lib r st b v rsd_threshold =
     (if enough_samples r (resolution b) (sma_lpos lib (sma_b b)) (require_continuous_streak_amp st)
           (sample_n_continuous_streak_amp st) (sma_lpos lib (sma_amp_b b)) (samples_streak_amp b)
      then (let a = dbl_abs (sma_mean lib (sma_amp_b b)) in
        if dbl_less a AVMD_MIN_AMP then False
        else dbl_less (dbl_div (c_sqrt lib v) a) rsd_threshold)
      else False)"

definition avmd_decision_freq ::
  "('sma, 'circ) avmd_lib \<Rightarrow> nat \<Rightarrow> avmd_settings \<Rightarrow> 'sma avmd_buffer \<Rightarrow> dbl \<Rightarrow> dbl \<Rightarrow> bool" where
  "avmd_decision_freq lib r st b v rsd_threshold =
     (let hz = AVMD_TO_HZ r (dbl_abs (sma_mean lib (sma_b_fir b))) in
      if dbl_less hz AVMD_MIN_FREQUENCY \<or> dbl_less AVMD_MAX_FREQUENCY hz then False
      else if enough_samples r (resolution b) (sma_lpos lib (sma_b b)) (require_continuous_streak st)
                (sample_n_continuous_streak st) (sma_lpos lib (sma_b b)) (samples_streak b)
      then (let rsd = dbl_div (c_sqrt lib v) hz;
                amp = sma_mean lib (sma_amp_b b);
                top = amplitude_max b in
        dbl_less rsd (dbl_mul (lit 3 10) rsd_threshold) \<and> dbl_le (dbl_mul (lit 5 1000) top) amp \<or>
        dbl_less rsd (dbl_mul (lit 6 10) rsd_threshold) \<and> dbl_le (dbl_mul (lit 1 100) top) amp \<or>
        dbl_less rsd rsd_threshold \<and> dbl_le (dbl_mul (lit 15 1000) top) amp)
      else False)"

text \<open>The biased variance of two running means.\<close>

definition variance :: "dbl \<Rightarrow> dbl \<Rightarrow> dbl" where
  "variance mean_sq mean = dbl_sub mean_sq (dbl_mul mean mean)"

section \<open>One sample\<close>

text \<open>The amplitude part: the new buffer and whether the amplitude is valid.\<close>

definition avmd_amplitude_part ::
  "('sma, 'circ) avmd_lib \<Rightarrow> avmd_settings \<Rightarrow> dbl \<Rightarrow> 'sma avmd_buffer \<Rightarrow> bool \<times> 'sma avmd_buffer" where
  "avmd_amplitude_part lib st amplitude b =
     (if is_nan amplitude \<or> is_inf amplitude then
        (False, if require_continuous_streak_amp st = 1
          then b\<lparr> sma_amp_b := sma_reset lib (sma_amp_b b), sqa_amp_b := sma_reset lib (sqa_amp_b b),
                  samples_streak_amp := unat (sample_n_continuous_streak_amp st) \<rparr>
          else b)
      else (let b = b\<lparr> sma_amp_b := sma_append lib (sma_amp_b b) amplitude,
                       sqa_amp_b := sma_append lib (sqa_amp_b b) (dbl_mul amplitude amplitude) \<rparr>;
                (valid, b) = (if require_continuous_streak_amp st = 1 \<and> 0 < samples_streak_amp b
                   then (False, b\<lparr> samples_streak_amp := samples_streak_amp b - 1 \<rparr>) else (True, b));
                b = (if dbl_less (amplitude_max b) (sma_mean lib (sma_amp_b b))
                     then b\<lparr> amplitude_max := sma_mean lib (sma_amp_b b) \<rparr> else b)
            in (valid, b)))"

text \<open>The frequency part.\<close>

definition avmd_reset_freq ::
  "('sma, 'circ) avmd_lib \<Rightarrow> avmd_settings \<Rightarrow> 'sma avmd_buffer \<Rightarrow> 'sma avmd_buffer" where
  "avmd_reset_freq lib st b = (if require_continuous_streak st = 1
     then b\<lparr> sma_b := sma_reset lib (sma_b b), sqa_b := sma_reset lib (sqa_b b),
             sma_b_fir := sma_reset lib (sma_b_fir b), sqa_b_fir := sma_reset lib (sqa_b_fir b),
             samples_streak := unat (sample_n_continuous_streak st) \<rparr>
     else b)"

definition avmd_frequency_part ::
  "('sma, 'circ) avmd_lib \<Rightarrow> avmd_settings \<Rightarrow> dbl \<Rightarrow> 'sma avmd_buffer \<Rightarrow> (bool \<times> 'sma avmd_buffer) option" where
  "avmd_frequency_part lib st omega b =
     (if is_nan omega then Some (False, avmd_reset_freq lib st b)
      else if dbl_less omega (lit (-99999) 100000) \<or> dbl_less (lit 99999 100000) omega
      then Some (False, avmd_reset_freq lib st b)
      else do {
        let w = dbl_mul (lit 5 10) (arc_cos lib omega);
        let p = sma_pos lib (sma_b b);
        w_fir \<leftarrow> (if 1 < p then do {
            x \<leftarrow> sma_data lib (sma_b b) (p - 2);
            y \<leftarrow> sma_data lib (sma_b b) (p - 1);
            Some (median3 lib x y w) }
          else Some w);
        let b = b\<lparr> sma_b := sma_append lib (sma_b b) w, sqa_b := sma_append lib (sqa_b b) (dbl_mul w w),
                   sma_b_fir := sma_append lib (sma_b_fir b) w_fir,
                   sqa_b_fir := sma_append lib (sqa_b_fir b) (dbl_mul w_fir w_fir) \<rparr>;
        if require_continuous_streak st = 1 \<and> 0 < samples_streak b
        then Some (False, b\<lparr> samples_streak := samples_streak b - 1 \<rparr>) else Some (True, b)
      })"

definition avmd_verdict ::
  "('sma, 'circ) avmd_lib \<Rightarrow> nat \<Rightarrow> avmd_settings \<Rightarrow> bool \<Rightarrow> bool \<Rightarrow> 'sma avmd_buffer \<Rightarrow> avmd_detection_mode" where
  "avmd_verdict lib r st valid_amplitude valid_omega b =
     (let m = mode st;
          v_amp = (if (m = AVMD_DETECT_AMP \<or> m = AVMD_DETECT_BOTH) \<and> valid_amplitude
                   then variance (sma_mean lib (sqa_amp_b b)) (sma_mean lib (sma_amp_b b)) else lit 99999 10);
          v_fir = variance (sma_mean lib (sqa_b_fir b)) (sma_mean lib (sma_b_fir b)) in
      if m = AVMD_DETECT_AMP \<and> valid_amplitude \<and> avmd_decision_amplitude lib r st b v_amp AVMD_AMPLITUDE_RSD_THRESHOLD
      then AVMD_DETECT_AMP
      else if m = AVMD_DETECT_FREQ \<and> valid_omega \<and> avmd_decision_freq lib r st b v_fir AVMD_VARIANCE_RSD_THRESHOLD
      then AVMD_DETECT_FREQ
      else if m = AVMD_DETECT_BOTH \<and> valid_omega \<and>
        avmd_decision_amplitude lib r st b v_amp AVMD_AMPLITUDE_RSD_THRESHOLD \<and>
        avmd_decision_freq lib r st b v_fir AVMD_VARIANCE_RSD_THRESHOLD
      then AVMD_DETECT_BOTH
      else AVMD_DETECT_NONE)"

definition avmd_process_sample ::
  "('sma, 'circ) avmd_lib \<Rightarrow> nat \<Rightarrow> avmd_settings \<Rightarrow> 'circ \<Rightarrow> nat \<Rightarrow> nat \<Rightarrow> 'sma avmd_buffer \<Rightarrow>
   (avmd_detection_mode \<times> 'sma avmd_buffer) option" where
  "avmd_process_sample lib r st c sample_n p b =
     (if 0 < sample_n_to_skip st then Some (AVMD_DETECT_NONE, b)
      else do {
        let (omega, amplitude) = desa2 lib c (p + sample_n);
        let m = mode st;
        let (valid_amplitude, b) = (if m = AVMD_DETECT_AMP \<or> m = AVMD_DETECT_BOTH
          then avmd_amplitude_part lib st amplitude b else (True, b));
        (valid_omega, b) \<leftarrow> (if m = AVMD_DETECT_FREQ \<or> m = AVMD_DETECT_BOTH
          then avmd_frequency_part lib st omega b else Some (True, b));
        Some (avmd_verdict lib r st valid_amplitude valid_omega b, b)
      })"

section \<open>The round of a detector thread\<close>

text \<open>
  The loop over the samples from \<open>sample_n\<close> on, \<open>n\<close> of them left: a detector looks at the
  samples with \<open>(sample_n + offset) % resolution == 0\<close> and stops at the first detection.
\<close>

fun avmd_scan ::
  "('sma, 'circ) avmd_lib \<Rightarrow> nat \<Rightarrow> avmd_settings \<Rightarrow> 'circ \<Rightarrow> nat \<Rightarrow> nat \<Rightarrow> nat \<Rightarrow>
   avmd_detection_mode \<Rightarrow> 'sma avmd_buffer \<Rightarrow> (avmd_detection_mode \<times> 'sma avmd_buffer) option" where
  "avmd_scan lib r st c p 0 sample_n res b = Some (res, b)"
| "avmd_scan lib r st c p (Suc n) sample_n res b =
     (if (sample_n + offset b) mod resolution b = 0 then do {
        (res, b) \<leftarrow> avmd_process_sample lib r st c sample_n p b;
        if res \<noteq> AVMD_DETECT_NONE then Some (res, b) else avmd_scan lib r st c p n (Suc sample_n) res b }
      else avmd_scan lib r st c p n (Suc sample_n) res b)"

text \<open>
  One pass of the endless loop of \<open>avmd_detector_func\<close> after it was woken up, without the locks:
  the detector after it, or after the exit.
\<close>

definition avmd_detector_round ::
  "('sma, 'circ) avmd_lib \<Rightarrow> nat \<Rightarrow> avmd_settings \<Rightarrow> 'circ \<Rightarrow> 'sma avmd_detector \<Rightarrow> 'sma avmd_detector option" where
  "avmd_detector_round lib r st c d =
     (if flag_should_exit d then Some (d\<lparr> flag_processing_done := True \<rparr>)
      else if lagged d \<and> 0 < lag d
      then Some (d\<lparr> lag := lag d - 1, flag_processing_done := True, result := thread_res d \<rparr>)
      else do {
        let d = (if lagged d then d\<lparr> thread_pos := thread_pos d + AVMD_P \<rparr> else d);
        (res, b) \<leftarrow> avmd_scan lib r st c (thread_pos d) (samples d) 1 (thread_res d) (buffer d);
        Some (d\<lparr> buffer := b, thread_res := res, flag_processing_done := True, result := res \<rparr>)
      })"

text \<open>Every detector that is waiting for work does its round; each touches its own state only.\<close>

fun avmd_rounds ::
  "('sma, 'circ) avmd_lib \<Rightarrow> nat \<Rightarrow> avmd_settings \<Rightarrow> 'circ \<Rightarrow> 'sma avmd_detector list \<Rightarrow> 'sma avmd_detector list option" where
  "avmd_rounds lib r st c [] = Some []"
| "avmd_rounds lib r st c (d # ds) = do {
     d \<leftarrow> (if flag_processing_done d then Some d else avmd_detector_round lib r st c d);
     ds \<leftarrow> avmd_rounds lib r st c ds;
     Some (d # ds)
   }"

section \<open>Loops with a byte counter\<close>

definition detector_total :: "avmd_settings \<Rightarrow> nat" where
  "detector_total st = unat (detectors_n st) + unat (detectors_lagged_n st)"

text \<open>
  \<open>avmd_detection_in_progress\<close>: the first detector that is not done. The counter is a byte and the
  bound an int, so with more than 255 detectors that are all done the loop does not end.
\<close>

partial_function (option) in_progress_from :: "nat \<Rightarrow> bool list \<Rightarrow> 8 word \<Rightarrow> bool option" where
  "in_progress_from n done_flags i =
     (if unat i < n then do {
        fl \<leftarrow> arr done_flags (unat i);
        if \<not> fl then Some True else in_progress_from n done_flags (i + 1) }
      else Some False)"

definition avmd_detection_in_progress :: "avmd_settings \<Rightarrow> 'sma avmd_detector list \<Rightarrow> bool option" where
  "avmd_detection_in_progress st ds = in_progress_from (detector_total st) (map flag_processing_done ds) 0"

text \<open>\<open>avmd_detection_result\<close> up to the report: the index of the first detector with a result.\<close>

partial_function (option) first_result_from :: "nat \<Rightarrow> avmd_detection_mode list \<Rightarrow> 8 word \<Rightarrow> 8 word option option" where
  "first_result_from n results i =
     (if unat i < n then do {
        m \<leftarrow> arr results (unat i);
        if m \<noteq> AVMD_DETECT_NONE then Some (Some i) else first_result_from n results (i + 1) }
      else Some None)"

text \<open>The loop of \<open>avmd_process\<close> that hands the frame to the detectors without a result.\<close>

definition avmd_hand_out :: "nat \<Rightarrow> 'sma avmd_detector \<Rightarrow> 'sma avmd_detector" where
  "avmd_hand_out n d = (if result d = AVMD_DETECT_NONE
     then d\<lparr> flag_processing_done := False, flag_should_exit := False, samples := n \<rparr> else d)"

partial_function (option) hand_out_from ::
  "nat \<Rightarrow> nat \<Rightarrow> 'sma avmd_detector list \<Rightarrow> 8 word \<Rightarrow> 'sma avmd_detector list option" where
  "hand_out_from n smp ds i =
     (if unat i < n then do {
        d \<leftarrow> arr ds (unat i);
        hand_out_from n smp (ds[unat i := avmd_hand_out smp d]) (i + 1) }
      else Some ds)"

section \<open>The byte counters\<close>

lemma unat_Suc_byte: "unat (i :: 8 word) < 255 \<Longrightarrow> unat (i + 1) = Suc (unat i)"
  by (subst unat_plus_simple [THEN iffD1]) (auto simp: word_le_nat_alt unat_word_ariths)

text \<open>Up to 255 detectors the loop ends and answers whether one of them is still working.\<close>

lemma in_progress_from_spec:
  assumes "n \<le> 255" and "length fl = n" and "unat i \<le> n"
  shows "in_progress_from n fl i = Some (\<exists>j<n. unat i \<le> j \<and> \<not> fl ! j)"
  using assms(3)
proof (induction "n - unat i" arbitrary: i)
  case 0
  then show ?case by (subst in_progress_from.simps) auto
next
  case (Suc m)
  then have lt: "unat i < n" and nx: "unat (i + 1) = Suc (unat i)" using assms(1) unat_Suc_byte by auto
  have ih: "in_progress_from n fl (i + 1) = Some (\<exists>j<n. unat (i + 1) \<le> j \<and> \<not> fl ! j)"
    using Suc.hyps(2) Suc.prems lt nx by (intro Suc.hyps(1)) auto
  have "(\<exists>j<n. unat i \<le> j \<and> \<not> fl ! j) \<longleftrightarrow> \<not> fl ! unat i \<or> (\<exists>j<n. Suc (unat i) \<le> j \<and> \<not> fl ! j)"
    using lt by (metis Suc_le_eq le_eq_less_or_eq)
  then show ?case using lt ih nx assms(2) by (subst in_progress_from.simps) auto
qed

text \<open>With more than 255 detectors that are all done it does not end: the counter wraps to 0.\<close>

lemma in_progress_from_diverges:
  assumes "255 < n" and "length fl = n" and "\<forall>j<n. fl ! j"
  shows "in_progress_from n fl i = None"
proof -
  have "255 < n \<and> length fl = n \<and> (\<forall>j<n. fl ! j) \<longrightarrow> False" if "in_progress_from n fl i = Some r" for r
  proof (rule in_progress_from.raw_induct [OF _ that, of "\<lambda>n fl i r. 255 < n \<and> length fl = n \<and> (\<forall>j<n. fl ! j) \<longrightarrow> False"])
    fix g :: "nat \<Rightarrow> bool list \<Rightarrow> 8 word \<Rightarrow> bool option" and n fl i r
    assume ih: "\<And>n fl i r. g n fl i = Some r \<Longrightarrow> 255 < n \<and> length fl = n \<and> (\<forall>j<n. fl ! j) \<longrightarrow> False"
      and run: "(if unat i < n then arr fl (unat i) \<bind> (\<lambda>fla. if \<not> fla then Some True else g n fl (i + 1)) else Some False) = Some r"
    show "255 < n \<and> length fl = n \<and> (\<forall>j<n. fl ! j) \<longrightarrow> False"
    proof
      assume a: "255 < n \<and> length fl = n \<and> (\<forall>j<n. fl ! j)"
      have "unat i < 2 ^ LENGTH(8)" by (rule unsigned_less)
      then have "unat i < 256" by simp
      then have "unat i < n" using a by simp
      then have "fl ! unat i" using a by simp
      then have "g n fl (i + 1) = Some r" using run a \<open>unat i < n\<close> by simp
      from ih [OF this] a show False by simp
    qed
  qed
  then show ?thesis using assms by (cases "in_progress_from n fl i") auto
qed

text \<open>The result loop finds the detector of smallest index.\<close>

lemma first_result_from_spec:
  assumes "n \<le> 255" and "length rs = n" and "unat i \<le> n"
  shows "\<exists>r. first_result_from n rs i = Some r \<and>
    (case r of None \<Rightarrow> \<forall>j<n. unat i \<le> j \<longrightarrow> rs ! j = AVMD_DETECT_NONE
     | Some k \<Rightarrow> unat k < n \<and> unat i \<le> unat k \<and> rs ! unat k \<noteq> AVMD_DETECT_NONE \<and>
         (\<forall>j<unat k. unat i \<le> j \<longrightarrow> rs ! j = AVMD_DETECT_NONE))"
  using assms(3)
proof (induction "n - unat i" arbitrary: i)
  case 0
  then show ?case by (subst first_result_from.simps) auto
next
  case (Suc m)
  then have lt: "unat i < n" and nx: "unat (i + 1) = Suc (unat i)" using assms(1) unat_Suc_byte by auto
  show ?case
  proof (cases "rs ! unat i = AVMD_DETECT_NONE")
    case False
    then show ?thesis using lt assms(2) by (subst first_result_from.simps) auto
  next
    case True
    have "\<exists>r. first_result_from n rs (i + 1) = Some r \<and>
      (case r of None \<Rightarrow> \<forall>j<n. unat (i + 1) \<le> j \<longrightarrow> rs ! j = AVMD_DETECT_NONE
       | Some k \<Rightarrow> unat k < n \<and> unat (i + 1) \<le> unat k \<and> rs ! unat k \<noteq> AVMD_DETECT_NONE \<and>
           (\<forall>j<unat k. unat (i + 1) \<le> j \<longrightarrow> rs ! j = AVMD_DETECT_NONE))"
      using Suc.hyps(2) Suc.prems lt nx by (intro Suc.hyps(1)) auto
    then obtain r where r: "first_result_from n rs (i + 1) = Some r"
      "case r of None \<Rightarrow> \<forall>j<n. Suc (unat i) \<le> j \<longrightarrow> rs ! j = AVMD_DETECT_NONE
       | Some k \<Rightarrow> unat k < n \<and> Suc (unat i) \<le> unat k \<and> rs ! unat k \<noteq> AVMD_DETECT_NONE \<and>
           (\<forall>j<unat k. Suc (unat i) \<le> j \<longrightarrow> rs ! j = AVMD_DETECT_NONE)"
      unfolding nx by blast
    have eq: "first_result_from n rs i = Some r" using lt assms(2) True r(1) by (subst first_result_from.simps) simp
    have step: "rs ! j = AVMD_DETECT_NONE" if "unat i \<le> j" "Suc (unat i) \<le> j \<longrightarrow> rs ! j = AVMD_DETECT_NONE" for j
      using that True by (cases "j = unat i") auto
    show ?thesis
    proof (cases r)
      case None
      then have "\<forall>j<n. Suc (unat i) \<le> j \<longrightarrow> rs ! j = AVMD_DETECT_NONE" using r(2) by simp
      then have "\<forall>j<n. unat i \<le> j \<longrightarrow> rs ! j = AVMD_DETECT_NONE" using step by blast
      then show ?thesis using eq None by simp
    next
      case (Some k)
      then have k: "unat k < n" "Suc (unat i) \<le> unat k" "rs ! unat k \<noteq> AVMD_DETECT_NONE"
        "\<forall>j<unat k. Suc (unat i) \<le> j \<longrightarrow> rs ! j = AVMD_DETECT_NONE" using r(2) by simp_all
      then have "\<forall>j<unat k. unat i \<le> j \<longrightarrow> rs ! j = AVMD_DETECT_NONE" using step by blast
      then show ?thesis using eq Some k by simp
    qed
  qed
qed

lemma hand_out_from_spec:
  assumes "n \<le> 255" and "length ds = n" and "unat i \<le> n"
  shows "hand_out_from n smp ds i = Some (take (unat i) ds @ map (avmd_hand_out smp) (drop (unat i) ds))"
  using assms(2,3)
proof (induction "n - unat i" arbitrary: i ds)
  case 0
  then show ?case by (subst hand_out_from.simps) auto
next
  case (Suc m)
  then have lt: "unat i < n" and nx: "unat (i + 1) = Suc (unat i)" using assms(1) unat_Suc_byte by auto
  let ?d = "ds[unat i := avmd_hand_out smp (ds ! unat i)]"
  have "hand_out_from n smp ?d (i + 1) = Some (take (unat (i + 1)) ?d @ map (avmd_hand_out smp) (drop (unat (i + 1)) ?d))"
    using Suc.hyps(2) Suc.prems lt nx by (intro Suc.hyps(1)) auto
  then show ?case
    using lt nx Suc.prems(1) by (subst hand_out_from.simps) (simp add: take_Suc_conv_app_nth Cons_nth_drop_Suc [symmetric])
qed

section \<open>Decisions and verdicts\<close>

text \<open>A frequency is only accepted inside the band from 440 to 2000 Hz.\<close>

lemma avmd_decision_freq_band:
  assumes "avmd_decision_freq lib r st b v t"
  shows "\<not> dbl_less (AVMD_TO_HZ r (dbl_abs (sma_mean lib (sma_b_fir b)))) AVMD_MIN_FREQUENCY \<and>
    \<not> dbl_less AVMD_MAX_FREQUENCY (AVMD_TO_HZ r (dbl_abs (sma_mean lib (sma_b_fir b)))) \<and>
    AVMD_BEEP_LEN r div resolution b \<le> sma_lpos lib (sma_b b)"
  using assms by (auto simp: avmd_decision_freq_def enough_samples_def Let_def split: if_splits)

lemma avmd_decision_amplitude_enough:
  "avmd_decision_amplitude lib r st b v t \<Longrightarrow> AVMD_BEEP_LEN r div resolution b \<le> sma_lpos lib (sma_b b)"
  by (auto simp: avmd_decision_amplitude_def enough_samples_def split: if_splits)

lemma avmd_verdict_mode: "avmd_verdict lib r st va vo b \<in> {AVMD_DETECT_NONE, mode st}"
  by (auto simp: avmd_verdict_def Let_def)

text \<open>What one sample leaves of the buffer's slot, and the verdicts it can give.\<close>

lemma amplitude_part_slot:
  "resolution (snd (avmd_amplitude_part lib st a b)) = resolution b \<and> offset (snd (avmd_amplitude_part lib st a b)) = offset b \<and>
   sma_b (snd (avmd_amplitude_part lib st a b)) = sma_b b"
  by (auto simp: avmd_amplitude_part_def Let_def split: prod.split)

lemma frequency_part_slot:
  "post (avmd_frequency_part lib st w b) (\<lambda>(v, b'). resolution b' = resolution b \<and> offset b' = offset b)"
  by (auto simp: avmd_frequency_part_def avmd_reset_freq_def run_simps intro!: postI [of "sma_data _ _ _"])

lemma process_sample_slot:
  "post (avmd_process_sample lib r st c n p b) (\<lambda>(m, b'). resolution b' = resolution b \<and> offset b' = offset b \<and>
     m \<in> {AVMD_DETECT_NONE, mode st})"
proof -
  obtain w a where wa: "desa2 lib c (p + n) = (w, a)" by fastforce
  obtain va b1 where b1: "avmd_amplitude_part lib st a b = (va, b1)" by fastforce
  then have "resolution b1 = resolution b \<and> offset b1 = offset b" using amplitude_part_slot [of lib st a b] by simp
  then show ?thesis
    using avmd_verdict_mode [of lib r st]
    by (auto simp: avmd_process_sample_def wa b1 run_simps intro!: post_mono [OF frequency_part_slot])
qed

text \<open>With samples to skip configured nothing is ever looked at.\<close>

lemma process_sample_skip: "sample_n_to_skip st \<noteq> 0 \<Longrightarrow> avmd_process_sample lib r st c n p b = Some (AVMD_DETECT_NONE, b)"
  by (simp add: avmd_process_sample_def word_gt_0)

lemma avmd_scan_skip:
  assumes "sample_n_to_skip st \<noteq> 0"
  shows "avmd_scan lib r st c p n k AVMD_DETECT_NONE b = Some (AVMD_DETECT_NONE, b)"
  by (induction n arbitrary: k) (simp_all add: process_sample_skip [OF assms])

text \<open>
  In amplitude mode the test for enough samples looks at the frequency buffer, which is never
  filled: no beep is detected while a beep is at least one sample long at the detector's resolution.
\<close>

lemma process_sample_amp:
  assumes "mode st = AVMD_DETECT_AMP" and "sma_lpos lib (sma_b b) < AVMD_BEEP_LEN r div resolution b"
  shows "\<exists>b'. avmd_process_sample lib r st c n p b = Some (AVMD_DETECT_NONE, b') \<and>
    sma_b b' = sma_b b \<and> resolution b' = resolution b"
proof -
  obtain w a where wa: "desa2 lib c (p + n) = (w, a)" by fastforce
  obtain va b1 where b1: "avmd_amplitude_part lib st a b = (va, b1)" by fastforce
  then have eq: "resolution b1 = resolution b" "sma_b b1 = sma_b b"
    using amplitude_part_slot [of lib st a b] by simp_all
  then have "\<not> avmd_decision_amplitude lib r st b1 v t" for v t
    using assms(2) avmd_decision_amplitude_enough [of lib r st b1 v t] by auto
  then show ?thesis using assms(1) eq by (simp add: avmd_process_sample_def wa b1 avmd_verdict_def Let_def)
qed

lemma avmd_scan_amp:
  assumes "mode st = AVMD_DETECT_AMP" and "sma_lpos lib (sma_b b) < AVMD_BEEP_LEN r div resolution b"
  shows "\<exists>b'. avmd_scan lib r st c p n k AVMD_DETECT_NONE b = Some (AVMD_DETECT_NONE, b') \<and>
    sma_b b' = sma_b b \<and> resolution b' = resolution b"
  using assms(2)
proof (induction n arbitrary: k b)
  case (Suc n)
  obtain b1 where b1: "avmd_process_sample lib r st c k p b = Some (AVMD_DETECT_NONE, b1)" "sma_b b1 = sma_b b"
    "resolution b1 = resolution b"
    using process_sample_amp [OF assms(1) Suc.prems] by blast
  have "\<exists>b'. avmd_scan lib r st c p n (Suc k) AVMD_DETECT_NONE b1 = Some (AVMD_DETECT_NONE, b') \<and>
    sma_b b' = sma_b b1 \<and> resolution b' = resolution b1"
    using Suc.IH [of b1 "Suc k"] Suc.prems b1 by simp
  moreover have "\<exists>b'. avmd_scan lib r st c p n (Suc k) AVMD_DETECT_NONE b = Some (AVMD_DETECT_NONE, b') \<and>
    sma_b b' = sma_b b \<and> resolution b' = resolution b"
    using Suc.IH [of b "Suc k"] Suc.prems by simp
  ultimately show ?case using b1 by simp
qed simp

section \<open>Rounds\<close>

text \<open>A round ends with the detector done, in its slot, and with its result that of its thread.\<close>

lemma avmd_scan_slot:
  "post (avmd_scan lib r st c p n k res b) (\<lambda>(m, b'). resolution b' = resolution b \<and> offset b' = offset b)"
proof (induction n arbitrary: k res b)
  case (Suc n)
  show ?case
    by (auto simp: run_simps intro!: post_mono [OF process_sample_slot] post_mono [OF Suc.IH])
qed simp

lemma avmd_detector_round_done:
  "post (avmd_detector_round lib r st c d) (\<lambda>d'. flag_processing_done d' \<and> thread d' = thread d \<and> idx d' = idx d \<and>
     resolution (buffer d') = resolution (buffer d) \<and> offset (buffer d') = offset (buffer d))"
  by (auto simp: avmd_detector_round_def run_simps intro!: post_mono [OF avmd_scan_slot])

lemma avmd_rounds_done:
  "post (avmd_rounds lib r st c ds) (\<lambda>ds'. length ds' = length ds \<and> (\<forall>d\<in>set ds'. flag_processing_done d) \<and>
     map thread ds' = map thread ds \<and> map idx ds' = map idx ds)"
proof (induction ds)
  case (Cons d ds)
  show ?case
    by (auto simp: run_simps intro!: post_mono [OF avmd_detector_round_done] post_mono [OF Cons.IH])
qed simp

lemma avmd_rounds_idle: "\<forall>d\<in>set ds. flag_processing_done d \<Longrightarrow> avmd_rounds lib r st c ds = Some ds"
  by (induction ds) simp_all

section \<open>Definedness\<close>

text \<open>The buffer library: the entries below the current position can be read.\<close>

definition lib_ok :: "('sma, 'circ) avmd_lib \<Rightarrow> bool" where
  "lib_ok lib \<longleftrightarrow> (\<forall>b i. i < sma_pos lib b \<longrightarrow> sma_data lib b i \<noteq> None)"

lemma lib_ok_data: "lib_ok lib \<Longrightarrow> i < sma_pos lib b \<Longrightarrow> \<exists>x. sma_data lib b i = Some x"
  by (auto simp: lib_ok_def)

lemma frequency_part_returns:
  assumes "lib_ok lib"
  shows "returns (avmd_frequency_part lib st w b) (\<lambda>_. True)"
proof -
  obtain x where x: "1 < sma_pos lib (sma_b b) \<Longrightarrow> sma_data lib (sma_b b) (sma_pos lib (sma_b b) - 2) = Some x"
    using lib_ok_data [OF assms, of "sma_pos lib (sma_b b) - 2" "sma_b b"] by (metis diff_less less_trans zero_less_numeral zero_less_one)
  obtain y where y: "1 < sma_pos lib (sma_b b) \<Longrightarrow> sma_data lib (sma_b b) (sma_pos lib (sma_b b) - 1) = Some y"
    using lib_ok_data [OF assms, of "sma_pos lib (sma_b b) - 1" "sma_b b"] by (metis diff_less less_trans zero_less_one)
  show ?thesis using x y by (auto simp: avmd_frequency_part_def Let_def returns_bind returns_if)
qed

lemma process_sample_returns:
  assumes "lib_ok lib"
  shows "returns (avmd_process_sample lib r st c n p b) (\<lambda>_. True)"
proof -
  obtain w a where wa: "desa2 lib c (p + n) = (w, a)" by fastforce
  obtain va b1 where b1: "avmd_amplitude_part lib st a b = (va, b1)" by fastforce
  show ?thesis
    by (auto simp: avmd_process_sample_def wa b1 returns_simps intro!: returns_mono [OF frequency_part_returns [OF assms]])
qed

lemma avmd_scan_returns:
  assumes "lib_ok lib"
  shows "returns (avmd_scan lib r st c p n k res b) (\<lambda>_. True)"
proof (induction n arbitrary: k res b)
  case (Suc n)
  then show ?case by (auto simp: returns_simps intro!: returns_mono [OF process_sample_returns [OF assms]])
qed simp

lemma avmd_rounds_returns:
  assumes "lib_ok lib"
  shows "returns (avmd_rounds lib r st c ds) (\<lambda>_. True)"
proof (induction ds)
  case (Cons d ds)
  have "returns (avmd_detector_round lib r st c d) (\<lambda>_. True)"
    by (auto simp: avmd_detector_round_def returns_simps intro!: returns_mono [OF avmd_scan_returns [OF assms]])
  then show ?case using Cons by (auto simp: returns_simps returns_iff)
qed simp

text \<open>Detectors that will never report: with samples to skip, and in amplitude mode.\<close>

definition blind :: "('sma, 'circ) avmd_lib \<Rightarrow> nat \<Rightarrow> avmd_settings \<Rightarrow> 'sma avmd_detector \<Rightarrow> bool" where
  "blind lib r st d \<longleftrightarrow> result d = AVMD_DETECT_NONE \<and> thread_res d = AVMD_DETECT_NONE \<and>
     (sample_n_to_skip st \<noteq> 0 \<or>
      mode st = AVMD_DETECT_AMP \<and> sma_lpos lib (sma_b (buffer d)) < AVMD_BEEP_LEN r div resolution (buffer d))"

lemma blind_round:
  assumes "blind lib r st d"
  shows "post (avmd_detector_round lib r st c d) (blind lib r st)"
proof -
  have scan: "\<exists>b'. avmd_scan lib r st c p n k AVMD_DETECT_NONE (buffer d) = Some (AVMD_DETECT_NONE, b') \<and>
      sma_b b' = sma_b (buffer d) \<and> resolution b' = resolution (buffer d)" for p n k
    using assms avmd_scan_skip [of st lib r c p n k "buffer d"] avmd_scan_amp [of st lib "buffer d" r c p n k]
    by (auto simp: blind_def)
  have res: "thread_res d = AVMD_DETECT_NONE" using assms by (simp add: blind_def)
  obtain b1 where b1: "avmd_scan lib r st c (thread_pos d + AVMD_P) (samples d) 1 AVMD_DETECT_NONE (buffer d) = Some (AVMD_DETECT_NONE, b1)"
    "sma_b b1 = sma_b (buffer d)" "resolution b1 = resolution (buffer d)" using scan by blast
  obtain b2 where b2: "avmd_scan lib r st c (thread_pos d) (samples d) 1 AVMD_DETECT_NONE (buffer d) = Some (AVMD_DETECT_NONE, b2)"
    "sma_b b2 = sma_b (buffer d)" "resolution b2 = resolution (buffer d)" using scan by blast
  show ?thesis
    using assms b1 b2 res by (cases "lagged d") (simp_all add: avmd_detector_round_def blind_def)
qed

lemma blind_rounds: "\<forall>d\<in>set ds. blind lib r st d \<Longrightarrow> post (avmd_rounds lib r st c ds) (\<lambda>ds'. \<forall>d\<in>set ds'. blind lib r st d)"
proof (induction ds)
  case (Cons d ds)
  then have "post (avmd_detector_round lib r st c d) (blind lib r st)" by (simp add: blind_round)
  with Cons show ?case by (auto simp: run_simps intro!: post_mono [OF Cons.IH] elim!: post_mono)
qed simp

lemma blind_hand_out: "blind lib r st d \<Longrightarrow> blind lib r st (avmd_hand_out n d)"
  by (simp add: blind_def avmd_hand_out_def)

lemma first_result_from_found:
  assumes "first_result_from n rs i = Some (Some k)"
  shows "arr rs (unat k) \<noteq> None \<and> arr rs (unat k) \<noteq> Some AVMD_DETECT_NONE"
proof -
  have "r = Some k \<longrightarrow> arr rs (unat k) \<noteq> None \<and> arr rs (unat k) \<noteq> Some AVMD_DETECT_NONE"
    if "first_result_from n rs i = Some r" for r
  proof (rule first_result_from.raw_induct [OF _ that, of "\<lambda>n rs i r. r = Some k \<longrightarrow> arr rs (unat k) \<noteq> None \<and> arr rs (unat k) \<noteq> Some AVMD_DETECT_NONE"])
    fix g :: "nat \<Rightarrow> avmd_detection_mode list \<Rightarrow> 8 word \<Rightarrow> 8 word option option" and n rs i r
    assume ih: "\<And>n rs i r. g n rs i = Some r \<Longrightarrow> r = Some k \<longrightarrow> arr rs (unat k) \<noteq> None \<and> arr rs (unat k) \<noteq> Some AVMD_DETECT_NONE"
      and run: "(if unat i < n then arr rs (unat i) \<bind> (\<lambda>m. if m \<noteq> AVMD_DETECT_NONE then Some (Some i) else g n rs (i + 1)) else Some None) = Some r"
    show "r = Some k \<longrightarrow> arr rs (unat k) \<noteq> None \<and> arr rs (unat k) \<noteq> Some AVMD_DETECT_NONE"
    proof (cases "unat i < n")
      case True
      then obtain m where m: "arr rs (unat i) = Some m" using run by (auto simp: bind_eq_Some_conv)
      show ?thesis using run True m ih [of n rs "i + 1" r] by (cases "m = AVMD_DETECT_NONE") auto
    qed (use run in simp)
  qed
  then show ?thesis using assms by simp
qed

end
