(* ===== verification/AvmdSession.thy ===== *)
theory AvmdSession
  imports AvmdDetector
begin

text \<open>
  The session of \<open>mod_avmd.new.c\<close>: its events, the set-up of the detectors, starting, joining and
  closing their threads, and the processing of one frame. Threads are run to the end of their round
  where the master waits for them; the protocol that justifies this is in \<open>AvmdBarrier\<close>.
\<close>

datatype avmd_glue =
    Init_circ | Init_sma               \<comment> \<open>is the buffer of INIT_..._BUFFER not NULL?\<close>
  | Session_uuid | Channel_name
  | Bug_user_data                      \<comment> \<open>switch_core_media_bug_get_user_data\<close>
  | Init_fast_acosf | Destroy_fast_acosf

type_synonym avmd_env = "avmd_glue env"
type_synonym avmd_trace = "avmd_glue trace"

section \<open>Events\<close>

datatype avmd_event = AVMD_EVENT_BEEP | AVMD_EVENT_SESSION_START | AVMD_EVENT_SESSION_STOP

definition avmd_events_str :: "avmd_event \<Rightarrow> string" where
  "avmd_events_str e = (case e of AVMD_EVENT_BEEP \<Rightarrow> ''avmd::beep''
     | AVMD_EVENT_SESSION_START \<Rightarrow> ''avmd::start'' | AVMD_EVENT_SESSION_STOP \<Rightarrow> ''avmd::stop'')"

definition avmd_event_names :: "string list" where
  "avmd_event_names = map avmd_events_str [AVMD_EVENT_BEEP, AVMD_EVENT_SESSION_START, AVMD_EVENT_SESSION_STOP]"

definition avmd_register_all_events :: "avmd_env \<Rightarrow> avmd_trace \<Rightarrow> (switch_status \<times> avmd_trace) option" where
  "avmd_register_all_events E h = do {
     (ok, h) \<leftarrow> reserve_all E avmd_event_names h;
     Some (if ok then SWITCH_STATUS_SUCCESS else SWITCH_STATUS_TERM, h)
   }"

definition avmd_unregister_all_events :: "avmd_trace \<Rightarrow> avmd_trace option" where
  "avmd_unregister_all_events h = free_all avmd_event_names h"

text \<open>
  A number printed into the 20-byte buffer: the header is added twice when the text does not fit.
\<close>

definition num_header :: "string \<Rightarrow> string \<Rightarrow> avmd_trace \<Rightarrow> avmd_trace option" where
  "num_header name text h = do {
     h \<leftarrow> (if 19 < length text then exec (Event (Add_header name ''ERROR (TRUNCATED)'')) h else Some h);
     exec (Event (Add_header name (snprintf_buf 20 text))) h
   }"

definition beep_name :: "avmd_beep_state \<Rightarrow> string" where
  "beep_name b = (if b = BEEP_DETECTED then ''DETECTED'' else ''NOTDETECTED'')"

record fire_args =
  fa_freq :: dbl
  fa_v_freq :: dbl
  fa_amp :: dbl
  fa_v_amp :: dbl
  fa_beep :: avmd_beep_state
  fa_info :: nat
  fa_detection_start :: int
  fa_detection_stop :: int
  fa_start :: int
  fa_stop :: int
  fa_resolution :: nat
  fa_offset :: nat
  fa_idx :: nat

definition fire_zero :: fire_args where
  "fire_zero = \<lparr> fa_freq = Fin 0, fa_v_freq = Fin 0, fa_amp = Fin 0, fa_v_amp = Fin 0, fa_beep = BEEP_DETECTED,
     fa_info = 0, fa_detection_start = 0, fa_detection_stop = 0, fa_start = 0, fa_stop = 0,
     fa_resolution = 0, fa_offset = 0, fa_idx = 0 \<rparr>"

definition avmd_event_headers :: "avmd_event \<Rightarrow> fire_args \<Rightarrow> avmd_trace \<Rightarrow> avmd_trace option" where
  "avmd_event_headers type a h = (case type of
     AVMD_EVENT_BEEP \<Rightarrow> do {
       h \<leftarrow> exec (Event (Add_header ''Beep-Status'' ''DETECTED'')) h;
       h \<leftarrow> num_header ''Frequency'' (print_f (fa_freq a)) h;
       h \<leftarrow> num_header ''Frequency-variance'' (print_f (fa_v_freq a)) h;
       h \<leftarrow> num_header ''Amplitude'' (print_f (fa_amp a)) h;
       h \<leftarrow> num_header ''Amplitude-variance'' (print_f (fa_v_amp a)) h;
       h \<leftarrow> num_header ''Detection-time'' (show_int (to_int64 (fa_detection_stop a - fa_detection_start a))) h;
       h \<leftarrow> num_header ''Detector-resolution'' (show_nat (fa_resolution a)) h;
       h \<leftarrow> num_header ''Detector-offset'' (show_nat (fa_offset a)) h;
       num_header ''Detector-index'' (show_nat (fa_idx a)) h }
   | AVMD_EVENT_SESSION_START \<Rightarrow> num_header ''Start-time'' (show_int (to_int64 (fa_start a))) h
   | AVMD_EVENT_SESSION_STOP \<Rightarrow> do {
       h \<leftarrow> exec (Event (Add_header ''Beep-Status'' (beep_name (fa_beep a)))) h;
       h \<leftarrow> (if fa_info a = 0
         then exec (Event (Add_header ''Stop-status'' ''ERROR (AVMD SESSION OBJECT NOT FOUND IN MEDIA BUG)'')) h
         else Some h);
       num_header ''Total-time'' (show_int (to_int64 (fa_stop a - fa_start a))) h })"

definition avmd_fire_event :: "avmd_env \<Rightarrow> avmd_event \<Rightarrow> fire_args \<Rightarrow> avmd_trace \<Rightarrow> avmd_trace option" where
  "avmd_fire_event E type a h = do {
     (st, h) \<leftarrow> ask_status E (Event (Create_subclass (avmd_events_str type))) h;
     if st \<noteq> SWITCH_STATUS_SUCCESS then Some h
     else do {
       (uuid, h) \<leftarrow> ask_str E (Glue Session_uuid) h;
       h \<leftarrow> exec (Event (Add_header ''Unique-ID'' (case uuid of Some u \<Rightarrow> u | None \<Rightarrow> []))) h;
       h \<leftarrow> exec (Event (Add_header ''Call-command'' ''avmd'')) h;
       h \<leftarrow> avmd_event_headers type a h;
       (st, h) \<leftarrow> ask_status E (Event Dup) h;
       if st \<noteq> SWITCH_STATUS_SUCCESS then Some h
       else do {
         (_, h) \<leftarrow> ask_status E (Event Queue) h;
         exec (Event Fire_copy) h
       }
     }
   }"

section \<open>Setting up the detectors\<close>

text \<open>The six buffers, each tested before the next one is made.\<close>

fun init_smas :: "avmd_env \<Rightarrow> nat \<Rightarrow> avmd_trace \<Rightarrow> (bool \<times> avmd_trace) option" where
  "init_smas E 0 h = Some (True, h)"
| "init_smas E (Suc n) h = do {
     (ok, h) \<leftarrow> ask_bool E (Glue Init_sma) h;
     if ok then init_smas E n h else Some (False, h)
   }"

definition avmd_init_buffer :: "('sma, 'circ) avmd_lib \<Rightarrow> nat \<Rightarrow> nat \<Rightarrow> nat \<Rightarrow> 'sma avmd_buffer" where
  "avmd_init_buffer lib buf_sz res off =
     \<lparr> sma_b = sma_new lib buf_sz, sqa_b = sma_new lib buf_sz, sma_b_fir = sma_new lib buf_sz,
       sqa_b_fir = sma_new lib buf_sz, sma_amp_b = sma_new lib buf_sz, sqa_amp_b = sma_new lib buf_sz,
       resolution = res, offset = off, amplitude_max = Fin 0, samples_streak = 0, samples_streak_amp = 0 \<rparr>"

text \<open>The resolution and offset that follow in the two nested loops.\<close>

definition next_slot :: "nat \<times> nat \<Rightarrow> nat \<times> nat" where
  "next_slot p = (case p of (res, off) \<Rightarrow> if off + 1 < res then (res, off + 1) else (res + 1, 0))"

text \<open>
  The slots of \<open>n\<close> detectors: one with resolution 1, two with resolution 2 and offsets 0 and 1,
  and so on; and the lagged ones, all with resolution 1.
\<close>

fun slots_from :: "nat \<Rightarrow> nat \<times> nat \<Rightarrow> (nat \<times> nat) list" where
  "slots_from 0 p = []"
| "slots_from (Suc n) p = p # slots_from n (next_slot p)"

definition detector_slots :: "nat \<Rightarrow> (nat \<times> nat) list" where
  "detector_slots n = slots_from n (1, 0)"

text \<open>\<open>d0\<close> is the content of the fresh array.\<close>

fun avmd_init_detectors ::
  "avmd_env \<Rightarrow> ('sma, 'circ) avmd_lib \<Rightarrow> 'sma avmd_detector \<Rightarrow> nat \<Rightarrow> nat \<Rightarrow> (nat \<times> nat) list \<Rightarrow>
   avmd_trace \<Rightarrow> (bool \<times> 'sma avmd_detector list \<times> avmd_trace) option" where
  "avmd_init_detectors E lib d0 buf_sz i [] h = Some (True, [], h)"
| "avmd_init_detectors E lib d0 buf_sz i ((res, off) # slots) h = do {
     (ok, h) \<leftarrow> init_smas E 6 h;
     if \<not> ok then Some (False, [], h)
     else do {
       let d = d0\<lparr> buffer := avmd_init_buffer lib buf_sz res off, flag_processing_done := True,
                   flag_should_exit := True, idx := of_nat i, thread := False \<rparr>;
       h \<leftarrow> exec (Sync (Mutex_init ''detector'')) h;
       h \<leftarrow> exec (Sync (Cond_create ''start_processing'')) h;
       (ok, ds, h) \<leftarrow> avmd_init_detectors E lib d0 buf_sz (i + 1) slots h;
       Some (ok, d # ds, h)
     }
   }"

definition all_slots :: "avmd_settings \<Rightarrow> (nat \<times> nat) list" where
  "all_slots st = detector_slots (unat (detectors_n st)) @ replicate (unat (detectors_lagged_n st)) (1, 0)"

definition init_avmd_session_body ::
  "avmd_env \<Rightarrow> ('sma, 'circ) avmd_lib \<Rightarrow> leg \<Rightarrow> 'sma avmd_detector \<Rightarrow> ('sma, 'circ) avmd_session \<Rightarrow> avmd_trace \<Rightarrow>
   (switch_status \<times> ('sma, 'circ) avmd_session \<times> avmd_trace) option" where
  "init_avmd_session_body E lib l d0 s h = do {
     let s = s\<lparr> rate := 48000, circ := circ_new lib (AVMD_BEEP_LEN 48000) (AVMD_FRAME_LEN 48000) \<rparr>;
     (ok, h) \<leftarrow> ask_bool E (Glue Init_circ) h;
     if \<not> ok then Some (SWITCH_STATUS_MEMERR, s, h)
     else do {
       let s = s\<lparr> has_session := True, pos := 0, f := Fin 0, last_beep := 0, beep_state := BEEP_NOTDETECTED \<rparr>;
       h \<leftarrow> exec (Sync (Mutex_init ''session'')) h;
       let s = s\<lparr> frame_n := 0, detection_start_time := 0, detection_stop_time := 0, frame_n_to_skip := 0 \<rparr>;
       let buf_sz = AVMD_BEEP_LEN 48000 div AVMD_SINE_LEN 48000;
       if buf_sz < 1 then Some (SWITCH_STATUS_MORE_DATA, s, h)
       else do {
         (ok, h) \<leftarrow> ask_bool E (Sess l Alloc) h;
         if \<not> ok then Some (SWITCH_STATUS_NOT_INITALIZED, s, h)
         else do {
           (ok, ds, h) \<leftarrow> avmd_init_detectors E lib d0 buf_sz 0 (all_slots (a_settings s)) h;
           let s = s\<lparr> detectors := ds \<rparr>;
           if \<not> ok then Some (SWITCH_STATUS_FALSE, s, h)
           else do {
             h \<leftarrow> exec (Sync (Mutex_init ''detectors_done'')) h;
             h \<leftarrow> exec (Sync (Cond_create ''detectors_done'')) h;
             Some (SWITCH_STATUS_SUCCESS, s, h)
           }
         }
       }
     }
   }"

definition init_avmd_session_data ::
  "avmd_env \<Rightarrow> ('sma, 'circ) avmd_lib \<Rightarrow> leg \<Rightarrow> 'sma avmd_detector \<Rightarrow> bool \<Rightarrow> ('sma, 'circ) avmd_session \<Rightarrow> avmd_trace \<Rightarrow>
   (switch_status \<times> ('sma, 'circ) avmd_session \<times> avmd_trace) option" where
  "init_avmd_session_data E lib l d0 mutex s h = do {
     h \<leftarrow> (if mutex then exec (Sync (Lock ''globals'')) h else Some h);
     (st, s, h) \<leftarrow> init_avmd_session_body E lib l d0 s h;
     h \<leftarrow> (if mutex then exec (Sync (Unlock ''globals'')) h else Some h);
     Some (st, s, h)
   }"

section \<open>Threads\<close>

text \<open>Launch of \<open>n\<close> detectors from index \<open>base + i\<close> on; the lag of a plain one is 0.\<close>

fun avmd_launch_from ::
  "avmd_env \<Rightarrow> bool \<Rightarrow> nat \<Rightarrow> nat \<Rightarrow> nat \<Rightarrow> nat \<Rightarrow> 'sma avmd_detector list \<Rightarrow> avmd_trace \<Rightarrow>
   (switch_status \<times> 'sma avmd_detector list \<times> avmd_trace) option" where
  "avmd_launch_from E is_lagged p base i 0 ds h = Some (SWITCH_STATUS_SUCCESS, ds, h)"
| "avmd_launch_from E is_lagged p base i (Suc n) ds h = do {
     d \<leftarrow> arr ds (base + i);
     let d = d\<lparr> flag_processing_done := True, flag_should_exit := False, result := AVMD_DETECT_NONE,
                lagged := is_lagged, lag := (if is_lagged then (i + 1) mod 256 else 0) \<rparr>;
     (st, h) \<leftarrow> ask_status E (Sync (Thread_create (base + i))) h;
     if st \<noteq> SWITCH_STATUS_SUCCESS then Some (SWITCH_STATUS_FALSE, ds[base + i := d], h)
     else avmd_launch_from E is_lagged p base (i + 1) n
       (ds[base + i := d\<lparr> thread := True, thread_pos := p, thread_res := AVMD_DETECT_NONE \<rparr>]) h
   }"

definition avmd_launch_threads ::
  "avmd_env \<Rightarrow> ('sma, 'circ) avmd_session \<Rightarrow> avmd_trace \<Rightarrow> (switch_status \<times> ('sma, 'circ) avmd_session \<times> avmd_trace) option" where
  "avmd_launch_threads E s h = do {
     let n = unat (detectors_n (a_settings s));
     (st, ds, h) \<leftarrow> avmd_launch_from E False (pos s) 0 0 n (detectors s) h;
     if st \<noteq> SWITCH_STATUS_SUCCESS then Some (st, s\<lparr> detectors := ds \<rparr>, h)
     else do {
       (st, ds, h) \<leftarrow> avmd_launch_from E True (pos s) n 0 (unat (detectors_lagged_n (a_settings s))) ds h;
       Some (st, s\<lparr> detectors := ds \<rparr>, h)
     }
   }"

text \<open>A thread that is told to exit marks itself done on its way out.\<close>

fun avmd_join_all :: "nat \<Rightarrow> 'sma avmd_detector list \<Rightarrow> avmd_trace \<Rightarrow> ('sma avmd_detector list \<times> avmd_trace) option" where
  "avmd_join_all i [] h = Some ([], h)"
| "avmd_join_all i (d # ds) h = do {
     h \<leftarrow> exec (Sync (Lock ''detector'')) h;
     (d, h) \<leftarrow> (if thread d then do {
         h \<leftarrow> exec (Sync (Cond_signal ''start_processing'')) h;
         h \<leftarrow> exec (Sync (Unlock ''detector'')) h;
         h \<leftarrow> exec (Sync (Thread_join i)) h;
         h \<leftarrow> exec (Sync (Mutex_destroy ''detector'')) h;
         h \<leftarrow> exec (Sync (Cond_destroy ''start_processing'')) h;
         Some (d\<lparr> flag_should_exit := True, samples := 0, flag_processing_done := True, thread := False \<rparr>, h) }
       else do { h \<leftarrow> exec (Sync (Unlock ''detector'')) h; Some (d, h) });
     (ds, h) \<leftarrow> avmd_join_all (i + 1) ds h;
     Some (d # ds, h)
   }"

definition avmd_join_threads ::
  "('sma, 'circ) avmd_session \<Rightarrow> avmd_trace \<Rightarrow> (('sma, 'circ) avmd_session \<times> avmd_trace) option" where
  "avmd_join_threads s h = do {
     (ds, h) \<leftarrow> avmd_join_all 0 (detectors s) h;
     Some (s\<lparr> detectors := ds \<rparr>, h)
   }"

text \<open>
  \<open>while (avmd_detection_in_progress(s) == 1) wait\<close>, under its mutex: the detectors that have
  work finish their round, then the loop of the test runs over all of them.
\<close>

definition avmd_wait_done ::
  "('sma, 'circ) avmd_lib \<Rightarrow> ('sma, 'circ) avmd_session \<Rightarrow> avmd_trace \<Rightarrow> (('sma, 'circ) avmd_session \<times> avmd_trace) option" where
  "avmd_wait_done lib s h = do {
     h \<leftarrow> exec (Sync (Lock ''detectors_done'')) h;
     ds \<leftarrow> avmd_rounds lib (rate s) (a_settings s) (circ s) (detectors s);
     busy \<leftarrow> avmd_detection_in_progress (a_settings s) ds;
     if busy then None else Some (s\<lparr> detectors := ds \<rparr>, h)
   }"

text \<open>Joining a thread that was never created is undefined.\<close>

fun avmd_close_all :: "nat \<Rightarrow> 'sma avmd_detector list \<Rightarrow> avmd_trace \<Rightarrow> ('sma avmd_detector list \<times> avmd_trace) option" where
  "avmd_close_all i [] h = Some ([], h)"
| "avmd_close_all i (d # ds) h = do {
     h \<leftarrow> exec (Sync (Lock ''detector'')) h;
     h \<leftarrow> exec (Sync (Cond_signal ''start_processing'')) h;
     h \<leftarrow> exec (Sync (Unlock ''detector'')) h;
     if \<not> thread d then None
     else do {
       h \<leftarrow> exec (Sync (Thread_join i)) h;
       h \<leftarrow> exec (Sync (Mutex_destroy ''detector'')) h;
       h \<leftarrow> exec (Sync (Cond_destroy ''start_processing'')) h;
       (ds, h) \<leftarrow> avmd_close_all (i + 1) ds h;
       Some (d\<lparr> flag_processing_done := True, flag_should_exit := True, samples := 0, thread := False \<rparr> # ds, h)
     }
   }"

definition avmd_session_close ::
  "('sma, 'circ) avmd_lib \<Rightarrow> ('sma, 'circ) avmd_session \<Rightarrow> avmd_trace \<Rightarrow> (('sma, 'circ) avmd_session \<times> avmd_trace) option" where
  "avmd_session_close lib s h = do {
     h \<leftarrow> exec (Sync (Lock ''session'')) h;
     (s, h) \<leftarrow> avmd_wait_done lib s h;
     h \<leftarrow> exec (Sync (Unlock ''detectors_done'')) h;
     (ds, h) \<leftarrow> avmd_close_all 0 (detectors s) h;
     h \<leftarrow> exec (Sync (Unlock ''session'')) h;
     h \<leftarrow> exec (Sync (Mutex_destroy ''detectors_done'')) h;
     h \<leftarrow> exec (Sync (Cond_destroy ''detectors_done'')) h;
     h \<leftarrow> exec (Sync (Mutex_destroy ''session'')) h;
     Some (s\<lparr> detectors := ds \<rparr>, h)
   }"

section \<open>One frame\<close>

definition avmd_report_args ::
  "('sma, 'circ) avmd_lib \<Rightarrow> ('sma, 'circ) avmd_session \<Rightarrow> avmd_detection_mode \<Rightarrow> 'sma avmd_detector \<Rightarrow> fire_args" where
  "avmd_report_args lib s m d =
     (let b = buffer d;
          a = fire_zero\<lparr> fa_detection_start := detection_start_time s, fa_detection_stop := detection_stop_time s,
                fa_resolution := resolution b, fa_offset := offset b, fa_idx := unat (idx d) \<rparr>;
          v_amp = variance (sma_mean lib (sqa_amp_b b)) (sma_mean lib (sma_amp_b b));
          v_fir = variance (sma_mean lib (sqa_b_fir b)) (sma_mean lib (sma_b_fir b));
          hz = AVMD_TO_HZ (rate s) (sma_mean lib (sma_b_fir b)) in
      case m of
        AVMD_DETECT_AMP \<Rightarrow> a\<lparr> fa_amp := sma_mean lib (sma_amp_b b), fa_v_amp := v_amp \<rparr>
      | AVMD_DETECT_FREQ \<Rightarrow> a\<lparr> fa_freq := hz, fa_v_freq := v_fir \<rparr>
      | _ \<Rightarrow> a\<lparr> fa_freq := hz, fa_v_freq := v_fir, fa_amp := sma_mean lib (sma_amp_b b), fa_v_amp := v_amp \<rparr>)"

definition avmd_report_detection ::
  "avmd_env \<Rightarrow> ('sma, 'circ) avmd_lib \<Rightarrow> ('sma, 'circ) avmd_session \<Rightarrow> avmd_detection_mode \<Rightarrow> 'sma avmd_detector \<Rightarrow>
   avmd_trace \<Rightarrow> (('sma, 'circ) avmd_session \<times> avmd_trace) option" where
  "avmd_report_detection E lib s m d h = do {
     (t, h) \<leftarrow> ask_int E Time_now h;
     let s = s\<lparr> detection_stop_time := t \<rparr>;
     let detection_time = t - detection_start_time s;
     h \<leftarrow> exec (Chan Caller (Set_variable ''avmd_total_time'' (''['' @ show_int (c_div detection_time 1000) @ '']''))) h;
     h \<leftarrow> exec (Chan Caller (Execute_on ''execute_on_avmd_beep'')) h;
     h \<leftarrow> exec (Chan Caller (Set_variable ''avmd_detect'' ''TRUE'')) h;
     h \<leftarrow> (if m = AVMD_DETECT_NONE then Some h else avmd_fire_event E AVMD_EVENT_BEEP (avmd_report_args lib s m d) h);
     Some (s\<lparr> beep_state := BEEP_DETECTED \<rparr>, h)
   }"

definition avmd_detection_result ::
  "avmd_env \<Rightarrow> ('sma, 'circ) avmd_lib \<Rightarrow> ('sma, 'circ) avmd_session \<Rightarrow> avmd_trace \<Rightarrow>
   (avmd_detection_mode \<times> ('sma, 'circ) avmd_session \<times> avmd_trace) option" where
  "avmd_detection_result E lib s h = do {
     found \<leftarrow> first_result_from (detector_total (a_settings s)) (map result (detectors s)) 0;
     (case found of
        None \<Rightarrow> Some (AVMD_DETECT_NONE, s, h)
      | Some i \<Rightarrow> do {
          d \<leftarrow> arr (detectors s) (unat i);
          (s, h) \<leftarrow> avmd_report_detection E lib s (result d) d h;
          Some (result d, s, h) })
   }"

text \<open>\<open>frame->samples - AVMD_P\<close> in 32-bit unsigned arithmetic.\<close>

definition samples_minus_p :: "nat \<Rightarrow> nat" where
  "samples_minus_p n = (n + 2 ^ 32 - AVMD_P) mod 2 ^ 32"

text \<open>
  \<open>frame\<close> holds the samples of the frame. Between the two waits the buffer is filled and every
  detector without a result is given the frame. First the part from the start of the detection
  timer on, then the whole function. The mutexes and condition variables of the hand-out and of the
  two waits are the subject of \<open>AvmdBarrier\<close>; here each detector runs its round where it is handed
  the frame.
\<close>

definition start_detection_timer ::
  "avmd_env \<Rightarrow> ('sma, 'circ) avmd_session \<Rightarrow> avmd_trace \<Rightarrow> (('sma, 'circ) avmd_session \<times> avmd_trace) option" where
  "start_detection_timer E s h =
     (if detection_start_time s = 0 then do {
        (t, h) \<leftarrow> ask_int E Time_now h; Some (s\<lparr> detection_start_time := t \<rparr>, h) }
      else Some (s, h))"

definition avmd_process_frame ::
  "avmd_env \<Rightarrow> ('sma, 'circ) avmd_lib \<Rightarrow> ('sma, 'circ) avmd_session \<Rightarrow> int list \<Rightarrow> avmd_trace \<Rightarrow>
   (('sma, 'circ) avmd_session \<times> avmd_trace) option" where
  "avmd_process_frame E lib s frame h = do {
     (s, h) \<leftarrow> start_detection_timer E s h;
     let s = s\<lparr> circ := circ_insert lib (circ s) frame \<rparr>;
     let n = (if frame_n s = 0 then samples_minus_p (length frame) else length frame);
     ds \<leftarrow> hand_out_from (detector_total (a_settings s)) n (detectors s) 0;
     (s, h) \<leftarrow> avmd_wait_done lib (s\<lparr> detectors := ds \<rparr>) h;
     (_, s, h) \<leftarrow> avmd_detection_result E lib s h;
     h \<leftarrow> exec (Sync (Unlock ''detectors_done'')) h;
     let s = s\<lparr> frame_n := frame_n s + 1 \<rparr>;
     let s = s\<lparr> pos := and (pos s + (if frame_n s = 1 then samples_minus_p (length frame) else length frame))
                           (circ_mask lib (circ s)) \<rparr>;
     Some (s, h)
   }"

definition avmd_process ::
  "avmd_env \<Rightarrow> ('sma, 'circ) avmd_lib \<Rightarrow> ('sma, 'circ) avmd_session \<Rightarrow> int list \<Rightarrow> avmd_trace \<Rightarrow>
   (('sma, 'circ) avmd_session \<times> avmd_trace) option" where
  "avmd_process E lib s frame h = do {
     (s, h) \<leftarrow> avmd_wait_done lib s h;
     h \<leftarrow> exec (Sync (Unlock ''detectors_done'')) h;
     if beep_state s = BEEP_DETECTED then Some (s, h)
     else if 0 < frame_n_to_skip s then Some (s\<lparr> frame_n_to_skip := frame_n_to_skip s - 1 \<rparr>, h)
     else avmd_process_frame E lib s frame h
   }"

section \<open>The layout of the detectors\<close>

text \<open>The number of detectors with a resolution below \<open>r\<close>.\<close>

definition tri :: "nat \<Rightarrow> nat" where
  "tri r = r * (r - 1) div 2"

lemma tri_Suc: "tri (Suc r) = tri r + r"
proof -
  have "even (r * (r - 1))" by (cases r) auto
  moreover have "Suc r * (Suc r - 1) = r * (r - 1) + 2 * r" by (cases r) simp_all
  ultimately show ?thesis by (simp add: tri_def)
qed

lemma next_slot_row: "o' < r \<Longrightarrow> (next_slot ^^ o') (r, 0) = (r, o')"
  by (induction o') (auto simp: next_slot_def)

lemma next_slot_first: "1 \<le> r \<Longrightarrow> (next_slot ^^ tri r) (1, 0) = (r, 0)"
proof (induction r rule: nat_induct_at_least)
  case base
  then show ?case by (simp add: tri_def)
next
  case (Suc r)
  then obtain k where k: "r = Suc k" by (cases r) auto
  have "tri (Suc r) = Suc k + tri r" by (simp add: tri_Suc k)
  then have "(next_slot ^^ tri (Suc r)) (1, 0) = next_slot ((next_slot ^^ k) (r, 0))"
    using Suc.IH by (simp only: funpow_add o_apply funpow.simps)
  also have "\<dots> = (Suc r, 0)" by (simp add: next_slot_row k) (simp add: next_slot_def)
  finally show ?case .
qed

lemma next_slot_index: "o' < r \<Longrightarrow> (next_slot ^^ (tri r + o')) (1, 0) = (r, o')"
proof -
  assume o': "o' < r"
  then have "1 \<le> r" by simp
  then have "(next_slot ^^ (o' + tri r)) (1, 0) = (r, o')"
    by (simp only: funpow_add o_apply next_slot_first next_slot_row [OF o'])
  then show ?thesis by (simp only: add.commute)
qed

lemma next_slot_pos:
  "snd ((next_slot ^^ k) (1, 0)) < fst ((next_slot ^^ k) (1, 0)) \<and>
   tri (fst ((next_slot ^^ k) (1, 0))) + snd ((next_slot ^^ k) (1, 0)) = k"
proof (induction k)
  case 0
  show ?case by (simp add: tri_def)
next
  case (Suc k)
  obtain r o' where p: "(next_slot ^^ k) (1, 0) = (r, o')" by fastforce
  have q: "(next_slot ^^ Suc k) (1, 0) = next_slot (r, o')" by (simp only: funpow.simps o_apply p)
  have "o' < r" "tri r + o' = k" using Suc unfolding p by simp_all
  then show ?case unfolding q by (cases "o' + 1 < r") (auto simp: next_slot_def tri_Suc)
qed

lemma length_slots_from [simp]: "length (slots_from n p) = n"
  by (induction n arbitrary: p) simp_all

lemma slots_from_nth: "k < n \<Longrightarrow> slots_from n p ! k = (next_slot ^^ k) p"
proof (induction n arbitrary: k p)
  case (Suc n)
  then show ?case by (cases k) (simp_all add: funpow_swap1)
qed simp

lemma detector_slots_nth:
  assumes "k < n"
  shows "detector_slots n ! k = (r, o') \<longleftrightarrow> o' < r \<and> k = tri r + o'"
  using next_slot_pos [of k] next_slot_index [of o' r] assms
  by (auto simp: detector_slots_def slots_from_nth)

text \<open>Exactly one offset of a resolution meets a sample.\<close>

lemma offset_unique:
  assumes "0 < (r :: nat)"
  shows "\<exists>!o'. o' < r \<and> (s + o') mod r = 0"
proof (rule ex_ex1I)
  let ?o = "(r - s mod r) mod r"
  have "(s + (r - s mod r)) mod r = (s mod r + (r - s mod r)) mod r" by (metis mod_add_left_eq)
  also have "\<dots> = 0" using assms by (simp add: less_imp_le)
  finally have "(s + ?o) mod r = 0" by (metis mod_add_right_eq)
  then show "\<exists>o'. o' < r \<and> (s + o') mod r = 0" using assms by (intro exI [of _ ?o]) simp
next
  have le: "o1 = o2" if "o1 \<le> o2" "o2 < r" "(s + o1) mod r = 0" "(s + o2) mod r = 0" for o1 o2
  proof -
    have "r dvd (s + o2) - (s + o1)" using that(3,4) by (intro dvd_diff_nat) (simp_all add: mod_eq_0_iff_dvd)
    moreover have "(s + o2) - (s + o1) = o2 - o1" by simp
    ultimately have "r dvd o2 - o1" by metis
    moreover have "o2 - o1 < r" using that(2) by simp
    ultimately have "o2 - o1 = 0" using nat_dvd_not_less [of "o2 - o1" r] by blast
    then show ?thesis using that(1) by simp
  qed
  fix o1 o2 assume "o1 < r \<and> (s + o1) mod r = 0" "o2 < r \<and> (s + o2) mod r = 0"
  then show "o1 = o2" using le [of o1 o2] le [of o2 o1] by (cases "o1 \<le> o2") auto
qed

lemma layout_covers:
  assumes "0 < r" and "tri (Suc r) \<le> n"
  shows "\<exists>!k. k < n \<and> fst (detector_slots n ! k) = r \<and> (s + snd (detector_slots n ! k)) mod r = 0"
proof -
  obtain o' where o': "o' < r" "(s + o') mod r = 0" "\<And>o1. o1 < r \<Longrightarrow> (s + o1) mod r = 0 \<Longrightarrow> o1 = o'"
    by (rule ex1E [OF offset_unique [OF assms(1), of s]]) (metis (lifting))
  have lt: "tri r + o' < n" using o'(1) assms(2) by (simp add: tri_Suc)
  then have slot: "detector_slots n ! (tri r + o') = (r, o')" using o'(1) by (simp add: detector_slots_nth)
  show ?thesis
  proof
    show "tri r + o' < n \<and> fst (detector_slots n ! (tri r + o')) = r \<and> (s + snd (detector_slots n ! (tri r + o'))) mod r = 0"
      using lt slot o'(2) by simp
  next
    fix k assume k: "k < n \<and> fst (detector_slots n ! k) = r \<and> (s + snd (detector_slots n ! k)) mod r = 0"
    obtain r1 o1 where p: "detector_slots n ! k = (r1, o1)" by fastforce
    with k have "r1 = r" "(s + o1) mod r = 0" "k < n" by simp_all
    moreover have "o1 < r1" "k = tri r1 + o1" using p detector_slots_nth [OF \<open>k < n\<close>, of r1 o1] by simp_all
    ultimately show "k = tri r + o'" using o'(3) [of o1] by simp
  qed
qed

section \<open>Frames\<close>

text \<open>At most 255 detectors, all in the array.\<close>

definition fits :: "('sma, 'circ) avmd_session \<Rightarrow> bool" where
  "fits s \<longleftrightarrow> detector_total (a_settings s) \<le> 255 \<and> length (detectors s) = detector_total (a_settings s)"

lemma in_progress_done:
  assumes "detector_total st \<le> 255" and "length ds = detector_total st" and "\<forall>d\<in>set ds. flag_processing_done d"
  shows "avmd_detection_in_progress st ds = Some False"
  using in_progress_from_spec [of "detector_total st" "map flag_processing_done ds" 0] assms
  by (auto simp: avmd_detection_in_progress_def)

text \<open>The wait returns when the library is sound, and then every detector is done.\<close>

lemma avmd_wait_done_returns:
  assumes "lib_ok lib" and "fits s"
  shows "returns (avmd_wait_done lib s h) (\<lambda>(s', h'). \<exists>ds. s' = s\<lparr> detectors := ds \<rparr> \<and>
    avmd_rounds lib (rate s) (a_settings s) (circ s) (detectors s) = Some ds \<and>
    length ds = length (detectors s) \<and> (\<forall>d\<in>set ds. flag_processing_done d) \<and> map thread ds = map thread (detectors s) \<and>
    h' = h @ [(Sync (Lock ''detectors_done''), ADone)])"
proof -
  obtain ds where ds: "avmd_rounds lib (rate s) (a_settings s) (circ s) (detectors s) = Some ds"
    using avmd_rounds_returns [OF assms(1), of "rate s" "a_settings s" "circ s" "detectors s"] by (auto simp: returns_iff)
  then have "length ds = length (detectors s) \<and> (\<forall>d\<in>set ds. flag_processing_done d) \<and> map thread ds = map thread (detectors s)"
    using postD [OF avmd_rounds_done ds] by simp
  moreover then have "avmd_detection_in_progress (a_settings s) ds = Some False"
    using assms(2) by (intro in_progress_done) (simp_all add: fits_def)
  ultimately show ?thesis using ds by (simp add: avmd_wait_done_def exec_def)
qed

lemma avmd_wait_done_idle:
  assumes "fits s" and "\<forall>d\<in>set (detectors s). flag_processing_done d"
  shows "avmd_wait_done lib s h = Some (s, h @ [(Sync (Lock ''detectors_done''), ADone)])"
  using assms(1) in_progress_done [of "a_settings s" "detectors s"] assms(2)
  by (simp add: avmd_wait_done_def exec_def fits_def avmd_rounds_idle)

text \<open>More than 255 detectors: the wait does not end.\<close>

lemma avmd_wait_done_diverges:
  assumes "255 < detector_total (a_settings s)" and "length (detectors s) = detector_total (a_settings s)"
  shows "avmd_wait_done lib s h = None"
proof (cases "avmd_rounds lib (rate s) (a_settings s) (circ s) (detectors s)")
  case None
  then show ?thesis by (simp add: avmd_wait_done_def exec_def)
next
  case (Some ds)
  then have ds: "length ds = length (detectors s)" "\<forall>d\<in>set ds. flag_processing_done d"
    using postD [OF avmd_rounds_done Some] by simp_all
  then have "avmd_detection_in_progress (a_settings s) ds = None"
    using assms unfolding avmd_detection_in_progress_def by (intro in_progress_from_diverges) simp_all
  then show ?thesis using Some by (simp add: avmd_wait_done_def exec_def)
qed

lemma hand_out_all:
  "fits s \<Longrightarrow> hand_out_from (detector_total (a_settings s)) n (detectors s) 0 = Some (map (avmd_hand_out n) (detectors s))"
  using hand_out_from_spec [of "detector_total (a_settings s)" "detectors s" 0 n] by (simp add: fits_def)

text \<open>The wait, in the form the proofs about a frame use: it changes the detectors only.\<close>

lemma avmd_wait_done_frame:
  "post (avmd_wait_done lib s h) (\<lambda>(s', h'). \<exists>ds. s' = s\<lparr> detectors := ds \<rparr> \<and>
    avmd_rounds lib (rate s) (a_settings s) (circ s) (detectors s) = Some ds \<and>
    length ds = length (detectors s) \<and> (\<forall>d\<in>set ds. flag_processing_done d) \<and>
    h' = h @ [(Sync (Lock ''detectors_done''), ADone)])"
proof (rule postI, clarsimp)
  fix s' h' assume run: "avmd_wait_done lib s h = Some (s', h')"
  then obtain ds where "avmd_rounds lib (rate s) (a_settings s) (circ s) (detectors s) = Some ds"
    "s' = s\<lparr> detectors := ds \<rparr>" "h' = h @ [(Sync (Lock ''detectors_done''), ADone)]"
    by (auto simp: avmd_wait_done_def exec_def bind_eq_Some_conv split: if_splits)
  then show "\<exists>ds. s' = s\<lparr> detectors := ds \<rparr> \<and> avmd_rounds lib (rate s) (a_settings s) (circ s) (detectors s) = Some ds \<and>
      length ds = length (detectors s) \<and> (\<forall>d\<in>set ds. flag_processing_done d) \<and>
      h' = h @ [(Sync (Lock ''detectors_done''), ADone)]"
    using postD [OF avmd_rounds_done] by fastforce
qed

section \<open>Detections\<close>

text \<open>The result of a frame is that of the first detector, by index, that has one.\<close>

lemma avmd_detection_result_first:
  assumes "fits s"
  shows "\<exists>found. first_result_from (detector_total (a_settings s)) (map result (detectors s)) 0 = Some found \<and>
    (case found of
       None \<Rightarrow> (\<forall>d\<in>set (detectors s). result d = AVMD_DETECT_NONE) \<and>
         avmd_detection_result E lib s h = Some (AVMD_DETECT_NONE, s, h)
     | Some i \<Rightarrow> unat i < length (detectors s) \<and> result (detectors s ! unat i) \<noteq> AVMD_DETECT_NONE \<and>
         (\<forall>j<unat i. result (detectors s ! j) = AVMD_DETECT_NONE) \<and>
         avmd_detection_result E lib s h = do {
           (s', h') \<leftarrow> avmd_report_detection E lib s (result (detectors s ! unat i)) (detectors s ! unat i) h;
           Some (result (detectors s ! unat i), s', h') })"
proof -
  let ?n = "detector_total (a_settings s)"
  have len: "?n \<le> 255" "length (detectors s) = ?n" using assms by (simp_all add: fits_def)
  let ?rs = "map result (detectors s)"
  have "\<exists>r. first_result_from ?n ?rs 0 = Some r \<and>
    (case r of None \<Rightarrow> \<forall>j<?n. unat (0 :: 8 word) \<le> j \<longrightarrow> ?rs ! j = AVMD_DETECT_NONE
     | Some k \<Rightarrow> unat k < ?n \<and> unat (0 :: 8 word) \<le> unat k \<and> ?rs ! unat k \<noteq> AVMD_DETECT_NONE \<and>
         (\<forall>j<unat k. unat (0 :: 8 word) \<le> j \<longrightarrow> ?rs ! j = AVMD_DETECT_NONE))"
    using len by (intro first_result_from_spec) simp_all
  then obtain found where f: "first_result_from ?n ?rs 0 = Some found"
    and spec: "case found of None \<Rightarrow> \<forall>j<?n. ?rs ! j = AVMD_DETECT_NONE
     | Some k \<Rightarrow> unat k < ?n \<and> ?rs ! unat k \<noteq> AVMD_DETECT_NONE \<and> (\<forall>j<unat k. ?rs ! j = AVMD_DETECT_NONE)"
    unfolding unat_0 by (elim exE conjE) (simp only: le0 simp_thms)
  then show ?thesis
  proof (cases found)
    case None
    then show ?thesis using f spec len by (auto simp: avmd_detection_result_def in_set_conv_nth)
  next
    case (Some i)
    then have "\<forall>j<unat i. j < length (detectors s)" using spec len by auto
    then show ?thesis using f spec Some len by (auto simp: avmd_detection_result_def)
  qed
qed

text \<open>What is announced: the event \<open>avmd::beep\<close> and the channel variable \<open>avmd_detect\<close>.\<close>

definition beep_delta :: "avmd_glue call \<times> answer \<Rightarrow> int" where
  "beep_delta e = (if fst e = Event (Create_subclass ''avmd::beep'') then 1 else 0)"

definition detect_delta :: "avmd_glue call \<times> answer \<Rightarrow> int" where
  "detect_delta e = (if fst e = Chan Caller (Set_variable ''avmd_detect'' ''TRUE'') then 1 else 0)"

lemma announce_deltas [simp]:
  "beep_delta (Sync so, a) = 0" "detect_delta (Sync so, a) = 0"
  "beep_delta (Time_now, a) = 0" "detect_delta (Time_now, a) = 0"
  "beep_delta (Glue g, a) = 0" "detect_delta (Glue g, a) = 0"
  "beep_delta (Chan l co, a) = 0" "detect_delta (Event eo, a) = 0"
  "beep_delta (Event (Add_header n v), a) = 0" "beep_delta (Event Dup, a) = 0" "beep_delta (Event Queue, a) = 0"
  "beep_delta (Event Fire_copy, a) = 0"
  "beep_delta (Event (Create_subclass t), a) = (if t = ''avmd::beep'' then 1 else 0)"
  "detect_delta (Chan Caller (Set_variable v t), a) = (if v = ''avmd_detect'' \<and> t = ''TRUE'' then 1 else 0)"
  "detect_delta (Chan Caller (Execute_on x), a) = 0"
  by (simp_all add: beep_delta_def detect_delta_def)

definition quiet_announce :: "avmd_trace \<Rightarrow> avmd_trace \<Rightarrow> bool" where
  "quiet_announce h h' \<longleftrightarrow> tally beep_delta h' = tally beep_delta h \<and> tally detect_delta h' = tally detect_delta h"

lemma num_header_quiet: "post (num_header n t h) (quiet_announce h)"
  by (auto simp: num_header_def run_simps quiet_announce_def intro!: post_intros)

lemma quiet_trans: "quiet_announce h h1 \<Longrightarrow> quiet_announce h1 h2 \<Longrightarrow> quiet_announce h h2"
  by (simp add: quiet_announce_def)

lemma event_headers_quiet: "post (avmd_event_headers type a h) (quiet_announce h)"
  by (cases type)
    (auto simp: avmd_event_headers_def run_simps quiet_announce_def
      intro!: post_intros post_mono [OF num_header_quiet])

lemma fire_event_announce:
  "post (avmd_fire_event E type a h) (\<lambda>h'.
     tally beep_delta h' = tally beep_delta h + (if type = AVMD_EVENT_BEEP then 1 else 0) \<and>
     tally detect_delta h' = tally detect_delta h)"
  by (cases type)
    (auto simp: avmd_fire_event_def run_simps avmd_events_str_def quiet_announce_def
      intro!: post_intros post_mono [OF event_headers_quiet])

lemma report_announce:
  "post (avmd_report_detection E lib s m d h) (\<lambda>(s', h'). beep_state s' = BEEP_DETECTED \<and>
     tally beep_delta h' = tally beep_delta h + (if m = AVMD_DETECT_NONE then 0 else 1) \<and>
     tally detect_delta h' = tally detect_delta h + 1)"
  by (auto simp: avmd_report_detection_def run_simps
      intro!: post_intros post_mono [OF fire_event_announce])

text \<open>The announcements made while the state of a session went from one value to another.\<close>

definition announced_once ::
  "('sma, 'circ) avmd_session \<Rightarrow> avmd_trace \<Rightarrow> ('sma, 'circ) avmd_session \<times> avmd_trace \<Rightarrow> bool" where
  "announced_once s h r \<longleftrightarrow>
     (let n = (if beep_state s = BEEP_NOTDETECTED \<and> beep_state (fst r) = BEEP_DETECTED then 1 else 0) in
      tally beep_delta (snd r) = tally beep_delta h + n \<and> tally detect_delta (snd r) = tally detect_delta h + n) \<and>
     (beep_state s = BEEP_DETECTED \<longrightarrow> beep_state (fst r) = BEEP_DETECTED)"

lemma detection_result_announce:
  assumes "beep_state s = BEEP_NOTDETECTED"
  shows "post (avmd_detection_result E lib s h) (\<lambda>(m, s', h').
    announced_once s h (s', h') \<and> (m = AVMD_DETECT_NONE \<longleftrightarrow> beep_state s' = BEEP_NOTDETECTED))"
proof (rule postI, clarsimp)
  fix m s' h' assume run: "avmd_detection_result E lib s h = Some (m, s', h')"
  then obtain found where f: "first_result_from (detector_total (a_settings s)) (map result (detectors s)) 0 = Some found"
    by (auto simp: avmd_detection_result_def bind_eq_Some_conv)
  show "announced_once s h (s', h') \<and> (m = AVMD_DETECT_NONE \<longleftrightarrow> beep_state s' = BEEP_NOTDETECTED)"
  proof (cases found)
    case None
    then show ?thesis using run f assms by (simp add: avmd_detection_result_def announced_once_def)
  next
    case (Some i)
    then obtain d where d: "arr (detectors s) (unat i) = Some d"
      "avmd_report_detection E lib s (result d) d h = Some (s', h')" "m = result d"
      using run f by (auto simp: avmd_detection_result_def bind_eq_Some_conv)
    have "result d \<noteq> AVMD_DETECT_NONE"
      using first_result_from_found [OF f [unfolded Some]] d(1) by (auto simp: arr_def split: if_splits)
    then show ?thesis
      using postD [OF report_announce d(2)] assms d(3) by (simp add: announced_once_def Let_def)
  qed
qed

section \<open>A frame, and a sequence of frames\<close>

lemma quiet_once: "quiet_announce h h' \<Longrightarrow> beep_state s' = beep_state s \<Longrightarrow> announced_once s h (s', h')"
  by (auto simp: quiet_announce_def announced_once_def Let_def)

lemma announced_once_step:
  "announced_once s1 h1 r \<Longrightarrow> quiet_announce h h1 \<Longrightarrow> beep_state s1 = beep_state s \<Longrightarrow> announced_once s h r"
  by (simp add: quiet_announce_def announced_once_def)

lemma announced_once_last:
  "announced_once s h (s1, h1) \<Longrightarrow> quiet_announce h1 h2 \<Longrightarrow> beep_state s2 = beep_state s1 \<Longrightarrow> announced_once s h (s2, h2)"
  by (simp add: quiet_announce_def announced_once_def)

lemma announced_once_trans:
  "announced_once s h (s1, h1) \<Longrightarrow> announced_once s1 h1 r \<Longrightarrow> announced_once s h r"
  by (cases "beep_state s"; cases "beep_state s1"; cases "beep_state (fst r)")
    (auto simp: announced_once_def Let_def)

lemma wait_quiet: "post (avmd_wait_done lib s h) (\<lambda>(s', h'). quiet_announce h h' \<and> beep_state s' = beep_state s)"
  by (rule post_mono [OF avmd_wait_done_frame]) (auto simp: quiet_announce_def)

lemma start_timer_quiet:
  "post (start_detection_timer E s h) (\<lambda>(s', h'). quiet_announce h h' \<and> (\<exists>t. s' = s\<lparr> detection_start_time := t \<rparr>))"
proof (cases "detection_start_time s = 0")
  case True
  then show ?thesis by (auto simp: start_detection_timer_def run_simps quiet_announce_def intro!: post_intros)
next
  case False
  then show ?thesis
    by (auto simp: start_detection_timer_def quiet_announce_def intro!: exI [of _ "detection_start_time s"])
qed

lemma process_frame_announce:
  assumes "beep_state s = BEEP_NOTDETECTED"
  shows "post (avmd_process_frame E lib s frame h) (announced_once s h)"
proof -
  have wait: "post (avmd_wait_done lib s1 h1) (\<lambda>(s', h'). quiet_announce h1 h' \<and> beep_state s' = beep_state s1)" for s1 h1
    by (rule wait_quiet)
  have hand: "post (hand_out_from n smp ds i) (\<lambda>_. True)" for n smp ds i by simp
  have detect: "post (avmd_detection_result E lib s1 h1) (\<lambda>(m, s', h'). announced_once s1 h1 (s', h'))"
    if "beep_state s1 = BEEP_NOTDETECTED" for s1 h1
    using that by (rule post_mono [OF detection_result_announce]) auto
  show ?thesis
    using assms
    by (auto simp: avmd_process_frame_def run_simps
        intro!: post_mono [OF start_timer_quiet] post_mono [OF wait] post_intros post_mono [OF hand] post_mono [OF detect])
      (auto simp: quiet_announce_def announced_once_def Let_def)
qed

lemma process_announce: "post (avmd_process E lib s frame h) (announced_once s h)"
proof -
  have frame: "post (avmd_process_frame E lib s1 frame h1) (announced_once s h)"
    if "beep_state s1 = BEEP_NOTDETECTED" "beep_state s = beep_state s1" "quiet_announce h h1" for s1 h1
    using process_frame_announce [OF that(1)]
    by (rule post_mono) (rule announced_once_step, assumption, rule that(3), simp add: that(2))
  show ?thesis
    by (cases "beep_state s")
      (auto simp: avmd_process_def run_simps intro!: post_mono [OF wait_quiet] post_intros frame quiet_once,
       auto simp: quiet_announce_def)
qed

text \<open>The frames of a call, one after the other.\<close>

fun avmd_frames ::
  "avmd_env \<Rightarrow> ('sma, 'circ) avmd_lib \<Rightarrow> ('sma, 'circ) avmd_session \<Rightarrow> int list list \<Rightarrow> avmd_trace \<Rightarrow>
   (('sma, 'circ) avmd_session \<times> avmd_trace) option" where
  "avmd_frames E lib s [] h = Some (s, h)"
| "avmd_frames E lib s (fr # frs) h = do { (s, h) \<leftarrow> avmd_process E lib s fr h; avmd_frames E lib s frs h }"

lemma frames_announce: "post (avmd_frames E lib s frs h) (announced_once s h)"
proof (induction frs arbitrary: s h)
  case (Cons fr frs)
  have "post (avmd_frames E lib s1 frs h1) (announced_once s h)" if "announced_once s h (s1, h1)" for s1 h1
    using Cons.IH by (rule post_mono) (rule announced_once_trans [OF that])
  then show ?case by (auto simp: run_simps intro!: post_mono [OF process_announce])
qed (simp add: announced_once_def)

section \<open>Frames always return\<close>

lemma report_returns: "returns (avmd_report_detection E lib s m d h) (\<lambda>(s', h'). \<exists>t. s' = s\<lparr> detection_stop_time := t, beep_state := BEEP_DETECTED \<rparr>)"
proof -
  have num: "returns (num_header n t h) (\<lambda>_. True)" for n t h
    by (auto simp: num_header_def returns_simps intro!: returns_intros)
  have headers: "returns (avmd_event_headers type a h) (\<lambda>_. True)" for type a h
    by (cases type) (auto simp: avmd_event_headers_def returns_simps intro!: returns_intros returns_mono [OF num])
  have fire: "returns (avmd_fire_event E type a h) (\<lambda>_. True)" for type a h
    by (auto simp: avmd_fire_event_def returns_simps intro!: returns_intros returns_mono [OF headers])
  show ?thesis
    by (auto simp: avmd_report_detection_def returns_simps intro!: returns_intros returns_mono [OF fire])
qed

text \<open>What a frame keeps of a session.\<close>

definition same_setup :: "('sma, 'circ) avmd_session \<Rightarrow> ('sma, 'circ) avmd_session \<Rightarrow> bool" where
  "same_setup s s' \<longleftrightarrow> a_settings s' = a_settings s \<and> rate s' = rate s \<and> has_session s' = has_session s \<and>
     length (detectors s') = length (detectors s)"

lemma fits_same_setup: "same_setup s s' \<Longrightarrow> fits s \<Longrightarrow> fits s'"
  by (simp add: same_setup_def fits_def)

lemma wait_returns:
  assumes "lib_ok lib" and "fits s"
  shows "returns (avmd_wait_done lib s h) (\<lambda>(s', h'). same_setup s s')"
  by (rule returns_mono [OF avmd_wait_done_returns [OF assms]]) (auto simp: same_setup_def)

lemma detection_result_returns:
  assumes "fits s"
  shows "returns (avmd_detection_result E lib s h) (\<lambda>(m, s', h'). same_setup s s')"
proof -
  obtain found where found: "first_result_from (detector_total (a_settings s)) (map result (detectors s)) 0 = Some found"
    and run: "case found of
       None \<Rightarrow> (\<forall>d\<in>set (detectors s). result d = AVMD_DETECT_NONE) \<and>
         avmd_detection_result E lib s h = Some (AVMD_DETECT_NONE, s, h)
     | Some i \<Rightarrow> unat i < length (detectors s) \<and> result (detectors s ! unat i) \<noteq> AVMD_DETECT_NONE \<and>
         (\<forall>j<unat i. result (detectors s ! j) = AVMD_DETECT_NONE) \<and>
         avmd_detection_result E lib s h = do {
           (s', h') \<leftarrow> avmd_report_detection E lib s (result (detectors s ! unat i)) (detectors s ! unat i) h;
           Some (result (detectors s ! unat i), s', h') }"
    using avmd_detection_result_first [OF assms] by blast
  show ?thesis
  proof (cases found)
    case None
    then show ?thesis using run by (simp add: same_setup_def)
  next
    case (Some i)
    then show ?thesis using run
      by (auto simp: returns_simps same_setup_def intro!: returns_mono [OF report_returns])
  qed
qed

lemma start_timer_returns: "returns (start_detection_timer E s h) (\<lambda>(s', h'). same_setup s s')"
  by (auto simp: start_detection_timer_def returns_simps same_setup_def intro!: returns_intros)

lemma process_frame_returns:
  assumes "lib_ok lib" and "fits s"
  shows "returns (avmd_process_frame E lib s frame h) (\<lambda>(s', h'). same_setup s s')"
proof -
  obtain s1 h1 where 1: "start_detection_timer E s h = Some (s1, h1)" "same_setup s s1"
    using start_timer_returns [of E s h] by (auto simp: returns_iff)
  let ?s1 = "s1\<lparr> circ := circ_insert lib (circ s1) frame \<rparr>"
  let ?n = "if frame_n ?s1 = 0 then samples_minus_p (length frame) else length frame"
  let ?s2 = "?s1\<lparr> detectors := map (avmd_hand_out ?n) (detectors ?s1) \<rparr>"
  have s1: "same_setup s ?s1" using 1(2) by (simp add: same_setup_def)
  then have hand: "hand_out_from (detector_total (a_settings ?s1)) ?n (detectors ?s1) 0 = Some (detectors ?s2)"
    using hand_out_all [OF fits_same_setup [OF s1 assms(2)]] by simp
  have s2: "same_setup s ?s2" using s1 by (simp add: same_setup_def)
  obtain s3 h3 where 3: "avmd_wait_done lib ?s2 h1 = Some (s3, h3)" "same_setup ?s2 s3"
    using wait_returns [OF assms(1) fits_same_setup [OF s2 assms(2)], of h1] by (auto simp: returns_iff)
  then have s3: "same_setup s s3" using s2 by (simp add: same_setup_def)
  obtain m s4 h4 where 4: "avmd_detection_result E lib s3 h3 = Some (m, s4, h4)" "same_setup s3 s4"
    using detection_result_returns [OF fits_same_setup [OF s3 assms(2)], of E lib h3] by (auto simp: returns_iff)
  then have "same_setup s s4" using s3 by (simp add: same_setup_def)
  then show ?thesis
    using 1(1) hand 3(1) 4(1) by (simp add: avmd_process_frame_def Let_def exec_def same_setup_def)
qed

lemma process_returns:
  assumes "lib_ok lib" and "fits s"
  shows "returns (avmd_process E lib s frame h) (\<lambda>(s', h'). same_setup s s')"
proof -
  obtain s1 h1 where 1: "avmd_wait_done lib s h = Some (s1, h1)" "same_setup s s1"
    using wait_returns [OF assms, of h] by (auto simp: returns_iff)
  have "returns (avmd_process_frame E lib s1 frame h2) (\<lambda>(s', h'). same_setup s s')" for h2
    using process_frame_returns [OF assms(1) fits_same_setup [OF 1(2) assms(2)]] by (rule returns_mono) (use 1(2) in \<open>auto simp: same_setup_def\<close>)
  then show ?thesis
    using 1 by (auto simp: avmd_process_def exec_def same_setup_def)
qed

lemma frames_returns:
  assumes "lib_ok lib" and "fits s"
  shows "returns (avmd_frames E lib s frs h) (\<lambda>(s', h'). same_setup s s')"
  using assms(2)
proof (induction frs arbitrary: s h)
  case (Cons fr frs)
  obtain s1 h1 where 1: "avmd_process E lib s fr h = Some (s1, h1)" "same_setup s s1"
    using process_returns [OF assms(1) Cons.prems, of E fr h] by (auto simp: returns_iff)
  have "returns (avmd_frames E lib s1 frs h1) (\<lambda>(s', h'). same_setup s s')"
    using Cons.IH [OF fits_same_setup [OF 1(2) Cons.prems]] by (rule returns_mono) (use 1(2) in \<open>auto simp: same_setup_def\<close>)
  then show ?case using 1(1) by simp
qed (simp add: same_setup_def)

text \<open>With more than 255 detectors no frame is ever finished.\<close>

lemma process_diverges:
  "255 < detector_total (a_settings s) \<Longrightarrow> length (detectors s) = detector_total (a_settings s) \<Longrightarrow>
   avmd_process E lib s frame h = None"
  by (simp add: avmd_process_def avmd_wait_done_diverges)

section \<open>Settings that make a session blind\<close>

definition blind_session :: "('sma, 'circ) avmd_lib \<Rightarrow> ('sma, 'circ) avmd_session \<Rightarrow> bool" where
  "blind_session lib s \<longleftrightarrow> beep_state s = BEEP_NOTDETECTED \<and> (\<forall>d\<in>set (detectors s). blind lib (rate s) (a_settings s) d)"

lemma blind_wait:
  assumes "blind_session lib s"
  shows "post (avmd_wait_done lib s h) (\<lambda>(s', h'). blind_session lib s' \<and> quiet_announce h h')"
proof (rule post_mono [OF avmd_wait_done_frame], clarsimp)
  fix ds assume "avmd_rounds lib (rate s) (a_settings s) (circ s) (detectors s) = Some ds"
  from postD [OF blind_rounds this]
  show "blind_session lib (s\<lparr> detectors := ds \<rparr>) \<and> quiet_announce h (h @ [(Sync (Lock ''detectors_done''), ADone)])"
    using assms by (auto simp: blind_session_def quiet_announce_def)
qed

lemma blind_hand_out_from:
  assumes "\<forall>d\<in>set ds. blind lib r st d"
  shows "post (hand_out_from n smp ds i) (\<lambda>ds'. \<forall>d\<in>set ds'. blind lib r st d)"
proof (rule postI)
  fix ds' assume run: "hand_out_from n smp ds i = Some ds'"
  have "(\<forall>d\<in>set ds. blind lib r st d) \<longrightarrow> (\<forall>d\<in>set ds'. blind lib r st d)"
  proof (rule hand_out_from.raw_induct [OF _ run, of "\<lambda>n smp ds i ds'. (\<forall>d\<in>set ds. blind lib r st d) \<longrightarrow> (\<forall>d\<in>set ds'. blind lib r st d)"])
    fix g :: "nat \<Rightarrow> nat \<Rightarrow> 'a avmd_detector list \<Rightarrow> 8 word \<Rightarrow> 'a avmd_detector list option" and n smp ds i ds'
    assume ih: "\<And>n smp ds i ds'. g n smp ds i = Some ds' \<Longrightarrow> (\<forall>d\<in>set ds. blind lib r st d) \<longrightarrow> (\<forall>d\<in>set ds'. blind lib r st d)"
      and run: "(if unat i < n then arr ds (unat i) \<bind> (\<lambda>d. g n smp (ds[unat i := avmd_hand_out smp d]) (i + 1)) else Some ds) = Some ds'"
    show "(\<forall>d\<in>set ds. blind lib r st d) \<longrightarrow> (\<forall>d\<in>set ds'. blind lib r st d)"
    proof (cases "unat i < n")
      case True
      then obtain d where d: "arr ds (unat i) = Some d" "g n smp (ds[unat i := avmd_hand_out smp d]) (i + 1) = Some ds'"
        using run by (auto simp: bind_eq_Some_conv)
      then have "d \<in> set ds" by (auto simp: arr_def split: if_splits)
      then have "\<forall>d\<in>set ds. blind lib r st d \<Longrightarrow> \<forall>e\<in>set (ds[unat i := avmd_hand_out smp d]). blind lib r st e"
        by (auto dest!: set_update_subset_insert [THEN subsetD] intro: blind_hand_out)
      then show ?thesis using ih [OF d(2)] by blast
    qed (use run in simp)
  qed
  then show "\<forall>d\<in>set ds'. blind lib r st d" using assms by blast
qed

lemma blind_detection_result:
  assumes "blind_session lib s"
  shows "post (avmd_detection_result E lib s h) (\<lambda>(m, s', h'). s' = s \<and> h' = h)"
proof (rule postI, clarsimp)
  fix m s' h' assume run: "avmd_detection_result E lib s h = Some (m, s', h')"
  then obtain found where f: "first_result_from (detector_total (a_settings s)) (map result (detectors s)) 0 = Some found"
    by (auto simp: avmd_detection_result_def bind_eq_Some_conv)
  have "found = None"
  proof (cases found)
    case (Some k)
    then have k: "arr (map result (detectors s)) (unat k) \<noteq> None \<and> arr (map result (detectors s)) (unat k) \<noteq> Some AVMD_DETECT_NONE"
      using first_result_from_found f by blast
    then have "unat k < length (detectors s)" by (auto simp: arr_def split: if_splits)
    then have "result (detectors s ! unat k) = AVMD_DETECT_NONE"
      using assms nth_mem by (fastforce simp: blind_session_def blind_def)
    then show ?thesis using k \<open>unat k < length (detectors s)\<close> by simp
  qed
  then show "s' = s \<and> h' = h" using run f by (simp add: avmd_detection_result_def)
qed

lemma blind_process_frame:
  assumes "blind_session lib s"
  shows "post (avmd_process_frame E lib s frame h) (\<lambda>(s', h'). blind_session lib s' \<and> quiet_announce h h')"
proof -
  have timer: "post (start_detection_timer E s h) (\<lambda>(s1, h1). quiet_announce h h1 \<and> blind_session lib s1)"
    by (rule post_mono [OF start_timer_quiet]) (use assms in \<open>auto simp: blind_session_def\<close>)
  have hand: "post (hand_out_from n smp (detectors s1) i) (\<lambda>ds. blind_session lib (s1\<lparr> circ := c, detectors := ds \<rparr>))"
    if "blind_session lib s1" for n smp i c s1
    using that by (intro post_mono [OF blind_hand_out_from [where lib = lib and r = "rate s1" and st = "a_settings s1"]])
      (simp_all add: blind_session_def)
  have result: "post (avmd_detection_result E lib s2 h2) (\<lambda>(m, s', h'). blind_session lib s' \<and> h' = h2)"
    if "blind_session lib s2" for s2 h2
    using blind_detection_result [OF that] by (rule post_mono) (use that in auto)
  have finish: "blind_session lib (s2\<lparr> frame_n := n, pos := p \<rparr>)" if "blind_session lib s2" for s2 n p
    using that by (simp add: blind_session_def)
  have quiet: "quiet_announce h (h2 @ [(Sync (Unlock m), ADone)])"
    if "quiet_announce h h1" "quiet_announce h1 h2" for h1 h2 m
    using that by (simp add: quiet_announce_def)
  show ?thesis
    by (auto simp: avmd_process_frame_def run_simps
        intro!: post_mono [OF timer] post_mono [OF hand] post_mono [OF blind_wait] post_mono [OF result] post_intros finish quiet)
qed

lemma blind_process:
  assumes "blind_session lib s"
  shows "post (avmd_process E lib s frame h) (\<lambda>(s', h'). blind_session lib s' \<and> quiet_announce h h')"
proof -
  have frame: "post (avmd_process_frame E lib s1 frame (h1 @ [(Sync (Unlock m), ADone)])) (\<lambda>(s', h'). blind_session lib s' \<and> quiet_announce h h')"
    if "blind_session lib s1" "quiet_announce h h1" for s1 h1 m
    using blind_process_frame [OF that(1)] by (rule post_mono) (use that in \<open>auto simp: quiet_announce_def\<close>)
  show ?thesis
    by (auto simp: avmd_process_def run_simps intro!: post_mono [OF blind_wait [OF assms]] frame post_intros)
      (auto simp: blind_session_def quiet_announce_def)
qed

lemma blind_frames:
  assumes "blind_session lib s"
  shows "post (avmd_frames E lib s frs h) (\<lambda>(s', h'). blind_session lib s' \<and> quiet_announce h h')"
  using assms
proof (induction frs arbitrary: s h)
  case (Cons fr frs)
  have "post (avmd_frames E lib s1 frs h1) (\<lambda>(s', h'). blind_session lib s' \<and> quiet_announce h h')"
    if "blind_session lib s1" "quiet_announce h h1" for s1 h1
    using Cons.IH [OF that(1)] by (rule post_mono) (use that in \<open>auto simp: quiet_announce_def\<close>)
  then show ?case by (auto simp: run_simps intro!: post_mono [OF blind_process [OF Cons.prems]])
qed (simp add: quiet_announce_def)

section \<open>Set-up, launch and close\<close>

lemma init_detectors_spec:
  "post (avmd_init_detectors E lib d0 n i slots h) (\<lambda>(ok, ds, h'). ok \<longrightarrow>
     map buffer ds = map (\<lambda>(res, off). avmd_init_buffer lib n res off) slots \<and>
     map idx ds = map of_nat [i..<i + length slots] \<and>
     (\<forall>d\<in>set ds. \<not> thread d \<and> flag_processing_done d \<and> flag_should_exit d))"
proof (induction slots arbitrary: i h)
  case (Cons p slots)
  obtain res off where p: "p = (res, off)" by fastforce
  have smas: "post (init_smas E 6 h) (\<lambda>_. True)" by simp
  have range: "[i..<Suc (i + length slots)] = i # [i + 1..<i + 1 + length slots]" by (simp add: upt_rec)
  show ?case
    unfolding p
    by (auto simp: run_simps range simp del: upt.simps intro!: post_intros post_mono [OF smas] post_mono [OF Cons.IH])
qed simp

lemma length_all_slots: "length (all_slots st) = detector_total st"
  by (simp add: all_slots_def detector_slots_def detector_total_def)

text \<open>A session that was set up has its detectors in their slots, numbered by index, and no threads.\<close>

lemma init_session_spec:
  "post (init_avmd_session_body E lib l d0 s h) (\<lambda>(st, s', h'). st = SWITCH_STATUS_SUCCESS \<longrightarrow>
     map buffer (detectors s') = map (\<lambda>(res, off). avmd_init_buffer lib (AVMD_BEEP_LEN 48000 div AVMD_SINE_LEN 48000) res off)
       (all_slots (a_settings s)) \<and>
     map idx (detectors s') = map of_nat [0..<detector_total (a_settings s)] \<and>
     (\<forall>d\<in>set (detectors s'). \<not> thread d \<and> flag_processing_done d \<and> flag_should_exit d) \<and>
     a_settings s' = a_settings s \<and> has_session s' \<and> beep_state s' = BEEP_NOTDETECTED \<and> frame_n s' = 0 \<and> pos s' = 0)"
  by (auto simp: init_avmd_session_body_def run_simps length_all_slots
      intro!: post_intros post_mono [OF init_detectors_spec])

lemma init_session_data_spec:
  "post (init_avmd_session_data E lib l d0 mutex s h) (\<lambda>(st, s', h'). st = SWITCH_STATUS_SUCCESS \<longrightarrow>
     map buffer (detectors s') = map (\<lambda>(res, off). avmd_init_buffer lib (AVMD_BEEP_LEN 48000 div AVMD_SINE_LEN 48000) res off)
       (all_slots (a_settings s)) \<and>
     map idx (detectors s') = map of_nat [0..<detector_total (a_settings s)] \<and>
     (\<forall>d\<in>set (detectors s'). \<not> thread d \<and> flag_processing_done d \<and> flag_should_exit d) \<and>
     a_settings s' = a_settings s \<and> has_session s' \<and> beep_state s' = BEEP_NOTDETECTED \<and> frame_n s' = 0 \<and> pos s' = 0)"
  by (auto simp: init_avmd_session_data_def run_simps intro!: post_intros post_mono [OF init_session_spec])

text \<open>The detector at \<open>base + i\<close> after its thread was created.\<close>

definition launched_as :: "bool \<Rightarrow> nat \<Rightarrow> nat \<Rightarrow> 'sma avmd_detector \<Rightarrow> 'sma avmd_detector" where
  "launched_as is_lagged p i d = d\<lparr> flag_processing_done := True, flag_should_exit := False, result := AVMD_DETECT_NONE,
     lagged := is_lagged, lag := (if is_lagged then (i + 1) mod 256 else 0),
     thread := True, thread_pos := p, thread_res := AVMD_DETECT_NONE \<rparr>"

lemma launch_from_spec:
  "post (avmd_launch_from E is_lagged p base i n ds h) (\<lambda>(st, ds', h'). length ds' = length ds \<and>
     (st = SWITCH_STATUS_SUCCESS \<longrightarrow> base + i + n \<le> length ds \<or> n = 0) \<and>
     (st = SWITCH_STATUS_SUCCESS \<longrightarrow> (\<forall>k<length ds. ds' ! k =
        (if base + i \<le> k \<and> k < base + i + n then launched_as is_lagged p (k - base) (ds ! k) else ds ! k))))"
proof (induction n arbitrary: i ds h)
  case (Suc n)
  let ?c = "Sync (Thread_create (base + i))" and ?ds = "ds[base + i := launched_as is_lagged p i (ds ! (base + i))]"
  have step: "avmd_launch_from E is_lagged p base i (Suc n) ds h =
    (if base + i < length ds then
       if ans_status E h ?c \<noteq> SWITCH_STATUS_SUCCESS
       then Some (SWITCH_STATUS_FALSE, ds[base + i := (ds ! (base + i))\<lparr> flag_processing_done := True, flag_should_exit := False,
          result := AVMD_DETECT_NONE, lagged := is_lagged, lag := (if is_lagged then (i + 1) mod 256 else 0) \<rparr>],
          h @ [(?c, AStatus (ans_status E h ?c))])
       else avmd_launch_from E is_lagged p base (i + 1) n ?ds (h @ [(?c, AStatus (ans_status E h ?c))])
     else None)"
    by (simp add: ask_defs launched_as_def)
  show ?case
  proof (cases "base + i < length ds \<and> ans_status E h ?c = SWITCH_STATUS_SUCCESS")
    case True
    have "post (avmd_launch_from E is_lagged p base (i + 1) n ?ds h1) (\<lambda>(st, ds', h'). length ds' = length ds \<and>
       (st = SWITCH_STATUS_SUCCESS \<longrightarrow> base + i + Suc n \<le> length ds) \<and>
       (st = SWITCH_STATUS_SUCCESS \<longrightarrow> (\<forall>k<length ds. ds' ! k =
          (if base + i \<le> k \<and> k < base + i + Suc n then launched_as is_lagged p (k - base) (ds ! k) else ds ! k))))" for h1
    proof (rule post_mono [OF Suc.IH], clarify, intro conjI impI allI)
      fix st ds' h' k
      assume len: "length ds' = length ?ds" and all: "st = SWITCH_STATUS_SUCCESS \<longrightarrow> (\<forall>k<length ?ds. ds' ! k =
          (if base + (i + 1) \<le> k \<and> k < base + (i + 1) + n then launched_as is_lagged p (k - base) (?ds ! k) else ?ds ! k))"
        and st: "st = SWITCH_STATUS_SUCCESS" and k: "k < length ds"
      show "ds' ! k = (if base + i \<le> k \<and> k < base + i + Suc n then launched_as is_lagged p (k - base) (ds ! k) else ds ! k)"
        using all st k by (cases "k = base + i") auto
    qed (use True in auto)
    then show ?thesis unfolding step using True by auto
  next
    case False
    then show ?thesis unfolding step by auto
  qed
qed auto

text \<open>After a successful launch every detector has its thread and waits for work.\<close>

definition ready :: "nat \<Rightarrow> 'sma avmd_detector \<Rightarrow> bool" where
  "ready p d \<longleftrightarrow> thread d \<and> flag_processing_done d \<and> \<not> flag_should_exit d \<and> result d = AVMD_DETECT_NONE \<and>
     thread_res d = AVMD_DETECT_NONE \<and> thread_pos d = p"

lemma launch_threads_spec:
  assumes "length (detectors s) = detector_total (a_settings s)"
  shows "post (avmd_launch_threads E s h) (\<lambda>(st, s', h'). \<exists>ds. s' = s\<lparr> detectors := ds \<rparr> \<and> length ds = length (detectors s) \<and>
    (st = SWITCH_STATUS_SUCCESS \<longrightarrow> (\<forall>k<length ds. ds ! k =
       (if k < unat (detectors_n (a_settings s)) then launched_as False (pos s) k (detectors s ! k)
        else launched_as True (pos s) (k - unat (detectors_n (a_settings s))) (detectors s ! k)))))"
proof -
  let ?n = "unat (detectors_n (a_settings s))" and ?m = "unat (detectors_lagged_n (a_settings s))"
  have len: "length (detectors s) = ?n + ?m" using assms by (simp add: detector_total_def)
  show ?thesis
  proof (rule post_tripleI, unfold prod.case)
    fix st s' h' assume run: "avmd_launch_threads E s h = Some (st, s', h')"
    then obtain st1 ds1 h1 where 1: "avmd_launch_from E False (pos s) 0 0 ?n (detectors s) h = Some (st1, ds1, h1)"
      by (auto simp: avmd_launch_threads_def bind_eq_Some_conv Let_def)
    note p1 = postD [OF launch_from_spec 1]
    show "\<exists>ds. s' = s\<lparr> detectors := ds \<rparr> \<and> length ds = length (detectors s) \<and>
      (st = SWITCH_STATUS_SUCCESS \<longrightarrow> (\<forall>k<length ds. ds ! k =
         (if k < ?n then launched_as False (pos s) k (detectors s ! k) else launched_as True (pos s) (k - ?n) (detectors s ! k))))"
    proof (cases "st1 = SWITCH_STATUS_SUCCESS")
      case True
      then obtain ds2 where 2: "avmd_launch_from E True (pos s) ?n 0 ?m ds1 h1 = Some (st, ds2, h')" "s' = s\<lparr> detectors := ds2 \<rparr>"
        using run 1 by (auto simp: avmd_launch_threads_def bind_eq_Some_conv Let_def)
      note p2 = postD [OF launch_from_spec 2(1)]
      show ?thesis using p1 p2 True 2(2) len by (intro exI [of _ ds2]) auto
    next
      case False
      then have "st = st1" "s' = s\<lparr> detectors := ds1 \<rparr>" using run 1 by (simp_all add: avmd_launch_threads_def Let_def)
      then show ?thesis using p1 False by auto
    qed
  qed
qed

lemma ready_launched: "ready p (launched_as b p i d)"
  by (simp add: ready_def launched_as_def)

lemma launch_threads_ready:
  assumes "length (detectors s) = detector_total (a_settings s)"
  shows "post (avmd_launch_threads E s h) (\<lambda>(st, s', h'). st = SWITCH_STATUS_SUCCESS \<longrightarrow>
    same_setup s s' \<and> (\<forall>d\<in>set (detectors s'). ready (pos s) d))"
proof (rule post_tripleI, unfold prod.case, intro impI)
  fix st s' h' assume run: "avmd_launch_threads E s h = Some (st, s', h')" and st: "st = SWITCH_STATUS_SUCCESS"
  let ?n = "unat (detectors_n (a_settings s))"
  obtain ds where ds: "s' = s\<lparr> detectors := ds \<rparr>" "length ds = length (detectors s)"
    "\<forall>k<length ds. ds ! k = (if k < ?n then launched_as False (pos s) k (detectors s ! k)
      else launched_as True (pos s) (k - ?n) (detectors s ! k))"
    using postD [OF launch_threads_spec [OF assms] run] st by auto
  then have "\<forall>k<length ds. ready (pos s) (ds ! k)" by (simp add: ready_launched)
  then show "same_setup s s' \<and> (\<forall>d\<in>set (detectors s'). ready (pos s) d)"
    using ds(1,2) by (auto simp: same_setup_def in_set_conv_nth)
qed

lemma close_all_returns:
  "(\<forall>d\<in>set ds. thread d) \<Longrightarrow> returns (avmd_close_all i ds h) (\<lambda>(ds', h'). length ds' = length ds \<and> (\<forall>d\<in>set ds'. \<not> thread d))"
proof (induction ds arbitrary: i h)
  case (Cons d ds)
  then show ?case by (auto simp: returns_simps intro!: returns_intros returns_mono [OF Cons.IH])
qed simp

lemma close_all_undefined: "d \<in> set ds \<Longrightarrow> \<not> thread d \<Longrightarrow> avmd_close_all i ds h = None"
proof (induction ds arbitrary: i h)
  case (Cons e ds)
  then show ?case by (cases "d = e") (auto simp: exec_def)
qed simp

lemma session_close_returns:
  assumes "lib_ok lib" and "fits s" and "\<forall>d\<in>set (detectors s). thread d"
  shows "returns (avmd_session_close lib s h) (\<lambda>(s', h'). \<forall>d\<in>set (detectors s'). \<not> thread d)"
proof -
  have wait: "returns (avmd_wait_done lib s h1) (\<lambda>(s', h'). \<forall>d\<in>set (detectors s'). thread d)" for h1
  proof (rule returns_mono [OF avmd_wait_done_returns [OF assms(1,2)]], clarsimp)
    fix ds d assume "map thread ds = map thread (detectors s)" and "d \<in> set ds"
    then have "thread d \<in> set (map thread (detectors s))" by (metis image_eqI set_map)
    then show "thread d" using assms(3) by auto
  qed
  show ?thesis
    by (auto simp: avmd_session_close_def returns_simps
        intro!: returns_intros returns_mono [OF wait] returns_mono [OF close_all_returns])
qed

lemma session_close_undefined:
  assumes "d \<in> set (detectors s)" and "\<not> thread d"
  shows "avmd_session_close lib s h = None"
proof (cases "avmd_wait_done lib s (h @ [(Sync (Lock ''session''), ADone)])")
  case None
  then show ?thesis by (simp add: avmd_session_close_def exec_def)
next
  case (Some r)
  then obtain s1 h1 where r: "avmd_wait_done lib s (h @ [(Sync (Lock ''session''), ADone)]) = Some (s1, h1)" by (cases r) auto
  then obtain ds where ds: "s1 = s\<lparr> detectors := ds \<rparr>" "avmd_rounds lib (rate s) (a_settings s) (circ s) (detectors s) = Some ds"
    using postD [OF avmd_wait_done_frame r] by auto
  have "map thread ds = map thread (detectors s)" using postD [OF avmd_rounds_done ds(2)] by simp
  moreover have "False \<in> thread ` set (detectors s)" using assms by force
  ultimately have "False \<in> thread ` set ds" by (metis set_map)
  then obtain e where "e \<in> set (detectors s1)" "\<not> thread e" using ds(1) by auto
  then show ?thesis using r by (simp add: avmd_session_close_def exec_def close_all_undefined)
qed

section \<open>A sample session\<close>

text \<open>A buffer library that keeps nothing, and a session with \<open>n\<close> waiting detectors at 8000 Hz.\<close>

definition sample_lib :: "(unit, unit) avmd_lib" where
  "sample_lib = \<lparr> sma_new = (\<lambda>n. ()), sma_append = (\<lambda>b x. ()), sma_reset = (\<lambda>b. ()), sma_mean = (\<lambda>b. Fin 0),
     sma_lpos = (\<lambda>b. 0), sma_pos = (\<lambda>b. 0), sma_data = (\<lambda>b i. None), circ_new = (\<lambda>n m. ()),
     circ_insert = (\<lambda>c fr. ()), circ_mask = (\<lambda>c. 4095), desa2 = (\<lambda>c i. (Fin 0, Fin 0)),
     median3 = (\<lambda>x y z. y), arc_cos = (\<lambda>x. x), c_sqrt = (\<lambda>x. x) \<rparr>"

definition sample_detector :: "avmd_detection_mode \<Rightarrow> unit avmd_detector" where
  "sample_detector m = \<lparr> thread = True, flag_processing_done = True, flag_should_exit = False, result = m,
     buffer = avmd_init_buffer sample_lib 16 1 0, samples = 0, idx = 0, lagged = False, lag = 0,
     thread_pos = 0, thread_res = m \<rparr>"

definition sample_session :: "avmd_settings \<Rightarrow> unit avmd_detector list \<Rightarrow> (unit, unit) avmd_session" where
  "sample_session st ds = \<lparr> has_session = True, a_settings = st, rate = 8000, circ = (), pos = 0, f = Fin 0,
     beep_state = BEEP_NOTDETECTED, last_beep = 0, start_time = 0, stop_time = 0, detection_start_time = 0,
     detection_stop_time = 0, frame_n = 0, frame_n_to_skip = 0, detectors = ds \<rparr>"

lemma sample_lib_ok: "lib_ok sample_lib"
  by (simp add: lib_ok_def sample_lib_def)

lemma sample_fits: "fits (sample_session (avmd_zero_settings\<lparr> detectors_n := 1 \<rparr>) [sample_detector m])"
  by (simp add: fits_def sample_session_def detector_total_def avmd_zero_settings_def)

lemma sample_init_detectors: "returns (avmd_init_detectors sample_env lib d0 n i slots h) (\<lambda>(ok, ds, h'). ok)"
proof (induction slots arbitrary: i h)
  case (Cons p slots)
  have smas: "returns (init_smas sample_env m h) (\<lambda>(ok, h'). ok)" for m h
    by (induction m arbitrary: h) (simp_all add: ask_bool_def sample_answers)
  obtain res off where p: "p = (res, off)" by fastforce
  show ?case
    unfolding p
    by (auto simp: returns_simps simp del: init_smas.simps intro!: returns_intros returns_mono [OF smas] returns_mono [OF Cons.IH])
qed simp

section \<open>Properties\<close>



text \<open>
  C5. A call is announced at most once: over any sequence of frames, the event \<open>avmd::beep\<close> is
  created, and the variable \<open>avmd_detect\<close> set, exactly once if the session went from not detected
  to detected and not at all otherwise, and a detected beep stays detected. With at most 255 detectors
  and a sound buffer library the frames are all processed.
\<close>

theorem avmd_one_beep:
  assumes "lib_ok lib" and "fits s"
  shows "returns (avmd_frames E lib s frs h) (\<lambda>(s', h').
    tally beep_delta h' = tally beep_delta h + (if beep_state s = BEEP_NOTDETECTED \<and> beep_state s' = BEEP_DETECTED then 1 else 0) \<and>
    tally detect_delta h' = tally detect_delta h + (if beep_state s = BEEP_NOTDETECTED \<and> beep_state s' = BEEP_DETECTED then 1 else 0) \<and>
    (beep_state s = BEEP_DETECTED \<longrightarrow> beep_state s' = BEEP_DETECTED) \<and>
    a_settings s' = a_settings s \<and> length (detectors s') = length (detectors s))"
proof -
  obtain s' h' where run: "avmd_frames E lib s frs h = Some (s', h')" "same_setup s s'"
    using frames_returns [OF assms, of E frs h] by (auto simp: returns_iff)
  from postD [OF frames_announce run(1)] run show ?thesis
    by (auto simp: announced_once_def Let_def same_setup_def)
qed

lemma avmd_one_beep_witness:
  "\<exists>s' h'. avmd_frames sample_env sample_lib
     (sample_session (avmd_zero_settings\<lparr> detectors_n := 1 \<rparr>) [sample_detector AVMD_DETECT_NONE]) [replicate 160 0, replicate 160 0] [] = Some (s', h')"
  using avmd_one_beep [OF sample_lib_ok sample_fits, of sample_env AVMD_DETECT_NONE "[replicate 160 0, replicate 160 0]" "[]"]
  by (auto simp: returns_iff)

text \<open>
  The verdict on a frame is that of the detector with the smallest index that has one, and it is
  reported with that detector's index, resolution, offset and means; without a verdict nothing
  happens.
\<close>

theorem avmd_first_verdict:
  assumes "fits s"
  shows "(\<forall>d\<in>set (detectors s). result d = AVMD_DETECT_NONE) \<and>
      avmd_detection_result E lib s h = Some (AVMD_DETECT_NONE, s, h) \<or>
    (\<exists>i<length (detectors s). result (detectors s ! i) \<noteq> AVMD_DETECT_NONE \<and>
      (\<forall>j<i. result (detectors s ! j) = AVMD_DETECT_NONE) \<and>
      (\<exists>s' h'. avmd_report_detection E lib s (result (detectors s ! i)) (detectors s ! i) h = Some (s', h') \<and>
        avmd_detection_result E lib s h = Some (result (detectors s ! i), s', h') \<and> beep_state s' = BEEP_DETECTED))"
proof -
  obtain found where "first_result_from (detector_total (a_settings s)) (map result (detectors s)) 0 = Some found"
    and run: "case found of
       None \<Rightarrow> (\<forall>d\<in>set (detectors s). result d = AVMD_DETECT_NONE) \<and>
         avmd_detection_result E lib s h = Some (AVMD_DETECT_NONE, s, h)
     | Some i \<Rightarrow> unat i < length (detectors s) \<and> result (detectors s ! unat i) \<noteq> AVMD_DETECT_NONE \<and>
         (\<forall>j<unat i. result (detectors s ! j) = AVMD_DETECT_NONE) \<and>
         avmd_detection_result E lib s h = do {
           (s', h') \<leftarrow> avmd_report_detection E lib s (result (detectors s ! unat i)) (detectors s ! unat i) h;
           Some (result (detectors s ! unat i), s', h') }"
    using avmd_detection_result_first [OF assms, of E lib h] by blast
  show ?thesis
  proof (cases found)
    case None
    then show ?thesis using run by simp
  next
    case (Some i)
    obtain s' h' where "avmd_report_detection E lib s (result (detectors s ! unat i)) (detectors s ! unat i) h = Some (s', h')"
      "beep_state s' = BEEP_DETECTED"
      using report_returns [of E lib s "result (detectors s ! unat i)" "detectors s ! unat i" h] by (auto simp: returns_iff)
    then show ?thesis using run Some by (intro disjI2 exI [of _ "unat i"]) simp
  qed
qed

lemma avmd_first_verdict_witness:
  "\<exists>s' h'. avmd_detection_result sample_env sample_lib
     (sample_session (avmd_zero_settings\<lparr> detectors_n := 1 \<rparr>) [sample_detector AVMD_DETECT_FREQ]) [] = Some (AVMD_DETECT_FREQ, s', h')"
  using avmd_first_verdict [OF sample_fits, of AVMD_DETECT_FREQ sample_env sample_lib "[]"]
  by (auto simp: sample_session_def sample_detector_def)

text \<open>
  C7. The bound on the number of detectors: the counter of the loops over the detectors is a byte,
  and the settings allow up to 510 detectors; with more than 255, no frame is ever finished and the
  session can never be closed.
\<close>

theorem avmd_too_many_detectors:
  assumes "255 < detector_total (a_settings s)" and "length (detectors s) = detector_total (a_settings s)"
  shows "avmd_process E lib s frame h = None \<and> avmd_session_close lib s h = None"
  using assms by (simp_all add: process_diverges avmd_session_close_def avmd_wait_done_diverges exec_def)

lemma avmd_too_many_detectors_witness:
  "avmd_process sample_env sample_lib
     (sample_session (avmd_zero_settings\<lparr> detectors_n := 255, detectors_lagged_n := 1 \<rparr>)
       (replicate 256 (sample_detector AVMD_DETECT_NONE))) [] [] = None"
  using avmd_too_many_detectors [of "sample_session (avmd_zero_settings\<lparr> detectors_n := 255, detectors_lagged_n := 1 \<rparr>)
      (replicate 256 (sample_detector AVMD_DETECT_NONE))" sample_env sample_lib "[]" "[]"]
  by (simp add: detector_total_def sample_session_def avmd_zero_settings_def)

text \<open>
  Two settings make a session blind: with samples to skip, and in amplitude mode (as long as a
  beep is at least one sample long at each detector's resolution and its frequency buffer is empty,
  as it is after the start), no sequence of frames is ever reported as a beep, whatever the audio.
\<close>

theorem avmd_blind_settings:
  assumes "lib_ok lib" and "fits s" and "beep_state s = BEEP_NOTDETECTED"
    and "\<And>d. d \<in> set (detectors s) \<Longrightarrow> result d = AVMD_DETECT_NONE \<and> thread_res d = AVMD_DETECT_NONE"
    and "sample_n_to_skip (a_settings s) \<noteq> 0 \<or> mode (a_settings s) = AVMD_DETECT_AMP \<and>
      (\<forall>d\<in>set (detectors s). sma_lpos lib (sma_b (buffer d)) < AVMD_BEEP_LEN (rate s) div resolution (buffer d))"
  shows "returns (avmd_frames E lib s frs h) (\<lambda>(s', h'). beep_state s' = BEEP_NOTDETECTED \<and>
    tally beep_delta h' = tally beep_delta h \<and> tally detect_delta h' = tally detect_delta h)"
proof -
  have blind: "blind_session lib s" using assms(3-5) by (auto simp: blind_session_def blind_def)
  obtain s' h' where run: "avmd_frames E lib s frs h = Some (s', h')"
    using frames_returns [OF assms(1,2), of E frs h] by (auto simp: returns_iff)
  from postD [OF blind_frames [OF blind] run] run show ?thesis
    by (auto simp: blind_session_def quiet_announce_def)
qed

lemma avmd_blind_settings_witness:
  "returns (avmd_frames sample_env sample_lib
     (sample_session (avmd_zero_settings\<lparr> detectors_n := 1 \<rparr>) [sample_detector AVMD_DETECT_NONE]) [replicate 160 0] [])
     (\<lambda>(s', h'). beep_state s' = BEEP_NOTDETECTED)"
  by (rule returns_mono [OF avmd_blind_settings [OF sample_lib_ok sample_fits]])
    (simp_all add: sample_session_def sample_detector_def sample_lib_def avmd_zero_settings_def avmd_init_buffer_def
      AVMD_BEEP_LEN_def prod.case_eq_if)

text \<open>
  C6. A session whose detectors were launched can be closed: after a successful launch every detector
  has its thread, waits for work and has no result, closing returns, and afterwards no thread is left.
\<close>

theorem avmd_launched_closes:
  assumes "lib_ok lib" and "fits s" and "avmd_launch_threads E s h = Some (SWITCH_STATUS_SUCCESS, s1, h1)"
  shows "(\<forall>d\<in>set (detectors s1). ready (pos s) d) \<and>
    returns (avmd_session_close lib s1 h2) (\<lambda>(s2, h3). \<forall>d\<in>set (detectors s2). \<not> thread d)"
proof -
  have s1: "same_setup s s1" "\<forall>d\<in>set (detectors s1). ready (pos s) d"
    using postD [OF launch_threads_ready assms(3)] assms(2) by (simp_all add: fits_def)
  then have "\<forall>d\<in>set (detectors s1). thread d" by (simp add: ready_def)
  then show ?thesis using s1 session_close_returns [OF assms(1) fits_same_setup [OF s1(1) assms(2)]] by blast
qed

lemma avmd_launched_closes_witness:
  "\<exists>s1 h1 r. avmd_launch_threads sample_env (sample_session (avmd_zero_settings\<lparr> detectors_n := 1 \<rparr>) [sample_detector AVMD_DETECT_NONE]) [] =
     Some (SWITCH_STATUS_SUCCESS, s1, h1) \<and> avmd_session_close sample_lib s1 h1 = Some r"
proof -
  let ?s = "sample_session (avmd_zero_settings\<lparr> detectors_n := 1 \<rparr>) [sample_detector AVMD_DETECT_NONE]"
  have "\<exists>s1 h1. avmd_launch_threads sample_env ?s [] = Some (SWITCH_STATUS_SUCCESS, s1, h1)"
    by (simp add: avmd_launch_threads_def sample_session_def avmd_zero_settings_def ask_defs sample_answers numeral_eq_Suc)
  then obtain s1 h1 where launch: "avmd_launch_threads sample_env ?s [] = Some (SWITCH_STATUS_SUCCESS, s1, h1)" by blast
  from avmd_launched_closes [OF sample_lib_ok sample_fits launch, of h1] launch show ?thesis by (auto simp: returns_iff)
qed

text \<open>
  A session that was set up and whose threads were not launched, as after the API command
  \<open>avmd <uuid> start\<close>, can not be closed when it has a detector: closing joins a thread that does
  not exist.
\<close>

theorem avmd_unlaunched_close_undefined:
  assumes "init_avmd_session_data E lib l d0 mutex s h = Some (SWITCH_STATUS_SUCCESS, s1, h1)"
    and "detector_total (a_settings s) \<noteq> 0"
  shows "avmd_session_close lib s1 h2 = None"
proof -
  have ds: "map idx (detectors s1) = map of_nat [0..<detector_total (a_settings s)]"
    "\<forall>d\<in>set (detectors s1). \<not> thread d"
    using postD [OF init_session_data_spec assms(1)] by simp_all
  have "length (detectors s1) = detector_total (a_settings s)"
    using arg_cong [OF ds(1), of length] by simp
  then obtain d where "d \<in> set (detectors s1)" using assms(2) by (cases "detectors s1") auto
  with ds(2) show ?thesis by (auto intro: session_close_undefined)
qed

lemma avmd_unlaunched_close_witness:
  "\<exists>s1 h1. init_avmd_session_data sample_env sample_lib Located (sample_detector AVMD_DETECT_NONE) False
     (sample_session (avmd_zero_settings\<lparr> detectors_n := 1 \<rparr>) []) [] = Some (SWITCH_STATUS_SUCCESS, s1, h1) \<and>
     avmd_session_close sample_lib s1 h1 = None"
proof -
  let ?s = "sample_session (avmd_zero_settings\<lparr> detectors_n := 1 \<rparr>) []"
  have "returns (init_avmd_session_data sample_env sample_lib Located (sample_detector AVMD_DETECT_NONE) False ?s [])
      (\<lambda>(st, s', h'). st = SWITCH_STATUS_SUCCESS)"
    by (auto simp: init_avmd_session_data_def init_avmd_session_body_def returns_simps ask_defs sample_answers
        AVMD_BEEP_LEN_def AVMD_SINE_LEN_def intro!: returns_mono [OF sample_init_detectors])
  then obtain s1 h1 where init: "init_avmd_session_data sample_env sample_lib Located (sample_detector AVMD_DETECT_NONE) False ?s [] =
      Some (SWITCH_STATUS_SUCCESS, s1, h1)"
    by (auto simp: returns_iff)
  then show ?thesis
    using avmd_unlaunched_close_undefined [OF init] by (auto simp: detector_total_def sample_session_def avmd_zero_settings_def)
qed

end
