(* ===== verification/AvmdApp.thy ===== *)
theory AvmdApp
  imports AvmdSession
begin

text \<open>
  The entry points of \<open>mod_avmd.new.c\<close>: the media bug callback, the applications
  \<open>avmd_start\<close>, \<open>avmd_stop\<close> and \<open>avmd\<close>, the API command \<open>avmd\<close>, module load and
  shutdown, and the handler of XML reloads.
\<close>

record avmd_globals =
  g_settings :: avmd_settings
  session_n :: nat

text \<open>What the core reads from \<open>avmd.conf\<close>: no document, or one whose settings may be missing.\<close>

type_synonym avmd_xml = "(string option \<times> string option) list option option"

text \<open>\<open>switch_core_session_get_channel(s) != NULL\<close>.\<close>

definition has_channel :: "avmd_env \<Rightarrow> leg \<Rightarrow> avmd_trace \<Rightarrow> (bool \<times> avmd_trace) option" where
  "has_channel E l h = ask_bool E (Sess l (Get_codec ''channel'')) h"

section \<open>The media bug callback\<close>

text \<open>The rate of a codec of the session, 8000 when it or its implementation is missing.\<close>

definition codec_rate :: "avmd_env \<Rightarrow> string \<Rightarrow> avmd_trace \<Rightarrow> (nat \<times> avmd_trace) option" where
  "codec_rate E which h = do {
     (codec, h) \<leftarrow> ask_ptr E (Sess Caller (Get_codec which)) h;
     if codec = None then Some (8000, h)
     else do {
       (impl, h) \<leftarrow> ask_ptr E (Sess Caller (Get_codec ''implementation'')) h;
       if impl = None then Some (8000, h)
       else do {
         (r, h) \<leftarrow> ask_int E (Sess Caller (Get_codec ''samples_per_second'')) h;
         Some (nat r, h)
       }
     }
   }"

definition avmd_callback_init ::
  "avmd_env \<Rightarrow> ('sma, 'circ) avmd_session \<Rightarrow> avmd_trace \<Rightarrow> (('sma, 'circ) avmd_session \<times> avmd_trace) option" where
  "avmd_callback_init E s h = do {
     (out, h) \<leftarrow> ask_bool E (Chan Caller Is_outbound) h;
     (s, h) \<leftarrow> (if out \<and> outbound_channnel (a_settings s) = 1
       then do { (r, h) \<leftarrow> codec_rate E ''read'' h; Some (s\<lparr> rate := r \<rparr>, h) } else Some (s, h));
     (inb, h) \<leftarrow> ask_bool E (Chan Caller Is_inbound) h;
     (s, h) \<leftarrow> (if inb \<and> inbound_channnel (a_settings s) = 1
       then do { (r, h) \<leftarrow> codec_rate E ''write'' h; Some (s\<lparr> rate := r \<rparr>, h) } else Some (s, h));
     (t, h) \<leftarrow> ask_int E Time_now h;
     Some (s\<lparr> start_time := t \<rparr>, h)
   }"

text \<open>Closing: the session ends and the count of sessions goes down, never below zero.\<close>

definition avmd_callback_close ::
  "('sma, 'circ) avmd_lib \<Rightarrow> ('sma, 'circ) avmd_session \<Rightarrow> avmd_globals \<Rightarrow> avmd_trace \<Rightarrow>
   (('sma, 'circ) avmd_session \<times> avmd_globals \<times> avmd_trace) option" where
  "avmd_callback_close lib s g h = do {
     (s, h) \<leftarrow> avmd_session_close lib s h;
     h \<leftarrow> exec (Sync (Lock ''globals'')) h;
     let g = (if 0 < session_n g then g\<lparr> session_n := session_n g - 1 \<rparr> else g);
     h \<leftarrow> exec (Sync (Unlock ''globals'')) h;
     Some (s, g, h)
   }"

definition avmd_callback ::
  "avmd_env \<Rightarrow> ('sma, 'circ) avmd_lib \<Rightarrow> ('sma, 'circ) avmd_session option \<Rightarrow> avmd_globals \<Rightarrow> abc_type \<Rightarrow> int list \<Rightarrow>
   avmd_trace \<Rightarrow> (bool \<times> ('sma, 'circ) avmd_session option \<times> avmd_globals \<times> avmd_trace) option" where
  "avmd_callback E lib user_data g type frame h = (case user_data of
     None \<Rightarrow> Some (False, None, g, h)
   | Some s \<Rightarrow> do {
       h \<leftarrow> (if type \<noteq> ABC_INIT \<and> type \<noteq> ABC_CLOSE then exec (Sync (Lock ''session'')) h else Some h);
       if \<not> has_session s then do {
         h \<leftarrow> (if type \<noteq> ABC_INIT then exec (Sync (Unlock ''session'')) h else Some h);
         Some (False, Some s, g, h) }
       else do {
         (chan, h) \<leftarrow> has_channel E Caller h;
         if \<not> chan then Some (False, Some s, g, h)
         else do {
           (s, g, h) \<leftarrow> (case type of
               ABC_INIT \<Rightarrow> do { (s, h) \<leftarrow> avmd_callback_init E s h; Some (s, g, h) }
             | ABC_READ_REPLACE \<Rightarrow> do { (s, h) \<leftarrow> avmd_process E lib s frame h; Some (s, g, h) }
             | ABC_WRITE_REPLACE \<Rightarrow> do { (s, h) \<leftarrow> avmd_process E lib s frame h; Some (s, g, h) }
             | ABC_CLOSE \<Rightarrow> avmd_callback_close lib s g h
             | _ \<Rightarrow> Some (s, g, h));
           h \<leftarrow> (if type \<noteq> ABC_INIT \<and> type \<noteq> ABC_CLOSE then exec (Sync (Unlock ''session'')) h else Some h);
           Some (True, Some s, g, h)
         }
       }
     })"

section \<open>The applications\<close>

text \<open>The flags of the bug: each direction has its own switch in the settings.\<close>

definition avmd_flags :: "avmd_env \<Rightarrow> leg \<Rightarrow> avmd_settings \<Rightarrow> avmd_trace \<Rightarrow> (bug_flag list \<times> avmd_trace) option" where
  "avmd_flags E l st h = do {
     (out, h) \<leftarrow> ask_bool E (Chan l Is_outbound) h;
     let flags = (if out \<and> outbound_channnel st = 1 then [SMBF_READ_REPLACE] else []);
     (inb, h) \<leftarrow> ask_bool E (Chan l Is_inbound) h;
     Some (if inb \<and> inbound_channnel st = 1 then flags @ [SMBF_WRITE_REPLACE] else flags, h)
   }"

text \<open>The test that an outbound channel has media.\<close>

definition avmd_media_set :: "avmd_env \<Rightarrow> leg \<Rightarrow> avmd_settings \<Rightarrow> avmd_trace \<Rightarrow> (bool \<times> avmd_trace) option" where
  "avmd_media_set E l st h = do {
     (out, h) \<leftarrow> ask_bool E (Chan l Is_outbound) h;
     if out \<and> outbound_channnel st = 1 then ask_bool E (Chan l (Test_flag ''CF_MEDIA_SET'')) h else Some (True, h)
   }"

text \<open>
  From the launch of the threads to the event, under the mutex of the session. The first component
  tells whether the mutex is still held.
\<close>

definition avmd_start_bug ::
  "avmd_env \<Rightarrow> ('sma, 'circ) avmd_lib \<Rightarrow> bug_flag list \<Rightarrow> ('sma, 'circ) avmd_session \<Rightarrow> avmd_globals \<Rightarrow> avmd_trace \<Rightarrow>
   (bool \<times> ('sma, 'circ) avmd_session \<times> avmd_globals \<times> avmd_trace) option" where
  "avmd_start_bug E lib flags s g h = do {
     (st, s, h) \<leftarrow> avmd_launch_threads E s h;
     if st \<noteq> SWITCH_STATUS_SUCCESS then do {
       (s, h) \<leftarrow> avmd_join_threads s h;
       Some (True, s, g, h) }
     else do {
       (st, h) \<leftarrow> ask_status E (Bug (Bug_add ''avmd'' flags)) h;
       if st \<noteq> SWITCH_STATUS_SUCCESS then do {
         h \<leftarrow> exec (Sync (Unlock ''session'')) h;
         (s, h) \<leftarrow> avmd_session_close lib s h;
         Some (False, s, g, h) }
       else do {
         h \<leftarrow> exec (Sync (Lock ''globals'')) h;
         let g = g\<lparr> session_n := session_n g + 1 \<rparr>;
         h \<leftarrow> exec (Sync (Unlock ''globals'')) h;
         (bug, h) \<leftarrow> ask_ptr E (Bug Bug_handle) h;
         h \<leftarrow> exec (Chan Caller (Set_private ''_avmd_'' bug)) h;
         h \<leftarrow> avmd_fire_event E AVMD_EVENT_SESSION_START (fire_zero\<lparr> fa_start := start_time s \<rparr>) h;
         Some (True, s, g, h)
       }
     }
   }"

text \<open>\<open>s0\<close> and \<open>d0\<close> are the contents of the fresh blocks of the session and of the detectors.\<close>

definition avmd_start_app ::
  "avmd_env \<Rightarrow> ('sma, 'circ) avmd_lib \<Rightarrow> 'sma avmd_detector \<Rightarrow> ('sma, 'circ) avmd_session \<Rightarrow> avmd_globals \<Rightarrow>
   string option \<Rightarrow> avmd_trace \<Rightarrow> (('sma, 'circ) avmd_session option \<times> avmd_globals \<times> avmd_trace) option" where
  "avmd_start_app E lib d0 s0 g data h = do {
     (chan, h) \<leftarrow> has_channel E Caller h;
     if \<not> chan then Some (None, g, h)
     else do {
       (bug, h) \<leftarrow> ask_ptr E (Chan Caller (Get_private ''_avmd_'')) h;
       if bug \<noteq> None then Some (None, g, h)
       else do {
         (ok, h) \<leftarrow> ask_bool E (Sess Caller Alloc) h;
         if \<not> ok then Some (None, g, h)
         else do {
           (st, settings, h) \<leftarrow> avmd_parse_cmd_data E (g_settings g) (a_settings s0) data AVMD_APP_START_APP h;
           let s = s0\<lparr> has_session := True, a_settings := settings \<rparr>;
           if st \<noteq> SWITCH_STATUS_SUCCESS then Some (Some s, g, h)
           else do {
             (st, s, h) \<leftarrow> init_avmd_session_data E lib Caller d0 True s h;
             if st \<noteq> SWITCH_STATUS_SUCCESS then Some (Some s, g, h)
             else do {
               h \<leftarrow> exec (Sync (Lock ''session'')) h;
               (flags, h) \<leftarrow> avmd_flags E Caller (a_settings s) h;
               (media, h) \<leftarrow> (if flags = [] then Some (False, h) else avmd_media_set E Caller (a_settings s) h);
               (held, s, g, h) \<leftarrow> (if media then avmd_start_bug E lib flags s g h else Some (True, s, g, h));
               h \<leftarrow> (if held then exec (Sync (Unlock ''session'')) h else Some h);
               Some (Some s, g, h)
             }
           }
         }
       }
     }
   }"

text \<open>\<open>user_data\<close> is the session object of the bug.\<close>

definition avmd_stop_app ::
  "avmd_env \<Rightarrow> ('sma, 'circ) avmd_session option \<Rightarrow> avmd_trace \<Rightarrow> (('sma, 'circ) avmd_session option \<times> avmd_trace) option" where
  "avmd_stop_app E user_data h = do {
     (chan, h) \<leftarrow> has_channel E Caller h;
     if \<not> chan then Some (user_data, h)
     else do {
       (bug, h) \<leftarrow> ask_ptr E (Chan Caller (Get_private ''_avmd_'')) h;
       if bug = None then Some (user_data, h)
       else do {
         (user_data, h) \<leftarrow> (case user_data of
             None \<Rightarrow> Some (None, h)
           | Some s \<Rightarrow> do {
               h \<leftarrow> exec (Sync (Lock ''session'')) h;
               (t, h) \<leftarrow> ask_int E Time_now h;
               let s = s\<lparr> stop_time := t \<rparr>;
               h \<leftarrow> exec (Sync (Unlock ''session'')) h;
               h \<leftarrow> avmd_fire_event E AVMD_EVENT_SESSION_STOP
                 (fire_zero\<lparr> fa_beep := beep_state s, fa_info := 1, fa_start := start_time s, fa_stop := stop_time s \<rparr>) h;
               Some (Some s, h) });
         h \<leftarrow> exec (Chan Caller (Set_private ''_avmd_'' None)) h;
         h \<leftarrow> exec (Bug Bug_remove) h;
         Some (user_data, h)
       }
     }
   }"

definition avmd_start_function ::
  "avmd_env \<Rightarrow> ('sma, 'circ) avmd_lib \<Rightarrow> 'sma avmd_detector \<Rightarrow> ('sma, 'circ) avmd_session \<Rightarrow> avmd_globals \<Rightarrow>
   string option \<Rightarrow> avmd_trace \<Rightarrow> (('sma, 'circ) avmd_session option \<times> avmd_globals \<times> avmd_trace) option" where
  "avmd_start_function E lib d0 s0 g data h = do {
     (bug, h) \<leftarrow> ask_ptr E (Chan Caller (Get_private ''_avmd_'')) h;
     if bug \<noteq> None then do {
       d \<leftarrow> deref data;
       if strcaseeq d ''stop'' then do {
         h \<leftarrow> exec (Chan Caller (Set_private ''_avmd_'' None)) h;
         h \<leftarrow> exec (Bug Bug_remove) h;
         Some (None, g, h) }
       else Some (None, g, h)
     } else avmd_start_app E lib d0 s0 g None h
   }"

section \<open>The API command\<close>

definition AVMD_SYNTAX :: string where
  "AVMD_SYNTAX = ''<uuid> < start | stop | set [inbound|outbound|default] | load [inbound|outbound] | reload | show >''"

definition usage_line :: string where "usage_line = ''-USAGE: '' @ AVMD_SYNTAX @ nl @ nl"

definition say :: "string list \<Rightarrow> avmd_trace \<Rightarrow> avmd_trace option" where
  "say parts h = exec (Stream_write (concat parts)) h"

text \<open>A reply that is only written when status reports are on.\<close>

definition say_if :: "avmd_globals \<Rightarrow> string list \<Rightarrow> avmd_trace \<Rightarrow> avmd_trace option" where
  "say_if g parts h = (if report_status (g_settings g) = 1 then say parts h else Some h)"

definition reporting :: "avmd_globals \<Rightarrow> bool" where
  "reporting g \<longleftrightarrow> report_status (g_settings g) = 1"

definition str_or_null :: "string option \<Rightarrow> string" where
  "str_or_null s = (case s of Some t \<Rightarrow> t | None \<Rightarrow> ''(null)'')"

definition api_load ::
  "avmd_env \<Rightarrow> avmd_xml \<Rightarrow> string list \<Rightarrow> avmd_globals \<Rightarrow> avmd_trace \<Rightarrow> (avmd_globals \<times> avmd_trace) option" where
  "api_load E xml argv g h =
     (if length argv \<noteq> 2 then do { h \<leftarrow> say [''-ERR, load command takes 1 parameter!'', nl, usage_line] h; Some (g, h) }
      else if strcaseeq (argv ! 1) ''inbound'' then do {
        s \<leftarrow> avmd_load_xml_inbound_configuration E xml (g_settings g);
        let g = g\<lparr> g_settings := s \<rparr>;
        h \<leftarrow> say_if g [''+OK'', nl, '' inbound XML configuration loaded'', nl, nl] h;
        Some (g, h) }
      else if strcaseeq (argv ! 1) ''outbound'' then do {
        s \<leftarrow> avmd_load_xml_outbound_configuration E xml (g_settings g);
        let g = g\<lparr> g_settings := s \<rparr>;
        h \<leftarrow> say_if g [''+OK'', nl, '' outbound XML configuration loaded'', nl, nl] h;
        Some (g, h) }
      else do { h \<leftarrow> say [''-ERR, load command: bad syntax!'', nl, usage_line] h; Some (g, h) })"

definition api_set ::
  "string list \<Rightarrow> avmd_globals \<Rightarrow> avmd_trace \<Rightarrow> (avmd_globals \<times> avmd_trace) option" where
  "api_set argv g h =
     (if length argv \<noteq> 2 then do { h \<leftarrow> say [''-ERR, set command takes 1 parameter!'', nl, usage_line] h; Some (g, h) }
      else if strcaseeq (argv ! 1) ''inbound'' then do {
        let g = g\<lparr> g_settings := avmd_set_xml_inbound_configuration (g_settings g) \<rparr>;
        h \<leftarrow> say_if g [''+OK'', nl, '' inbound XML configuration loaded'', nl, nl] h;
        Some (g, h) }
      else if strcaseeq (argv ! 1) ''outbound'' then do {
        let g = g\<lparr> g_settings := avmd_set_xml_outbound_configuration (g_settings g) \<rparr>;
        h \<leftarrow> say_if g [''+OK'', nl, '' outbound XML configuration loaded'', nl, nl] h;
        Some (g, h) }
      else if strcaseeq (argv ! 1) ''default'' then do {
        let g = g\<lparr> g_settings := avmd_set_xml_default_configuration (g_settings g) \<rparr>;
        h \<leftarrow> say_if g [''+OK'', nl, '' reset to factory settings'', nl, nl] h;
        Some (g, h) }
      else do { h \<leftarrow> say [''-ERR, set command: bad syntax!'', nl, usage_line] h; Some (g, h) })"

text \<open>
  The commands on the module: reload, load, set and show. The first component tells whether the
  command was one of them and is done; a reload with reports off falls through.
\<close>

definition api_module ::
  "avmd_env \<Rightarrow> avmd_xml \<Rightarrow> string list \<Rightarrow> avmd_globals \<Rightarrow> avmd_trace \<Rightarrow> (bool \<times> avmd_globals \<times> avmd_trace) option" where
  "api_module E xml argv g h = do {
     let command = argv ! 0;
     (ended, g, h) \<leftarrow> (if strcaseeq command ''reload'' then do {
         s \<leftarrow> avmd_load_xml_configuration E xml (g_settings g);
         let g = g\<lparr> g_settings := s \<rparr>;
         h \<leftarrow> say_if g [''+OK'', nl, '' XML reloaded'', nl, nl] h;
         Some (reporting g, g, h) }
       else Some (False, g, h));
     if ended then Some (True, g, h)
     else if strcaseeq command ''load'' then do { (g, h) \<leftarrow> api_load E xml argv g h; Some (True, g, h) }
     else if strcaseeq command ''set'' then do { (g, h) \<leftarrow> api_set argv g h; Some (True, g, h) }
     else if strcaseeq command ''show'' then do {
       h \<leftarrow> avmd_show (g_settings g) (session_n g) h;
       h \<leftarrow> say_if g [''+OK'', nl, '' show'', nl, nl] h;
       Some (True, g, h) }
     else Some (False, g, h)
   }"

text \<open>\<open>avmd <uuid> stop\<close> on a channel with a bug; \<open>user_data\<close> is its session object.\<close>

definition api_stop ::
  "avmd_env \<Rightarrow> ('sma, 'circ) avmd_session option \<Rightarrow> string \<Rightarrow> avmd_globals \<Rightarrow> avmd_trace \<Rightarrow> avmd_trace option" where
  "api_stop E user_data uuid g h = (case user_data of
     None \<Rightarrow> Some h
   | Some s \<Rightarrow> do {
       h \<leftarrow> exec (Chan Located (Set_private ''_avmd_'' None)) h;
       h \<leftarrow> exec (Bug Bug_remove) h;
       h \<leftarrow> avmd_fire_event E AVMD_EVENT_SESSION_STOP (fire_zero\<lparr> fa_start := start_time s, fa_stop := stop_time s \<rparr>) h;
       (name, h) \<leftarrow> ask_str E (Glue Channel_name) h;
       say_if g [''+OK'', nl, '' ['', uuid, ''] ['', str_or_null name, ''] stopped'', nl, nl] h })"

definition init_error :: "switch_status \<Rightarrow> string" where
  "init_error st = (if st = SWITCH_STATUS_MEMERR then ''-ERR, buffer error''
     else if st = SWITCH_STATUS_MORE_DATA then ''-ERR, SMA buffer size is 0''
     else if st = SWITCH_STATUS_FALSE then ''-ERR, SMA buffer error'' else ''-ERR, unknown error'')"

text \<open>
  \<open>avmd <uuid> start\<close>: unlike the application it neither copies the settings into the session
  nor launches threads nor counts the session. A block that could not be allocated is dereferenced.
\<close>

definition api_start ::
  "avmd_env \<Rightarrow> ('sma, 'circ) avmd_lib \<Rightarrow> 'sma avmd_detector \<Rightarrow> ('sma, 'circ) avmd_session \<Rightarrow> string \<Rightarrow> bug_flag list \<Rightarrow>
   avmd_globals \<Rightarrow> avmd_trace \<Rightarrow> (switch_status \<times> ('sma, 'circ) avmd_session option \<times> avmd_trace) option" where
  "api_start E lib d0 s0 uuid flags g h = do {
     (ok, h) \<leftarrow> ask_bool E (Sess Located Alloc) h;
     if \<not> ok then None
     else do {
       (st, s, h) \<leftarrow> init_avmd_session_data E lib Located d0 False s0 h;
       if st \<noteq> SWITCH_STATUS_SUCCESS then do {
         h \<leftarrow> say [''-ERR, failed to initialize avmd session'', nl, '' for FreeSWITCH session ['', uuid, '']'', nl] h;
         h \<leftarrow> say [init_error st, nl, nl] h;
         Some (st, Some s, h) }
       else do {
         (st, h) \<leftarrow> ask_status E (Bug (Bug_add ''avmd'' flags)) h;
         if st \<noteq> SWITCH_STATUS_SUCCESS then do {
           h \<leftarrow> say [''-ERR, ['', uuid, ''] failed to add media bug!'', nl, nl] h;
           Some (st, Some s, h) }
         else do {
           (bug, h) \<leftarrow> ask_ptr E (Bug Bug_handle) h;
           h \<leftarrow> exec (Chan Located (Set_private ''_avmd_'' bug)) h;
           h \<leftarrow> avmd_fire_event E AVMD_EVENT_SESSION_START (fire_zero\<lparr> fa_start := start_time s \<rparr>) h;
           (name, h) \<leftarrow> ask_str E (Glue Channel_name) h;
           h \<leftarrow> say_if g [''+OK'', nl, '' ['', uuid, ''] ['', str_or_null name, ''] started!'', nl, nl] h;
           Some (SWITCH_STATUS_SUCCESS, Some s, h)
         }
       }
     }
   }"

text \<open>The commands on a located session, to the label \<open>end\<close>: the status and the new session object.\<close>

definition api_session ::
  "avmd_env \<Rightarrow> ('sma, 'circ) avmd_lib \<Rightarrow> 'sma avmd_detector \<Rightarrow> ('sma, 'circ) avmd_session \<Rightarrow>
   ('sma, 'circ) avmd_session option \<Rightarrow> string \<Rightarrow> string option \<Rightarrow> avmd_globals \<Rightarrow> avmd_trace \<Rightarrow>
   (switch_status \<times> ('sma, 'circ) avmd_session option \<times> avmd_trace) option" where
  "api_session E lib d0 s0 user_data uuid command g h = do {
     (bug, h) \<leftarrow> ask_ptr E (Chan Located (Get_private ''_avmd_'')) h;
     cmd \<leftarrow> deref command;
     if bug \<noteq> None then
       (if strcaseeq cmd ''stop'' then do { h \<leftarrow> api_stop E user_data uuid g h; Some (SWITCH_STATUS_SUCCESS, user_data, h) }
        else do {
          h \<leftarrow> say_if g [''-ERR, avmd for FreeSWITCH session ['', uuid, '']'', nl, '' already started'', nl, nl] h;
          Some (SWITCH_STATUS_SUCCESS, user_data, h) })
     else if strcaseeq cmd ''stop'' then do {
       (name, h) \<leftarrow> ask_str E (Glue Channel_name) h;
       h \<leftarrow> say [''+ERR, avmd has not yet been started on'', nl, '' ['', uuid, ''] ['', str_or_null name, '']'', nl, nl] h;
       Some (SWITCH_STATUS_SUCCESS, user_data, h) }
     else do {
       (flags, h) \<leftarrow> avmd_flags E Located (g_settings g) h;
       if flags = [] then do {
         (name, h) \<leftarrow> ask_str E (Glue Channel_name) h;
         h \<leftarrow> say [''-ERR, can'', [CHR 0x27], ''t set direction for channel ['', str_or_null name, '']'', nl,
                 '' for FreeSWITCH session ['', uuid, '']. Please check avmd configuration'', nl, nl] h;
         Some (SWITCH_STATUS_FALSE, user_data, h) }
       else do {
         (media, h) \<leftarrow> avmd_media_set E Located (g_settings g) h;
         if \<not> media then do {
           (name, h) \<leftarrow> ask_str E (Glue Channel_name) h;
           h \<leftarrow> say [''-ERR, channel ['', str_or_null name, ''] for FreeSWITCH session ['', uuid, '']'', nl,
                   '' has no read codec assigned yet. Please try again.'', nl, nl] h;
           Some (SWITCH_STATUS_FALSE, user_data, h) }
         else if \<not> strcaseeq cmd ''start'' then do {
           h \<leftarrow> say [''-ERR, did you mean'', nl, '' api avmd '', uuid, '' start ?'', nl, usage_line] h;
           Some (SWITCH_STATUS_SUCCESS, user_data, h) }
         else api_start E lib d0 s0 uuid flags g h
       }
     }
   }"

definition avmd_api_locate ::
  "avmd_env \<Rightarrow> ('sma, 'circ) avmd_lib \<Rightarrow> 'sma avmd_detector \<Rightarrow> ('sma, 'circ) avmd_session \<Rightarrow>
   ('sma, 'circ) avmd_session option \<Rightarrow> string list \<Rightarrow> avmd_globals \<Rightarrow> avmd_trace \<Rightarrow>
   (('sma, 'circ) avmd_session option \<times> avmd_trace) option" where
  "avmd_api_locate E lib d0 s0 user_data argv g h = do {
     let uuid = argv ! 0;
     let command = zero_filled 3 argv ! 1;
     (found, h) \<leftarrow> ask_bool E (Sess Located (Locate (Some uuid))) h;
     if \<not> found then do {
       h \<leftarrow> say [''-ERR, no FreeSWITCH session for uuid ['', uuid, '']!'', nl, usage_line] h;
       Some (user_data, h) }
     else do {
       (chan, h) \<leftarrow> has_channel E Located h;
       (st, user_data, h) \<leftarrow> (if \<not> chan then do {
           h \<leftarrow> say [''-ERR, no channel for FreeSWITCH session ['', uuid, '']!'', nl, '' Please report this to the developers'', nl, nl] h;
           Some (SWITCH_STATUS_SUCCESS, user_data, h) }
         else api_session E lib d0 s0 user_data uuid command g h);
       h \<leftarrow> (if st \<noteq> SWITCH_STATUS_SUCCESS then do {
           (name, h) \<leftarrow> ask_str E (Glue Channel_name) h;
           say_if g [''+ERR'', nl, '' ['', uuid, ''] ['', str_or_null name, ''] NOT started!'', nl, nl] h }
         else Some h);
       h \<leftarrow> exec (Sess Located Rwunlock) h;
       Some (user_data, h)
     }
   }"

definition avmd_api_main ::
  "avmd_env \<Rightarrow> ('sma, 'circ) avmd_lib \<Rightarrow> 'sma avmd_detector \<Rightarrow> ('sma, 'circ) avmd_session \<Rightarrow>
   ('sma, 'circ) avmd_session option \<Rightarrow> avmd_xml \<Rightarrow> avmd_globals \<Rightarrow> string option \<Rightarrow> avmd_trace \<Rightarrow>
   (('sma, 'circ) avmd_session option \<times> avmd_globals \<times> avmd_trace) option" where
  "avmd_api_main E lib d0 s0 user_data xml g cmd h = do {
     h \<leftarrow> exec (Sync (Lock ''globals'')) h;
     (user_data, g, h) \<leftarrow> (if zstr E cmd then do {
         h \<leftarrow> say [''-ERR, bad command!'', nl, usage_line] h; Some (user_data, g, h) }
       else do {
         (ok, h) \<leftarrow> ask_bool E (Mem ''strdup'') h;
         if \<not> ok then None
         else do {
           c \<leftarrow> deref cmd;
           let argv = separate E c CHR '' '' 3;
           if argv = [] then do {
             h \<leftarrow> say [''-ERR, avmd takes [1] min and [2] max parameters!'', nl, usage_line] h; Some (user_data, g, h) }
           else do {
             (ended, g, h) \<leftarrow> api_module E xml argv g h;
             if ended then Some (user_data, g, h)
             else do { (user_data, h) \<leftarrow> avmd_api_locate E lib d0 s0 user_data argv g h; Some (user_data, g, h) }
           }
         } });
     h \<leftarrow> exec (Sync (Unlock ''globals'')) h;
     Some (user_data, g, h)
   }"

section \<open>Load, shutdown and reload\<close>

definition avmd_globals_zero :: avmd_globals where
  "avmd_globals_zero = \<lparr> g_settings = avmd_zero_settings, session_n = 0 \<rparr>"

text \<open>\<open>pool\<close> tells whether a memory pool was passed in.\<close>

definition mod_avmd_load ::
  "avmd_env \<Rightarrow> bool \<Rightarrow> avmd_xml \<Rightarrow> avmd_globals \<Rightarrow> avmd_trace \<Rightarrow> (switch_status \<times> avmd_globals \<times> avmd_trace) option" where
  "mod_avmd_load E pool xml g h = do {
     (st, h) \<leftarrow> avmd_register_all_events E h;
     if st \<noteq> SWITCH_STATUS_SUCCESS then Some (SWITCH_STATUS_TERM, g, h)
     else do {
       let g = avmd_globals_zero;
       if \<not> pool then Some (SWITCH_STATUS_TERM, g, h)
       else do {
         h \<leftarrow> exec (Sync (Mutex_init ''globals'')) h;
         s \<leftarrow> avmd_load_xml_configuration E xml (g_settings g);
         let g = g\<lparr> g_settings := s \<rparr>;
         (_, h) \<leftarrow> ask_status E (Event (Bind ''RELOADXML'')) h;
         if fast_math (g_settings g) = 1 then do {
           (ret, h) \<leftarrow> ask_int E (Glue Init_fast_acosf) h;
           Some (if ret \<noteq> 0 then SWITCH_STATUS_TERM else SWITCH_STATUS_SUCCESS, g, h) }
         else Some (SWITCH_STATUS_SUCCESS, g, h)
       }
     }
   }"

definition mod_avmd_shutdown :: "avmd_env \<Rightarrow> avmd_globals \<Rightarrow> avmd_trace \<Rightarrow> (switch_status \<times> avmd_trace) option" where
  "mod_avmd_shutdown E g h = do {
     h \<leftarrow> exec (Sync (Lock ''globals'')) h;
     h \<leftarrow> (if 0 < session_n g then exec (Sync (Unlock ''globals'')) h else Some h);
     h \<leftarrow> avmd_unregister_all_events h;
     h \<leftarrow> (if fast_math (g_settings g) = 1 then do { (_, h) \<leftarrow> ask_int E (Glue Destroy_fast_acosf) h; Some h } else Some h);
     h \<leftarrow> exec (Event (Unbind ''RELOADXML'')) h;
     h \<leftarrow> exec (Sync (Unlock ''globals'')) h;
     h \<leftarrow> exec (Sync (Mutex_destroy ''globals'')) h;
     Some (SWITCH_STATUS_SUCCESS, h)
   }"

definition avmd_reloadxml_event_handler ::
  "avmd_env \<Rightarrow> avmd_xml \<Rightarrow> avmd_globals \<Rightarrow> avmd_trace \<Rightarrow> (avmd_globals \<times> avmd_trace) option" where
  "avmd_reloadxml_event_handler E xml g h = do {
     h \<leftarrow> exec (Sync (Lock ''globals'')) h;
     s \<leftarrow> avmd_load_xml_configuration E xml (g_settings g);
     h \<leftarrow> exec (Sync (Unlock ''globals'')) h;
     Some (g\<lparr> g_settings := s \<rparr>, h)
   }"

end
