(* ===== verification/AvmdLocks.thy ===== *)
theory AvmdLocks
  imports AvmdApp
begin

text \<open>
  The mutexes of \<open>mod_avmd.new.c\<close>: which functions release every mutex they take, and the paths
  that do not; the read lock of the API command; the counts of sessions, media bugs and event
  subclasses.
\<close>

section \<open>Mutex balance\<close>

definition mutex_delta :: "string \<Rightarrow> 'x call \<times> answer \<Rightarrow> int" where
  "mutex_delta m e = (case fst e of
     Sync op \<Rightarrow> (case op of Lock n \<Rightarrow> if n = m then 1 else 0 | Unlock n \<Rightarrow> if n = m then -1 else 0 | _ \<Rightarrow> 0)
   | _ \<Rightarrow> 0)"

lemma mutex_delta_simps [simp]:
  "mutex_delta m (Sync (Lock n), a) = (if n = m then 1 else 0)"
  "mutex_delta m (Sync (Unlock n), a) = (if n = m then -1 else 0)"
  "mutex_delta m (Sync (Mutex_init n), a) = 0" "mutex_delta m (Sync (Mutex_destroy n), a) = 0"
  "mutex_delta m (Sync (Cond_create n), a) = 0" "mutex_delta m (Sync (Cond_signal n), a) = 0"
  "mutex_delta m (Sync (Cond_destroy n), a) = 0" "mutex_delta m (Sync (Thread_create i), a) = 0"
  "mutex_delta m (Sync (Thread_join i), a) = 0"
  "mutex_delta m (Chan l co, a) = 0" "mutex_delta m (Sess l so, a) = 0" "mutex_delta m (Event ev, a) = 0"
  "mutex_delta m (Bug b, a) = 0" "mutex_delta m (Ivr io, a) = 0" "mutex_delta m (Glue g, a) = 0"
  "mutex_delta m (Stream_write t, a) = 0" "mutex_delta m (Time_now, a) = 0" "mutex_delta m (Mem t, a) = 0"
  by (simp_all add: mutex_delta_def)

text \<open>Calls of a run that count for a tally: sessions located and released, bugs, mutexes.\<close>

definition locks :: "string \<Rightarrow> avmd_trace \<Rightarrow> int" where
  "locks m h = tally (mutex_delta m) h"

lemma locks_append [simp]: "locks m (h @ t) = locks m h + tally (mutex_delta m) t"
  by (simp add: locks_def)

definition balanced :: "avmd_trace \<Rightarrow> avmd_trace \<Rightarrow> bool" where
  "balanced h h' \<longleftrightarrow> (\<forall>m. locks m h' = locks m h)"

lemma balanced_refl [simp]: "balanced h h"
  by (simp add: balanced_def)

lemma num_header_balanced: "post (num_header n t h) (balanced h)"
  by (auto simp: num_header_def run_simps balanced_def intro!: post_intros)

lemma event_headers_balanced: "post (avmd_event_headers type a h) (balanced h)"
  by (cases type)
    (auto simp: avmd_event_headers_def run_simps balanced_def intro!: post_intros post_mono [OF num_header_balanced])

lemma fire_event_balanced: "post (avmd_fire_event E type a h) (balanced h)"
  by (auto simp: avmd_fire_event_def run_simps balanced_def intro!: post_intros post_mono [OF event_headers_balanced])

lemma wait_locks: "post (avmd_wait_done lib s h) (\<lambda>(s', h'). \<forall>m. locks m h' = locks m h + (if m = ''detectors_done'' then 1 else 0))"
  by (rule post_mono [OF avmd_wait_done_frame]) auto

lemma report_balanced: "post (avmd_report_detection E lib s m d h) (\<lambda>(s', h'). balanced h h')"
  by (auto simp: avmd_report_detection_def run_simps balanced_def intro!: post_intros post_mono [OF fire_event_balanced])

lemma detection_result_balanced: "post (avmd_detection_result E lib s h) (\<lambda>(m, s', h'). balanced h h')"
  by (auto simp: avmd_detection_result_def run_simps balanced_def
      intro!: postI [of "first_result_from _ _ _"] postI [of "arr _ _"] post_mono [OF report_balanced] split: option.split)

lemma start_timer_balanced: "post (start_detection_timer E s h) (\<lambda>(s', h'). balanced h h')"
  by (auto simp: start_detection_timer_def run_simps balanced_def intro!: post_intros)

lemma process_balanced: "post (avmd_process E lib s frame h) (\<lambda>(s', h'). balanced h h')"
proof -
  have frame: "post (avmd_process_frame E lib s1 frame h1) (\<lambda>(s', h'). balanced h1 h')" for s1 h1
    by (auto simp: avmd_process_frame_def run_simps balanced_def
        intro!: post_intros post_mono [OF start_timer_balanced] postI [of "hand_out_from _ _ _ _"] post_mono [OF wait_locks]
          post_mono [OF detection_result_balanced])
  show ?thesis
    by (auto simp: avmd_process_def run_simps balanced_def intro!: post_intros post_mono [OF wait_locks] post_mono [OF frame])
qed

lemma close_all_balanced: "post (avmd_close_all i ds h) (\<lambda>(ds', h'). balanced h h')"
proof (induction ds arbitrary: i h)
  case (Cons d ds)
  show ?case by (auto simp: run_simps balanced_def intro!: post_intros post_mono [OF Cons.IH])
qed simp

lemma session_close_balanced: "post (avmd_session_close lib s h) (\<lambda>(s', h'). balanced h h')"
  by (auto simp: avmd_session_close_def run_simps balanced_def
      intro!: post_intros post_mono [OF wait_locks] post_mono [OF close_all_balanced])

lemma join_all_balanced: "post (avmd_join_all i ds h) (\<lambda>(ds', h'). balanced h h')"
proof (induction ds arbitrary: i h)
  case (Cons d ds)
  show ?case by (auto simp: run_simps balanced_def intro!: post_intros post_mono [OF Cons.IH])
qed simp

lemma join_threads_balanced: "post (avmd_join_threads s h) (\<lambda>(s', h'). balanced h h')"
  by (auto simp: avmd_join_threads_def run_simps intro!: post_mono [OF join_all_balanced])

lemma launch_from_balanced: "post (avmd_launch_from E b p base i n ds h) (\<lambda>(st, ds', h'). balanced h h')"
proof (induction n arbitrary: i ds h b)
  case (Suc n)
  show ?case
    by (auto simp: run_simps balanced_def intro!: postI [of "arr _ _"] post_intros post_mono [OF Suc.IH])
qed simp

lemma launch_threads_balanced: "post (avmd_launch_threads E s h) (\<lambda>(st, s', h'). balanced h h')"
  by (auto simp: avmd_launch_threads_def run_simps balanced_def intro!: post_mono [OF launch_from_balanced])

lemma init_smas_balanced: "post (init_smas E n h) (\<lambda>(ok, h'). balanced h h')"
proof (induction n arbitrary: h)
  case (Suc n)
  show ?case by (auto simp: run_simps balanced_def intro!: post_intros post_mono [OF Suc.IH])
qed simp

lemma init_detectors_balanced: "post (avmd_init_detectors E lib d0 n i slots h) (\<lambda>(ok, ds, h'). balanced h h')"
proof (induction slots arbitrary: i h)
  case (Cons p slots)
  obtain res off where p: "p = (res, off)" by fastforce
  show ?case unfolding p
    by (auto simp: run_simps balanced_def intro!: post_intros post_mono [OF init_smas_balanced] post_mono [OF Cons.IH])
qed simp

lemma init_session_balanced: "post (init_avmd_session_data E lib l d0 mutex s h) (\<lambda>(st, s', h'). balanced h h')"
  by (auto simp: init_avmd_session_data_def init_avmd_session_body_def run_simps balanced_def
      intro!: post_intros post_mono [OF init_detectors_balanced])

section \<open>The applications\<close>

lemma flags_balanced: "post (avmd_flags E l st h) (\<lambda>(fl, h'). balanced h h')"
  by (auto simp: avmd_flags_def run_simps balanced_def intro!: post_intros)

lemma media_balanced: "post (avmd_media_set E l st h) (\<lambda>(b, h'). balanced h h')"
  by (auto simp: avmd_media_set_def run_simps balanced_def intro!: post_intros)

text \<open>The start of the bug runs under the session mutex and says whether it still holds it.\<close>

lemma start_bug_locks:
  "post (avmd_start_bug E lib flags s g h) (\<lambda>(held, s', g', h').
     \<forall>m. locks m h' = locks m h - (if m = ''session'' \<and> \<not> held then 1 else 0))"
  by (auto simp: avmd_start_bug_def run_simps balanced_def
      intro!: post_intros post_mono [OF launch_threads_balanced] post_mono [OF join_threads_balanced]
        post_mono [OF session_close_balanced] post_mono [OF fire_event_balanced])

lemma parse_cmd_balanced: "post (avmd_parse_cmd_data E gs s data app h) (\<lambda>(st, s', h'). balanced h h')"
  by (auto simp: avmd_parse_cmd_data_def run_simps balanced_def intro!: post_intros postI [of "avmd_parse_entries _ _ _"])

lemma start_app_balanced: "post (avmd_start_app E lib d0 s0 g data h) (\<lambda>(s', g', h'). balanced h h')"
  by (auto simp: avmd_start_app_def has_channel_def run_simps balanced_def
      intro!: post_intros post_mono [OF parse_cmd_balanced] post_mono [OF init_session_balanced]
        post_mono [OF flags_balanced] post_mono [OF media_balanced] post_mono [OF start_bug_locks])

lemma stop_app_balanced: "post (avmd_stop_app E u h) (\<lambda>(u', h'). balanced h h')"
  by (auto simp: avmd_stop_app_def has_channel_def run_simps balanced_def
      intro!: post_intros post_mono [OF fire_event_balanced] split: option.split)

lemma start_function_balanced: "post (avmd_start_function E lib d0 s0 g data h) (\<lambda>(s', g', h'). balanced h h')"
proof -
  have app: "post (avmd_start_app E lib d0 s0 g None h1) (\<lambda>(s', g', h'). balanced h h')" if "balanced h h1" for h1
    using start_app_balanced by (rule post_mono) (use that in \<open>auto simp: balanced_def\<close>)
  show ?thesis
    by (auto simp: avmd_start_function_def run_simps intro!: post_intros app) (auto simp: balanced_def)
qed

section \<open>The callback\<close>

text \<open>
  The callback balances its mutexes when it answers true. When it answers false on a session object,
  it has released the session's mutex without taking it (on closing an object that has no session),
  or has left it taken (on a frame, when the session has no channel).
\<close>

definition callback_leak :: "abc_type \<Rightarrow> bool \<Rightarrow> bool \<Rightarrow> int" where
  "callback_leak type has ok =
     (if ok then 0
      else if \<not> has then (if type = ABC_CLOSE then -1 else 0)
      else if type = ABC_INIT \<or> type = ABC_CLOSE then 0 else 1)"

lemma codec_rate_balanced: "post (codec_rate E w h) (\<lambda>(r, h'). balanced h h')"
  by (auto simp: codec_rate_def run_simps balanced_def intro!: post_intros split: option.split)

lemma callback_init_balanced: "post (avmd_callback_init E s h) (\<lambda>(s', h'). balanced h h')"
  by (auto simp: avmd_callback_init_def run_simps balanced_def intro!: post_intros post_mono [OF codec_rate_balanced])

lemma callback_close_balanced: "post (avmd_callback_close lib s g h) (\<lambda>(s', g', h'). balanced h h')"
  by (auto simp: avmd_callback_close_def run_simps balanced_def intro!: post_intros post_mono [OF session_close_balanced])

lemma callback_locks:
  "post (avmd_callback E lib (Some s) g type frame h) (\<lambda>(ok, s', g', h').
     \<forall>m. locks m h' = locks m h + (if m = ''session'' then callback_leak type (has_session s) ok else 0))"
  by (cases type)
    (auto simp: avmd_callback_def has_channel_def run_simps callback_leak_def balanced_def
      intro!: post_intros post_mono [OF callback_init_balanced] post_mono [OF process_balanced]
        post_mono [OF callback_close_balanced])

section \<open>The API command\<close>

lemma say_balanced: "post (say parts h) (balanced h)" "post (say_if g parts h) (balanced h)"
  by (auto simp: say_if_def say_def run_simps balanced_def intro!: post_intros)

lemma show_balanced: "post (avmd_show st n h) (balanced h)"
proof -
  have "post (write_all ls h) (balanced h)" for ls
  proof (induction ls arbitrary: h)
    case (Cons l ls)
    show ?case by (auto simp: run_simps balanced_def intro!: post_intros post_mono [OF Cons.IH])
  qed simp
  then show ?thesis by (simp add: avmd_show_def)
qed

lemma api_load_balanced: "post (api_load E xml argv g h) (\<lambda>(g', h'). balanced h h')"
  by (auto simp: api_load_def run_simps
      intro!: post_mono [OF say_balanced(1)] post_mono [OF say_balanced(2)]
        postI [of "avmd_load_xml_inbound_configuration _ _ _"] postI [of "avmd_load_xml_outbound_configuration _ _ _"])

lemma api_set_balanced: "post (api_set argv g h) (\<lambda>(g', h'). balanced h h')"
  by (auto simp: api_set_def run_simps intro!: post_mono [OF say_balanced(1)] post_mono [OF say_balanced(2)])

lemma api_module_balanced: "post (api_module E xml argv g h) (\<lambda>(b, g', h'). balanced h h')"
  by (auto simp: api_module_def run_simps balanced_def
      intro!: post_mono [OF say_balanced(2)] post_mono [OF api_load_balanced] post_mono [OF api_set_balanced]
        post_mono [OF show_balanced] postI [of "avmd_load_xml_configuration _ _ _"])

lemma api_stop_balanced: "post (api_stop E u uuid g h) (balanced h)"
  by (auto simp: api_stop_def run_simps balanced_def
      intro!: post_intros post_mono [OF fire_event_balanced] post_mono [OF say_balanced(2)] split: option.split)

lemma api_start_balanced: "post (api_start E lib d0 s0 uuid flags g h) (\<lambda>(st, u', h'). balanced h h')"
  by (auto simp: api_start_def run_simps balanced_def
      intro!: post_intros post_mono [OF init_session_balanced] post_mono [OF say_balanced(1)] post_mono [OF say_balanced(2)]
        post_mono [OF fire_event_balanced])

lemma api_session_balanced: "post (api_session E lib d0 s0 u uuid command g h) (\<lambda>(st, u', h'). balanced h h')"
  by (auto simp: api_session_def run_simps balanced_def
      intro!: post_intros post_mono [OF api_stop_balanced] post_mono [OF api_start_balanced] post_mono [OF say_balanced(1)]
        post_mono [OF say_balanced(2)] post_mono [OF flags_balanced] post_mono [OF media_balanced])

lemma api_locate_balanced: "post (avmd_api_locate E lib d0 s0 u argv g h) (\<lambda>(u', h'). balanced h h')"
  by (auto simp: avmd_api_locate_def has_channel_def run_simps balanced_def
      intro!: post_intros post_mono [OF api_session_balanced] post_mono [OF say_balanced(1)] post_mono [OF say_balanced(2)])

lemma api_main_balanced: "post (avmd_api_main E lib d0 s0 u xml g cmd h) (\<lambda>(u', g', h'). balanced h h')"
  by (auto simp: avmd_api_main_def run_simps balanced_def
      intro!: post_intros post_mono [OF api_module_balanced] post_mono [OF api_locate_balanced] post_mono [OF say_balanced(1)])

section \<open>The calls that count\<close>

text \<open>
  The calls that locate or release a session, and those on media bugs. What a function adds to
  them is all that matters for the read lock and for the count of bugs; most functions add none.
\<close>

definition counts :: "avmd_glue call \<times> answer \<Rightarrow> bool" where
  "counts e \<longleftrightarrow> (case fst e of
     Bug op \<Rightarrow> op \<noteq> Bug_handle
   | Sess l op \<Rightarrow> (case op of Locate u \<Rightarrow> True | Rwunlock \<Rightarrow> True | _ \<Rightarrow> False)
   | _ \<Rightarrow> False)"

definition counted :: "avmd_trace \<Rightarrow> avmd_trace" where
  "counted h = filter counts h"

definition inner :: "avmd_trace \<Rightarrow> avmd_trace \<Rightarrow> bool" where
  "inner h h' \<longleftrightarrow> counted h' = counted h"

lemma counted_append [simp]: "counted (h @ t) = counted h @ counted t"
  by (simp add: counted_def)

lemma counted_simps [simp]:
  "counted [] = []"
  "counted ((Sync so, a) # h) = counted h" "counted ((Chan l co, a) # h) = counted h"
  "counted ((Event ev, a) # h) = counted h" "counted ((Glue g, a) # h) = counted h"
  "counted ((Time_now, a) # h) = counted h" "counted ((Mem t, a) # h) = counted h"
  "counted ((Stream_write t, a) # h) = counted h"
  "counted ((Sess l (Strdup x), a) # h) = counted h" "counted ((Sess l Alloc, a) # h) = counted h"
  "counted ((Sess l (Get_codec n), a) # h) = counted h"
  "counted ((Sess l (Locate u), a) # h) = (Sess l (Locate u), a) # counted h"
  "counted ((Sess l Rwunlock, a) # h) = (Sess l Rwunlock, a) # counted h"
  "counted ((Bug Bug_handle, a) # h) = counted h"
  "counted ((Bug (Bug_add n fl), a) # h) = (Bug (Bug_add n fl), a) # counted h"
  "counted ((Bug Bug_remove, a) # h) = (Bug Bug_remove, a) # counted h"
  by (simp_all add: counted_def counts_def)

lemma lock_run_counted: "lock_run b (counted h) = lock_run b h"
proof (induction h arbitrary: b)
  case (Cons e h)
  have "\<not> counts e \<Longrightarrow> lock_step b e = Some b"
    by (auto simp: counts_def lock_step_def split: call.splits sess_op.splits)
  then show ?case using Cons by (cases "lock_step b e") (auto simp: counted_def)
qed (simp add: counted_def)

lemma bugs_counted: "tally bug_delta (counted h) = tally bug_delta h"
proof (induction h)
  case (Cons e h)
  have "\<not> counts e \<Longrightarrow> bug_delta e = 0"
    by (auto simp: counts_def bug_delta_def split: call.splits bug_op.splits)
  then show ?case using Cons by (auto simp: counted_def)
qed (simp add: counted_def)

lemma inner_lock: "inner h h' \<Longrightarrow> lock_run b h' = lock_run b h"
  by (metis inner_def lock_run_counted)

lemma inner_bugs: "inner h h' \<Longrightarrow> tally bug_delta h' = tally bug_delta h"
  by (metis inner_def bugs_counted)

lemma inner_refl [simp]: "inner h h"
  by (simp add: inner_def)

lemma num_header_inner: "post (num_header n t h) (inner h)"
  by (auto simp: num_header_def run_simps inner_def intro!: post_intros)

lemma event_headers_inner: "post (avmd_event_headers type a h) (inner h)"
  by (cases type)
    (auto simp: avmd_event_headers_def run_simps inner_def intro!: post_intros post_mono [OF num_header_inner])

lemma fire_event_inner: "post (avmd_fire_event E type a h) (inner h)"
  by (auto simp: avmd_fire_event_def run_simps inner_def intro!: post_intros post_mono [OF event_headers_inner])

lemma init_smas_inner: "post (init_smas E n h) (\<lambda>(ok, h'). inner h h')"
proof (induction n arbitrary: h)
  case (Suc n)
  show ?case by (auto simp: run_simps inner_def intro!: post_intros post_mono [OF Suc.IH])
qed simp

lemma init_detectors_inner: "post (avmd_init_detectors E lib d0 n i slots h) (\<lambda>(ok, ds, h'). inner h h')"
proof (induction slots arbitrary: i h)
  case (Cons p slots)
  obtain res off where p: "p = (res, off)" by fastforce
  show ?case unfolding p
    by (auto simp: run_simps inner_def intro!: post_intros post_mono [OF init_smas_inner] post_mono [OF Cons.IH])
qed simp

lemma init_session_inner: "post (init_avmd_session_data E lib l d0 mutex s h) (\<lambda>(st, s', h'). inner h h')"
  by (auto simp: init_avmd_session_data_def init_avmd_session_body_def run_simps inner_def
      intro!: post_intros post_mono [OF init_detectors_inner])

lemma flags_inner: "post (avmd_flags E l st h) (\<lambda>(fl, h'). inner h h')"
  by (auto simp: avmd_flags_def run_simps inner_def intro!: post_intros)

lemma media_inner: "post (avmd_media_set E l st h) (\<lambda>(b, h'). inner h h')"
  by (auto simp: avmd_media_set_def run_simps inner_def intro!: post_intros)

lemma say_inner: "post (say parts h) (inner h)" "post (say_if g parts h) (inner h)"
  by (auto simp: say_if_def say_def run_simps inner_def intro!: post_intros)

lemma show_inner: "post (avmd_show st n h) (inner h)"
proof -
  have "post (write_all ls h) (inner h)" for ls
  proof (induction ls arbitrary: h)
    case (Cons l ls)
    show ?case by (auto simp: run_simps inner_def intro!: post_intros post_mono [OF Cons.IH])
  qed simp
  then show ?thesis by (simp add: avmd_show_def)
qed

lemma api_load_inner: "post (api_load E xml argv g h) (\<lambda>(g', h'). inner h h')"
  by (auto simp: api_load_def run_simps
      intro!: post_mono [OF say_inner(1)] post_mono [OF say_inner(2)]
        postI [of "avmd_load_xml_inbound_configuration _ _ _"] postI [of "avmd_load_xml_outbound_configuration _ _ _"])

lemma api_set_inner: "post (api_set argv g h) (\<lambda>(g', h'). inner h h')"
  by (auto simp: api_set_def run_simps intro!: post_mono [OF say_inner(1)] post_mono [OF say_inner(2)])

lemma api_module_inner: "post (api_module E xml argv g h) (\<lambda>(b, g', h'). inner h h')"
  by (auto simp: api_module_def run_simps inner_def
      intro!: post_mono [OF say_inner(2)] post_mono [OF api_load_inner] post_mono [OF api_set_inner]
        post_mono [OF show_inner] postI [of "avmd_load_xml_configuration _ _ _"])

text \<open>The two branches that remove or attach a media bug leave the read lock alone.\<close>

lemma api_stop_neutral: "post (api_stop E u uuid g h) (lock_neutral h)"
  by (auto simp: api_stop_def run_simps lock_neutral_def inner_lock
      intro!: post_intros post_mono [OF fire_event_inner] post_mono [OF say_inner(2)] split: option.split)

lemma api_start_neutral: "post (api_start E lib d0 s0 uuid flags g h) (\<lambda>(st, u', h'). lock_neutral h h')"
  by (auto simp: api_start_def run_simps lock_neutral_def inner_lock
      intro!: post_intros post_mono [OF init_session_inner] post_mono [OF say_inner(1)] post_mono [OF say_inner(2)]
        post_mono [OF fire_event_inner])

lemma api_session_neutral: "post (api_session E lib d0 s0 u uuid command g h) (\<lambda>(st, u', h'). lock_neutral h h')"
  by (auto simp: api_session_def run_simps lock_neutral_def inner_lock
      intro!: post_intros post_mono [OF api_stop_neutral] post_mono [OF api_start_neutral] post_mono [OF say_inner(1)]
        post_mono [OF say_inner(2)] post_mono [OF flags_inner] post_mono [OF media_inner])

lemma api_locate_lock:
  "lock_run False h = Some False \<Longrightarrow>
   post (avmd_api_locate E lib d0 s0 u argv g h) (\<lambda>(u', h'). lock_run False h' = Some False)"
  by (auto simp: avmd_api_locate_def has_channel_def run_simps lock_neutral_def inner_lock
      intro!: post_intros post_mono [OF api_session_neutral] post_mono [OF say_inner(1)] post_mono [OF say_inner(2)])

lemma api_main_lock:
  assumes "lock_run False h = Some False"
  shows "post (avmd_api_main E lib d0 s0 u xml g cmd h) (\<lambda>(u', g', h'). lock_run False h' = Some False)"
proof -
  have module: "post (api_module E xml argv g h1) (\<lambda>(b, g', h'). lock_run False h' = Some False)"
    if "lock_run False h1 = Some False" for argv h1
    by (rule post_mono [OF api_module_inner]) (use that in \<open>auto simp: inner_lock\<close>)
  show ?thesis
    using assms
    by (auto simp: avmd_api_main_def run_simps lock_neutral_def inner_lock
        intro!: post_intros post_mono [OF module] post_mono [OF api_locate_lock] post_mono [OF say_inner(1)])
qed

text \<open>The command as the contract of \<open>Api\<close> has it: the core, the library and the state of the module are its environment.\<close>

definition avmd_command ::
  "avmd_env \<times> ('sma, 'circ) avmd_lib \<times> 'sma avmd_detector \<times> ('sma, 'circ) avmd_session \<times>
   ('sma, 'circ) avmd_session option \<times> avmd_xml \<times> avmd_globals \<Rightarrow> string option \<Rightarrow> avmd_trace \<Rightarrow> avmd_trace option" where
  "avmd_command e cmd h = (case e of (E, lib, d0, s0, u, xml, g) \<Rightarrow>
     map_option (\<lambda>(u', g', h'). h') (avmd_api_main E lib d0 s0 u xml g cmd h))"

lemma post_map_option: "post (map_option k m) Q = post m (\<lambda>x. Q (k x))"
  by (cases m) simp_all

interpretation avmd_api: session_command avmd_command
proof
  fix h :: avmd_trace and E :: "avmd_env \<times> ('a, 'b) avmd_lib \<times> 'a avmd_detector \<times> ('a, 'b) avmd_session \<times>
    ('a, 'b) avmd_session option \<times> avmd_xml \<times> avmd_globals" and c
  assume "lock_run False h = Some False"
  then show "post (avmd_command E c h) (\<lambda>h'. lock_run False h' = Some False)"
    by (cases E) (auto simp: avmd_command_def post_map_option intro!: post_mono [OF api_main_lock])
qed

interpretation avmd_events: event_subclasses avmd_event_names avmd_event_names
  by unfold_locales (simp_all add: avmd_event_names_def avmd_events_str_def)

section \<open>Sessions and media bugs\<close>

lemma parse_cmd_inner: "post (avmd_parse_cmd_data E gs s data app h) (\<lambda>(st, s', h'). inner h h')"
  by (auto simp: avmd_parse_cmd_data_def run_simps inner_def intro!: post_intros postI [of "avmd_parse_entries _ _ _"])

lemma wait_inner: "post (avmd_wait_done lib s h) (\<lambda>(s', h'). inner h h')"
  by (rule post_mono [OF avmd_wait_done_frame]) (auto simp: inner_def)

lemma close_all_inner: "post (avmd_close_all i ds h) (\<lambda>(ds', h'). inner h h')"
proof (induction ds arbitrary: i h)
  case (Cons d ds)
  show ?case by (auto simp: run_simps inner_def intro!: post_intros post_mono [OF Cons.IH])
qed simp

lemma session_close_inner: "post (avmd_session_close lib s h) (\<lambda>(s', h'). inner h h')"
  by (auto simp: avmd_session_close_def run_simps inner_def
      intro!: post_intros post_mono [OF wait_inner] post_mono [OF close_all_inner])

lemma join_threads_inner: "post (avmd_join_threads s h) (\<lambda>(s', h'). inner h h')"
proof -
  have "post (avmd_join_all i ds h) (\<lambda>(ds', h'). inner h h')" for i h and ds :: "'a avmd_detector list"
  proof (induction ds arbitrary: i h)
    case (Cons d ds)
    show ?case by (auto simp: run_simps inner_def intro!: post_intros post_mono [OF Cons.IH])
  qed simp
  note all = this
  show ?thesis by (auto simp: avmd_join_threads_def run_simps intro!: post_mono [OF all])
qed

lemma launch_from_inner: "post (avmd_launch_from E b p base i n ds h) (\<lambda>(st, ds', h'). inner h h')"
proof (induction n arbitrary: i ds h b)
  case (Suc n)
  show ?case
    by (auto simp: run_simps inner_def intro!: postI [of "arr _ _"] post_intros post_mono [OF Suc.IH])
qed simp

lemma launch_threads_inner: "post (avmd_launch_threads E s h) (\<lambda>(st, s', h'). inner h h')"
  by (auto simp: avmd_launch_threads_def run_simps inner_def intro!: post_mono [OF launch_from_inner])

text \<open>The application counts a session exactly when it attached a media bug.\<close>

definition counts_bugs :: "avmd_globals \<Rightarrow> avmd_trace \<Rightarrow> avmd_globals \<Rightarrow> avmd_trace \<Rightarrow> bool" where
  "counts_bugs g h g' h' \<longleftrightarrow>
     int (session_n g') - int (session_n g) = tally bug_delta h' - tally bug_delta h \<and> g_settings g' = g_settings g"

lemma start_bug_counts: "post (avmd_start_bug E lib flags s g h) (\<lambda>(held, s', g', h'). counts_bugs g h g' h')"
  by (auto simp: avmd_start_bug_def run_simps counts_bugs_def dest!: inner_bugs
      intro!: post_intros post_mono [OF launch_threads_inner] post_mono [OF join_threads_inner]
        post_mono [OF session_close_inner] post_mono [OF fire_event_inner])

lemma start_app_counts: "post (avmd_start_app E lib d0 s0 g data h) (\<lambda>(s', g', h'). counts_bugs g h g' h')"
  by (auto simp: avmd_start_app_def has_channel_def run_simps counts_bugs_def dest!: inner_bugs
      intro!: post_intros post_mono [OF parse_cmd_inner] post_mono [OF init_session_inner]
        post_mono [OF flags_inner] post_mono [OF media_inner] post_mono [OF start_bug_counts])

text \<open>The API command attaches a bug without counting the session.\<close>

lemma api_start_bugs:
  "post (api_start E lib d0 s0 uuid flags g h) (\<lambda>(st, u', h').
     tally bug_delta h' = tally bug_delta h + (if st = SWITCH_STATUS_SUCCESS then 1 else 0))"
  by (auto simp: api_start_def run_simps dest!: inner_bugs
      intro!: post_intros post_mono [OF init_session_inner] post_mono [OF say_inner(1)] post_mono [OF say_inner(2)]
        post_mono [OF fire_event_inner])

text \<open>Closing a session takes it off the count, which never goes below zero.\<close>

lemma callback_close_counts:
  "post (avmd_callback_close lib s g h) (\<lambda>(s', g', h'). session_n g' = session_n g - 1 \<and> g_settings g' = g_settings g)"
  by (auto simp: avmd_callback_close_def run_simps intro!: post_intros postI [of "avmd_session_close _ _ _"])

section \<open>Load and shutdown\<close>

text \<open>Shutdown with sessions left releases the mutex of the module twice.\<close>

lemma shutdown_locks:
  "post (mod_avmd_shutdown E g h) (\<lambda>(st, h'). st = SWITCH_STATUS_SUCCESS \<and>
     (\<forall>m. locks m h' = locks m h - (if m = ''globals'' \<and> 0 < session_n g then 1 else 0)))"
proof -
  have free: "post (free_all es h) (balanced h)" for es and h :: avmd_trace
  proof (induction es arbitrary: h)
    case (Cons e es)
    show ?case by (auto simp: run_simps balanced_def intro!: post_intros post_mono [OF Cons.IH])
  qed simp
  show ?thesis
    by (auto simp: mod_avmd_shutdown_def avmd_unregister_all_events_def run_simps balanced_def
        intro!: post_intros post_mono [OF free])
qed

section \<open>Definedness\<close>

lemma launch_from_returns:
  "base + i + n \<le> length ds \<Longrightarrow> returns (avmd_launch_from E b p base i n ds h) (\<lambda>(st, ds', h'). length ds' = length ds)"
proof (induction n arbitrary: i ds h b)
  case (Suc n)
  then have "arr ds (base + i) = Some (ds ! (base + i))" by simp
  then show ?case
    using Suc.prems by (auto simp: returns_simps intro!: returns_intros returns_mono [OF Suc.IH])
qed simp

lemma launch_threads_returns:
  assumes "length (detectors s) = detector_total (a_settings s)"
  shows "returns (avmd_launch_threads E s h) (\<lambda>(st, s', h'). st = SWITCH_STATUS_SUCCESS \<longrightarrow>
    same_setup s s' \<and> (\<forall>d\<in>set (detectors s'). ready (pos s) d))"
proof (rule returns_postI [OF _ launch_threads_ready [OF assms]])
  have "returns (avmd_launch_threads E s h) (\<lambda>_. True)"
    using assms
    by (auto simp: avmd_launch_threads_def returns_simps detector_total_def intro!: returns_mono [OF launch_from_returns])
  then show "avmd_launch_threads E s h \<noteq> None" by (auto simp: returns_iff)
qed

lemma join_threads_returns: "returns (avmd_join_threads s h) (\<lambda>_. True)"
proof -
  have "returns (avmd_join_all i ds h) (\<lambda>_. True)" for i h and ds :: "'a avmd_detector list"
  proof (induction ds arbitrary: i h)
    case (Cons d ds)
    show ?case by (auto simp: returns_simps intro!: returns_intros returns_mono [OF Cons.IH])
  qed simp
  note all = this
  show ?thesis by (auto simp: avmd_join_threads_def returns_simps intro!: returns_mono [OF all])
qed

lemma fire_event_returns: "returns (avmd_fire_event E type a h) (\<lambda>_. True)"
proof -
  have num: "returns (num_header n t h) (\<lambda>_. True)" for n t h
    by (auto simp: num_header_def returns_simps intro!: returns_intros)
  have headers: "returns (avmd_event_headers type a h) (\<lambda>_. True)" for h
    by (cases type) (auto simp: avmd_event_headers_def returns_simps intro!: returns_intros returns_mono [OF num])
  show ?thesis
    by (auto simp: avmd_fire_event_def returns_simps intro!: returns_intros returns_mono [OF headers])
qed

lemma start_bug_returns:
  assumes "lib_ok lib" and "fits s"
  shows "returns (avmd_start_bug E lib flags s g h) (\<lambda>_. True)"
proof -
  have launch: "returns (avmd_launch_threads E s h) (\<lambda>(st, s', h'). st = SWITCH_STATUS_SUCCESS \<longrightarrow>
      fits s' \<and> (\<forall>d\<in>set (detectors s'). thread d))" for h
    using launch_threads_returns [of s E h] assms(2)
    by (auto simp: fits_def ready_def same_setup_def elim!: returns_mono)
  show ?thesis
    by (auto simp: avmd_start_bug_def returns_simps
        intro!: returns_intros returns_mono [OF launch] returns_mono [OF join_threads_returns]
          returns_mono [OF session_close_returns [OF assms(1)]] returns_mono [OF fire_event_returns])
qed

lemma init_detectors_returns: "returns (avmd_init_detectors E lib d0 n i slots h) (\<lambda>_. True)"
proof (induction slots arbitrary: i h)
  case (Cons p slots)
  obtain res off where p: "p = (res, off)" by fastforce
  have smas: "returns (init_smas E m h) (\<lambda>_. True)" for m h
    by (induction m arbitrary: h) (auto simp: returns_simps intro!: returns_intros)
  show ?case
    unfolding p
    by (auto simp: returns_simps simp del: init_smas.simps intro!: returns_intros returns_mono [OF smas] returns_mono [OF Cons.IH])
qed simp

lemma init_session_returns:
  "returns (init_avmd_session_data E lib l d0 mutex s h) (\<lambda>(st, s', h'). st = SWITCH_STATUS_SUCCESS \<longrightarrow>
     length (detectors s') = detector_total (a_settings s) \<and> a_settings s' = a_settings s)"
proof -
  have "returns (init_avmd_session_data E lib l d0 mutex s h) (\<lambda>_. True)"
    by (auto simp: init_avmd_session_data_def init_avmd_session_body_def returns_simps
        intro!: returns_intros returns_mono [OF init_detectors_returns])
  then have "init_avmd_session_data E lib l d0 mutex s h \<noteq> None" by (auto simp: returns_iff)
  then show ?thesis
  proof (rule returns_postI)
    show "post (init_avmd_session_data E lib l d0 mutex s h) (\<lambda>(st, s', h'). st = SWITCH_STATUS_SUCCESS \<longrightarrow>
      length (detectors s') = detector_total (a_settings s) \<and> a_settings s' = a_settings s)"
    proof (rule post_tripleI, unfold prod.case, rule impI)
      fix st s' h'
      assume run: "init_avmd_session_data E lib l d0 mutex s h = Some (st, s', h')" and st: "st = SWITCH_STATUS_SUCCESS"
      from postD [OF init_session_data_spec run] st
      have idx: "map idx (detectors s') = map of_nat [0..<detector_total (a_settings s)]"
        and set: "a_settings s' = a_settings s" by auto
      from arg_cong [OF idx, of length] set
      show "length (detectors s') = detector_total (a_settings s) \<and> a_settings s' = a_settings s" by simp
    qed
  qed
qed

lemma flags_returns: "returns (avmd_flags E l st h) (\<lambda>_. True)"
  by (auto simp: avmd_flags_def returns_simps intro!: returns_intros)

lemma media_returns: "returns (avmd_media_set E l st h) (\<lambda>_. True)"
  by (auto simp: avmd_media_set_def returns_simps intro!: returns_intros)

lemma parse_cmd_returns: "zstr_ok E \<Longrightarrow> returns (avmd_parse_cmd_data E gs s data app h) (\<lambda>_. True)"
proof -
  assume E: "zstr_ok E"
  have entries: "returns (avmd_parse_entries E as gs) (\<lambda>_. True)" for as
    using avmd_parse_entries_spec [OF E, of as gs] by (auto simp: returns_iff)
  show ?thesis
  proof (cases data)
    case None
    then show ?thesis using E by (simp add: avmd_parse_cmd_data_def zstr_ok_def)
  next
    case (Some d)
    then show ?thesis
      by (auto simp: avmd_parse_cmd_data_def returns_simps intro!: returns_intros returns_mono [OF entries])
  qed
qed

text \<open>The settings the options of the application lead to, with at most 255 detectors.\<close>

definition options_fit :: "avmd_env \<Rightarrow> avmd_settings \<Rightarrow> avmd_settings \<Rightarrow> string option \<Rightarrow> bool" where
  "options_fit E gs s data \<longleftrightarrow> (\<forall>h. post (avmd_parse_cmd_data E gs s data AVMD_APP_START_APP h)
     (\<lambda>(st, s', h'). st = SWITCH_STATUS_SUCCESS \<longrightarrow> detector_total s' \<le> 255))"

lemma start_app_returns:
  assumes "zstr_ok E" and "lib_ok lib" and "options_fit E (g_settings g) (a_settings s0) data"
  shows "returns (avmd_start_app E lib d0 s0 g data h) (\<lambda>_. True)"
proof -
  have parse: "returns (avmd_parse_cmd_data E (g_settings g) (a_settings s0) data AVMD_APP_START_APP h)
      (\<lambda>(st, s', h'). st = SWITCH_STATUS_SUCCESS \<longrightarrow> detector_total s' \<le> 255)" for h
    using parse_cmd_returns [OF assms(1), of "g_settings g" "a_settings s0" data AVMD_APP_START_APP h] assms(3)
    by (intro returns_postI) (auto simp: returns_iff options_fit_def)
  have init: "returns (init_avmd_session_data E lib Caller d0 True s h) (\<lambda>(st, s', h'). st = SWITCH_STATUS_SUCCESS \<longrightarrow> fits s')"
    if "detector_total (a_settings s) \<le> 255" for s h
    by (rule returns_mono [OF init_session_returns]) (use that in \<open>auto simp: fits_def\<close>)
  show ?thesis
    by (auto simp: avmd_start_app_def has_channel_def returns_simps
        intro!: returns_intros returns_mono [OF parse] returns_mono [OF init] returns_mono [OF flags_returns]
          returns_mono [OF media_returns] returns_mono [OF start_bug_returns [OF assms(2)]])
qed

lemma codec_rate_returns: "returns (codec_rate E w h) (\<lambda>_. True)"
  by (auto simp: codec_rate_def returns_simps intro!: returns_intros)

lemma callback_returns:
  assumes "lib_ok lib" and "fits s" and "type = ABC_CLOSE \<Longrightarrow> \<forall>d\<in>set (detectors s). thread d"
  shows "returns (avmd_callback E lib (Some s) g type frame h) (\<lambda>_. True)"
  using assms(3)
  by (cases type)
    (auto simp: avmd_callback_def has_channel_def avmd_callback_init_def avmd_callback_close_def returns_simps
      intro!: returns_intros returns_mono [OF codec_rate_returns] returns_mono [OF process_returns [OF assms(1,2)]]
        returns_mono [OF session_close_returns [OF assms(1,2)]])

text \<open>The allocations the API command relies on.\<close>

definition api_memory_ok :: "avmd_env \<Rightarrow> bool" where
  "api_memory_ok E \<longleftrightarrow> (\<forall>h. ans_bool E h (Mem ''strdup'') \<and> ans_bool E h (Sess Located Alloc))"

text \<open>The commands on the module, and the commands that name a session and say what to do with it.\<close>

definition module_command :: "string \<Rightarrow> bool" where
  "module_command c \<longleftrightarrow> strcaseeq c ''load'' \<or> strcaseeq c ''set'' \<or> strcaseeq c ''show''"

definition command_ok :: "avmd_env \<Rightarrow> string option \<Rightarrow> bool" where
  "command_ok E cmd \<longleftrightarrow> (\<forall>c. cmd = Some c \<longrightarrow> \<not> zstr E cmd \<longrightarrow> (let argv = separate E c CHR '' '' 3 in
     length argv = 1 \<longrightarrow> module_command (argv ! 0)))"

lemma say_returns: "returns (say parts h) (\<lambda>_. True)" "returns (say_if g parts h) (\<lambda>_. True)"
  by (auto simp: say_if_def say_def returns_simps intro!: returns_intros)

lemma show_returns: "returns (avmd_show st n h) (\<lambda>_. True)"
proof -
  have "returns (write_all ls h) (\<lambda>_. True)" for ls
  proof (induction ls arbitrary: h)
    case (Cons l ls)
    show ?case by (auto simp: returns_simps intro!: returns_intros returns_mono [OF Cons.IH])
  qed simp
  then show ?thesis by (simp add: avmd_show_def)
qed

lemma load_xml_returns:
  assumes "zstr_ok E"
  shows "returns (avmd_load_xml_configuration E xml s) (\<lambda>_. True)"
    "returns (avmd_load_xml_inbound_configuration E xml s) (\<lambda>_. True)"
    "returns (avmd_load_xml_outbound_configuration E xml s) (\<lambda>_. True)"
  using avmd_load_xml_total [OF assms, of xml s]
  by (auto simp: avmd_load_xml_inbound_configuration_def avmd_load_xml_outbound_configuration_def returns_simps)

lemma api_module_returns:
  assumes "zstr_ok E"
  shows "returns (api_module E xml argv g h) (\<lambda>(ended, g', h'). module_command (argv ! 0) \<longrightarrow> ended)"
proof -
  have load: "returns (api_load E xml argv g h) (\<lambda>_. True)" for g h
    by (auto simp: api_load_def returns_simps intro!: returns_mono [OF say_returns(1)] returns_mono [OF say_returns(2)]
        returns_mono [OF load_xml_returns(2) [OF assms]] returns_mono [OF load_xml_returns(3) [OF assms]])
  have set: "returns (api_set argv g h) (\<lambda>_. True)" for g h
    by (auto simp: api_set_def returns_simps intro!: returns_mono [OF say_returns(1)] returns_mono [OF say_returns(2)])
  show ?thesis
    by (auto simp: api_module_def returns_simps module_command_def
        intro!: returns_mono [OF say_returns(2)] returns_mono [OF load] returns_mono [OF set]
          returns_mono [OF show_returns] returns_mono [OF load_xml_returns(1) [OF assms]])
qed

lemma api_start_returns:
  "api_memory_ok E \<Longrightarrow> returns (api_start E lib d0 s0 uuid flags g h) (\<lambda>_. True)"
  by (auto simp: api_start_def returns_simps ask_bool_def api_memory_ok_def
      intro!: returns_intros returns_mono [OF init_session_returns] returns_mono [OF say_returns(1)]
        returns_mono [OF say_returns(2)] returns_mono [OF fire_event_returns])

lemma api_session_returns:
  assumes "api_memory_ok E"
  shows "returns (api_session E lib d0 s0 u uuid (Some command) g h) (\<lambda>_. True)"
proof -
  have stop: "returns (api_stop E u uuid g h) (\<lambda>_. True)" for h
    by (auto simp: api_stop_def returns_simps intro!: returns_intros returns_mono [OF fire_event_returns]
        returns_mono [OF say_returns(2)] split: option.split)
  show ?thesis
    by (auto simp: api_session_def returns_simps
        intro!: returns_intros returns_mono [OF stop] returns_mono [OF say_returns(1)] returns_mono [OF say_returns(2)]
          returns_mono [OF api_start_returns [OF assms]] returns_mono [OF flags_returns] returns_mono [OF media_returns])
qed

lemma api_locate_returns:
  assumes "api_memory_ok E" and "1 < length argv"
  shows "returns (avmd_api_locate E lib d0 s0 u argv g h) (\<lambda>_. True)"
proof -
  have "zero_filled 3 argv ! 1 = Some (argv ! 1)" using assms(2) by simp
  then show ?thesis
    by (auto simp: avmd_api_locate_def has_channel_def returns_simps
        intro!: returns_intros returns_mono [OF say_returns(1)] returns_mono [OF say_returns(2)]
          returns_mono [OF api_session_returns [OF assms(1)]])
qed

lemma api_main_returns:
  assumes "zstr_ok E" and "api_memory_ok E" and "command_ok E cmd"
  shows "returns (avmd_api_main E lib d0 s0 u xml g cmd h) (\<lambda>_. True)"
proof (cases "zstr E cmd")
  case True
  then show ?thesis
    by (auto simp: avmd_api_main_def returns_simps intro!: returns_intros returns_mono [OF say_returns(1)])
next
  case False
  then obtain c where cmd: "cmd = Some c" using assms(1) by (cases cmd) (auto simp: zstr_ok_def)
  let ?argv = "separate E c CHR '' '' 3"
  have one: "module_command (?argv ! 0)" if "?argv \<noteq> []" "\<not> 1 < length ?argv"
  proof -
    have "length ?argv = 1" using that by (cases ?argv) auto
    then show ?thesis using assms(3) False cmd by (simp add: command_ok_def Let_def)
  qed
  have module: "returns (api_module E xml ?argv g h) (\<lambda>(ended, g', h'). ended \<or> 1 < length ?argv)" if "?argv \<noteq> []" for g h
    by (rule returns_mono [OF api_module_returns [OF assms(1)]]) (use one that in auto)
  have strdup: "ans_bool E h (Mem ''strdup'')" for h using assms(2) by (simp add: api_memory_ok_def)
  show ?thesis
    using False
    by (auto simp: avmd_api_main_def returns_simps cmd ask_bool_def strdup
        intro!: returns_intros returns_mono [OF say_returns(1)] returns_mono [OF module]
          returns_mono [OF api_locate_returns [OF assms(2)]])
qed

section \<open>Properties\<close>





text \<open>
  The callback of the media bug on a session: it returns, and it balances its mutexes exactly
  when it answers true. On a session object without a session, closing releases the object's mutex
  that was never taken; on a session without a channel, a frame leaves it taken.
\<close>

theorem avmd_callback_mutexes:
  assumes "lib_ok lib" and "fits s" and "type = ABC_CLOSE \<Longrightarrow> \<forall>d\<in>set (detectors s). thread d"
  shows "returns (avmd_callback E lib (Some s) g type frame h) (\<lambda>(ok, s', g', h').
    (\<forall>m. m \<noteq> ''session'' \<longrightarrow> locks m h' = locks m h) \<and>
    locks ''session'' h' = locks ''session'' h +
      (if ok then 0 else if \<not> has_session s then (if type = ABC_CLOSE then -1 else 0)
       else if type = ABC_INIT \<or> type = ABC_CLOSE then 0 else 1))"
proof (rule returns_postI)
  show "avmd_callback E lib (Some s) g type frame h \<noteq> None"
    using callback_returns [OF assms, where E = E and g = g and frame = frame and h = h] by (auto simp: returns_iff)
  show "post (avmd_callback E lib (Some s) g type frame h) (\<lambda>(ok, s', g', h').
    (\<forall>m. m \<noteq> ''session'' \<longrightarrow> locks m h' = locks m h) \<and>
    locks ''session'' h' = locks ''session'' h +
      (if ok then 0 else if \<not> has_session s then (if type = ABC_CLOSE then -1 else 0)
       else if type = ABC_INIT \<or> type = ABC_CLOSE then 0 else 1))"
    by (rule post_mono [OF callback_locks]) (auto simp: callback_leak_def)
qed

lemma avmd_callback_mutexes_witness:
  "returns (avmd_callback sample_env sample_lib
     (Some (sample_session (avmd_zero_settings\<lparr> detectors_n := 1 \<rparr>) [sample_detector AVMD_DETECT_NONE])) avmd_globals_zero
     ABC_CLOSE [] []) (\<lambda>(ok, s', g', h'). ok \<longrightarrow> locks ''session'' h' = 0)"
proof -
  have "returns (avmd_callback sample_env sample_lib
      (Some (sample_session (avmd_zero_settings\<lparr> detectors_n := 1 \<rparr>) [sample_detector AVMD_DETECT_NONE])) avmd_globals_zero
      ABC_CLOSE [] []) (\<lambda>(ok, s', g', h'). (\<forall>m. m \<noteq> ''session'' \<longrightarrow> locks m h' = locks m []) \<and>
      locks ''session'' h' = locks ''session'' [] + (if ok then 0
        else if \<not> has_session (sample_session (avmd_zero_settings\<lparr> detectors_n := 1 \<rparr>) [sample_detector AVMD_DETECT_NONE])
        then (if ABC_CLOSE = ABC_CLOSE then -1 else 0)
        else if ABC_CLOSE = ABC_INIT \<or> ABC_CLOSE = ABC_CLOSE then 0 else 1))"
    by (rule avmd_callback_mutexes [OF sample_lib_ok sample_fits]) (simp add: sample_session_def sample_detector_def)
  then show ?thesis by (rule returns_mono) (auto simp: locks_def)
qed

text \<open>
  C13. Load and shutdown: after a load that succeeded, any run that leaves the event subclasses alone,
  and a shutdown, every event subclass of the module has been released as often as it was reserved;
  but shutting down while sessions are left releases the mutex of the module once more than it took it.
\<close>

theorem avmd_shutdown_balance:
  assumes "mod_avmd_load E pool xml g h = Some (SWITCH_STATUS_SUCCESS, g1, h1)"
    and "tally (reserve_delta n) h2 = tally (reserve_delta n) h1"
  shows "returns (mod_avmd_shutdown E g2 h2) (\<lambda>(st, h3). tally (reserve_delta n) h3 = tally (reserve_delta n) h \<and>
    locks ''globals'' h3 = locks ''globals'' h2 - (if 0 < session_n g2 then 1 else 0))"
proof -
  have free: "returns (free_all es h) (\<lambda>_. True)" for es and h :: avmd_trace
    by (induction es arbitrary: h) (auto simp: returns_simps intro!: returns_intros)
  have def: "mod_avmd_shutdown E g2 h2 \<noteq> None"
    using returns_iff [of "mod_avmd_shutdown E g2 h2" "\<lambda>_. True"]
    by (auto simp: mod_avmd_shutdown_def avmd_unregister_all_events_def returns_simps intro!: returns_intros returns_mono [OF free])
  have load: "post (mod_avmd_load E pool xml g h) (\<lambda>(st, g', h'). st = SWITCH_STATUS_SUCCESS \<longrightarrow>
      tally (reserve_delta n) h' = tally (reserve_delta n) h + int (count_list avmd_event_names n))"
    by (auto simp: mod_avmd_load_def avmd_register_all_events_def run_simps reserve_delta_def
        intro!: post_intros post_mono [OF reserve_all_tally [of E avmd_event_names h n]] postI [of "avmd_load_xml_configuration _ _ _"])
  have down: "post (mod_avmd_shutdown E g2 h2) (\<lambda>(st, h3).
      tally (reserve_delta n) h3 = tally (reserve_delta n) h2 - int (count_list avmd_event_names n))"
    by (auto simp: mod_avmd_shutdown_def avmd_unregister_all_events_def run_simps reserve_delta_def
        intro!: post_intros post_mono [OF free_all_tally [of avmd_event_names _ n]])
  show ?thesis
    using def
  proof (rule returns_postI)
    show "post (mod_avmd_shutdown E g2 h2) (\<lambda>(st, h3). tally (reserve_delta n) h3 = tally (reserve_delta n) h \<and>
      locks ''globals'' h3 = locks ''globals'' h2 - (if 0 < session_n g2 then 1 else 0))"
      using down shutdown_locks [of E g2 h2] postD [OF load assms(1)] assms(2)
      by (cases "mod_avmd_shutdown E g2 h2") auto
  qed
qed

lemma avmd_shutdown_balance_witness:
  "\<exists>g1 h1. mod_avmd_load sample_env True None avmd_globals_zero [] = Some (SWITCH_STATUS_SUCCESS, g1, h1) \<and>
     returns (mod_avmd_shutdown sample_env g1 h1) (\<lambda>(st, h3). tally (reserve_delta ''avmd::beep'') h3 = 0)"
proof -
  obtain g1 h1 where load: "mod_avmd_load sample_env True None avmd_globals_zero [] = Some (SWITCH_STATUS_SUCCESS, g1, h1)"
    by (simp add: mod_avmd_load_def avmd_register_all_events_def avmd_event_names_def ask_defs sample_answers
        avmd_load_xml_missing avmd_set_xml_default_configuration_def avmd_globals_zero_def)
  have "returns (mod_avmd_shutdown sample_env g1 h1) (\<lambda>(st, h3).
      tally (reserve_delta ''avmd::beep'') h3 = tally (reserve_delta ''avmd::beep'') ([] :: avmd_trace) \<and>
      locks ''globals'' h3 = locks ''globals'' h1 - (if 0 < session_n g1 then 1 else 0))"
    by (rule avmd_shutdown_balance [OF load refl])
  then have "returns (mod_avmd_shutdown sample_env g1 h1) (\<lambda>(st, h3). tally (reserve_delta ''avmd::beep'') h3 = 0)"
    by (rule returns_mono) auto
  with load show ?thesis by blast
qed

text \<open>
  A session named without a command: the command line has one word that is none of the module's
  commands; as soon as there is a session with that uuid, the command reads a missing argument.
\<close>

lemma avmd_api_one_word:
  assumes "zstr_ok E" and "separate E c CHR '' '' 3 = [uuid]" and "c \<noteq> []"
    and "\<not> module_command uuid" and "\<not> strcaseeq uuid ''reload''"
    and "\<And>h. ans_bool E h (Sess Located (Locate (Some uuid))) \<and> ans_bool E h (Sess Located (Get_codec ''channel''))"
  shows "avmd_api_main E lib d0 s0 u xml g (Some c) h = None"
  using assms
  by (simp add: avmd_api_main_def avmd_api_locate_def api_module_def module_command_def has_channel_def api_session_def
      zstr_ok_def ask_defs)

lemma avmd_api_one_word_witness:
  "avmd_api_main sample_env sample_lib (sample_detector AVMD_DETECT_NONE) (sample_session avmd_zero_settings [])
     None None avmd_globals_zero (Some ''u'') [] = None"
  by (rule avmd_api_one_word [OF sample_env_ok(1), of _ "''u''"])
    (simp_all add: sample_env_def module_command_def strcaseeq_def c_tolower_def)

end
