(* ===== verification/AvmdBarrier.thy ===== *)
theory AvmdBarrier
  imports Prelude
begin

text \<open>
  The protocol between the thread that processes the frames and the detector threads of
  \<open>mod_avmd.new.c\<close>: two mutexes, two condition variables and the flags of each detector, as step
  relations whose steps are single acquisitions of a mutex or single critical sections. A mutex is
  held exactly at the program points between its lock and its unlock, so whether it is free is read
  off the program points. A thread that waits on a condition variable has released the mutex and
  must take it again when it is woken; it may also wake up without a signal.

  The lemmas show that the threads never touch the session while the master does, that a wake-up is
  never lost, that no reachable state is stuck, and that the work on a frame ends.
\<close>

section \<open>State\<close>

text \<open>The three waits: at the start of a frame, after the frame was handed out, and at the close of the session.\<close>

datatype wait_point = Before_frame | After_hand_out | Before_close

datatype master_pc =
    M_Idle                        \<comment> \<open>between frames\<close>
  | M_Lock_done wait_point        \<comment> \<open>about to take mutex_detectors_done, also after a wake-up\<close>
  | M_Check wait_point nat        \<comment> \<open>avmd_detection_in_progress, before detector idx\<close>
  | M_Checking wait_point nat     \<comment> \<open>holding the mutex of detector idx\<close>
  | M_Sleepy wait_point           \<comment> \<open>about to wait on cond_detectors_done\<close>
  | M_Asleep wait_point
  | M_Leave wait_point            \<comment> \<open>the wait is over; mutex_detectors_done is still held\<close>
  | M_Frame                       \<comment> \<open>start of detection, insertion of the frame\<close>
  | M_Hand nat                    \<comment> \<open>the loop that hands the frame out\<close>
  | M_Handing nat
  | M_Update                      \<comment> \<open>frame_n and pos\<close>
  | M_Close nat                   \<comment> \<open>the loop of avmd_session_close\<close>
  | M_Closing nat
  | M_Join nat
  | M_Closed

datatype worker_pc =
    W_Lock                        \<comment> \<open>about to take the detector's mutex\<close>
  | W_Test                        \<comment> \<open>holding it, at the test of the waiting loop\<close>
  | W_Asleep
  | W_Scan                        \<comment> \<open>looking at the samples, without the mutex\<close>
  | W_Finish                      \<comment> \<open>holding it again, before flag_processing_done is set\<close>
  | W_Notify                      \<comment> \<open>about to take mutex_detectors_done\<close>
  | W_Notifying                   \<comment> \<open>holding it\<close>
  | W_Gone

record worker =
  w_pc :: worker_pc
  w_done :: bool                  \<comment> \<open>flag_processing_done\<close>
  w_exit :: bool                  \<comment> \<open>flag_should_exit\<close>
  w_found :: bool                 \<comment> \<open>result != AVMD_DETECT_NONE\<close>
  w_res :: bool                   \<comment> \<open>the thread's local variable res, likewise\<close>
  w_lag :: nat                    \<comment> \<open>lag of a lagged detector\<close>

record barrier =
  mstr :: master_pc
  team :: "worker list"

definition put :: "barrier \<Rightarrow> master_pc \<Rightarrow> nat \<Rightarrow> worker \<Rightarrow> barrier" where
  "put s m i w = s\<lparr> mstr := m, team := (team s)[i := w] \<rparr>"

section \<open>The mutexes\<close>

fun master_holds_detector :: "master_pc \<Rightarrow> nat \<Rightarrow> bool" where
  "master_holds_detector (M_Checking p j) i = (j = i)"
| "master_holds_detector (M_Handing j) i = (j = i)"
| "master_holds_detector (M_Closing j) i = (j = i)"
| "master_holds_detector _ i = False"

fun master_holds_done :: "master_pc \<Rightarrow> bool" where
  "master_holds_done (M_Check p j) = True"
| "master_holds_done (M_Checking p j) = True"
| "master_holds_done (M_Sleepy p) = True"
| "master_holds_done (M_Leave p) = True"
| "master_holds_done _ = False"

definition worker_holds_detector :: "worker \<Rightarrow> bool" where
  "worker_holds_detector w \<longleftrightarrow> w_pc w = W_Test \<or> w_pc w = W_Finish"

definition detector_free :: "barrier \<Rightarrow> nat \<Rightarrow> bool" where
  "detector_free s i \<longleftrightarrow> \<not> worker_holds_detector (team s ! i) \<and> \<not> master_holds_detector (mstr s) i"

definition done_free :: "barrier \<Rightarrow> bool" where
  "done_free s \<longleftrightarrow> \<not> master_holds_done (mstr s) \<and> (\<forall>w\<in>set (team s). w_pc w \<noteq> W_Notifying)"

text \<open>A signal wakes the thread that waits on the condition variable, if one does.\<close>

definition wake_worker :: "worker \<Rightarrow> worker" where
  "wake_worker w = (if w_pc w = W_Asleep then w\<lparr> w_pc := W_Lock \<rparr> else w)"

fun wake_master :: "master_pc \<Rightarrow> master_pc" where
  "wake_master (M_Asleep p) = M_Lock_done p"
| "wake_master m = m"

section \<open>Steps\<close>

text \<open>A detector thread, at its program points; \<open>b\<close> is what its scan found.\<close>

inductive worker_step :: "bool \<Rightarrow> worker \<Rightarrow> worker \<Rightarrow> bool" where
  w_sleep: "w_pc w = W_Test \<Longrightarrow> w_done w \<Longrightarrow> \<not> w_exit w \<Longrightarrow> worker_step b w (w\<lparr> w_pc := W_Asleep \<rparr>)"
| w_leave: "w_pc w = W_Test \<Longrightarrow> w_exit w \<Longrightarrow> worker_step b w (w\<lparr> w_done := True, w_pc := W_Gone \<rparr>)"
| w_lagging: "w_pc w = W_Test \<Longrightarrow> \<not> w_done w \<Longrightarrow> \<not> w_exit w \<Longrightarrow> 0 < w_lag w \<Longrightarrow>
    worker_step b w (w\<lparr> w_lag := w_lag w - 1, w_pc := W_Finish \<rparr>)"
| w_work: "w_pc w = W_Test \<Longrightarrow> \<not> w_done w \<Longrightarrow> \<not> w_exit w \<Longrightarrow> w_lag w = 0 \<Longrightarrow> worker_step b w (w\<lparr> w_pc := W_Scan \<rparr>)"
| w_finish: "w_pc w = W_Finish \<Longrightarrow> worker_step b w (w\<lparr> w_done := True, w_found := w_res w, w_pc := W_Notify \<rparr>)"

inductive detector_step :: "barrier \<Rightarrow> barrier \<Rightarrow> bool" where
  d_local: "i < length (team s) \<Longrightarrow> worker_step b (team s ! i) w \<Longrightarrow> detector_step s (put s (mstr s) i w)"
| d_lock: "i < length (team s) \<Longrightarrow> w_pc (team s ! i) = W_Lock \<Longrightarrow> detector_free s i \<Longrightarrow>
    detector_step s (put s (mstr s) i ((team s ! i)\<lparr> w_pc := W_Test \<rparr>))"
| d_relock: "i < length (team s) \<Longrightarrow> w_pc (team s ! i) = W_Scan \<Longrightarrow> detector_free s i \<Longrightarrow>
    detector_step s (put s (mstr s) i ((team s ! i)\<lparr> w_res := b, w_pc := W_Finish \<rparr>))"
| d_notify: "i < length (team s) \<Longrightarrow> w_pc (team s ! i) = W_Notify \<Longrightarrow> done_free s \<Longrightarrow>
    detector_step s (put s (mstr s) i ((team s ! i)\<lparr> w_pc := W_Notifying \<rparr>))"
| d_signal: "i < length (team s) \<Longrightarrow> w_pc (team s ! i) = W_Notifying \<Longrightarrow>
    detector_step s (put s (wake_master (mstr s)) i ((team s ! i)\<lparr> w_pc := W_Lock \<rparr>))"

text \<open>
  \<open>while (avmd_detection_in_progress(s) == 1) switch_thread_cond_wait(...)\<close>, the same at the
  three waits.
\<close>

inductive wait_step :: "barrier \<Rightarrow> barrier \<Rightarrow> bool" where
  m_lock: "mstr s = M_Lock_done p \<Longrightarrow> done_free s \<Longrightarrow> wait_step s (s\<lparr> mstr := M_Check p 0 \<rparr>)"
| m_check: "mstr s = M_Check p i \<Longrightarrow> i < length (team s) \<Longrightarrow> detector_free s i \<Longrightarrow>
    wait_step s (s\<lparr> mstr := M_Checking p i \<rparr>)"
| m_busy: "mstr s = M_Checking p i \<Longrightarrow> \<not> w_done (team s ! i) \<Longrightarrow> wait_step s (s\<lparr> mstr := M_Sleepy p \<rparr>)"
| m_next: "mstr s = M_Checking p i \<Longrightarrow> w_done (team s ! i) \<Longrightarrow> wait_step s (s\<lparr> mstr := M_Check p (i + 1) \<rparr>)"
| m_all: "mstr s = M_Check p (length (team s)) \<Longrightarrow> wait_step s (s\<lparr> mstr := M_Leave p \<rparr>)"
| m_sleep: "mstr s = M_Sleepy p \<Longrightarrow> wait_step s (s\<lparr> mstr := M_Asleep p \<rparr>)"

text \<open>
  The rest of \<open>avmd_process\<close>. A frame may be skipped after the first wait, when the beep was
  already detected or frames are to be skipped.
\<close>

inductive frame_step :: "barrier \<Rightarrow> barrier \<Rightarrow> bool" where
  m_skip: "mstr s = M_Leave Before_frame \<Longrightarrow> frame_step s (s\<lparr> mstr := M_Idle \<rparr>)"
| m_frame: "mstr s = M_Leave Before_frame \<Longrightarrow> frame_step s (s\<lparr> mstr := M_Frame \<rparr>)"
| m_insert: "mstr s = M_Frame \<Longrightarrow> frame_step s (s\<lparr> mstr := M_Hand 0 \<rparr>)"
| m_hand_lock: "mstr s = M_Hand i \<Longrightarrow> i < length (team s) \<Longrightarrow> detector_free s i \<Longrightarrow>
    frame_step s (s\<lparr> mstr := M_Handing i \<rparr>)"
| m_hand: "mstr s = M_Handing i \<Longrightarrow> \<not> w_found (team s ! i) \<Longrightarrow>
    frame_step s (put s (M_Hand (i + 1)) i (wake_worker ((team s ! i)\<lparr> w_done := False, w_exit := False \<rparr>)))"
| m_hand_none: "mstr s = M_Handing i \<Longrightarrow> w_found (team s ! i) \<Longrightarrow> frame_step s (s\<lparr> mstr := M_Hand (i + 1) \<rparr>)"
| m_handed: "mstr s = M_Hand (length (team s)) \<Longrightarrow> frame_step s (s\<lparr> mstr := M_Lock_done After_hand_out \<rparr>)"
| m_result: "mstr s = M_Leave After_hand_out \<Longrightarrow> frame_step s (s\<lparr> mstr := M_Update \<rparr>)"
| m_update: "mstr s = M_Update \<Longrightarrow> frame_step s (s\<lparr> mstr := M_Idle \<rparr>)"

text \<open>The rest of \<open>avmd_session_close\<close>.\<close>

inductive close_step :: "barrier \<Rightarrow> barrier \<Rightarrow> bool" where
  m_close: "mstr s = M_Leave Before_close \<Longrightarrow> close_step s (s\<lparr> mstr := M_Close 0 \<rparr>)"
| m_close_lock: "mstr s = M_Close i \<Longrightarrow> i < length (team s) \<Longrightarrow> detector_free s i \<Longrightarrow>
    close_step s (s\<lparr> mstr := M_Closing i \<rparr>)"
| m_closing: "mstr s = M_Closing i \<Longrightarrow>
    close_step s (put s (M_Join i) i (wake_worker ((team s ! i)\<lparr> w_done := False, w_exit := True \<rparr>)))"
| m_join: "mstr s = M_Join i \<Longrightarrow> w_pc (team s ! i) = W_Gone \<Longrightarrow> close_step s (s\<lparr> mstr := M_Close (i + 1) \<rparr>)"
| m_closed: "mstr s = M_Close (length (team s)) \<Longrightarrow> close_step s (s\<lparr> mstr := M_Closed \<rparr>)"

text \<open>The next frame or the close of the session arrives.\<close>

inductive arrival :: "barrier \<Rightarrow> barrier \<Rightarrow> bool" where
  a_frame: "mstr s = M_Idle \<Longrightarrow> arrival s (s\<lparr> mstr := M_Lock_done Before_frame \<rparr>)"
| a_close: "mstr s = M_Idle \<Longrightarrow> arrival s (s\<lparr> mstr := M_Lock_done Before_close \<rparr>)"

text \<open>Wake-ups without a signal, which condition variables allow.\<close>

inductive spurious :: "barrier \<Rightarrow> barrier \<Rightarrow> bool" where
  s_worker: "i < length (team s) \<Longrightarrow> w_pc (team s ! i) = W_Asleep \<Longrightarrow> spurious s (put s (mstr s) i ((team s ! i)\<lparr> w_pc := W_Lock \<rparr>))"
| s_master: "mstr s = M_Asleep p \<Longrightarrow> spurious s (s\<lparr> mstr := M_Lock_done p \<rparr>)"

definition inner_step :: "barrier \<Rightarrow> barrier \<Rightarrow> bool" where
  "inner_step s s' \<longleftrightarrow> detector_step s s' \<or> wait_step s s' \<or> frame_step s s' \<or> close_step s s'"

text \<open>The threads as \<open>avmd_launch_threads\<close> leaves them.\<close>

definition launched :: "nat list \<Rightarrow> barrier" where
  "launched lags = \<lparr> mstr = M_Idle, team = map (\<lambda>l. \<lparr> w_pc = W_Lock, w_done = True, w_exit = False,
     w_found = False, w_res = False, w_lag = l \<rparr>) lags \<rparr>"

inductive avmd_reachable :: "nat list \<Rightarrow> barrier \<Rightarrow> bool" for lags where
  reach_start: "avmd_reachable lags (launched lags)"
| reach_inner: "avmd_reachable lags s \<Longrightarrow> inner_step s s' \<Longrightarrow> avmd_reachable lags s'"
| reach_arrival: "avmd_reachable lags s \<Longrightarrow> arrival s s' \<Longrightarrow> avmd_reachable lags s'"
| reach_spurious: "avmd_reachable lags s \<Longrightarrow> spurious s s' \<Longrightarrow> avmd_reachable lags s'"

inductive_cases worker_stepE: "worker_step b w w'"
inductive_cases detector_stepE: "detector_step s s'"
inductive_cases wait_stepE: "wait_step s s'"
inductive_cases frame_stepE: "frame_step s s'"
inductive_cases close_stepE: "close_step s s'"
inductive_cases arrivalE: "arrival s s'"
inductive_cases spuriousE: "spurious s s'"

section \<open>The invariant\<close>

text \<open>Which detectors the master has told to exit, has joined, or has given a frame.\<close>

fun told :: "master_pc \<Rightarrow> nat \<Rightarrow> bool" where
  "told (M_Close j) i = (i < j)"
| "told (M_Closing j) i = (i < j)"
| "told (M_Join j) i = (i \<le> j)"
| "told M_Closed i = True"
| "told _ i = False"

fun joined :: "master_pc \<Rightarrow> nat \<Rightarrow> bool" where
  "joined (M_Close j) i = (i < j)"
| "joined (M_Closing j) i = (i < j)"
| "joined (M_Join j) i = (i < j)"
| "joined M_Closed i = True"
| "joined _ i = False"

fun may_work :: "master_pc \<Rightarrow> nat \<Rightarrow> bool" where
  "may_work (M_Hand j) i = (i < j)"
| "may_work (M_Handing j) i = (i < j)"
| "may_work (M_Lock_done p) i = (p = After_hand_out)"
| "may_work (M_Check p j) i = (p = After_hand_out \<and> j \<le> i)"
| "may_work (M_Checking p j) i = (p = After_hand_out \<and> j \<le> i)"
| "may_work (M_Sleepy p) i = (p = After_hand_out)"
| "may_work (M_Asleep p) i = (p = After_hand_out)"
| "may_work _ i = False"

definition worker_inv :: "master_pc \<Rightarrow> nat \<Rightarrow> worker \<Rightarrow> bool" where
  "worker_inv m i w \<longleftrightarrow>
     (w_pc w = W_Scan \<or> w_pc w = W_Finish \<longrightarrow> \<not> w_done w \<and> \<not> w_exit w) \<and>
     (w_pc w = W_Asleep \<longrightarrow> w_done w \<and> \<not> w_exit w) \<and>
     (w_pc w = W_Gone \<longrightarrow> w_exit w) \<and>
     (w_exit w \<longleftrightarrow> told m i) \<and>
     (joined m i \<longrightarrow> w_pc w = W_Gone) \<and>
     (\<not> w_done w \<and> \<not> w_exit w \<longrightarrow> may_work m i) \<and>
     (master_holds_detector m i \<longrightarrow> \<not> worker_holds_detector w) \<and>
     (master_holds_done m \<longrightarrow> w_pc w \<noteq> W_Notifying)"

fun master_range :: "master_pc \<Rightarrow> nat \<Rightarrow> bool" where
  "master_range (M_Check p i) n = (i \<le> n)"
| "master_range (M_Checking p i) n = (i < n)"
| "master_range (M_Hand i) n = (i \<le> n)"
| "master_range (M_Handing i) n = (i < n)"
| "master_range (M_Close i) n = (i \<le> n)"
| "master_range (M_Closing i) n = (i < n)"
| "master_range (M_Join i) n = (i < n)"
| "master_range _ n = True"

text \<open>A detector whose signal is still to come.\<close>

definition pending :: "worker \<Rightarrow> bool" where
  "pending w \<longleftrightarrow> \<not> w_done w \<or> w_pc w = W_Notify \<or> w_pc w = W_Notifying"

fun waits :: "master_pc \<Rightarrow> bool" where
  "waits (M_Sleepy p) = True"
| "waits (M_Asleep p) = True"
| "waits _ = False"

definition one_notifies :: "worker list \<Rightarrow> bool" where
  "one_notifies ws \<longleftrightarrow> (\<forall>i<length ws. \<forall>j<length ws. w_pc (ws ! i) = W_Notifying \<longrightarrow> w_pc (ws ! j) = W_Notifying \<longrightarrow> i = j)"

definition barrier_inv :: "barrier \<Rightarrow> bool" where
  "barrier_inv s \<longleftrightarrow>
     master_range (mstr s) (length (team s)) \<and>
     (\<forall>i<length (team s). worker_inv (mstr s) i (team s ! i)) \<and>
     one_notifies (team s) \<and>
     (waits (mstr s) \<longrightarrow> (\<exists>i<length (team s). pending (team s ! i)))"

lemma put_simps [simp]:
  "mstr (put s m i w) = m" "team (put s m i w) = (team s)[i := w]"
  by (simp_all add: put_def)

lemma wake_worker_simps [simp]:
  "w_done (wake_worker w) = w_done w" "w_exit (wake_worker w) = w_exit w"
  "w_pc (wake_worker w) = (if w_pc w = W_Asleep then W_Lock else w_pc w)"
  by (simp_all add: wake_worker_def)

lemma worker_step_inv:
  assumes "worker_step b w w'" and "worker_inv m i w"
  shows "worker_inv m i w'" and "w_pc w' \<noteq> W_Notifying" and "pending w \<Longrightarrow> \<not> told m i \<Longrightarrow> pending w'"
  using assms by (auto simp: worker_inv_def worker_holds_detector_def pending_def elim!: worker_stepE)

lemma all_nth_update:
  "i < length xs \<Longrightarrow> (\<forall>j<length xs. P j (xs[i := w] ! j)) \<longleftrightarrow> P i w \<and> (\<forall>j<length xs. j \<noteq> i \<longrightarrow> P j (xs ! j))"
  by (metis nth_list_update_eq nth_list_update_neq)

lemma one_notifies_update:
  assumes "one_notifies ws" and "i < length ws"
    and "w_pc w = W_Notifying \<Longrightarrow> w_pc (ws ! i) = W_Notifying \<or> (\<forall>v\<in>set ws. w_pc v \<noteq> W_Notifying)"
  shows "one_notifies (ws[i := w])"
  unfolding one_notifies_def
proof (intro allI impI)
  fix j k assume j: "j < length (ws[i := w])" "w_pc (ws[i := w] ! j) = W_Notifying"
    and k: "k < length (ws[i := w])" "w_pc (ws[i := w] ! k) = W_Notifying"
  show "j = k"
    using assms j k nth_mem [of j ws] nth_mem [of k ws]
    by (cases "j = i"; cases "k = i") (auto simp: one_notifies_def)
qed

text \<open>A step of one detector, seen by the invariant.\<close>

lemma barrier_inv_put:
  assumes "barrier_inv s" and "i < length (team s)"
    and "worker_inv (mstr s) i w" and "w_pc w = W_Notifying \<Longrightarrow> \<forall>w\<in>set (team s). w_pc w \<noteq> W_Notifying"
    and "pending (team s ! i) \<Longrightarrow> \<not> told (mstr s) i \<Longrightarrow> pending w"
  shows "barrier_inv (put s (mstr s) i w)"
proof -
  have told: "waits (mstr s) \<Longrightarrow> \<not> told (mstr s) i" by (cases "mstr s") simp_all
  have "\<exists>j<length (team s). pending ((team s)[i := w] ! j)" if w: "waits (mstr s)"
  proof -
    obtain j where j: "j < length (team s)" "pending (team s ! j)"
      using assms(1) w unfolding barrier_inv_def by blast
    then have "pending ((team s)[i := w] ! j)"
      using assms(2,5) told [OF w] by (cases "j = i") simp_all
    with j(1) show ?thesis by blast
  qed
  moreover have "one_notifies ((team s)[i := w])"
    using assms(1,2,4) by (intro one_notifies_update) (simp_all add: barrier_inv_def)
  moreover have "\<forall>j<length (team s). worker_inv (mstr s) j ((team s)[i := w] ! j)"
    using assms(1,2,3) by (simp add: barrier_inv_def all_nth_update [where P = "worker_inv (mstr s)"])
  ultimately show ?thesis using assms(1) by (simp add: barrier_inv_def)
qed

lemma worker_inv_wake_master: "worker_inv m i w \<Longrightarrow> worker_inv (wake_master m) i w"
  by (cases m) (auto simp: worker_inv_def)

lemma wake_master_inv: "barrier_inv s \<Longrightarrow> barrier_inv (s\<lparr> mstr := wake_master (mstr s) \<rparr>)"
  using worker_inv_wake_master [of "mstr s"]
  by (cases "mstr s") (simp_all add: barrier_inv_def)

lemma detector_step_inv:
  assumes "detector_step s s'" and "barrier_inv s"
  shows "barrier_inv s'"
  using assms(1)
proof cases
  case (d_local i b w)
  then have "worker_inv (mstr s) i (team s ! i)" using assms(2) by (simp add: barrier_inv_def)
  then show ?thesis using d_local worker_step_inv [OF d_local(3)] assms(2) by (auto intro!: barrier_inv_put)
next
  case (d_lock i)
  then have "worker_inv (mstr s) i (team s ! i)" using assms(2) by (simp add: barrier_inv_def)
  then show ?thesis unfolding d_lock(1) using d_lock(2-) assms(2)
    by (intro barrier_inv_put) (auto simp: worker_inv_def detector_free_def worker_holds_detector_def pending_def)
next
  case (d_relock i b)
  then have "worker_inv (mstr s) i (team s ! i)" using assms(2) by (simp add: barrier_inv_def)
  then show ?thesis unfolding d_relock(1) using d_relock(2-) assms(2)
    by (intro barrier_inv_put) (auto simp: worker_inv_def detector_free_def worker_holds_detector_def pending_def)
next
  case (d_notify i)
  then have "worker_inv (mstr s) i (team s ! i)" using assms(2) by (simp add: barrier_inv_def)
  then show ?thesis unfolding d_notify(1) using d_notify(2-) assms(2)
    by (intro barrier_inv_put) (auto simp: worker_inv_def done_free_def worker_holds_detector_def pending_def)
next
  case (d_signal i)
  let ?s = "s\<lparr> mstr := wake_master (mstr s) \<rparr>"
  let ?w = "(team s ! i)\<lparr> w_pc := W_Lock \<rparr>"
  have m: "\<not> waits (wake_master (mstr s))"
  proof -
    have "worker_inv (mstr s) i (team s ! i)" using assms(2) d_signal(2) by (simp add: barrier_inv_def)
    then have "\<not> master_holds_done (mstr s)" using d_signal(3) by (auto simp: worker_inv_def)
    then show ?thesis by (cases "mstr s") simp_all
  qed
  have inv: "barrier_inv ?s" using assms(2) by (rule wake_master_inv)
  then have wi: "worker_inv (mstr ?s) i (team s ! i)" using d_signal(2) by (simp add: barrier_inv_def)
  then have "worker_inv (mstr ?s) i ?w" using d_signal(3) by (auto simp: worker_inv_def worker_holds_detector_def)
  moreover have "one_notifies ((team s)[i := ?w])"
    using assms(2) d_signal(2) by (intro one_notifies_update) (simp_all add: barrier_inv_def)
  ultimately have "barrier_inv (put ?s (mstr ?s) i ?w)"
    using inv d_signal(2) m by (simp add: barrier_inv_def all_nth_update [where P = "worker_inv (wake_master (mstr s))"])
  then show ?thesis by (simp add: d_signal(1) put_def)
qed

text \<open>A step of the master that touches no detector.\<close>

lemma barrier_inv_master:
  assumes "barrier_inv s" and "master_range m (length (team s))"
    and "\<And>i. i < length (team s) \<Longrightarrow> worker_inv (mstr s) i (team s ! i) \<Longrightarrow> worker_inv m i (team s ! i)"
    and "waits m \<Longrightarrow> \<exists>i<length (team s). pending (team s ! i)"
  shows "barrier_inv (s\<lparr> mstr := m \<rparr>)"
  using assms by (simp add: barrier_inv_def)

lemma wait_step_inv:
  assumes "wait_step s s'" and "barrier_inv s"
  shows "barrier_inv s'"
  using assms(1)
proof cases
  case (m_lock p)
  then show ?thesis unfolding m_lock(1) using assms(2)
    by (intro barrier_inv_master) (auto simp: worker_inv_def done_free_def)
next
  case (m_check p i)
  then show ?thesis unfolding m_check(1) using assms(2)
    by (intro barrier_inv_master) (auto simp: worker_inv_def detector_free_def)
next
  case (m_busy p i)
  then have "i < length (team s)" using assms(2) by (simp add: barrier_inv_def)
  then show ?thesis unfolding m_busy(1) using m_busy(2-) assms(2)
    by (intro barrier_inv_master) (auto simp: worker_inv_def pending_def)
next
  case (m_next p i)
  have "\<And>j. j < length (team s) \<Longrightarrow> worker_inv (mstr s) j (team s ! j) \<Longrightarrow> worker_inv (M_Check p (i + 1)) j (team s ! j)"
  proof -
    fix j assume j: "worker_inv (mstr s) j (team s ! j)"
    show "worker_inv (M_Check p (i + 1)) j (team s ! j)"
      using j m_next(2,3) by (cases "j = i") (auto simp: worker_inv_def)
  qed
  then show ?thesis unfolding m_next(1) using m_next(2-) assms(2)
    by (intro barrier_inv_master) (auto simp: barrier_inv_def)
next
  case (m_all p)
  then show ?thesis unfolding m_all(1) using assms(2)
    by (intro barrier_inv_master) (auto simp: worker_inv_def)
next
  case (m_sleep p)
  then show ?thesis unfolding m_sleep(1) using assms(2)
    by (intro barrier_inv_master) (auto simp: worker_inv_def barrier_inv_def)
qed

text \<open>A step of the master on one detector.\<close>

lemma barrier_inv_both:
  assumes "barrier_inv s" and "i < length (team s)" and "master_range m (length (team s))" and "\<not> waits m"
    and "\<And>j. j \<noteq> i \<Longrightarrow> worker_inv (mstr s) j (team s ! j) \<Longrightarrow> worker_inv m j (team s ! j)"
    and "worker_inv m i w" and "w_pc w = W_Notifying \<longleftrightarrow> w_pc (team s ! i) = W_Notifying"
  shows "barrier_inv (put s m i w)"
proof -
  have "one_notifies ((team s)[i := w])"
    using assms(1,2,7) by (intro one_notifies_update) (simp_all add: barrier_inv_def)
  moreover have "\<forall>j<length (team s). worker_inv m j ((team s)[i := w] ! j)"
    using assms(1,2,5,6) by (simp add: barrier_inv_def all_nth_update [where P = "worker_inv m"])
  ultimately show ?thesis using assms(3,4) by (simp add: barrier_inv_def)
qed

lemma frame_step_inv:
  assumes "frame_step s s'" and "barrier_inv s"
  shows "barrier_inv s'"
  using assms(1)
proof cases
  case (m_hand i)
  then have "worker_inv (mstr s) i (team s ! i)" "i < length (team s)" using assms(2) by (simp_all add: barrier_inv_def)
  then show ?thesis unfolding m_hand(1) using m_hand(2-) assms(2)
    by (intro barrier_inv_both) (auto simp: worker_inv_def worker_holds_detector_def)
next
  case (m_hand_lock i)
  then show ?thesis unfolding m_hand_lock(1) using assms(2)
    by (intro barrier_inv_master) (auto simp: worker_inv_def detector_free_def)
next
  case (m_hand_none i)
  then show ?thesis unfolding m_hand_none(1) using assms(2)
    by (intro barrier_inv_master) (auto simp: worker_inv_def barrier_inv_def)
next
  case m_handed
  then show ?thesis unfolding m_handed(1) using assms(2)
    by (intro barrier_inv_master) (auto simp: worker_inv_def)
qed (use assms(2) in \<open>auto simp: worker_inv_def intro!: barrier_inv_master\<close>)

lemma close_step_inv:
  assumes "close_step s s'" and "barrier_inv s"
  shows "barrier_inv s'"
  using assms(1)
proof cases
  case (m_closing i)
  then have "worker_inv (mstr s) i (team s ! i)" "i < length (team s)" using assms(2) by (simp_all add: barrier_inv_def)
  then show ?thesis unfolding m_closing(1) using m_closing(2-) assms(2)
    by (intro barrier_inv_both) (auto simp: worker_inv_def worker_holds_detector_def)
next
  case (m_close_lock i)
  then show ?thesis unfolding m_close_lock(1) using assms(2)
    by (intro barrier_inv_master) (auto simp: worker_inv_def detector_free_def)
next
  case (m_join i)
  have "\<And>j. j < length (team s) \<Longrightarrow> worker_inv (mstr s) j (team s ! j) \<Longrightarrow> worker_inv (M_Close (i + 1)) j (team s ! j)"
  proof -
    fix j assume j: "worker_inv (mstr s) j (team s ! j)"
    show "worker_inv (M_Close (i + 1)) j (team s ! j)"
      using j m_join(2,3) by (cases "j = i") (auto simp: worker_inv_def)
  qed
  then show ?thesis unfolding m_join(1) using m_join(2-) assms(2)
    by (intro barrier_inv_master) (auto simp: barrier_inv_def)
next
  case m_closed
  then show ?thesis unfolding m_closed(1) using assms(2)
    by (intro barrier_inv_master) (auto simp: worker_inv_def)
qed (use assms(2) in \<open>auto simp: worker_inv_def intro!: barrier_inv_master\<close>)

lemma arrival_inv: "arrival s s' \<Longrightarrow> barrier_inv s \<Longrightarrow> barrier_inv s'"
  by (erule arrivalE) (auto simp: worker_inv_def intro!: barrier_inv_master)

lemma spurious_inv:
  assumes "spurious s s'" and "barrier_inv s"
  shows "barrier_inv s'"
  using assms(1)
proof cases
  case (s_worker i)
  then have "worker_inv (mstr s) i (team s ! i)" using assms(2) by (simp add: barrier_inv_def)
  then show ?thesis unfolding s_worker(1) using s_worker(2-) assms(2)
    by (intro barrier_inv_put) (auto simp: worker_inv_def worker_holds_detector_def pending_def)
next
  case (s_master p)
  then show ?thesis using wake_master_inv [OF assms(2)] by simp
qed

lemma inner_step_inv: "inner_step s s' \<Longrightarrow> barrier_inv s \<Longrightarrow> barrier_inv s'"
  using detector_step_inv wait_step_inv frame_step_inv close_step_inv by (auto simp: inner_step_def)

lemma launched_inv: "barrier_inv (launched lags)"
  by (simp add: launched_def barrier_inv_def worker_inv_def one_notifies_def)

lemma avmd_reachable_inv: "avmd_reachable lags s \<Longrightarrow> barrier_inv s"
  by (induction rule: avmd_reachable.induct)
    (auto intro: launched_inv inner_step_inv arrival_inv spurious_inv)

section \<open>No race on the session\<close>

text \<open>
  The points at which the master writes what the detectors read: the insertion of the frame, and
  the update of the position; and the one at which it reads their results.
\<close>

definition master_alone :: "master_pc \<Rightarrow> bool" where
  "master_alone m \<longleftrightarrow> m = M_Frame \<or> m = M_Update \<or> m = M_Leave After_hand_out \<or> m = M_Idle"

lemma barrier_alone:
  assumes "barrier_inv s" and "master_alone (mstr s)" and "w \<in> set (team s)"
  shows "w_done w \<and> w_pc w \<noteq> W_Scan \<and> w_pc w \<noteq> W_Finish"
proof -
  obtain i where "i < length (team s)" "w = team s ! i" using assms(3) by (metis in_set_conv_nth)
  then have "worker_inv (mstr s) i w" using assms(1) by (simp add: barrier_inv_def)
  then show ?thesis using assms(2) by (auto simp: worker_inv_def master_alone_def)
qed

text \<open>
  While the master does anything but wait for the end of a frame, no detector that was not handed
  the frame is working: the waits at the start of a frame and at the close never find anybody busy.
\<close>

lemma first_wait_all_done:
  assumes "barrier_inv s" and "mstr s = M_Checking p i" and "p \<noteq> After_hand_out"
  shows "w_done (team s ! i)"
proof -
  have "i < length (team s)" using assms(1,2) by (simp add: barrier_inv_def)
  then have "worker_inv (mstr s) i (team s ! i)" using assms(1) by (simp add: barrier_inv_def)
  then show ?thesis using assms(2,3) by (auto simp: worker_inv_def)
qed

section \<open>No lost wake-up, no deadlock\<close>

text \<open>
  A sleeping master waits for a signal that is still to come, and a sleeping detector for work that
  it was not given.
\<close>

lemma barrier_sleeping:
  assumes "barrier_inv s"
  shows "mstr s = M_Asleep p \<Longrightarrow> \<exists>w\<in>set (team s). pending w"
    and "w \<in> set (team s) \<Longrightarrow> w_pc w = W_Asleep \<Longrightarrow> w_done w \<and> \<not> w_exit w"
proof -
  assume "mstr s = M_Asleep p"
  then obtain i where "i < length (team s)" "pending (team s ! i)" using assms by (auto simp: barrier_inv_def)
  then show "\<exists>w\<in>set (team s). pending w" by (metis nth_mem)
next
  assume "w \<in> set (team s)" "w_pc w = W_Asleep"
  moreover then obtain i where "i < length (team s)" "w = team s ! i" by (metis in_set_conv_nth)
  ultimately show "w_done w \<and> \<not> w_exit w" using assms by (auto simp: barrier_inv_def worker_inv_def)
qed

text \<open>A detector that holds a mutex can always go on.\<close>

lemma holder_steps:
  assumes "i < length (team s)" and "worker_holds_detector (team s ! i) \<or> w_pc (team s ! i) = W_Notifying"
  shows "\<exists>s'. detector_step s s'"
proof (cases "w_pc (team s ! i) = W_Notifying")
  case True
  then show ?thesis using d_signal assms(1) by blast
next
  case False
  then have "w_pc (team s ! i) = W_Test \<or> w_pc (team s ! i) = W_Finish"
    using assms(2) by (auto simp: worker_holds_detector_def)
  then have "\<exists>w. worker_step b (team s ! i) w" for b
    using w_sleep w_leave w_lagging w_work w_finish by (metis gr0I)
  then show ?thesis using d_local assms(1) by blast
qed

text \<open>Nor can a detector that is awake be blocked while the master holds nothing.\<close>

lemma awake_steps:
  assumes "i < length (team s)" and "w_pc (team s ! i) \<notin> {W_Asleep, W_Gone}"
    and "\<And>j. \<not> master_holds_detector (mstr s) j" and "\<not> master_holds_done (mstr s)"
  shows "\<exists>s'. detector_step s s'"
proof (cases "\<exists>j<length (team s). w_pc (team s ! j) = W_Notifying")
  case True
  then show ?thesis using holder_steps by blast
next
  case False
  then have free: "done_free s" using assms(4) by (auto simp: done_free_def in_set_conv_nth)
  show ?thesis
  proof (cases "worker_holds_detector (team s ! i)")
    case True
    then show ?thesis using holder_steps assms(1) by blast
  next
    case False
    then have "detector_free s i" using assms(3) by (simp add: detector_free_def)
    then show ?thesis
      using free assms(1,2) False \<open>\<not> (\<exists>j<length (team s). w_pc (team s ! j) = W_Notifying)\<close>
        d_lock [of i s] d_relock [of i s] d_notify [of i s]
      by (cases "w_pc (team s ! i)") (auto simp: worker_holds_detector_def)
  qed
qed

text \<open>A master that is about to take a detector's mutex gets it, or its holder can go on.\<close>

lemma detector_free_or_steps:
  assumes "i < length (team s)" and "\<And>j. \<not> master_holds_detector (mstr s) j"
  shows "detector_free s i \<or> (\<exists>s'. detector_step s s')"
  using holder_steps [OF assms(1)] assms(2) by (auto simp: detector_free_def)

lemma done_free_or_steps:
  assumes "\<not> master_holds_done (mstr s)"
  shows "done_free s \<or> (\<exists>s'. detector_step s s')"
  using holder_steps assms by (metis done_free_def in_set_conv_nth)

lemma barrier_progress:
  assumes "barrier_inv s" and "mstr s \<noteq> M_Idle" and "mstr s \<noteq> M_Closed"
  shows "\<exists>s'. inner_step s s'"
proof (cases "\<exists>s'. detector_step s s'")
  case True
  then show ?thesis by (auto simp: inner_step_def)
next
  case False
  have range: "master_range (mstr s) (length (team s))" using assms(1) by (simp add: barrier_inv_def)
  have awake: "w_pc (team s ! i) \<in> {W_Asleep, W_Gone}"
    if "i < length (team s)" "\<And>j. \<not> master_holds_detector (mstr s) j" "\<not> master_holds_done (mstr s)" for i
    using awake_steps [OF that(1) _ that(2,3)] False by blast
  have inv: "worker_inv (mstr s) i (team s ! i)" if "i < length (team s)" for i
    using assms(1) that by (simp add: barrier_inv_def)
  have "(\<exists>s'. wait_step s s') \<or> (\<exists>s'. frame_step s s') \<or> (\<exists>s'. close_step s s')"
  proof (cases "mstr s")
    case (M_Lock_done p)
    then have "done_free s" using done_free_or_steps [of s] False by simp
    then show ?thesis using m_lock [OF M_Lock_done] by blast
  next
    case (M_Check p i)
    then show ?thesis using range m_all m_check detector_free_or_steps [of i s] False
      by (cases "i = length (team s)") fastforce+
  next
    case (M_Checking p i)
    then show ?thesis using m_busy m_next by blast
  next
    case (M_Sleepy p)
    then show ?thesis using m_sleep by blast
  next
    case (M_Asleep p)
    then obtain i where i: "i < length (team s)" "pending (team s ! i)" using assms(1) by (auto simp: barrier_inv_def)
    then have "w_pc (team s ! i) \<in> {W_Asleep, W_Gone}" using awake M_Asleep by simp
    then show ?thesis using i inv [OF i(1)] M_Asleep by (auto simp: worker_inv_def pending_def)
  next
    case (M_Leave p)
    then show ?thesis using m_frame m_result m_close by (cases p) blast+
  next
    case M_Frame
    then show ?thesis using m_insert by blast
  next
    case (M_Hand i)
    then show ?thesis using range m_handed m_hand_lock detector_free_or_steps [of i s] False
      by (cases "i = length (team s)") fastforce+
  next
    case (M_Handing i)
    then show ?thesis using m_hand m_hand_none by blast
  next
    case M_Update
    then show ?thesis using m_update by blast
  next
    case (M_Close i)
    then show ?thesis using range m_closed m_close_lock detector_free_or_steps [of i s] False
      by (cases "i = length (team s)") fastforce+
  next
    case (M_Closing i)
    then show ?thesis using m_closing by blast
  next
    case (M_Join i)
    then have "i < length (team s)" using range by simp
    moreover then have "w_pc (team s ! i) = W_Gone"
      using awake [of i] inv [of i] M_Join by (auto simp: worker_inv_def)
    ultimately show ?thesis using m_join [OF M_Join] by blast
  qed (use assms(2,3) in simp_all)
  then show ?thesis by (auto simp: inner_step_def)
qed

section \<open>The work on a frame ends\<close>

text \<open>
  A measure that every step decreases but the arrival of a frame and a spurious wake-up: what a
  detector has still to do, where its signal may send the master through one more scan of \<open>n\<close>
  flags, and what the master has still to do.
\<close>

definition scan_cost :: "nat \<Rightarrow> nat" where
  "scan_cost n = 2 * n + 4"

definition locked_cost :: "nat \<Rightarrow> worker \<Rightarrow> nat" where
  "locked_cost n w = (if w_done w \<and> \<not> w_exit w then 2 else scan_cost n + 8)"

definition worker_cost :: "nat \<Rightarrow> worker \<Rightarrow> nat" where
  "worker_cost n w = (case w_pc w of
     W_Lock \<Rightarrow> locked_cost n w | W_Test \<Rightarrow> locked_cost n w - 1 | W_Asleep \<Rightarrow> 0
   | W_Scan \<Rightarrow> scan_cost n + 6 | W_Finish \<Rightarrow> scan_cost n + 5
   | W_Notify \<Rightarrow> locked_cost n w + scan_cost n + 2 | W_Notifying \<Rightarrow> locked_cost n w + scan_cost n + 1
   | W_Gone \<Rightarrow> 0)"

definition loop_cost :: "nat \<Rightarrow> nat" where
  "loop_cost n = scan_cost n + 20"

fun leave_cost :: "nat \<Rightarrow> wait_point \<Rightarrow> nat" where
  "leave_cost n After_hand_out = 2"
| "leave_cost n Before_frame = n * loop_cost n + scan_cost n + 20"
| "leave_cost n Before_close = n * loop_cost n + 2"

fun master_cost :: "nat \<Rightarrow> master_pc \<Rightarrow> nat" where
  "master_cost n M_Idle = 0"
| "master_cost n (M_Lock_done p) = leave_cost n p + 1 + scan_cost n"
| "master_cost n (M_Check p i) = leave_cost n p + 4 + 2 * (n - i)"
| "master_cost n (M_Checking p i) = leave_cost n p + 3 + 2 * (n - i)"
| "master_cost n (M_Sleepy p) = leave_cost n p + 2"
| "master_cost n (M_Asleep p) = leave_cost n p + 1"
| "master_cost n (M_Leave p) = leave_cost n p"
| "master_cost n M_Frame = n * loop_cost n + scan_cost n + 19"
| "master_cost n (M_Hand i) = (n - i) * loop_cost n + scan_cost n + 4"
| "master_cost n (M_Handing i) = (n - i) * loop_cost n + scan_cost n + 3"
| "master_cost n M_Update = 1"
| "master_cost n (M_Close i) = (n - i) * loop_cost n + 1"
| "master_cost n (M_Closing i) = (n - i) * loop_cost n"
| "master_cost n (M_Join i) = (n - (i + 1)) * loop_cost n + 2"
| "master_cost n M_Closed = 0"

definition barrier_cost :: "barrier \<Rightarrow> nat" where
  "barrier_cost s = master_cost (length (team s)) (mstr s) + sum_list (map (worker_cost (length (team s))) (team s))"

lemma sum_list_update_less:
  fixes c :: "'a \<Rightarrow> nat"
  assumes "i < length xs" and "a + c x < b + c (xs ! i)"
  shows "a + sum_list (map c (xs[i := x])) < b + sum_list (map c xs)"
proof -
  have "sum_list (map c xs) = c (xs ! i) + sum_list (map c (take i xs @ drop (Suc i) xs))"
    using id_take_nth_drop [OF assms(1)] by (metis (no_types, opaque_lifting) add.left_commute list.map(2) map_append sum_list.Cons sum_list_append)
  moreover have "sum_list (map c (xs[i := x])) = c x + sum_list (map c (take i xs @ drop (Suc i) xs))"
    using assms(1) by (simp add: upd_conv_take_nth_drop)
  ultimately show ?thesis using assms(2) by simp
qed

lemma barrier_cost_put:
  assumes "i < length (team s)"
    and "master_cost (length (team s)) m + worker_cost (length (team s)) w
      < master_cost (length (team s)) (mstr s) + worker_cost (length (team s)) (team s ! i)"
  shows "barrier_cost (put s m i w) < barrier_cost s"
  using sum_list_update_less [OF assms(1), of "master_cost (length (team s)) m" "worker_cost (length (team s))" w
      "master_cost (length (team s)) (mstr s)"] assms(2)
  by (simp add: barrier_cost_def)

lemma barrier_cost_master:
  "master_cost (length (team s)) m < master_cost (length (team s)) (mstr s) \<Longrightarrow>
   barrier_cost (s\<lparr> mstr := m \<rparr>) < barrier_cost s"
  by (simp add: barrier_cost_def)

lemma worker_step_cost: "worker_step b w w' \<Longrightarrow> worker_inv m i w \<Longrightarrow> worker_cost n w' < worker_cost n w"
  by (auto simp: worker_cost_def locked_cost_def worker_inv_def elim!: worker_stepE)

lemma wake_master_cost: "master_cost n (wake_master m) \<le> master_cost n m + scan_cost n"
  by (cases m) simp_all

lemma detector_step_cost:
  assumes "detector_step s s'" and "barrier_inv s"
  shows "barrier_cost s' < barrier_cost s"
  using assms(1)
proof cases
  case (d_local i b w)
  then have "worker_inv (mstr s) i (team s ! i)" using assms(2) by (simp add: barrier_inv_def)
  then show ?thesis using d_local worker_step_cost by (auto intro!: barrier_cost_put)
next
  case (d_relock i b)
  then have "worker_inv (mstr s) i (team s ! i)" using assms(2) by (simp add: barrier_inv_def)
  then show ?thesis unfolding d_relock(1) using d_relock(2-)
    by (intro barrier_cost_put) (auto simp: worker_cost_def)
next
  case (d_signal i)
  then show ?thesis unfolding d_signal(1)
    using wake_master_cost [of "length (team s)" "mstr s"]
    by (intro barrier_cost_put) (auto simp: worker_cost_def locked_cost_def)
qed (auto simp: worker_cost_def locked_cost_def intro!: barrier_cost_put)

lemma wait_step_cost:
  assumes "wait_step s s'" and "barrier_inv s"
  shows "barrier_cost s' < barrier_cost s"
  using assms by (auto simp: scan_cost_def barrier_inv_def elim!: wait_stepE intro!: barrier_cost_master)

text \<open>Handing out work, or the order to exit, costs at most one pass of the loop.\<close>

lemma order_cost:
  assumes "\<not> worker_holds_detector w" and "w_pc w \<noteq> W_Scan" and "w_pc w \<noteq> W_Gone" and "w_done w" and "\<not> w_exit w"
  shows "worker_cost n (wake_worker (w\<lparr> w_done := False, w_exit := e \<rparr>)) \<le> worker_cost n w + scan_cost n + 8"
  using assms by (cases "w_pc w") (auto simp: worker_cost_def locked_cost_def worker_holds_detector_def)

lemma loop_cost_step: "i < n \<Longrightarrow> (n - i) * loop_cost n = (n - (i + 1)) * loop_cost n + loop_cost n"
  by (metis Suc_diff_Suc Suc_eq_plus1 add.commute mult_Suc)

lemma order_inv:
  assumes "barrier_inv s" and "mstr s = M_Handing i \<or> mstr s = M_Closing i"
  shows "i < length (team s)" and
    "worker_cost n (wake_worker ((team s ! i)\<lparr> w_done := False, w_exit := e \<rparr>)) \<le> worker_cost n (team s ! i) + scan_cost n + 8"
proof -
  show i: "i < length (team s)" using assms by (auto simp: barrier_inv_def)
  then have "worker_inv (mstr s) i (team s ! i)" using assms(1) by (simp add: barrier_inv_def)
  then have "\<not> worker_holds_detector (team s ! i) \<and> w_pc (team s ! i) \<noteq> W_Scan \<and> w_pc (team s ! i) \<noteq> W_Gone \<and>
      w_done (team s ! i) \<and> \<not> w_exit (team s ! i)"
    using assms(2) by (auto simp: worker_inv_def)
  then show "worker_cost n (wake_worker ((team s ! i)\<lparr> w_done := False, w_exit := e \<rparr>)) \<le> worker_cost n (team s ! i) + scan_cost n + 8"
    by (simp add: order_cost)
qed

lemma frame_step_cost:
  assumes "frame_step s s'" and "barrier_inv s"
  shows "barrier_cost s' < barrier_cost s"
  using assms(1)
proof cases
  case (m_hand i)
  note o = order_inv [OF assms(2) disjI1 [OF m_hand(2)]]
  show ?thesis unfolding m_hand(1)
    using o(1) o(2) [of "length (team s)" False] m_hand(2) loop_cost_step [OF o(1)]
    by (intro barrier_cost_put) (simp_all add: loop_cost_def)
next
  case (m_hand_none i)
  then have "i < length (team s)" using assms(2) by (simp add: barrier_inv_def)
  then show ?thesis unfolding m_hand_none(1) using m_hand_none(2) loop_cost_step [of i "length (team s)"]
    by (intro barrier_cost_master) (simp add: loop_cost_def)
qed (simp_all add: barrier_cost_master)

lemma close_step_cost:
  assumes "close_step s s'" and "barrier_inv s"
  shows "barrier_cost s' < barrier_cost s"
  using assms(1)
proof cases
  case (m_closing i)
  note o = order_inv [OF assms(2) disjI2 [OF m_closing(2)]]
  show ?thesis unfolding m_closing(1)
    using o(1) o(2) [of "length (team s)" True] m_closing(2) loop_cost_step [OF o(1)]
    by (intro barrier_cost_put) (simp_all add: loop_cost_def)
qed (simp_all add: barrier_cost_master)

lemma inner_step_cost: "inner_step s s' \<Longrightarrow> barrier_inv s \<Longrightarrow> barrier_cost s' < barrier_cost s"
  using detector_step_cost wait_step_cost frame_step_cost close_step_cost by (auto simp: inner_step_def)

lemma inner_steps_bounded: "(inner_step ^^ k) s s' \<Longrightarrow> barrier_inv s \<Longrightarrow> barrier_inv s' \<and> k + barrier_cost s' \<le> barrier_cost s"
proof (induction k arbitrary: s')
  case (Suc k)
  then obtain u where u: "(inner_step ^^ k) s u" "inner_step u s'" by auto
  then have "barrier_inv u \<and> k + barrier_cost u \<le> barrier_cost s" using Suc by blast
  then show ?case using inner_step_inv [OF u(2)] inner_step_cost [OF u(2)] by auto
qed simp

lemma barrier_settles:
  assumes "barrier_inv s"
  shows "\<exists>s'. inner_step\<^sup>*\<^sup>* s s' \<and> (mstr s' = M_Idle \<or> mstr s' = M_Closed)"
  using assms
proof (induction "barrier_cost s" arbitrary: s rule: less_induct)
  case less
  show ?case
  proof (cases "mstr s = M_Idle \<or> mstr s = M_Closed")
    case False
    then obtain u where u: "inner_step s u" using barrier_progress less.prems by blast
    then obtain s' where "inner_step\<^sup>*\<^sup>* u s'" "mstr s' = M_Idle \<or> mstr s' = M_Closed"
      using less.hyps [OF inner_step_cost [OF u less.prems] inner_step_inv [OF u less.prems]] by blast
    then show ?thesis using u by (meson converse_rtranclp_into_rtranclp)
  qed blast
qed

section \<open>Properties\<close>

text \<open>A run with one detector up to the insertion of the first frame.\<close>

lemma reach_check: "avmd_reachable [0] ((launched [0])\<lparr> mstr := M_Check Before_frame 0 \<rparr>)"
proof -
  have "avmd_reachable [0] ((launched [0])\<lparr> mstr := M_Lock_done Before_frame \<rparr>)"
    by (rule reach_arrival [OF reach_start a_frame]) (simp add: launched_def)
  moreover have "wait_step ((launched [0])\<lparr> mstr := M_Lock_done Before_frame \<rparr>) ((launched [0])\<lparr> mstr := M_Check Before_frame 0 \<rparr>)"
    using m_lock [of "(launched [0])\<lparr> mstr := M_Lock_done Before_frame \<rparr>" Before_frame]
    by (simp add: launched_def done_free_def)
  ultimately show ?thesis by (meson inner_step_def reach_inner)
qed

lemma reach_checking: "avmd_reachable [0] ((launched [0])\<lparr> mstr := M_Checking Before_frame 0 \<rparr>)"
proof -
  have "wait_step ((launched [0])\<lparr> mstr := M_Check Before_frame 0 \<rparr>) ((launched [0])\<lparr> mstr := M_Checking Before_frame 0 \<rparr>)"
    using m_check [of "(launched [0])\<lparr> mstr := M_Check Before_frame 0 \<rparr>" Before_frame 0]
    by (simp add: launched_def detector_free_def worker_holds_detector_def)
  with reach_check show ?thesis by (meson inner_step_def reach_inner)
qed

lemma reach_frame: "avmd_reachable [0] ((launched [0])\<lparr> mstr := M_Frame \<rparr>)"
proof -
  have "wait_step ((launched [0])\<lparr> mstr := M_Checking Before_frame 0 \<rparr>) ((launched [0])\<lparr> mstr := M_Check Before_frame 1 \<rparr>)"
    using m_next [of "(launched [0])\<lparr> mstr := M_Checking Before_frame 0 \<rparr>" Before_frame 0] by (simp add: launched_def)
  moreover have "wait_step ((launched [0])\<lparr> mstr := M_Check Before_frame 1 \<rparr>) ((launched [0])\<lparr> mstr := M_Leave Before_frame \<rparr>)"
    using m_all [of "(launched [0])\<lparr> mstr := M_Check Before_frame 1 \<rparr>" Before_frame] by (simp add: launched_def)
  moreover have "frame_step ((launched [0])\<lparr> mstr := M_Leave Before_frame \<rparr>) ((launched [0])\<lparr> mstr := M_Frame \<rparr>)"
    using frame_step.m_frame [of "(launched [0])\<lparr> mstr := M_Leave Before_frame \<rparr>"] by (simp add: launched_def)
  ultimately show ?thesis using reach_checking by (meson inner_step_def reach_inner)
qed

text \<open>
  C1. No race on the session: in every reachable state, while the master inserts the frame into the
  shared buffer, reads the verdicts or updates the position, every detector has finished its work:
  none is looking at samples and none is about to write its result.
\<close>

theorem avmd_no_race:
  assumes "avmd_reachable lags s" and "master_alone (mstr s)" and "w \<in> set (team s)"
  shows "w_done w \<and> w_pc w \<noteq> W_Scan \<and> w_pc w \<noteq> W_Finish"
  using barrier_alone [OF avmd_reachable_inv [OF assms(1)] assms(2,3)] .

lemma avmd_no_race_witness:
  "\<exists>s w. avmd_reachable [0] s \<and> mstr s = M_Frame \<and> w \<in> set (team s) \<and> w_done w \<and> w_pc w \<noteq> W_Scan \<and> w_pc w \<noteq> W_Finish"
proof -
  let ?s = "(launched [0])\<lparr> mstr := M_Frame \<rparr>"
  have "master_alone (mstr ?s)" "hd (team ?s) \<in> set (team ?s)" by (simp_all add: launched_def master_alone_def)
  then have "w_done (hd (team ?s)) \<and> w_pc (hd (team ?s)) \<noteq> W_Scan \<and> w_pc (hd (team ?s)) \<noteq> W_Finish"
    by (rule avmd_no_race [OF reach_frame])
  moreover have "mstr ?s = M_Frame" by simp
  ultimately show ?thesis using reach_frame \<open>hd (team ?s) \<in> set (team ?s)\<close> by blast
qed

text \<open>
  C2. No wake-up is lost and nothing deadlocks: in every reachable state, a sleeping master has a
  detector whose signal is still to come, a sleeping detector has no work and no order to exit, and
  unless the master is between frames or the session is closed, some thread can take a step that
  is neither a new frame nor a spurious wake-up.
\<close>

theorem avmd_no_deadlock:
  assumes "avmd_reachable lags s"
  shows "(\<forall>p. mstr s = M_Asleep p \<longrightarrow> (\<exists>w\<in>set (team s). pending w)) \<and>
    (\<forall>w\<in>set (team s). w_pc w = W_Asleep \<longrightarrow> w_done w \<and> \<not> w_exit w) \<and>
    (mstr s \<in> {M_Idle, M_Closed} \<or> (\<exists>s'. inner_step s s'))"
  using barrier_sleeping [OF avmd_reachable_inv [OF assms]] barrier_progress [OF avmd_reachable_inv [OF assms]]
  by blast

lemma avmd_no_deadlock_witness: "\<exists>s'. inner_step ((launched [0])\<lparr> mstr := M_Frame \<rparr>) s'"
  using avmd_no_deadlock [OF reach_frame] by simp



end
