(* ===== verification/Base64.thy ===== *)
theory Base64
  imports Prelude "HOL-Library.Word"
begin

text \<open>
  \<open>mod_audio_fork/base64.hpp\<close>: \<open>base64_encode\<close> and \<open>base64_decode\<close> on strings of bytes, with
  the groups of three and four bytes computed on \<open>unsigned char\<close>. Decoding undoes encoding, and
  what it does on text that is no encoding is determined by the longest valid prefix. The position in
  the input is an \<open>int\<close> in the code; texts are shorter than 2 GiB.
\<close>

unbundle bit_operations_syntax

section \<open>The alphabet\<close>

type_synonym byte = "8 word"

definition base64_chars :: "byte list" where
  "base64_chars = map (\<lambda>c. of_nat (of_char c)) ''ABCDEFGHIJKLMNOPQRSTUVWXYZabcdefghijklmnopqrstuvwxyz0123456789+/''"

definition pad_char :: byte where "pad_char = 61"

definition is_base64 :: "byte \<Rightarrow> bool" where
  "is_base64 c \<longleftrightarrow> c = 43 \<or> (47 \<le> c \<and> c \<le> 57) \<or> (65 \<le> c \<and> c \<le> 90) \<or> (97 \<le> c \<and> c \<le> 122)"

text \<open>
  \<open>static_cast<unsigned char>(base64_chars.find(c))\<close>: the first position, and 255, the low byte
  of \<open>std::string::npos\<close>, when there is none.
\<close>

fun find_from :: "nat \<Rightarrow> byte list \<Rightarrow> byte \<Rightarrow> byte" where
  "find_from n [] c = 255"
| "find_from n (x # xs) c = (if x = c then of_nat n else find_from (n + 1) xs c)"

definition base64_find :: "byte \<Rightarrow> byte" where
  "base64_find c = find_from 0 base64_chars c"

section \<open>Encoding\<close>

text \<open>\<open>char_array_4\<close> from \<open>char_array_3\<close>.\<close>

definition encode_group :: "byte \<Rightarrow> byte \<Rightarrow> byte \<Rightarrow> byte list" where
  "encode_group a0 a1 a2 =
     [drop_bit 2 (a0 AND 0xfc),
      push_bit 4 (a0 AND 0x03) + drop_bit 4 (a1 AND 0xf0),
      push_bit 2 (a1 AND 0x0f) + drop_bit 6 (a2 AND 0xc0),
      a2 AND 0x3f]"

definition base64_char :: "byte \<Rightarrow> byte" where
  "base64_char c = base64_chars ! unat c"

text \<open>
  The loop over the input: \<open>a\<close> holds the entries of \<open>char_array_3\<close> that are filled. The result
  is the text of the complete groups and the bytes left over.
\<close>

fun base64_encode_loop :: "byte list \<Rightarrow> byte list \<Rightarrow> byte list \<times> byte list" where
  "base64_encode_loop a [] = ([], a)"
| "base64_encode_loop a (x # xs) =
     (case a @ [x] of
        [a0, a1, a2] \<Rightarrow> (let (r, rest) = base64_encode_loop [] xs in (map base64_char (encode_group a0 a1 a2) @ r, rest))
      | a \<Rightarrow> base64_encode_loop a xs)"

text \<open>The tail: zeros up to three bytes, \<open>i + 1\<close> characters, \<open>'='\<close> up to four.\<close>

definition base64_encode_tail :: "byte list \<Rightarrow> byte list" where
  "base64_encode_tail a =
     (if a = [] then []
      else let p = a @ replicate (3 - length a) 0
           in take (length a + 1) (map base64_char (encode_group (p ! 0) (p ! 1) (p ! 2))) @
              replicate (3 - length a) pad_char)"

definition base64_encode :: "byte list \<Rightarrow> byte list" where
  "base64_encode inp = (let (r, a) = base64_encode_loop [] inp in r @ base64_encode_tail a)"

section \<open>Decoding\<close>

text \<open>\<open>char_array_3\<close> from the four positions.\<close>

definition decode_group :: "byte \<Rightarrow> byte \<Rightarrow> byte \<Rightarrow> byte \<Rightarrow> byte list" where
  "decode_group c0 c1 c2 c3 =
     [push_bit 2 c0 + drop_bit 4 (c1 AND 0x30),
      push_bit 4 (c1 AND 0xf) + drop_bit 2 (c2 AND 0x3c),
      push_bit 6 (c2 AND 0x3) + c3]"

text \<open>The loop ends at the first character that is \<open>'='\<close> or not in the alphabet.\<close>

fun base64_decode_loop :: "byte list \<Rightarrow> byte list \<Rightarrow> byte list \<times> byte list" where
  "base64_decode_loop a [] = ([], a)"
| "base64_decode_loop a (x # xs) =
     (if x = pad_char \<or> \<not> is_base64 x then ([], a)
      else case a @ [x] of
        [c0, c1, c2, c3] \<Rightarrow>
          (let (r, rest) = base64_decode_loop [] xs
           in (decode_group (base64_find c0) (base64_find c1) (base64_find c2) (base64_find c3) @ r, rest))
      | a \<Rightarrow> base64_decode_loop a xs)"

text \<open>The tail: zeros up to four characters, which are then looked up too; \<open>i - 1\<close> bytes are kept.\<close>

definition base64_decode_tail :: "byte list \<Rightarrow> byte list" where
  "base64_decode_tail a =
     (if a = [] then []
      else let p = map base64_find (a @ replicate (4 - length a) 0)
           in take (length a - 1) (decode_group (p ! 0) (p ! 1) (p ! 2) (p ! 3)))"

definition base64_decode :: "byte list \<Rightarrow> byte list" where
  "base64_decode inp = (let (r, a) = base64_decode_loop [] inp in r @ base64_decode_tail a)"

section \<open>Groups\<close>

lemma byte_cases: "n < 8 \<Longrightarrow> n = 0 \<or> n = 1 \<or> n = 2 \<or> n = 3 \<or> n = 4 \<or> n = 5 \<or> n = 6 \<or> n = (7::nat)" by arith

lemma byte_eqI: "(\<And>n. n < 8 \<Longrightarrow> bit (a :: byte) n = bit b n) \<Longrightarrow> a = b"
  by (rule bit_word_eqI) simp

lemma encode_group_or:
  "encode_group a0 a1 a2 =
     [drop_bit 2 (a0 AND 0xfc),
      push_bit 4 (a0 AND 0x03) OR drop_bit 4 (a1 AND 0xf0),
      push_bit 2 (a1 AND 0x0f) OR drop_bit 6 (a2 AND 0xc0),
      a2 AND 0x3f]"
proof -
  have "push_bit 4 (a0 AND 0x03) AND drop_bit 4 (a1 AND 0xf0) = 0"
    "push_bit 2 (a1 AND 0x0f) AND drop_bit 6 (a2 AND 0xc0) = 0"
    by (rule byte_eqI; auto simp: bit_simps dest!: byte_cases)+
  then show ?thesis by (simp add: encode_group_def disjunctive_add_eq_or)
qed

lemma decode_encode_group:
  "(case encode_group a0 a1 a2 of [c0, c1, c2, c3] \<Rightarrow> decode_group c0 c1 c2 c3 | _ \<Rightarrow> []) = [a0, a1, a2]"
proof -
  have "push_bit 2 (drop_bit 2 (a0 AND 0xfc)) AND drop_bit 4 ((push_bit 4 (a0 AND 0x03) OR drop_bit 4 (a1 AND 0xf0)) AND 0x30) = 0"
    "push_bit 4 ((push_bit 4 (a0 AND 0x03) OR drop_bit 4 (a1 AND 0xf0)) AND 0xf) AND
      drop_bit 2 ((push_bit 2 (a1 AND 0x0f) OR drop_bit 6 (a2 AND 0xc0)) AND 0x3c) = 0"
    "push_bit 6 ((push_bit 2 (a1 AND 0x0f) OR drop_bit 6 (a2 AND 0xc0)) AND 0x3) AND (a2 AND 0x3f) = 0"
    by (rule byte_eqI; auto simp: bit_simps dest!: byte_cases)+
  moreover have "push_bit 2 (drop_bit 2 (a0 AND 0xfc)) OR drop_bit 4 ((push_bit 4 (a0 AND 0x03) OR drop_bit 4 (a1 AND 0xf0)) AND 0x30) = a0"
    "push_bit 4 ((push_bit 4 (a0 AND 0x03) OR drop_bit 4 (a1 AND 0xf0)) AND 0xf) OR
      drop_bit 2 ((push_bit 2 (a1 AND 0x0f) OR drop_bit 6 (a2 AND 0xc0)) AND 0x3c) = a1"
    "push_bit 6 ((push_bit 2 (a1 AND 0x0f) OR drop_bit 6 (a2 AND 0xc0)) AND 0x3) OR (a2 AND 0x3f) = a2"
    by (rule byte_eqI, auto simp: bit_simps dest!: byte_cases; simp add: numeral_2_eq_2 numeral_3_eq_3)+
  ultimately show ?thesis by (simp add: encode_group_or decode_group_def disjunctive_add_eq_or)
qed


lemma encode_group_small:
  assumes "x \<in> set (encode_group a0 a1 a2)"
  shows "unat x < 64"
proof -
  have "take_bit 6 x = x"
    using assms unfolding encode_group_or
    by (intro byte_eqI) (auto simp: bit_simps dest!: byte_cases)
  then have "unat x = take_bit 6 (unat x)" by (metis unsigned_take_bit_eq)
  also have "\<dots> < 64" using take_bit_nat_less_exp [of 6 "unat x"] by simp
  finally show ?thesis .
qed

lemma base64_chars_eq: "base64_chars = map of_nat ([65..<91] @ [97..<123] @ [48..<58] @ [43, 47])"
  by (simp add: base64_chars_def upt_rec)

lemma base64_chars_distinct: "distinct base64_chars"
proof -
  have "inj_on (of_nat :: nat \<Rightarrow> byte) {0..<256}"
    by (rule inj_onI) (drule arg_cong [of _ _ unat], simp add: unat_of_nat)
  then show ?thesis
    unfolding base64_chars_eq distinct_map by (intro conjI; (rule inj_on_subset)?) auto
qed

lemma find_from_nth: "distinct xs \<Longrightarrow> i < length xs \<Longrightarrow> find_from n xs (xs ! i) = of_nat (n + i)"
proof (induction xs arbitrary: n i)
  case (Cons x xs)
  then show ?case by (cases i) auto
qed simp

lemma base64_chars_length: "length base64_chars = 64"
  by (simp add: base64_chars_eq)

lemma base64_find_char: "unat c < 64 \<Longrightarrow> base64_find (base64_char c) = c"
  using find_from_nth [OF base64_chars_distinct, of "unat c" 0]
  by (simp add: base64_find_def base64_char_def base64_chars_length)

lemma base64_chars_valid: "x \<in> set base64_chars \<Longrightarrow> is_base64 x \<and> x \<noteq> pad_char"
proof -
  assume "x \<in> set base64_chars"
  then have "\<exists>n. x = of_nat n \<and> n \<in> set ([65..<91] @ [97..<123] @ [48..<58] @ [43, 47])"
    unfolding base64_chars_eq set_map by blast
  then obtain n where n: "x = of_nat n" "(65 \<le> n \<and> n < 91) \<or> (97 \<le> n \<and> n < 123) \<or> (48 \<le> n \<and> n < 58) \<or> n = 43 \<or> n = 47"
    by (elim exE conjE) (rule that, assumption, simp only: set_append set_upt Un_iff atLeastLessThan_iff list.set insert_iff empty_iff, blast)
  then have "unat x = n" by (auto simp: unat_of_nat)
  then show ?thesis using n(2) by (simp add: is_base64_def pad_char_def word_le_nat_alt word_unat_eq_iff) arith
qed

lemma base64_char_valid: "unat c < 64 \<Longrightarrow> is_base64 (base64_char c) \<and> base64_char c \<noteq> pad_char"
  by (rule base64_chars_valid) (simp add: base64_char_def base64_chars_length)

section \<open>Round trip\<close>

lemma decode_loop_group:
  assumes "\<And>x. x \<in> {c0, c1, c2, c3} \<Longrightarrow> unat x < 64"
  shows "base64_decode_loop [] (map base64_char [c0, c1, c2, c3] @ t) =
    (let (d, b) = base64_decode_loop [] t in (decode_group c0 c1 c2 c3 @ d, b))"
  using assms by (simp add: base64_char_valid base64_find_char)

lemma decode_loop_encoded:
  "base64_decode_loop [] (map base64_char (encode_group a0 a1 a2) @ t) =
    (let (d, b) = base64_decode_loop [] t in ([a0, a1, a2] @ d, b))"
proof -
  obtain c0 c1 c2 c3 where c: "encode_group a0 a1 a2 = [c0, c1, c2, c3]" by (simp add: encode_group_def)
  have "decode_group c0 c1 c2 c3 = [a0, a1, a2]" using decode_encode_group [of a0 a1 a2] c by simp
  moreover have "\<And>x. x \<in> {c0, c1, c2, c3} \<Longrightarrow> unat x < 64" using encode_group_small [of _ a0 a1 a2] c by auto
  ultimately show ?thesis unfolding c using decode_loop_group [of c0 c1 c2 c3 t] by simp
qed

lemma encode_loop_short: "length a < 2 \<Longrightarrow> base64_encode_loop a (x # xs) = base64_encode_loop (a @ [x]) xs"
  by (cases a) simp_all

lemma encode_loop_decodes:
  assumes "base64_encode_loop a xs = (r, rest)" and "length a < 3"
  shows "length rest < 3 \<and> (\<exists>ys. a @ xs = ys @ rest \<and>
    (\<forall>t. base64_decode_loop [] (r @ t) = (let (d, b) = base64_decode_loop [] t in (ys @ d, b))))"
  using assms
proof (induction xs arbitrary: a r rest)
  case Nil
  then show ?case by auto
next
  case (Cons x xs)
  show ?case
  proof (cases "length a < 2")
    case True
    then have "base64_encode_loop (a @ [x]) xs = (r, rest)" "length (a @ [x]) < 3"
      using Cons.prems(1) encode_loop_short [OF True, of x xs] by (simp_all del: base64_encode_loop.simps)
    from Cons.IH [OF this] show ?thesis by simp
  next
    case False
    then obtain a0 a1 where a: "a = [a0, a1]"
      using Cons.prems(2) by (auto simp: length_Suc_conv numeral_3_eq_3 less_Suc_eq numeral_2_eq_2)
    obtain r' rest' where p: "base64_encode_loop [] xs = (r', rest')" by fastforce
    then have r: "rest' = rest" "r = map base64_char (encode_group a0 a1 x) @ r'"
      using Cons.prems(1) by (simp_all add: a)
    obtain ys where ys: "length rest < 3" "xs = ys @ rest"
      "\<And>t. base64_decode_loop [] (r' @ t) = (let (d, b) = base64_decode_loop [] t in (ys @ d, b))"
      using Cons.IH [OF p] r(1) by auto
    have "base64_decode_loop [] (r @ t) = (let (d, b) = base64_decode_loop [] t in ((a @ x # ys) @ d, b))" for t
      by (simp add: ys(3) r(2) decode_loop_encoded a split: prod.splits)
    with ys(1,2) show ?thesis by (intro conjI exI [of _ "a @ x # ys"] allI) simp_all
  qed
qed

lemma decode_tail_encoded:
  assumes "length a < 3"
  shows "\<exists>b. base64_decode_loop [] (base64_encode_tail a) = ([], b) \<and> base64_decode_tail b = a"
proof -
  consider "a = []" | a0 where "a = [a0]" | a0 a1 where "a = [a0, a1]"
    using assms by (auto simp: less_Suc_eq length_Suc_conv numeral_3_eq_3)
  then show ?thesis
  proof cases
    case 1
    then show ?thesis by (simp add: base64_encode_tail_def base64_decode_tail_def)
  next
    case 2
    obtain c0 c1 c2 c3 where c: "encode_group a0 0 0 = [c0, c1, c2, c3]" by (simp add: encode_group_def)
    have "unat c0 < 64" "unat c1 < 64" using encode_group_small [of _ a0 0 0] c by auto
    then show ?thesis
      using decode_encode_group [of a0 0 0] c 2
      by (intro exI [of _ "map base64_char [c0, c1]"])
        (simp add: base64_encode_tail_def base64_decode_tail_def base64_char_valid base64_find_char decode_group_def numeral_2_eq_2)
  next
    case 3
    obtain c0 c1 c2 c3 where c: "encode_group a0 a1 0 = [c0, c1, c2, c3]" by (simp add: encode_group_def)
    have "unat c0 < 64" "unat c1 < 64" "unat c2 < 64" using encode_group_small [of _ a0 a1 0] c by auto
    then show ?thesis
      using decode_encode_group [of a0 a1 0] c 3
      by (intro exI [of _ "map base64_char [c0, c1, c2]"])
        (simp add: base64_encode_tail_def base64_decode_tail_def base64_char_valid base64_find_char decode_group_def eval_nat_numeral)
  qed
qed

text \<open>Decoding undoes encoding, for every string of bytes.\<close>

theorem base64_decode_encode: "base64_decode (base64_encode xs) = xs"
proof -
  obtain r a where e: "base64_encode_loop [] xs = (r, a)" by fastforce
  obtain ys where ys: "length a < 3" "xs = ys @ a"
      "\<forall>t. base64_decode_loop [] (r @ t) = (let (d, b) = base64_decode_loop [] t in (ys @ d, b))"
    using encode_loop_decodes [OF e] by auto
  obtain b where "base64_decode_loop [] (base64_encode_tail a) = ([], b)" "base64_decode_tail b = a"
    using decode_tail_encoded [OF ys(1)] by blast
  then have "base64_decode (r @ base64_encode_tail a) = ys @ a" by (simp add: base64_decode_def ys(3))
  then show ?thesis by (simp add: base64_encode_def e flip: ys(2))
qed

section \<open>Text that is no encoding\<close>

definition valid_prefix :: "byte list \<Rightarrow> byte list" where
  "valid_prefix inp = takeWhile (\<lambda>x. x \<noteq> pad_char \<and> is_base64 x) inp"

lemma decode_loop_short:
  "length a < 3 \<Longrightarrow> base64_decode_loop a (x # xs) =
    (if x = pad_char \<or> \<not> is_base64 x then ([], a) else base64_decode_loop (a @ [x]) xs)"
  by (cases a rule: remdups_adj.cases) simp_all

lemma decode_loop_spec:
  assumes "length a < 4"
  shows "base64_decode_loop a (valid_prefix inp) = base64_decode_loop a inp \<and>
    length (fst (base64_decode_loop a inp)) = 3 * ((length a + length (valid_prefix inp)) div 4) \<and>
    length (snd (base64_decode_loop a inp)) = (length a + length (valid_prefix inp)) mod 4"
  using assms
proof (induction inp arbitrary: a)
  case Nil
  then show ?case by (simp add: valid_prefix_def)
next
  case (Cons x xs)
  show ?case
  proof (cases "x = pad_char \<or> \<not> is_base64 x")
    case True
    then have "valid_prefix (x # xs) = []" by (auto simp: valid_prefix_def)
    then show ?thesis using True Cons.prems by simp
  next
    case valid: False
    then have p: "valid_prefix (x # xs) = x # valid_prefix xs" by (simp add: valid_prefix_def)
    show ?thesis
    proof (cases "length a < 3")
      case True
      then show ?thesis
        using Cons.IH [of "a @ [x]"] valid decode_loop_short [OF True] unfolding p by (simp del: base64_decode_loop.simps)
    next
      case False
      then obtain c0 c1 c2 where a: "a = [c0, c1, c2]"
        using Cons.prems by (auto simp: length_Suc_conv eval_nat_numeral less_Suc_eq)
      have four: "(4 + n) div 4 = Suc (n div 4)" for n :: nat by presburger
      show ?thesis
        using Cons.IH [of "[]"] valid a unfolding p by (auto simp: four decode_group_def split: prod.splits)
    qed
  qed
qed

lemma decode_tail_length: "length a < 4 \<Longrightarrow> length (base64_decode_tail a) = length a - 1"
  by (auto simp: base64_decode_tail_def decode_group_def Let_def)

text \<open>
  On any text, decoding looks at the longest prefix of the alphabet only, never fails, and gives
  three bytes for every four characters of it, and one byte less than the characters that remain.
\<close>

theorem base64_decode_any:
  "base64_decode inp = base64_decode (valid_prefix inp) \<and>
   length (base64_decode inp) = 3 * (length (valid_prefix inp) div 4) + (length (valid_prefix inp) mod 4 - 1)"
proof -
  obtain d a where l: "base64_decode_loop [] inp = (d, a)" by fastforce
  have s: "base64_decode_loop [] (valid_prefix inp) = (d, a)" "length d = 3 * (length (valid_prefix inp) div 4)"
    "length a = length (valid_prefix inp) mod 4"
    using decode_loop_spec [of "[]" inp] l by simp_all
  then have "length a < 4" by simp
  then show ?thesis using s by (simp add: base64_decode_def l decode_tail_length)
qed

end
