(* ===== verification/AudioPipe.thy ===== *)
theory AudioPipe
  imports Prelude
begin

text \<open>
  \<open>mod_audio_fork/audio_pipe.cpp\<close> and \<open>audio_pipe.hpp\<close>: the websocket client over libwebsockets.
  An \<open>AudioPipe\<close> is an object at an address; a deleted object is no longer in the heap, and reading
  it is undefined. Sessions put work for the service threads into the lists of pending connects,
  disconnects and writes and interrupt the service; libwebsockets then calls \<open>lws_callback\<close>, which
  works the lists off and drives the state of each pipe.

  What libwebsockets answers (the socket of a connection attempt, the fragments it received, how
  much of a write was accepted) is an argument of the step that gets it, and every call into it is
  recorded. The notification callback is a parameter; \<open>LwsGlue\<close> has the one the module passes. Each
  step is one call, as the mutexes of the lists and buffers make it. Allocations succeed.
\<close>

section \<open>State\<close>

datatype lws_state =
    LWS_CLIENT_IDLE | LWS_CLIENT_CONNECTING | LWS_CLIENT_CONNECTED | LWS_CLIENT_FAILED
  | LWS_CLIENT_DISCONNECTING | LWS_CLIENT_DISCONNECTED

datatype notify_event =
    CONNECT_SUCCESS | CONNECT_FAIL | CONNECTION_DROPPED | CONNECTION_CLOSED_GRACEFULLY | MESSAGE

record pipe =
  m_state :: lws_state
  m_uuid :: string
  m_host :: string                    \<comment> \<open>where the pipe connects to\<close>
  m_port :: nat
  m_path :: string
  m_sslFlags :: int
  m_username :: string
  m_password :: string
  m_wsi :: "nat option"               \<comment> \<open>NULL before a connection attempt and after a failed one\<close>
  m_vhd :: bool                       \<comment> \<open>m_vhd is set\<close>
  m_metadata :: string                \<comment> \<open>text to be sent\<close>
  audio_buffer :: "char option list"
  write_offset :: nat
  min_freespace :: nat
  recv_buf :: "string option"         \<comment> \<open>what was written to m_recv_buf, up to m_recv_buf_ptr\<close>
  recv_len :: nat                     \<comment> \<open>m_recv_buf_len, its size\<close>
  m_graceful :: bool

datatype write_kind = LWS_WRITE_TEXT | LWS_WRITE_BINARY

datatype lws_call =
    Cancel_service
  | Callback_on_writable "nat option"
  | Lws_write nat write_kind "char option list"
  | Close_reason nat
  | Add_auth_header nat string string \<comment> \<open>lws_add_http_header_by_token of the header for user and password\<close>

record pipes =
  pipe_at :: "nat \<rightharpoonup> pipe"           \<comment> \<open>the objects that exist\<close>
  user_data :: "nat \<rightharpoonup> nat"          \<comment> \<open>the pointer libwebsockets keeps for a socket: *ppAp\<close>
  pending_connects :: "nat list"
  pending_disconnects :: "nat list"
  pending_writes :: "nat list"
  lws_calls :: "lws_call list"

text \<open>\<open>m_callback(uuid, event, message)\<close>.\<close>

type_synonym 'm notifier = "string \<Rightarrow> notify_event \<Rightarrow> string option \<Rightarrow> 'm pipes_scheme \<Rightarrow> 'm pipes_scheme option"

definition calls_lws :: "lws_call \<Rightarrow> 'm pipes_scheme \<Rightarrow> 'm pipes_scheme" where
  "calls_lws c w = w\<lparr> lws_calls := lws_calls w @ [c] \<rparr>"

definition put_pipe :: "nat \<Rightarrow> pipe \<Rightarrow> 'm pipes_scheme \<Rightarrow> 'm pipes_scheme" where
  "put_pipe a p w = w\<lparr> pipe_at := (pipe_at w)(a \<mapsto> p) \<rparr>"

section \<open>Constants\<close>

definition MAX_RECV_BUF_SIZE :: nat where "MAX_RECV_BUF_SIZE = 65 * 1024 * 10"
definition RECV_BUF_REALLOC_SIZE :: nat where "RECV_BUF_REALLOC_SIZE = 8 * 1024"

section \<open>The life of an object\<close>

text \<open>
  The constructor. \<open>pre\<close> is \<open>LWS_PRE\<close>, the room libwebsockets wants before the data of a write.
\<close>

definition pipe_new :: "nat \<Rightarrow> string \<Rightarrow> string \<Rightarrow> nat \<Rightarrow> string \<Rightarrow> int \<Rightarrow> nat \<Rightarrow> nat \<Rightarrow> string option \<Rightarrow> string option \<Rightarrow> pipe" where
  "pipe_new pre uuid host port path sslFlags bufLen minFreespace username password =
     \<lparr> m_state = LWS_CLIENT_IDLE, m_uuid = uuid, m_host = host, m_port = port, m_path = path, m_sslFlags = sslFlags,
       m_username = (case (username, password) of (Some u, Some p) \<Rightarrow> u | _ \<Rightarrow> []),
       m_password = (case (username, password) of (Some u, Some p) \<Rightarrow> p | _ \<Rightarrow> []),
       m_wsi = None, m_vhd = False, m_metadata = [], audio_buffer = replicate bufLen None,
       write_offset = pre, min_freespace = minFreespace, recv_buf = None, recv_len = 0, m_graceful = False \<rparr>"

definition pipe_delete :: "nat \<Rightarrow> 'm pipes_scheme \<Rightarrow> 'm pipes_scheme" where
  "pipe_delete a w = w\<lparr> pipe_at := (pipe_at w)(a := None) \<rparr>"

section \<open>The lists of pending work\<close>

definition add_pending_connect :: "nat \<Rightarrow> 'm pipes_scheme \<Rightarrow> 'm pipes_scheme" where
  "add_pending_connect a w = calls_lws Cancel_service (w\<lparr> pending_connects := pending_connects w @ [a] \<rparr>)"

text \<open>The service to be interrupted is found through \<open>m_vhd\<close>.\<close>

definition cancel_service_of :: "nat \<Rightarrow> 'm pipes_scheme \<Rightarrow> 'm pipes_scheme option" where
  "cancel_service_of a w = do {
     p \<leftarrow> pipe_at w a;
     if m_vhd p then Some (calls_lws Cancel_service w) else None
   }"

definition add_pending_disconnect :: "nat \<Rightarrow> 'm pipes_scheme \<Rightarrow> 'm pipes_scheme option" where
  "add_pending_disconnect a w = do {
     p \<leftarrow> pipe_at w a;
     let w = put_pipe a (p\<lparr> m_state := LWS_CLIENT_DISCONNECTING \<rparr>) w;
     cancel_service_of a (w\<lparr> pending_disconnects := pending_disconnects w @ [a] \<rparr>)
   }"

definition add_pending_write :: "nat \<Rightarrow> 'm pipes_scheme \<Rightarrow> 'm pipes_scheme option" where
  "add_pending_write a w = cancel_service_of a (w\<lparr> pending_writes := pending_writes w @ [a] \<rparr>)"

text \<open>
  The objects of a list that are in a given state; every object of the list is read.
\<close>

fun in_state :: "lws_state \<Rightarrow> nat list \<Rightarrow> 'm pipes_scheme \<Rightarrow> nat list option" where
  "in_state st [] w = Some []"
| "in_state st (a # as) w = do {
     p \<leftarrow> pipe_at w a;
     rest \<leftarrow> in_state st as w;
     Some (if m_state p = st then a # rest else rest)
   }"

text \<open>The idle ones among the pending connects, each marked as connecting when it is found.\<close>

fun mark_connecting :: "nat list \<Rightarrow> 'm pipes_scheme \<Rightarrow> (nat list \<times> 'm pipes_scheme) option" where
  "mark_connecting [] w = Some ([], w)"
| "mark_connecting (a # as) w = do {
     p \<leftarrow> pipe_at w a;
     if m_state p = LWS_CLIENT_IDLE then do {
       (rest, w) \<leftarrow> mark_connecting as (put_pipe a (p\<lparr> m_state := LWS_CLIENT_CONNECTING \<rparr>) w);
       Some (a # rest, w) }
     else mark_connecting as w
   }"

text \<open>
  \<open>connect_client\<close>: \<open>conn a\<close> is what \<open>lws_client_connect_via_info\<close> returns for \<open>a\<close>; the assertion
  that \<open>m_vhd\<close> is not yet set ends the process when it fails.
\<close>

definition connect_client :: "(nat \<Rightarrow> nat option) \<Rightarrow> nat \<Rightarrow> 'm pipes_scheme \<Rightarrow> 'm pipes_scheme option" where
  "connect_client conn a w = do {
     p \<leftarrow> pipe_at w a;
     if m_vhd p then None
     else Some (put_pipe a (p\<lparr> m_state := LWS_CLIENT_CONNECTING, m_vhd := True, m_wsi := conn a \<rparr>) w)
   }"

fun connect_all :: "(nat \<Rightarrow> nat option) \<Rightarrow> nat list \<Rightarrow> 'm pipes_scheme \<Rightarrow> 'm pipes_scheme option" where
  "connect_all conn [] w = Some w"
| "connect_all conn (a # as) w = do { w \<leftarrow> connect_client conn a w; connect_all conn as w }"

definition process_pending_connects :: "(nat \<Rightarrow> nat option) \<Rightarrow> 'm pipes_scheme \<Rightarrow> 'm pipes_scheme option" where
  "process_pending_connects conn w = do {
     (connects, w) \<leftarrow> mark_connecting (pending_connects w) w;
     connect_all conn connects w
   }"

fun writable_all :: "nat list \<Rightarrow> 'm pipes_scheme \<Rightarrow> 'm pipes_scheme option" where
  "writable_all [] w = Some w"
| "writable_all (a # as) w = do { p \<leftarrow> pipe_at w a; writable_all as (calls_lws (Callback_on_writable (m_wsi p)) w) }"

definition process_pending_disconnects :: "'m pipes_scheme \<Rightarrow> 'm pipes_scheme option" where
  "process_pending_disconnects w = do {
     disconnects \<leftarrow> in_state LWS_CLIENT_DISCONNECTING (pending_disconnects w) w;
     writable_all disconnects (w\<lparr> pending_disconnects := [] \<rparr>)
   }"

definition process_pending_writes :: "'m pipes_scheme \<Rightarrow> 'm pipes_scheme option" where
  "process_pending_writes w = do {
     writes \<leftarrow> in_state LWS_CLIENT_CONNECTED (pending_writes w) w;
     writable_all writes (w\<lparr> pending_writes := [] \<rparr>)
   }"

text \<open>
  The search for the connecting object of a socket; it also collects the objects without a socket it
  passes, which \<open>findAndRemovePendingConnect\<close> removes from the list.
\<close>

fun scan_connects :: "nat \<Rightarrow> nat list \<Rightarrow> 'm pipes_scheme \<Rightarrow> (nat list \<times> nat option) option" where
  "scan_connects s [] w = Some ([], None)"
| "scan_connects s (a # as) w = do {
     p \<leftarrow> pipe_at w a;
     let drop = (if m_wsi p = None then [a] else []);
     if m_state p = LWS_CLIENT_CONNECTING \<and> m_wsi p = Some s then Some (drop, Some a)
     else do { (rest, found) \<leftarrow> scan_connects s as w; Some (drop @ rest, found) }
   }"

definition find_and_remove_pending_connect :: "nat \<Rightarrow> 'm pipes_scheme \<Rightarrow> (nat option \<times> 'm pipes_scheme) option" where
  "find_and_remove_pending_connect s w = do {
     (remove, found) \<leftarrow> scan_connects s (pending_connects w) w;
     Some (found, w\<lparr> pending_connects := filter (\<lambda>a. a \<notin> set remove \<and> found \<noteq> Some a) (pending_connects w) \<rparr>)
   }"

definition find_pending_connect :: "nat \<Rightarrow> 'm pipes_scheme \<Rightarrow> nat option option" where
  "find_pending_connect s w = map_option snd (scan_connects s (pending_connects w) w)"

section \<open>Sessions\<close>

definition pipe_connect :: "nat \<Rightarrow> 'm pipes_scheme \<Rightarrow> 'm pipes_scheme" where
  "pipe_connect a w = add_pending_connect a w"

definition buffer_for_sending :: "nat \<Rightarrow> string \<Rightarrow> 'm pipes_scheme \<Rightarrow> 'm pipes_scheme option" where
  "buffer_for_sending a text w = do {
     p \<leftarrow> pipe_at w a;
     if m_state p \<noteq> LWS_CLIENT_CONNECTED then Some w
     else add_pending_write a (put_pipe a (p\<lparr> m_metadata := m_metadata p @ text \<rparr>) w)
   }"

definition unlock_audio_buffer :: "nat \<Rightarrow> nat \<Rightarrow> 'm pipes_scheme \<Rightarrow> 'm pipes_scheme option" where
  "unlock_audio_buffer pre a w = do {
     p \<leftarrow> pipe_at w a;
     if pre < write_offset p then add_pending_write a w else Some w
   }"

definition pipe_close :: "nat \<Rightarrow> 'm pipes_scheme \<Rightarrow> 'm pipes_scheme option" where
  "pipe_close a w = do {
     p \<leftarrow> pipe_at w a;
     if m_state p \<noteq> LWS_CLIENT_CONNECTED then Some w else add_pending_disconnect a w
   }"

definition do_graceful_shutdown :: "nat \<Rightarrow> 'm pipes_scheme \<Rightarrow> 'm pipes_scheme option" where
  "do_graceful_shutdown a w = do {
     p \<leftarrow> pipe_at w a;
     add_pending_write a (put_pipe a (p\<lparr> m_graceful := True \<rparr>) w)
   }"

text \<open>The audio buffer: the room left, a \<open>size_t\<close>, and a write at the write pointer.\<close>

definition space_available :: "pipe \<Rightarrow> nat" where
  "space_available p = (length (audio_buffer p) + 2 ^ 64 - write_offset p) mod 2 ^ 64"

definition audio_write :: "string \<Rightarrow> pipe \<Rightarrow> pipe option" where
  "audio_write d p = map_option (\<lambda>m. p\<lparr> audio_buffer := m, write_offset := write_offset p + length d \<rparr>)
     (write_at (write_offset p) d (audio_buffer p))"

definition has_basic_auth :: "pipe \<Rightarrow> bool" where
  "has_basic_auth p \<longleftrightarrow> m_username p \<noteq> [] \<and> m_password p \<noteq> []"

section \<open>The callback of libwebsockets\<close>

record fragment =
  rx_binary :: bool                   \<comment> \<open>lws_frame_is_binary\<close>
  rx_first :: bool                    \<comment> \<open>lws_is_first_fragment\<close>
  rx_final :: bool                    \<comment> \<open>lws_is_final_fragment\<close>
  rx_remaining :: nat                 \<comment> \<open>lws_remaining_packet_payload\<close>
  rx_data :: string

datatype lws_reason =
    Append_handshake_header bool      \<comment> \<open>does adding the header fail?\<close>
  | Event_wait_cancelled "nat \<Rightarrow> nat option"
  | Client_connection_error "string option"
  | Client_established
  | Client_closed
  | Client_receive fragment
  | Client_writeable int              \<comment> \<open>what lws_write returns\<close>
  | Other_reason

text \<open>What the callback returns; \<open>Dummy\<close> is the result of \<open>lws_callback_http_dummy\<close>.\<close>

datatype callback_result = Dummy | Return int

text \<open>The check of \<open>dch_lws_http_basic_auth_gen\<close> against the buffer of 128 bytes.\<close>

definition auth_too_long :: "string \<Rightarrow> string \<Rightarrow> bool" where
  "auth_too_long user pw \<longleftrightarrow> 128 < 6 + 4 * (length user + length pw + 1) div 3 + 1"

definition on_handshake :: "nat \<Rightarrow> bool \<Rightarrow> 'm pipes_scheme \<Rightarrow> (callback_result \<times> 'm pipes_scheme) option" where
  "on_handshake s fails w = do {
     found \<leftarrow> find_pending_connect s w;
     case found of
       None \<Rightarrow> Some (Dummy, w)
     | Some a \<Rightarrow> do {
         p \<leftarrow> pipe_at w a;
         if \<not> has_basic_auth p \<or> auth_too_long (m_username p) (m_password p) then Some (Dummy, w)
         else Some (if fails then Return (-1) else Dummy, calls_lws (Add_auth_header s (m_username p) (m_password p)) w)
       }
   }"

definition on_connection_error ::
  "'m notifier \<Rightarrow> nat \<Rightarrow> string option \<Rightarrow> 'm pipes_scheme \<Rightarrow> (callback_result \<times> 'm pipes_scheme) option" where
  "on_connection_error notify s reason w = do {
     (found, w) \<leftarrow> find_and_remove_pending_connect s w;
     case found of
       None \<Rightarrow> Some (Dummy, w)
     | Some a \<Rightarrow> do {
         p \<leftarrow> pipe_at w a;
         w \<leftarrow> notify (m_uuid p) CONNECT_FAIL reason (put_pipe a (p\<lparr> m_state := LWS_CLIENT_FAILED \<rparr>) w);
         Some (Dummy, w)
       }
   }"

text \<open>When no object is found, the message that says so reads the uuid of the NULL object.\<close>

definition on_established :: "'m notifier \<Rightarrow> nat \<Rightarrow> 'm pipes_scheme \<Rightarrow> (callback_result \<times> 'm pipes_scheme) option" where
  "on_established notify s w = do {
     (found, w) \<leftarrow> find_and_remove_pending_connect s w;
     a \<leftarrow> found;
     p \<leftarrow> pipe_at w a;
     let w = put_pipe a (p\<lparr> m_vhd := True, m_state := LWS_CLIENT_CONNECTED \<rparr>) (w\<lparr> user_data := (user_data w)(s \<mapsto> a) \<rparr>);
     w \<leftarrow> notify (m_uuid p) CONNECT_SUCCESS None w;
     Some (Dummy, w)
   }"

definition on_closed :: "'m notifier \<Rightarrow> nat \<Rightarrow> 'm pipes_scheme \<Rightarrow> (callback_result \<times> 'm pipes_scheme) option" where
  "on_closed notify s w = do {
     a \<leftarrow> user_data w s;
     p \<leftarrow> pipe_at w a;
     w \<leftarrow> (if m_state p = LWS_CLIENT_DISCONNECTING then notify (m_uuid p) CONNECTION_CLOSED_GRACEFULLY None w
          else if m_state p = LWS_CLIENT_CONNECTED then notify (m_uuid p) CONNECTION_DROPPED None w
          else Some w);
     p \<leftarrow> pipe_at w a;
     let w = put_pipe a (p\<lparr> m_state := LWS_CLIENT_DISCONNECTED \<rparr>) w;
     Some (Dummy, pipe_delete a (w\<lparr> user_data := (user_data w)(s := None) \<rparr>))
   }"

text \<open>
  Making room for a fragment: the buffer as the fragment finds it, \<open>None\<close> when it was given up.
\<close>

definition recv_room :: "nat \<Rightarrow> string option \<times> nat \<Rightarrow> string option \<times> nat" where
  "recv_room len b = (case b of (buf, sz) \<Rightarrow>
     let off = (case buf of Some d \<Rightarrow> length d | None \<Rightarrow> 0)
     in if sz - off < len then
          (if MAX_RECV_BUF_SIZE < sz + RECV_BUF_REALLOC_SIZE then (None, 0)
           else (Some (case buf of Some d \<Rightarrow> d | None \<Rightarrow> []), sz + RECV_BUF_REALLOC_SIZE))
        else (buf, sz))"

text \<open>
  A fragment: the new buffer and the message when it is complete. The first fragment asserts that
  there is no buffer; a copy that does not fit is undefined.
\<close>

definition receive_fragment :: "fragment \<Rightarrow> string option \<times> nat \<Rightarrow> ((string option \<times> nat) \<times> string option) option" where
  "receive_fragment x b = do {
     b \<leftarrow> (if rx_first x then
             (if fst b = None then Some (Some [], length (rx_data x) + rx_remaining x) else None)
           else Some b);
     case recv_room (length (rx_data x)) b of
       (None, sz) \<Rightarrow> Some ((None, sz), None)
     | (Some d, sz) \<Rightarrow>
         (if sz < length d + length (rx_data x) then None
          else if rx_final x then Some ((None, 0), Some (d @ rx_data x))
          else Some ((Some (d @ rx_data x), sz), None))
   }"

text \<open>The message is passed as a C string, which ends at the first NUL.\<close>

definition on_receive :: "'m notifier \<Rightarrow> nat \<Rightarrow> fragment \<Rightarrow> 'm pipes_scheme \<Rightarrow> (callback_result \<times> 'm pipes_scheme) option" where
  "on_receive notify s x w = do {
     a \<leftarrow> user_data w s;
     p \<leftarrow> pipe_at w a;
     if rx_binary x then Some (Return 0, w)
     else do {
       ((buf, sz), msg) \<leftarrow> receive_fragment x (recv_buf p, recv_len p);
       let w = put_pipe a (p\<lparr> recv_buf := buf, recv_len := sz \<rparr>) w;
       w \<leftarrow> (case msg of
               Some m \<Rightarrow> notify (m_uuid p) MESSAGE (Some (takeWhile (\<lambda>c. c \<noteq> CHR 0x00) m)) w
             | None \<Rightarrow> Some w);
       Some (Dummy, w)
     }
   }"

definition on_writeable :: "nat \<Rightarrow> nat \<Rightarrow> int \<Rightarrow> 'm pipes_scheme \<Rightarrow> (callback_result \<times> 'm pipes_scheme) option" where
  "on_writeable pre s sent w = do {
     a \<leftarrow> user_data w s;
     p \<leftarrow> pipe_at w a;
     if m_graceful p then Some (Return 0, calls_lws (Lws_write s LWS_WRITE_BINARY []) w)
     else if m_metadata p \<noteq> [] then do {
       let n = int (length (m_metadata p));
       let w = calls_lws (Lws_write s LWS_WRITE_TEXT (map Some (m_metadata p))) (put_pipe a (p\<lparr> m_metadata := [] \<rparr>) w);
       if sent < n then Some (Return (-1), w)
       else Some (Return 0, calls_lws (Callback_on_writable (Some s)) w)
     }
     else if m_state p = LWS_CLIENT_DISCONNECTING then Some (Return (-1), calls_lws (Close_reason s) w)
     else if pre < write_offset p then do {
       let data = take (write_offset p - pre) (drop pre (audio_buffer p));
       Some (Return 0, calls_lws (Lws_write s LWS_WRITE_BINARY data) (put_pipe a (p\<lparr> write_offset := pre \<rparr>) w))
     }
     else Some (Return 0, w)
   }"

definition lws_callback ::
  "nat \<Rightarrow> 'm notifier \<Rightarrow> nat \<Rightarrow> lws_reason \<Rightarrow> 'm pipes_scheme \<Rightarrow> (callback_result \<times> 'm pipes_scheme) option" where
  "lws_callback pre notify s reason w = (case reason of
     Append_handshake_header fails \<Rightarrow> on_handshake s fails w
   | Event_wait_cancelled conn \<Rightarrow> do {
       w \<leftarrow> process_pending_connects conn w;
       w \<leftarrow> process_pending_disconnects w;
       w \<leftarrow> process_pending_writes w;
       Some (Dummy, w) }
   | Client_connection_error reason \<Rightarrow> on_connection_error notify s reason w
   | Client_established \<Rightarrow> on_established notify s w
   | Client_closed \<Rightarrow> on_closed notify s w
   | Client_receive x \<Rightarrow> on_receive notify s x w
   | Client_writeable sent \<Rightarrow> on_writeable pre s sent w
   | Other_reason \<Rightarrow> Some (Dummy, w))"

section \<open>Messages\<close>

text \<open>A run of fragments on one buffer, with the messages it completes.\<close>

fun receive_all :: "fragment list \<Rightarrow> string option \<times> nat \<Rightarrow> ((string option \<times> nat) \<times> string list) option" where
  "receive_all [] b = Some (b, [])"
| "receive_all (x # xs) b = do {
     (b, msg) \<leftarrow> receive_fragment x b;
     (b, msgs) \<leftarrow> receive_all xs b;
     Some (b, (case msg of Some m \<Rightarrow> m # msgs | None \<Rightarrow> msgs))
   }"

text \<open>The fragments after the first one of a message, up to the final one.\<close>

fun continuation :: "fragment list \<Rightarrow> bool" where
  "continuation [] = False"
| "continuation [x] = (\<not> rx_first x \<and> rx_final x)"
| "continuation (x # xs) = (\<not> rx_first x \<and> \<not> rx_final x \<and> continuation xs)"

definition message_text :: "fragment list \<Rightarrow> string" where
  "message_text xs = concat (map rx_data xs)"

lemma recv_room_fits: "length d + len \<le> sz \<Longrightarrow> recv_room len (Some d, sz) = (Some d, sz)"
  by (auto simp: recv_room_def)

lemma recv_room_grows:
  "sz < length d + len \<Longrightarrow> length d \<le> sz \<Longrightarrow> sz + RECV_BUF_REALLOC_SIZE \<le> MAX_RECV_BUF_SIZE \<Longrightarrow>
    recv_room len (Some d, sz) = (Some d, sz + RECV_BUF_REALLOC_SIZE)"
  by (auto simp: recv_room_def)

lemma recv_room_gives_up:
  "sz < length d + len \<Longrightarrow> length d \<le> sz \<Longrightarrow> MAX_RECV_BUF_SIZE < sz + RECV_BUF_REALLOC_SIZE \<Longrightarrow>
    recv_room len (Some d, sz) = (None, 0)"
  by (auto simp: recv_room_def)

lemma receive_continuing:
  assumes "\<not> rx_first x" and "length d \<le> sz" and "length (rx_data x) \<le> RECV_BUF_REALLOC_SIZE"
    and "length d + length (rx_data x) + RECV_BUF_REALLOC_SIZE \<le> MAX_RECV_BUF_SIZE"
  shows "\<exists>sz'. length d + length (rx_data x) \<le> sz' \<and>
    receive_fragment x (Some d, sz) = Some (if rx_final x then ((None, 0), Some (d @ rx_data x)) else ((Some (d @ rx_data x), sz'), None))"
proof (cases "length d + length (rx_data x) \<le> sz")
  case True
  then show ?thesis using assms(1) by (auto simp: receive_fragment_def recv_room_fits intro!: exI [of _ sz])
next
  case False
  then have "recv_room (length (rx_data x)) (Some d, sz) = (Some d, sz + RECV_BUF_REALLOC_SIZE)"
    using assms(2,4) by (intro recv_room_grows) simp_all
  then show ?thesis
    using assms(1,2,3) by (auto simp: receive_fragment_def intro!: exI [of _ "sz + RECV_BUF_REALLOC_SIZE"])
qed

lemma receive_continuation:
  assumes "continuation xs" and "length d \<le> sz" and "\<forall>x\<in>set xs. length (rx_data x) \<le> RECV_BUF_REALLOC_SIZE"
    and "length d + length (message_text xs) + RECV_BUF_REALLOC_SIZE \<le> MAX_RECV_BUF_SIZE"
  shows "receive_all xs (Some d, sz) = Some ((None, 0), [d @ message_text xs])"
  using assms
proof (induction xs arbitrary: d sz rule: continuation.induct)
  case (2 x)
  then show ?case using receive_continuing [of x d sz] by (auto simp: message_text_def)
next
  case (3 x y xs)
  have "\<not> rx_first x" "\<not> rx_final x" "length (rx_data x) \<le> RECV_BUF_REALLOC_SIZE"
    "length d + length (rx_data x) + RECV_BUF_REALLOC_SIZE \<le> MAX_RECV_BUF_SIZE"
    using "3.prems"(1,3,4) by (simp_all add: message_text_def)
  then have "\<exists>sz'. length d + length (rx_data x) \<le> sz' \<and>
    receive_fragment x (Some d, sz) = Some ((Some (d @ rx_data x), sz'), None)"
    using receive_continuing [of x d sz] "3.prems"(2) by simp
  then obtain sz' where sz': "length d + length (rx_data x) \<le> sz'"
    "receive_fragment x (Some d, sz) = Some ((Some (d @ rx_data x), sz'), None)" by blast
  have "receive_all (y # xs) (Some (d @ rx_data x), sz') = Some ((None, 0), [(d @ rx_data x) @ message_text (y # xs)])"
    using "3.prems" sz'(1) by (intro "3.IH") (simp_all add: message_text_def)
  then show ?case by (subst receive_all.simps) (simp add: sz'(2) message_text_def)
qed simp


definition sample_fragment :: "bool \<Rightarrow> bool \<Rightarrow> string \<Rightarrow> fragment" where
  "sample_fragment first final d = \<lparr> rx_binary = False, rx_first = first, rx_final = final, rx_remaining = 0, rx_data = d \<rparr>"


text \<open>
  A message beyond the limit is not discarded: the fragment that finds no room is dropped with
  all before it, and what follows it is collected anew and delivered as if it were a message.
\<close>

theorem long_message_tail_delivered:
  assumes "\<not> rx_first x" and "\<not> rx_final x" and "length d \<le> sz" and "sz < length d + length (rx_data x)"
    and "MAX_RECV_BUF_SIZE < sz + RECV_BUF_REALLOC_SIZE"
    and "continuation (y # xs)" and "rx_data y \<noteq> []" and "\<forall>y\<in>set (y # xs). length (rx_data y) \<le> RECV_BUF_REALLOC_SIZE"
    and "length (message_text (y # xs)) + RECV_BUF_REALLOC_SIZE \<le> MAX_RECV_BUF_SIZE"
  shows "receive_all (x # y # xs) (Some d, sz) = Some ((None, 0), [message_text (y # xs)])"
proof -
  have "receive_fragment x (Some d, sz) = Some ((None, 0), None)"
    using assms(1-5) by (simp add: receive_fragment_def recv_room_gives_up)
  moreover have "receive_fragment y (None, 0) = receive_fragment y (Some [], RECV_BUF_REALLOC_SIZE)"
  proof -
    have "recv_room (length (rx_data y)) (None, 0) = (Some [], RECV_BUF_REALLOC_SIZE)"
      using assms(7) by (simp add: recv_room_def RECV_BUF_REALLOC_SIZE_def MAX_RECV_BUF_SIZE_def)
    moreover have "recv_room (length (rx_data y)) (Some [], RECV_BUF_REALLOC_SIZE) = (Some [], RECV_BUF_REALLOC_SIZE)"
      using assms(8) by (intro recv_room_fits) simp
    moreover have "\<not> rx_first y" using assms(6) by (cases xs) simp_all
    ultimately show ?thesis by (simp add: receive_fragment_def)
  qed
  then have "receive_all (y # xs) (None, 0) = receive_all (y # xs) (Some [], RECV_BUF_REALLOC_SIZE)"
    by simp
  moreover have "receive_all (y # xs) (Some [], RECV_BUF_REALLOC_SIZE) = Some ((None, 0), [[] @ message_text (y # xs)])"
    using assms(6,8,9) by (intro receive_continuation) simp_all
  ultimately show ?thesis by (subst receive_all.simps) simp
qed

theorem long_message_tail_delivered_witness:
  "\<exists>x y d sz. receive_all [x, y] (Some d, sz) = Some ((None, 0), [rx_data y]) \<and> d \<noteq> [] \<and> rx_data x \<noteq> []"
proof -
  let ?x = "sample_fragment False False ''x''" and ?y = "sample_fragment False True ''y''"
  let ?d = "replicate MAX_RECV_BUF_SIZE CHR ''d''"
  have "receive_all (?x # ?y # []) (Some ?d, MAX_RECV_BUF_SIZE) = Some ((None, 0), [message_text [?y]])"
    by (rule long_message_tail_delivered) (simp_all add: sample_fragment_def message_text_def RECV_BUF_REALLOC_SIZE_def MAX_RECV_BUF_SIZE_def)
  then have "receive_all [?x, ?y] (Some ?d, MAX_RECV_BUF_SIZE) = Some ((None, 0), [rx_data ?y])"
    by (simp add: message_text_def del: receive_all.simps)
  moreover have "?d \<noteq> []" "rx_data ?x \<noteq> []" by (simp_all add: MAX_RECV_BUF_SIZE_def sample_fragment_def)
  ultimately show ?thesis by blast
qed

section \<open>Streams\<close>

text \<open>
  What happens to a connected pipe between its notifications: a session writes audio and releases
  the buffer, a session sends text, and libwebsockets can write to the socket.
\<close>

datatype stream_op = Put string | Say string | Write int

fun stream_step :: "nat \<Rightarrow> nat \<Rightarrow> nat \<Rightarrow> stream_op \<Rightarrow> 'm pipes_scheme \<Rightarrow> 'm pipes_scheme option" where
  "stream_step pre a s (Put d) w = do {
     p \<leftarrow> pipe_at w a;
     p \<leftarrow> audio_write d p;
     unlock_audio_buffer pre a (put_pipe a p w)
   }"
| "stream_step pre a s (Say t) w = buffer_for_sending a t w"
| "stream_step pre a s (Write n) w = map_option snd (on_writeable pre s n w)"

fun stream_steps :: "nat \<Rightarrow> nat \<Rightarrow> nat \<Rightarrow> stream_op list \<Rightarrow> 'm pipes_scheme \<Rightarrow> 'm pipes_scheme option" where
  "stream_steps pre a s [] w = Some w"
| "stream_steps pre a s (x # xs) w = stream_step pre a s x w \<bind> stream_steps pre a s xs"

text \<open>What was put in, what was said, and what was written to a socket.\<close>

fun put_in :: "stream_op list \<Rightarrow> string" where
  "put_in [] = []"
| "put_in (Put d # xs) = d @ put_in xs"
| "put_in (_ # xs) = put_in xs"

fun said :: "stream_op list \<Rightarrow> string" where
  "said [] = []"
| "said (Say t # xs) = t @ said xs"
| "said (_ # xs) = said xs"

definition written_by :: "nat \<Rightarrow> write_kind \<Rightarrow> lws_call \<Rightarrow> char option list" where
  "written_by s k c = (case c of Lws_write s' k' d \<Rightarrow> if s' = s \<and> k' = k then d else [] | _ \<Rightarrow> [])"

definition written :: "nat \<Rightarrow> write_kind \<Rightarrow> lws_call list \<Rightarrow> char option list" where
  "written s k cs = concat (map (written_by s k) cs)"

lemma written_append [simp]: "written s k (cs @ ds) = written s k cs @ written s k ds"
  by (simp add: written_def)

lemma written_simps [simp]:
  "written s k [] = []" "written s k (c # cs) = written_by s k c @ written s k cs"
  "written_by s k Cancel_service = []" "written_by s k (Callback_on_writable x) = []"
  "written_by s k (Lws_write s' k' d) = (if s' = s \<and> k' = k then d else [])"
  by (simp_all add: written_def written_by_def)

lemma world_simps [simp]:
  "pipe_at (calls_lws c w) = pipe_at w" "user_data (calls_lws c w) = user_data w"
  "pending_connects (calls_lws c w) = pending_connects w" "pending_disconnects (calls_lws c w) = pending_disconnects w"
  "pending_writes (calls_lws c w) = pending_writes w" "lws_calls (calls_lws c w) = lws_calls w @ [c]"
  "pipes.more (calls_lws c w) = pipes.more w"
  "pipe_at (put_pipe a p w) = (pipe_at w)(a \<mapsto> p)" "user_data (put_pipe a p w) = user_data w"
  "pending_connects (put_pipe a p w) = pending_connects w" "pending_disconnects (put_pipe a p w) = pending_disconnects w"
  "pending_writes (put_pipe a p w) = pending_writes w" "lws_calls (put_pipe a p w) = lws_calls w"
  "pipes.more (put_pipe a p w) = pipes.more w"
  by (simp_all add: calls_lws_def put_pipe_def)

definition streaming :: "nat \<Rightarrow> nat \<Rightarrow> nat \<Rightarrow> string \<Rightarrow> string \<Rightarrow> 'm pipes_scheme \<Rightarrow> bool" where
  "streaming pre a s puts says w \<longleftrightarrow> (\<exists>p. pipe_at w a = Some p \<and> user_data w s = Some a \<and>
     m_state p = LWS_CLIENT_CONNECTED \<and> m_vhd p \<and> \<not> m_graceful p \<and>
     pre \<le> write_offset p \<and> write_offset p \<le> length (audio_buffer p) \<and>
     written s LWS_WRITE_BINARY (lws_calls w) @ take (write_offset p - pre) (drop pre (audio_buffer p)) = map Some puts \<and>
     written s LWS_WRITE_TEXT (lws_calls w) @ map Some (m_metadata p) = map Some says)"

lemma audio_write_buffered:
  assumes "audio_write d p = Some p'" and "pre \<le> write_offset p" and "write_offset p \<le> length (audio_buffer p)"
  shows "take (write_offset p' - pre) (drop pre (audio_buffer p')) =
      take (write_offset p - pre) (drop pre (audio_buffer p)) @ map Some d"
    and "p' = p\<lparr> audio_buffer := audio_buffer p', write_offset := write_offset p + length d \<rparr>"
    and "write_offset p' \<le> length (audio_buffer p')" and "length (audio_buffer p') = length (audio_buffer p)"
  using assms by (auto simp: audio_write_def write_at_def take_drop split: if_splits)

lemma stream_put:
  assumes "streaming pre a s puts says w" and "stream_step pre a s (Put d) w = Some w'"
  shows "streaming pre a s (puts @ d) says w'"
proof -
  obtain p where p: "pipe_at w a = Some p" "user_data w s = Some a" "m_state p = LWS_CLIENT_CONNECTED" "m_vhd p"
      "\<not> m_graceful p" "pre \<le> write_offset p" "write_offset p \<le> length (audio_buffer p)"
      "written s LWS_WRITE_BINARY (lws_calls w) @ take (write_offset p - pre) (drop pre (audio_buffer p)) = map Some puts"
      "written s LWS_WRITE_TEXT (lws_calls w) @ map Some (m_metadata p) = map Some says"
    using assms(1) by (auto simp: streaming_def)
  obtain p' where p': "audio_write d p = Some p'" using assms(2) p(1) by (auto simp: bind_eq_Some_conv)
  note b = audio_write_buffered [OF p' p(6,7)]
  have eqs: "m_state p' = m_state p" "m_vhd p' = m_vhd p" "m_graceful p' = m_graceful p" "m_metadata p' = m_metadata p"
    "write_offset p' = write_offset p + length d"
    by (subst b(2); simp)+
  have w': "pipe_at w' a = Some p'" "user_data w' s = Some a" "\<exists>cs. lws_calls w' = lws_calls w @ cs \<and> written s LWS_WRITE_BINARY cs = [] \<and> written s LWS_WRITE_TEXT cs = []"
    using assms(2) p(1,2) p' eqs(2) p(4)
    by (auto simp: unlock_audio_buffer_def add_pending_write_def cancel_service_of_def split: if_splits
      intro: exI [of _ "[]"] exI [of _ "[Cancel_service]"])
  then obtain cs where cs: "lws_calls w' = lws_calls w @ cs" "written s LWS_WRITE_BINARY cs = []" "written s LWS_WRITE_TEXT cs = []"
    by blast
  show ?thesis
    unfolding streaming_def
    by (rule exI [of _ p']) (use w'(1,2) cs p eqs b(1,3) in \<open>simp add: b(1) flip: append_assoc\<close>)
qed

lemma stream_say:
  assumes "streaming pre a s puts says w" and "stream_step pre a s (Say t) w = Some w'"
  shows "streaming pre a s puts (says @ t) w'"
  using assms
  by (auto simp: streaming_def buffer_for_sending_def add_pending_write_def cancel_service_of_def simp flip: append_assoc)

lemma stream_write:
  assumes "streaming pre a s puts says w" and "stream_step pre a s (Write n) w = Some w'"
  shows "streaming pre a s puts says w'"
  using assms
  by (auto simp: streaming_def on_writeable_def Let_def split: if_splits)

lemma stream_steps_streaming:
  assumes "streaming pre a s puts says w" and "stream_steps pre a s xs w = Some w'"
  shows "streaming pre a s (puts @ put_in xs) (says @ said xs) w'"
  using assms
proof (induction xs arbitrary: puts says w)
  case (Cons x xs)
  obtain w1 where w1: "stream_step pre a s x w = Some w1" "stream_steps pre a s xs w1 = Some w'"
    using Cons.prems(2) by (cases "stream_step pre a s x w") auto
  show ?case
    using Cons.IH [OF stream_put w1(2)] Cons.IH [OF stream_say w1(2)] Cons.IH [OF stream_write w1(2)] Cons.prems(1) w1(1)
    by (cases x) auto
qed simp

text \<open>A run returns when all that is put in fits into the buffer.\<close>

definition audio_room :: "nat \<Rightarrow> 'm pipes_scheme \<Rightarrow> nat" where
  "audio_room a w = (case pipe_at w a of Some p \<Rightarrow> length (audio_buffer p) - write_offset p | None \<Rightarrow> 0)"

lemma stream_step_defined:
  assumes "streaming pre a s puts says w" and "length (put_in [x]) \<le> audio_room a w"
  shows "\<exists>w'. stream_step pre a s x w = Some w' \<and> audio_room a w - length (put_in [x]) \<le> audio_room a w'"
proof -
  obtain p where p: "pipe_at w a = Some p" "user_data w s = Some a" "m_state p = LWS_CLIENT_CONNECTED" "m_vhd p"
      "\<not> m_graceful p" "pre \<le> write_offset p" "write_offset p \<le> length (audio_buffer p)"
    using assms(1) by (auto simp: streaming_def)
  show ?thesis
  proof (cases x)
    case (Put d)
    then have "write_offset p + length d \<le> length (audio_buffer p)"
      using assms(2) p(1,7) by (simp add: audio_room_def)
    then have "audio_write d p \<noteq> None"
      using write_at_defined [of "write_offset p" d "audio_buffer p"] by (simp add: audio_write_def)
    then obtain p' where p': "audio_write d p = Some p'" by blast
    note b = audio_write_buffered [OF p' p(6,7)]
    have "m_vhd p'" "write_offset p' = write_offset p + length d" by (subst b(2), simp add: p(4))+
    then show ?thesis
      using Put p p' b(4)
      by (auto simp: unlock_audio_buffer_def add_pending_write_def cancel_service_of_def audio_room_def)
  next
    case (Say t)
    then show ?thesis
      using p by (auto simp: buffer_for_sending_def add_pending_write_def cancel_service_of_def audio_room_def)
  next
    case (Write n)
    then show ?thesis
      using p by (auto simp: on_writeable_def Let_def audio_room_def)
  qed
qed

lemma stream_steps_defined:
  assumes "streaming pre a s puts says w" and "length (put_in xs) \<le> audio_room a w"
  shows "\<exists>w'. stream_steps pre a s xs w = Some w'"
  using assms
proof (induction xs arbitrary: puts says w)
  case (Cons x xs)
  have len: "length (put_in (x # xs)) = length (put_in [x]) + length (put_in xs)" by (cases x) simp_all
  then obtain w1 where w1: "stream_step pre a s x w = Some w1" "audio_room a w - length (put_in [x]) \<le> audio_room a w1"
    using stream_step_defined [OF Cons.prems(1), of x] Cons.prems(2) by auto
  have "\<exists>puts says. streaming pre a s puts says w1"
    using stream_put [OF Cons.prems(1)] stream_say [OF Cons.prems(1)] stream_write [OF Cons.prems(1)] w1(1)
    by (cases x) blast+
  then obtain puts' says' where "streaming pre a s puts' says' w1" by blast
  from Cons.IH [OF this] w1 len Cons.prems(2) show ?case by simp
qed simp


definition sample_pipe :: pipe where
  "sample_pipe = (pipe_new 2 ''u'' ''h'' 80 ''/'' 0 8 2 None None)\<lparr> m_state := LWS_CLIENT_CONNECTED, m_wsi := Some 7, m_vhd := True \<rparr>"

definition sample_world :: pipes where
  "sample_world = \<lparr> pipe_at = [1 \<mapsto> sample_pipe], user_data = [7 \<mapsto> 1], pending_connects = [], pending_disconnects = [],
     pending_writes = [], lws_calls = [] \<rparr>"


end
