(* ===== verification/PipeSafety.thy ===== *)
theory PipeSafety
  imports AudioPipe
begin

text \<open>
  Which calls into \<open>audio_pipe.cpp\<close> are defined. \<open>pipes_inv\<close> is the invariant of the objects, the
  sockets and the lists of pending work; the locale \<open>pipe_client\<close> is the contract between the pipes
  and the callback they notify: what the callback may change, and that after the last notification
  about a pipe its client no longer uses it. Inside the locale every event libwebsockets can deliver
  is shown to be handled and to keep the invariant, provided that a socket is not closed while its
  pipe is in a list of pending work.
\<close>

section \<open>The invariant\<close>

definition open_pipe :: "pipe \<Rightarrow> bool" where
  "open_pipe p \<longleftrightarrow> m_state p = LWS_CLIENT_CONNECTED \<or> m_state p = LWS_CLIENT_DISCONNECTING"

definition live_pipe :: "pipe \<Rightarrow> bool" where
  "live_pipe p \<longleftrightarrow> m_state p = LWS_CLIENT_CONNECTING \<or> open_pipe p"

definition recv_ok :: "pipe \<Rightarrow> bool" where
  "recv_ok p \<longleftrightarrow> (case recv_buf p of None \<Rightarrow> recv_len p = 0 | Some d \<Rightarrow> length d \<le> recv_len p)"

definition pipe_ok :: "'m pipes_scheme \<Rightarrow> nat \<Rightarrow> pipe \<Rightarrow> bool" where
  "pipe_ok w a p \<longleftrightarrow>
     (m_state p = LWS_CLIENT_IDLE \<longrightarrow> \<not> m_vhd p \<and> m_wsi p = None \<and> a \<in> set (pending_connects w)) \<and>
     (m_state p \<noteq> LWS_CLIENT_IDLE \<longrightarrow> m_vhd p) \<and>
     (open_pipe p \<longrightarrow> (\<exists>s. m_wsi p = Some s \<and> user_data w s = Some a)) \<and>
     m_state p \<noteq> LWS_CLIENT_DISCONNECTED \<and> recv_ok p"

definition idle_at :: "'m pipes_scheme \<Rightarrow> nat \<Rightarrow> bool" where
  "idle_at w a \<longleftrightarrow> (\<exists>p. pipe_at w a = Some p \<and> m_state p = LWS_CLIENT_IDLE)"

definition waiting_at :: "'m pipes_scheme \<Rightarrow> nat \<Rightarrow> bool" where
  "waiting_at w a \<longleftrightarrow> (\<exists>p. pipe_at w a = Some p \<and> (m_state p = LWS_CLIENT_IDLE \<or> m_state p = LWS_CLIENT_CONNECTING))"

definition pipes_inv :: "'m pipes_scheme \<Rightarrow> bool" where
  "pipes_inv w \<longleftrightarrow>
     (\<forall>s a. user_data w s = Some a \<longrightarrow> (\<exists>p. pipe_at w a = Some p \<and> m_wsi p = Some s \<and> open_pipe p)) \<and>
     (\<forall>a p. pipe_at w a = Some p \<longrightarrow> pipe_ok w a p) \<and>
     (\<forall>a\<in>set (pending_connects w). waiting_at w a) \<and>
     (\<forall>a\<in>set (pending_disconnects w) \<union> set (pending_writes w). pipe_at w a \<noteq> None) \<and>
     (\<forall>a b p q s. pipe_at w a = Some p \<longrightarrow> pipe_at w b = Some q \<longrightarrow> live_pipe p \<longrightarrow> live_pipe q \<longrightarrow>
        m_wsi p = Some s \<longrightarrow> m_wsi q = Some s \<longrightarrow> a = b) \<and>
     distinct (pending_connects w) \<and>
     sorted_wrt (\<lambda>a b. idle_at w a \<longrightarrow> idle_at w b) (pending_connects w)"

lemma pipes_invI:
  assumes "\<And>s a. user_data w s = Some a \<Longrightarrow> \<exists>p. pipe_at w a = Some p \<and> m_wsi p = Some s \<and> open_pipe p"
    and "\<And>a p. pipe_at w a = Some p \<Longrightarrow> pipe_ok w a p"
    and "\<And>a. a \<in> set (pending_connects w) \<Longrightarrow> waiting_at w a"
    and "\<And>a. a \<in> set (pending_disconnects w) \<union> set (pending_writes w) \<Longrightarrow> pipe_at w a \<noteq> None"
    and "\<And>a b p q s. pipe_at w a = Some p \<Longrightarrow> pipe_at w b = Some q \<Longrightarrow> live_pipe p \<Longrightarrow> live_pipe q \<Longrightarrow>
        m_wsi p = Some s \<Longrightarrow> m_wsi q = Some s \<Longrightarrow> a = b"
    and "distinct (pending_connects w)"
    and "sorted_wrt (\<lambda>a b. idle_at w a \<longrightarrow> idle_at w b) (pending_connects w)"
  shows "pipes_inv w"
  unfolding pipes_inv_def by (intro conjI allI impI ballI) (use assms in blast)+

lemma pipes_invD:
  assumes "pipes_inv w"
  shows "user_data w s = Some a \<Longrightarrow> \<exists>p. pipe_at w a = Some p \<and> m_wsi p = Some s \<and> open_pipe p"
    and "pipe_at w a = Some p \<Longrightarrow> pipe_ok w a p"
    and "a \<in> set (pending_connects w) \<Longrightarrow> waiting_at w a"
    and "a \<in> set (pending_disconnects w) \<union> set (pending_writes w) \<Longrightarrow> pipe_at w a \<noteq> None"
    and "pipe_at w a = Some p \<Longrightarrow> pipe_at w b = Some q \<Longrightarrow> live_pipe p \<Longrightarrow> live_pipe q \<Longrightarrow>
        m_wsi p = Some s \<Longrightarrow> m_wsi q = Some s \<Longrightarrow> a = b"
    and "distinct (pending_connects w)"
    and "sorted_wrt (\<lambda>a b. idle_at w a \<longrightarrow> idle_at w b) (pending_connects w)"
  using assms unfolding pipes_inv_def by blast+

text \<open>
  A change of one pipe, with the lists and the sockets as they were, that keeps its state and its
  socket.
\<close>

definition same_role :: "pipe \<Rightarrow> pipe \<Rightarrow> bool" where
  "same_role p q \<longleftrightarrow> m_state q = m_state p \<and> m_wsi q = m_wsi p \<and> m_vhd q = m_vhd p \<and> m_uuid q = m_uuid p \<and>
     (recv_ok p \<longrightarrow> recv_ok q)"

text \<open>What a step may do that keeps every pipe in its role: it may add pipes to the pending writes.\<close>

definition steady :: "'m pipes_scheme \<Rightarrow> 'm pipes_scheme \<Rightarrow> bool" where
  "steady w w' \<longleftrightarrow>
     (\<forall>a. rel_option same_role (pipe_at w a) (pipe_at w' a)) \<and>
     user_data w' = user_data w \<and> pending_connects w' = pending_connects w \<and>
     set (pending_disconnects w') \<subseteq> set (pending_disconnects w) \<and>
     set (pending_writes w') \<subseteq> set (pending_writes w) \<union> dom (pipe_at w)"

lemma steadyD:
  assumes "steady w w'"
  shows "pipe_at w a = None \<longleftrightarrow> pipe_at w' a = None"
    and "pipe_at w' a = Some q \<Longrightarrow> \<exists>p. pipe_at w a = Some p \<and> same_role p q"
    and "pipe_at w a = Some p \<Longrightarrow> \<exists>q. pipe_at w' a = Some q \<and> same_role p q"
    and "user_data w' = user_data w" and "pending_connects w' = pending_connects w"
    and "set (pending_disconnects w') \<subseteq> set (pending_disconnects w)"
    and "set (pending_writes w') \<subseteq> set (pending_writes w) \<union> dom (pipe_at w)"
proof -
  have rel: "rel_option same_role (pipe_at w a) (pipe_at w' a)" using assms by (simp add: steady_def)
  show "pipe_at w a = None \<longleftrightarrow> pipe_at w' a = None" using rel by (cases "pipe_at w a"; cases "pipe_at w' a") simp_all
  show "pipe_at w' a = Some q \<Longrightarrow> \<exists>p. pipe_at w a = Some p \<and> same_role p q" using rel by (cases "pipe_at w a") simp_all
  show "pipe_at w a = Some p \<Longrightarrow> \<exists>q. pipe_at w' a = Some q \<and> same_role p q" using rel by (cases "pipe_at w' a") simp_all
qed (use assms in \<open>simp_all add: steady_def\<close>)

lemma same_role_states:
  "same_role p q \<Longrightarrow> open_pipe q = open_pipe p" "same_role p q \<Longrightarrow> live_pipe q = live_pipe p"
  by (simp_all add: same_role_def open_pipe_def live_pipe_def)

lemma steady_waiting:
  assumes "steady w w'"
  shows "idle_at w' a = idle_at w a" and "waiting_at w' a = waiting_at w a"
proof -
  have rel: "rel_option same_role (pipe_at w a) (pipe_at w' a)" using assms by (simp add: steady_def)
  show "idle_at w' a = idle_at w a" "waiting_at w' a = waiting_at w a"
    using rel by (cases "pipe_at w a"; cases "pipe_at w' a"; simp add: idle_at_def waiting_at_def same_role_def)+
qed

lemma steady_inv:
  assumes "pipes_inv w" and "steady w w'"
  shows "pipes_inv w'"
proof (rule pipes_invI)
  fix s a assume "user_data w' s = Some a"
  then obtain p where "pipe_at w a = Some p" "m_wsi p = Some s" "open_pipe p"
    using pipes_invD(1) [OF assms(1)] steadyD(4) [OF assms(2)] by auto
  moreover obtain q where "pipe_at w' a = Some q" "same_role p q" using steadyD(3) [OF assms(2)] calculation(1) by blast
  ultimately show "\<exists>p. pipe_at w' a = Some p \<and> m_wsi p = Some s \<and> open_pipe p"
    using same_role_states(1) [of p q] by (simp add: same_role_def)
next
  fix a q assume "pipe_at w' a = Some q"
  then obtain p where p: "pipe_at w a = Some p" "same_role p q"
    using steadyD(2) [OF assms(2)] by blast
  then show "pipe_ok w' a q"
    using pipes_invD(2) [OF assms(1) p(1)] steadyD(4,5) [OF assms(2)] same_role_states [OF p(2)]
    by (auto simp: pipe_ok_def same_role_def)
next
  fix a assume "a \<in> set (pending_connects w')"
  then show "waiting_at w' a"
    using pipes_invD(3) [OF assms(1)] steadyD(5) [OF assms(2)] steady_waiting(2) [OF assms(2)] by simp
next
  fix a assume "a \<in> set (pending_disconnects w') \<union> set (pending_writes w')"
  then have "pipe_at w a \<noteq> None"
    using pipes_invD(4) [OF assms(1), of a] steadyD(6,7) [OF assms(2)] by auto
  then show "pipe_at w' a \<noteq> None" using steadyD(1) [OF assms(2)] by simp
next
  fix a b p q s
  assume pq: "pipe_at w' a = Some p" "pipe_at w' b = Some q" "live_pipe p" "live_pipe q" "m_wsi p = Some s" "m_wsi q = Some s"
  obtain p' where p': "pipe_at w a = Some p'" "same_role p' p" using steadyD(2) [OF assms(2) pq(1)] by blast
  obtain q' where q': "pipe_at w b = Some q'" "same_role q' q" using steadyD(2) [OF assms(2) pq(2)] by blast
  have "live_pipe p'" "m_wsi p' = Some s" using same_role_states(2) [OF p'(2)] p'(2) pq(3,5) by (simp_all add: same_role_def)
  moreover have "live_pipe q'" "m_wsi q' = Some s" using same_role_states(2) [OF q'(2)] q'(2) pq(4,6) by (simp_all add: same_role_def)
  ultimately show "a = b" using pipes_invD(5) [OF assms(1) p'(1) q'(1)] by simp
next
  show "distinct (pending_connects w')" using pipes_invD(6) [OF assms(1)] steadyD(5) [OF assms(2)] by simp
  show "sorted_wrt (\<lambda>a b. idle_at w' a \<longrightarrow> idle_at w' b) (pending_connects w')"
    using pipes_invD(7) [OF assms(1)] steadyD(5) [OF assms(2)] steady_waiting(1) [OF assms(2)] by simp
qed

lemma steady_refl: "steady w w"
  by (auto simp: steady_def same_role_def intro: option.rel_refl)

lemma steady_trans:
  assumes "steady w1 w2" and "steady w2 w3"
  shows "steady w1 w3"
proof -
  have "rel_option same_role (pipe_at w1 a) (pipe_at w3 a)" for a
    using assms by (cases "pipe_at w1 a"; cases "pipe_at w2 a"; cases "pipe_at w3 a")
      (auto simp: steady_def same_role_def dest!: spec [of _ a])
  moreover have "dom (pipe_at w2) = dom (pipe_at w1)" using steadyD(1) [OF assms(1)] by (auto simp: dom_def)
  ultimately show ?thesis
    using assms unfolding steady_def by (intro conjI allI) auto
qed

section \<open>Steps that keep every pipe in its role\<close>

lemma same_role_refl: "same_role p p"
  by (simp add: same_role_def)

lemma same_roleI:
  "m_state q = m_state p \<Longrightarrow> m_wsi q = m_wsi p \<Longrightarrow> m_vhd q = m_vhd p \<Longrightarrow> m_uuid q = m_uuid p \<Longrightarrow>
    recv_buf q = recv_buf p \<Longrightarrow> recv_len q = recv_len p \<Longrightarrow> same_role p q"
  by (simp add: same_role_def recv_ok_def split: option.split)

lemma steady_put:
  assumes "pipe_at w a = Some p" and "same_role p q"
  shows "steady w (put_pipe a q w)"
  using assms by (auto simp: steady_def intro: option.rel_refl same_role_refl)

lemma steady_calls: "steady w (calls_lws c w)"
  by (auto simp: steady_def intro: option.rel_refl same_role_refl)

lemma steady_add_write: "pipe_at w a \<noteq> None \<Longrightarrow> steady w (w\<lparr> pending_writes := pending_writes w @ [a] \<rparr>)"
  by (auto simp: steady_def intro: option.rel_refl same_role_refl)

lemma add_pending_write_steady:
  assumes "pipe_at w a = Some p" and "m_vhd p"
  shows "\<exists>w'. add_pending_write a w = Some w' \<and> steady w w' \<and> pipes.more w' = pipes.more w"
  using assms steady_trans [OF steady_add_write steady_calls, of w a Cancel_service]
  by (simp add: add_pending_write_def cancel_service_of_def)

text \<open>A step that changes a pipe within its role and then asks for a write.\<close>

lemma put_and_write_steady:
  assumes "pipe_at w a = Some p" and "same_role p q" and "m_vhd p"
  shows "\<exists>w'. add_pending_write a (put_pipe a q w) = Some w' \<and> steady w w' \<and> pipes.more w' = pipes.more w"
proof -
  have "m_vhd q" using assms(2,3) by (simp add: same_role_def)
  then obtain w' where "add_pending_write a (put_pipe a q w) = Some w'" "steady (put_pipe a q w) w'" "pipes.more w' = pipes.more w"
    using add_pending_write_steady [of "put_pipe a q w" a q] by auto
  then show ?thesis using steady_trans [OF steady_put [OF assms(1,2)]] by blast
qed

lemma buffer_for_sending_steady:
  assumes "pipes_inv w" and "pipe_at w a = Some p"
  shows "\<exists>w'. buffer_for_sending a text w = Some w' \<and> steady w w' \<and> pipes.more w' = pipes.more w"
proof (cases "m_state p = LWS_CLIENT_CONNECTED")
  case True
  then have "m_vhd p" using pipes_invD(2) [OF assms] by (simp add: pipe_ok_def)
  then show ?thesis
    using True assms(2) put_and_write_steady [OF assms(2), of "p\<lparr> m_metadata := m_metadata p @ text \<rparr>"]
    by (simp add: buffer_for_sending_def same_roleI)
next
  case False
  then show ?thesis using assms(2) steady_refl by (auto simp: buffer_for_sending_def)
qed

lemma do_graceful_shutdown_steady:
  assumes "pipes_inv w" and "pipe_at w a = Some p" and "m_state p \<noteq> LWS_CLIENT_IDLE"
  shows "\<exists>w'. do_graceful_shutdown a w = Some w' \<and> steady w w' \<and> pipes.more w' = pipes.more w"
proof -
  have "m_vhd p" using pipes_invD(2) [OF assms(1,2)] assms(3) by (simp add: pipe_ok_def)
  then show ?thesis
    using put_and_write_steady [OF assms(2), of "p\<lparr> m_graceful := True \<rparr>"] assms(2)
    by (simp add: do_graceful_shutdown_def same_roleI)
qed

lemma put_in_steady:
  assumes "pipes_inv w" and "pipe_at w a = Some p" and "m_state p = LWS_CLIENT_CONNECTED" and "audio_write d p = Some q"
  shows "\<exists>w'. unlock_audio_buffer pre a (put_pipe a q w) = Some w' \<and> steady w w' \<and> pipes.more w' = pipes.more w"
proof -
  have role: "same_role p q" using assms(4) by (auto simp: audio_write_def intro: same_roleI)
  have "m_vhd p" using pipes_invD(2) [OF assms(1,2)] assms(3) by (simp add: pipe_ok_def)
  then show ?thesis
    using put_and_write_steady [OF assms(2) role] steady_put [OF assms(2) role] by (auto simp: unlock_audio_buffer_def)
qed

lemma in_state_defined:
  assumes "\<forall>a\<in>set as. pipe_at w a \<noteq> None"
  shows "\<exists>bs. in_state st as w = Some bs \<and> set bs \<subseteq> set as"
  using assms by (induction as) auto

lemma writable_all_steady:
  assumes "\<forall>a\<in>set as. pipe_at w a \<noteq> None"
  shows "\<exists>w'. writable_all as w = Some w' \<and> steady w w' \<and> pipes.more w' = pipes.more w \<and>
    pending_disconnects w' = pending_disconnects w \<and> pending_writes w' = pending_writes w \<and> pipe_at w' = pipe_at w"
  using assms
proof (induction as arbitrary: w)
  case Nil
  then show ?case using steady_refl by auto
next
  case (Cons a as)
  then obtain p where p: "pipe_at w a = Some p" by auto
  obtain w' where "writable_all as (calls_lws (Callback_on_writable (m_wsi p)) w) = Some w'"
    "steady (calls_lws (Callback_on_writable (m_wsi p)) w) w'" "pipes.more w' = pipes.more w"
    "pending_disconnects w' = pending_disconnects w" "pending_writes w' = pending_writes w" "pipe_at w' = pipe_at w"
    using Cons.IH [of "calls_lws (Callback_on_writable (m_wsi p)) w"] Cons.prems by auto
  then show ?case using p steady_trans [OF steady_calls] by auto
qed

lemma steady_clear:
  "steady w (w\<lparr> pending_disconnects := [] \<rparr>)" "steady w (w\<lparr> pending_writes := [] \<rparr>)"
  by (auto simp: steady_def intro: option.rel_refl same_role_refl)

lemma process_pending_disconnects_steady:
  assumes "pipes_inv w"
  shows "\<exists>w'. process_pending_disconnects w = Some w' \<and> steady w w' \<and> pipes.more w' = pipes.more w"
proof -
  have ex: "\<forall>a\<in>set (pending_disconnects w). pipe_at w a \<noteq> None" using pipes_invD(4) [OF assms] by blast
  then obtain bs where bs: "in_state LWS_CLIENT_DISCONNECTING (pending_disconnects w) w = Some bs" "set bs \<subseteq> set (pending_disconnects w)"
    using in_state_defined by blast
  obtain w' where "writable_all bs (w\<lparr> pending_disconnects := [] \<rparr>) = Some w'" "steady (w\<lparr> pending_disconnects := [] \<rparr>) w'"
      "pipes.more w' = pipes.more w"
    using writable_all_steady [of bs "w\<lparr> pending_disconnects := [] \<rparr>"] ex bs(2) by auto
  then show ?thesis using bs(1) steady_trans [OF steady_clear(1)] by (auto simp: process_pending_disconnects_def)
qed

lemma process_pending_writes_steady:
  assumes "pipes_inv w"
  shows "\<exists>w'. process_pending_writes w = Some w' \<and> steady w w' \<and> pipes.more w' = pipes.more w"
proof -
  have ex: "\<forall>a\<in>set (pending_writes w). pipe_at w a \<noteq> None" using pipes_invD(4) [OF assms] by blast
  then obtain bs where bs: "in_state LWS_CLIENT_CONNECTED (pending_writes w) w = Some bs" "set bs \<subseteq> set (pending_writes w)"
    using in_state_defined by blast
  obtain w' where "writable_all bs (w\<lparr> pending_writes := [] \<rparr>) = Some w'" "steady (w\<lparr> pending_writes := [] \<rparr>) w'"
      "pipes.more w' = pipes.more w"
    using writable_all_steady [of bs "w\<lparr> pending_writes := [] \<rparr>"] ex bs(2) by auto
  then show ?thesis using bs(1) steady_trans [OF steady_clear(2)] by (auto simp: process_pending_writes_def)
qed

section \<open>Steps that change the role of a pipe\<close>

lemma inv_remove_connects:
  assumes "pipes_inv w" and "\<And>a. idle_at w a \<Longrightarrow> P a"
  shows "pipes_inv (w\<lparr> pending_connects := filter P (pending_connects w) \<rparr>)" (is "pipes_inv ?w")
proof (rule pipes_invI)
  fix a p assume p: "pipe_at ?w a = Some p"
  then have "m_state p = LWS_CLIENT_IDLE \<Longrightarrow> P a" using assms(2) [of a] by (auto simp: idle_at_def)
  then show "pipe_ok ?w a p" using pipes_invD(2) [OF assms(1), of a p] p by (auto simp: pipe_ok_def)
next
  show "sorted_wrt (\<lambda>a b. idle_at ?w a \<longrightarrow> idle_at ?w b) (pending_connects ?w)"
    using sorted_wrt_filter [OF pipes_invD(7) [OF assms(1)]] by (simp add: idle_at_def)
qed (use pipes_invD [OF assms(1)] in \<open>auto simp: waiting_at_def\<close>)

text \<open>The search for the connecting pipe of a socket.\<close>

definition connecting_on :: "'m pipes_scheme \<Rightarrow> nat \<Rightarrow> nat \<Rightarrow> bool" where
  "connecting_on w s a \<longleftrightarrow> (\<exists>p. pipe_at w a = Some p \<and> m_state p = LWS_CLIENT_CONNECTING \<and> m_wsi p = Some s)"

lemma scan_connects_finds:
  assumes "\<forall>a\<in>set as. pipe_at w a \<noteq> None" and "\<exists>a\<in>set as. connecting_on w s a"
    and "sorted_wrt (\<lambda>a b. idle_at w a \<longrightarrow> idle_at w b) as"
  shows "\<exists>rm a. scan_connects s as w = Some (rm, Some a) \<and> a \<in> set as \<and> connecting_on w s a \<and> (\<forall>b\<in>set rm. \<not> idle_at w b)"
  using assms
proof (induction as)
  case (Cons b as)
  obtain p where p: "pipe_at w b = Some p" using Cons.prems(1) by auto
  show ?case
  proof (cases "connecting_on w s b")
    case True
    then show ?thesis using p by (auto simp: connecting_on_def idle_at_def)
  next
    case False
    then have ex: "\<exists>a\<in>set as. connecting_on w s a" using Cons.prems(2) by auto
    then obtain a where a: "a \<in> set as" "connecting_on w s a" by blast
    have "\<not> idle_at w b"
      using Cons.prems(3) a by (auto simp: connecting_on_def idle_at_def)
    moreover obtain rm a where "scan_connects s as w = Some (rm, Some a)" "a \<in> set as" "connecting_on w s a" "\<forall>b\<in>set rm. \<not> idle_at w b"
      using Cons.IH Cons.prems(1,3) ex by auto
    ultimately show ?thesis using False p by (auto simp: connecting_on_def)
  qed
qed simp

lemma find_and_remove_finds:
  assumes "pipes_inv w" and "\<exists>a\<in>set (pending_connects w). connecting_on w s a"
  shows "\<exists>a w'. find_and_remove_pending_connect s w = Some (Some a, w') \<and> pipes_inv w' \<and> connecting_on w' s a \<and>
    a \<notin> set (pending_connects w') \<and> pipe_at w' = pipe_at w \<and> user_data w' = user_data w \<and> pipes.more w' = pipes.more w \<and>
    pending_disconnects w' = pending_disconnects w \<and> pending_writes w' = pending_writes w"
proof -
  have "\<forall>a\<in>set (pending_connects w). pipe_at w a \<noteq> None" using pipes_invD(3) [OF assms(1)] by (auto simp: waiting_at_def)
  from scan_connects_finds [OF this assms(2) pipes_invD(7) [OF assms(1)]]
  obtain rm a where s: "scan_connects s (pending_connects w) w = Some (rm, Some a)" "a \<in> set (pending_connects w)"
    "connecting_on w s a" "\<forall>b\<in>set rm. \<not> idle_at w b" by blast
  let ?w = "w\<lparr> pending_connects := filter (\<lambda>b. b \<notin> set rm \<and> Some a \<noteq> Some b) (pending_connects w) \<rparr>"
  have "pipes_inv ?w"
    by (rule inv_remove_connects [OF assms(1)]) (use s(3,4) in \<open>auto simp: connecting_on_def idle_at_def\<close>)
  moreover have "find_and_remove_pending_connect s w = Some (Some a, ?w)"
    by (simp add: find_and_remove_pending_connect_def s(1))
  ultimately show ?thesis using s(3) by (auto simp: connecting_on_def)
qed

text \<open>A pipe that does not wait for its connection is put into another state.\<close>

lemma inv_put:
  assumes "pipes_inv w" and "pipe_at w a = Some p" and "a \<notin> set (pending_connects w)"
    and "m_state q \<noteq> LWS_CLIENT_IDLE" and "pipe_ok w a q" and "m_wsi q = m_wsi p" and "live_pipe q \<Longrightarrow> live_pipe p"
    and "open_pipe p \<Longrightarrow> open_pipe q"
  shows "pipes_inv (put_pipe a q w)" (is "pipes_inv ?w")
proof (rule pipes_invI)
  have other: "b \<in> set (pending_connects w) \<Longrightarrow> b \<noteq> a" for b using assms(3) by auto
  show "\<And>b. b \<in> set (pending_connects ?w) \<Longrightarrow> waiting_at ?w b"
    using pipes_invD(3) [OF assms(1)] other by (auto simp: waiting_at_def)
  show "sorted_wrt (\<lambda>a b. idle_at ?w a \<longrightarrow> idle_at ?w b) (pending_connects ?w)"
    using pipes_invD(7) [OF assms(1)] by (auto simp: idle_at_def elim!: sorted_wrt_mono_rel [rotated] dest!: other)
  fix s b assume "user_data ?w s = Some b"
  then obtain r where "pipe_at w b = Some r" "m_wsi r = Some s" "open_pipe r" using pipes_invD(1) [OF assms(1)] by auto
  then show "\<exists>p. pipe_at ?w b = Some p \<and> m_wsi p = Some s \<and> open_pipe p" using assms(2,6,8) by auto
next
  fix b r assume "pipe_at ?w b = Some r"
  then show "pipe_ok ?w b r" using pipes_invD(2) [OF assms(1), of b r] assms(5) by (auto simp: pipe_ok_def split: if_splits)
next
  fix b c r t s assume bc: "pipe_at ?w b = Some r" "pipe_at ?w c = Some t" "live_pipe r" "live_pipe t" "m_wsi r = Some s" "m_wsi t = Some s"
  have old: "\<exists>r'. pipe_at w b = Some r' \<and> live_pipe r' \<and> m_wsi r' = m_wsi r" if "pipe_at ?w b = Some r" "live_pipe r" for b r
    using that assms(2,6,7) by (auto split: if_splits)
  show "b = c"
    using old [OF bc(1,3)] old [OF bc(2,4)] bc(5,6) pipes_invD(5) [OF assms(1)] by metis
qed (use pipes_invD [OF assms(1)] assms(2) in auto)

section \<open>Connection attempts\<close>

definition attempted :: "(nat \<Rightarrow> nat option) \<Rightarrow> nat \<Rightarrow> pipe \<Rightarrow> pipe" where
  "attempted conn a p = p\<lparr> m_state := LWS_CLIENT_CONNECTING, m_vhd := True, m_wsi := conn a \<rparr>"

definition marked :: "pipe \<Rightarrow> pipe" where
  "marked p = p\<lparr> m_state := LWS_CLIENT_CONNECTING \<rparr>"

definition update_at :: "nat list \<Rightarrow> (nat \<Rightarrow> pipe \<Rightarrow> pipe) \<Rightarrow> 'm pipes_scheme \<Rightarrow> 'm pipes_scheme" where
  "update_at as f w = w\<lparr> pipe_at := \<lambda>a. if a \<in> set as then map_option (f a) (pipe_at w a) else pipe_at w a \<rparr>"

lemma update_at_Nil [simp]: "update_at [] f w = w"
  by (simp add: update_at_def)

lemma update_at_put:
  assumes "pipe_at w a = Some p" and "a \<notin> set as"
  shows "update_at as f (put_pipe a (f a p) w) = update_at (a # as) f w"
  using assms by (auto simp: update_at_def put_pipe_def fun_eq_iff intro!: arg_cong [where f = "\<lambda>h. w\<lparr> pipe_at := h \<rparr>"])

lemma mark_connecting_spec:
  assumes "distinct as" and "\<forall>a\<in>set as. pipe_at w a \<noteq> None"
  shows "mark_connecting as w = Some (filter (idle_at w) as, update_at (filter (idle_at w) as) (\<lambda>_. marked) w)"
  using assms
proof (induction as arbitrary: w)
  case (Cons a as)
  obtain p where p: "pipe_at w a = Some p" using Cons.prems(2) by auto
  show ?case
  proof (cases "m_state p = LWS_CLIENT_IDLE")
    case True
    let ?w = "put_pipe a (marked p) w"
    have same: "filter (idle_at ?w) as = filter (idle_at w) as"
      using Cons.prems(1) by (intro filter_cong) (auto simp: idle_at_def)
    have "mark_connecting as ?w = Some (filter (idle_at w) as, update_at (filter (idle_at w) as) (\<lambda>_. marked) ?w)"
      using Cons.IH [of ?w] Cons.prems unfolding same by auto
    moreover have "mark_connecting (a # as) w = do { (rest, w) \<leftarrow> mark_connecting as ?w; Some (a # rest, w) }"
      using True p by (simp add: marked_def [of p])
    moreover have "idle_at w a" using True p by (simp add: idle_at_def)
    ultimately show ?thesis
      using Cons.prems(1) update_at_put [OF p, of "filter (idle_at w) as" "\<lambda>_. marked"] by simp
  next
    case False
    then show ?thesis using Cons.IH [of w] Cons.prems p by (simp add: idle_at_def)
  qed
qed simp

lemma attempted_marked: "attempted conn a (marked p) = attempted conn a p"
  by (simp add: attempted_def marked_def)

lemma recv_ok_attempted: "recv_ok (attempted conn a p) = recv_ok p"
  by (simp add: attempted_def recv_ok_def split: option.split)

lemma connect_all_spec:
  assumes "distinct as" and "\<forall>a\<in>set as. \<exists>p. pipe_at w a = Some p \<and> \<not> m_vhd p"
  shows "connect_all conn as w = Some (update_at as (attempted conn) w)"
  using assms
proof (induction as arbitrary: w)
  case (Cons a as)
  obtain p where p: "pipe_at w a = Some p" "\<not> m_vhd p" using Cons.prems(2) by auto
  let ?w = "put_pipe a (attempted conn a p) w"
  have "connect_all conn as ?w = Some (update_at as (attempted conn) ?w)"
    using Cons.prems by (intro Cons.IH) auto
  moreover have "connect_all conn (a # as) w = connect_all conn as ?w"
    using p by (simp add: connect_client_def attempted_def [of conn a p])
  ultimately show ?case
    using Cons.prems(1) update_at_put [OF p(1), of as "attempted conn"] by simp
qed simp

lemma process_pending_connects_spec:
  assumes "pipes_inv w"
  shows "process_pending_connects conn w = Some (update_at (filter (idle_at w) (pending_connects w)) (attempted conn) w)"
proof -
  let ?as = "filter (idle_at w) (pending_connects w)"
  have ex: "\<forall>a\<in>set (pending_connects w). pipe_at w a \<noteq> None" using pipes_invD(3) [OF assms] by (auto simp: waiting_at_def)
  have m: "mark_connecting (pending_connects w) w = Some (?as, update_at ?as (\<lambda>_. marked) w)"
    by (rule mark_connecting_spec [OF pipes_invD(6) [OF assms] ex])
  have "\<exists>p. pipe_at (update_at ?as (\<lambda>_. marked) w) a = Some p \<and> \<not> m_vhd p" if "a \<in> set ?as" for a
    using that pipes_invD(2) [OF assms, of a] by (auto simp: update_at_def idle_at_def pipe_ok_def marked_def)
  then have c: "connect_all conn ?as (update_at ?as (\<lambda>_. marked) w) = Some (update_at ?as (attempted conn) (update_at ?as (\<lambda>_. marked) w))"
    using pipes_invD(6) [OF assms] by (intro connect_all_spec) auto
  have "update_at ?as (attempted conn) (update_at ?as (\<lambda>_. marked) w) = update_at ?as (attempted conn) w"
    by (auto simp: update_at_def fun_eq_iff attempted_marked option.map_comp comp_def
      intro!: arg_cong [where f = "\<lambda>h. w\<lparr> pipe_at := h \<rparr>"])
  then show ?thesis by (simp add: process_pending_connects_def m c)
qed

text \<open>The sockets libwebsockets returns are new, and different for different pipes.\<close>

definition fresh_sockets :: "'m pipes_scheme \<Rightarrow> (nat \<Rightarrow> nat option) \<Rightarrow> bool" where
  "fresh_sockets w conn \<longleftrightarrow>
     (\<forall>a b s. conn a = Some s \<longrightarrow> conn b = Some s \<longrightarrow> a = b) \<and>
     (\<forall>a b p s. conn a = Some s \<longrightarrow> pipe_at w b = Some p \<longrightarrow> live_pipe p \<longrightarrow> m_wsi p \<noteq> Some s)"

lemma process_pending_connects_inv:
  assumes inv: "pipes_inv w" and fresh: "fresh_sockets w conn"
  shows "\<exists>w'. process_pending_connects conn w = Some w' \<and> pipes_inv w' \<and> pipes.more w' = pipes.more w \<and>
    (\<forall>a. pipe_at w' a = (if idle_at w a then map_option (attempted conn a) (pipe_at w a) else pipe_at w a))"
proof -
  let ?w = "update_at (filter (idle_at w) (pending_connects w)) (attempted conn) w"
  have all: "idle_at w a \<Longrightarrow> a \<in> set (pending_connects w)" for a
    using pipes_invD(2) [OF inv, of a] by (auto simp: idle_at_def pipe_ok_def)
  then have at: "pipe_at ?w a = (if idle_at w a then map_option (attempted conn a) (pipe_at w a) else pipe_at w a)" for a
    by (auto simp: update_at_def)
  have rest: "user_data ?w = user_data w" "pending_connects ?w = pending_connects w" "pipes.more ?w = pipes.more w"
    "pending_disconnects ?w = pending_disconnects w" "pending_writes ?w = pending_writes w"
    by (simp_all add: update_at_def)
  have no_idle: "\<not> idle_at ?w a" for a by (auto simp: idle_at_def at attempted_def)
  have old: "\<exists>p. pipe_at w a = Some p \<and> (q = p \<and> \<not> idle_at w a \<or> q = attempted conn a p \<and> idle_at w a)" if "pipe_at ?w a = Some q" for a q
    using that by (auto simp: at split: if_splits)
  have "pipes_inv ?w"
  proof (rule pipes_invI)
    fix s a assume "user_data ?w s = Some a"
    then obtain p where p: "pipe_at w a = Some p" "m_wsi p = Some s" "open_pipe p" using pipes_invD(1) [OF inv] rest(1) by auto
    then have "\<not> idle_at w a" by (auto simp: idle_at_def open_pipe_def)
    then show "\<exists>p. pipe_at ?w a = Some p \<and> m_wsi p = Some s \<and> open_pipe p" using p by (simp add: at)
  next
    fix a q assume q: "pipe_at ?w a = Some q"
    obtain p where p: "pipe_at w a = Some p" "q = p \<and> \<not> idle_at w a \<or> q = attempted conn a p \<and> idle_at w a" using old [OF q] by blast
    have ok: "pipe_ok w a p" using pipes_invD(2) [OF inv p(1)] .
    from p(2) show "pipe_ok ?w a q"
    proof
      assume "q = p \<and> \<not> idle_at w a"
      then show ?thesis using ok p(1) by (simp add: pipe_ok_def idle_at_def rest)
    next
      assume "q = attempted conn a p \<and> idle_at w a"
      then show ?thesis using ok recv_ok_attempted [of conn a p] by (simp add: pipe_ok_def attempted_def open_pipe_def)
    qed
  next
    fix a assume "a \<in> set (pending_connects ?w)"
    then have "waiting_at w a" using pipes_invD(3) [OF inv] rest(2) by simp
    then show "waiting_at ?w a" by (auto simp: waiting_at_def at idle_at_def attempted_def)
  next
    fix a assume "a \<in> set (pending_disconnects ?w) \<union> set (pending_writes ?w)"
    then show "pipe_at ?w a \<noteq> None" using pipes_invD(4) [OF inv] rest by (auto simp: at)
  next
    fix a b p q s
    assume pq: "pipe_at ?w a = Some p" "pipe_at ?w b = Some q" "live_pipe p" "live_pipe q" "m_wsi p = Some s" "m_wsi q = Some s"
    obtain p' where p': "pipe_at w a = Some p'" "p = p' \<and> \<not> idle_at w a \<or> p = attempted conn a p' \<and> idle_at w a" using old [OF pq(1)] by blast
    obtain q' where q': "pipe_at w b = Some q'" "q = q' \<and> \<not> idle_at w b \<or> q = attempted conn b q' \<and> idle_at w b" using old [OF pq(2)] by blast
    consider "p = p'" "q = q'" | "p = p'" "conn b = Some s" | "conn a = Some s" "q = q'" | "conn a = Some s" "conn b = Some s"
      using p'(2) q'(2) pq(5,6) by (auto simp: attempted_def)
    then show "a = b"
      using pipes_invD(5) [OF inv p'(1) q'(1)] fresh pq(3-6) p'(1) q'(1) unfolding fresh_sockets_def by cases blast+
  next
    show "distinct (pending_connects ?w)" using pipes_invD(6) [OF inv] rest by simp
    show "sorted_wrt (\<lambda>a b. idle_at ?w a \<longrightarrow> idle_at ?w b) (pending_connects ?w)"
      using no_idle by (simp add: sorted_wrt_iff_nth_less)
  qed
  then show ?thesis using process_pending_connects_spec [OF inv] at rest(3) by blast
qed

section \<open>Established and closed connections\<close>

lemma inv_established:
  assumes inv: "pipes_inv w" and p: "pipe_at w a = Some p" "m_state p = LWS_CLIENT_CONNECTING" "m_wsi p = Some s"
    and a: "a \<notin> set (pending_connects w)"
  shows "pipes_inv (put_pipe a (p\<lparr> m_vhd := True, m_state := LWS_CLIENT_CONNECTED \<rparr>) (w\<lparr> user_data := (user_data w)(s \<mapsto> a) \<rparr>))"
    (is "pipes_inv (put_pipe a ?q ?v)" is "pipes_inv ?w")
proof (rule pipes_invI)
  have live: "live_pipe p" "live_pipe ?q" "open_pipe ?q" using p(2) by (simp_all add: live_pipe_def open_pipe_def)
  have unique: "b = a" if "pipe_at w b = Some r" "live_pipe r" "m_wsi r = Some s" for b r
    using pipes_invD(5) [OF inv that(1) p(1) that(2) live(1) that(3) p(3)] .
  show "\<exists>p. pipe_at ?w b = Some p \<and> m_wsi p = Some t \<and> open_pipe p" if ud: "user_data ?w t = Some b" for t b
  proof (cases "t = s")
    case True
    then show ?thesis using ud p(3) live(3) by simp
  next
    case False
    then obtain r where "pipe_at w b = Some r" "m_wsi r = Some t" "open_pipe r" using ud pipes_invD(1) [OF inv, of t b] by auto
    then show ?thesis using False p(1,3) by auto
  qed
  show "pipe_ok ?w b r" if r: "pipe_at ?w b = Some r" for b r
  proof (cases "b = a")
    case True
    then show ?thesis
      using r p(3) pipes_invD(2) [OF inv p(1)] by (auto simp: pipe_ok_def open_pipe_def recv_ok_def cong: option.case_cong)
  next
    case False
    then have b: "pipe_at w b = Some r" using r by simp
    have "m_wsi r \<noteq> Some s" if "open_pipe r" using unique [OF b] that False by (auto simp: live_pipe_def)
    then show ?thesis using pipes_invD(2) [OF inv b] by (auto simp: pipe_ok_def)
  qed
  show "b = c" if bc: "pipe_at ?w b = Some r" "pipe_at ?w c = Some t" "live_pipe r" "live_pipe t" "m_wsi r = Some x" "m_wsi t = Some x"
    for b c r t x
  proof -
    have old: "\<exists>r'. pipe_at w b = Some r' \<and> live_pipe r' \<and> m_wsi r' = m_wsi r" if "pipe_at ?w b = Some r" "live_pipe r" for b r
      using that p(1) live(1) by (auto split: if_splits)
    show "b = c"
      using old [OF bc(1,3)] old [OF bc(2,4)] bc(5,6) pipes_invD(5) [OF inv] by metis
  qed
  have other: "b \<noteq> a" if "b \<in> set (pending_connects w)" for b using that a by auto
  show "waiting_at ?w b" if "b \<in> set (pending_connects ?w)" for b
    using that pipes_invD(3) [OF inv] other by (auto simp: waiting_at_def)
  show "sorted_wrt (\<lambda>a b. idle_at ?w a \<longrightarrow> idle_at ?w b) (pending_connects ?w)"
    using pipes_invD(7) [OF inv] by (auto simp: idle_at_def elim!: sorted_wrt_mono_rel [rotated] dest!: other)
qed (use pipes_invD(4,6) [OF inv] p(1) in auto)

lemma pipe_delete_simps [simp]:
  "pipe_at (pipe_delete a w) = (pipe_at w)(a := None)" "user_data (pipe_delete a w) = user_data w"
  "pending_connects (pipe_delete a w) = pending_connects w" "pending_disconnects (pipe_delete a w) = pending_disconnects w"
  "pending_writes (pipe_delete a w) = pending_writes w" "pipes.more (pipe_delete a w) = pipes.more w"
  by (simp_all add: pipe_delete_def)

lemma inv_closed:
  assumes inv: "pipes_inv w" and a: "user_data w s = Some a" "a \<notin> set (pending_disconnects w) \<union> set (pending_writes w)"
  shows "pipes_inv (pipe_delete a ((put_pipe a q w)\<lparr> user_data := (user_data w)(s := None) \<rparr>))" (is "pipes_inv ?w")
proof (rule pipes_invI)
  obtain p where p: "pipe_at w a = Some p" "m_wsi p = Some s" "open_pipe p" using pipes_invD(1) [OF inv a(1)] by blast
  have not_waiting: "a \<notin> set (pending_connects w)"
    using pipes_invD(3) [OF inv, of a] p by (auto simp: waiting_at_def open_pipe_def)
  then have other: "b \<noteq> a" if "b \<in> set (pending_connects w)" for b using that by auto
  show "\<exists>p. pipe_at ?w b = Some p \<and> m_wsi p = Some t \<and> open_pipe p" if ud: "user_data ?w t = Some b" for t b
  proof -
    have "t \<noteq> s" "user_data w t = Some b" using ud by (auto split: if_splits)
    then show ?thesis using pipes_invD(1) [OF inv, of t b] p by auto
  qed
  show "pipe_ok ?w b r" if r: "pipe_at ?w b = Some r" for b r
  proof -
    have b: "pipe_at w b = Some r" "b \<noteq> a" using r by (auto split: if_splits)
    have "m_wsi r \<noteq> Some s" if "open_pipe r"
      using pipes_invD(5) [OF inv b(1) p(1)] that b(2) p(2,3) by (auto simp: live_pipe_def)
    then show ?thesis using pipes_invD(2) [OF inv b(1)] by (auto simp: pipe_ok_def)
  qed
  show "b = c" if bc: "pipe_at ?w b = Some r" "pipe_at ?w c = Some t" "live_pipe r" "live_pipe t" "m_wsi r = Some x" "m_wsi t = Some x"
    for b c r t x
    using bc pipes_invD(5) [OF inv, of b r c t x] by (auto split: if_splits)
  show "waiting_at ?w b" if "b \<in> set (pending_connects ?w)" for b
    using that pipes_invD(3) [OF inv] other by (auto simp: waiting_at_def)
  show "sorted_wrt (\<lambda>a b. idle_at ?w a \<longrightarrow> idle_at ?w b) (pending_connects ?w)"
    using pipes_invD(7) [OF inv] by (auto simp: idle_at_def elim!: sorted_wrt_mono_rel [rotated] dest!: other)
  show "pipe_at ?w b \<noteq> None" if "b \<in> set (pending_disconnects ?w) \<union> set (pending_writes ?w)" for b
    using that a(2) pipes_invD(4) [OF inv, of b] by auto
qed (use pipes_invD(6) [OF inv] in simp)

text \<open>A fragment that keeps to the assertion and to the size of a reallocation is taken.\<close>

definition buffer_fits :: "string option \<times> nat \<Rightarrow> bool" where
  "buffer_fits b \<longleftrightarrow> (case fst b of None \<Rightarrow> snd b = 0 | Some d \<Rightarrow> length d \<le> snd b)"

lemma recv_ok_fits: "recv_ok p = buffer_fits (recv_buf p, recv_len p)"
  by (cases "recv_buf p") (simp_all add: recv_ok_def buffer_fits_def)

lemma receive_fragment_fits:
  assumes "buffer_fits b" and "rx_first x \<Longrightarrow> fst b = None" and "\<not> rx_first x \<Longrightarrow> length (rx_data x) \<le> RECV_BUF_REALLOC_SIZE"
  shows "\<exists>b' msg. receive_fragment x b = Some (b', msg) \<and> buffer_fits b'"
proof (cases "rx_first x")
  case True
  then show ?thesis using assms(2) by (auto simp: receive_fragment_def recv_room_def buffer_fits_def)
next
  case False
  then show ?thesis
    using assms(1,3)
    by (cases b; cases "fst b") (auto simp: receive_fragment_def recv_room_def buffer_fits_def Let_def)
qed

lemma on_writeable_steady:
  assumes "user_data w s = Some a" and "pipe_at w a = Some p"
  shows "\<exists>r w'. on_writeable pre s sent w = Some (r, w') \<and> steady w w' \<and> pipes.more w' = pipes.more w"
proof -
  have t: "same_role p (p\<lparr> m_metadata := [] \<rparr>)" and o: "same_role p (p\<lparr> write_offset := pre \<rparr>)"
    by (rule same_roleI; simp)+
  show ?thesis
    using assms steady_calls [of w] steady_refl [of w] steady_trans [OF steady_put [OF assms(2) t] steady_calls]
      steady_trans [OF steady_trans [OF steady_put [OF assms(2) t] steady_calls] steady_calls]
      steady_trans [OF steady_put [OF assms(2) o] steady_calls]
    by (simp add: on_writeable_def Let_def)
qed

lemma on_handshake_steady:
  assumes "pipes_inv w"
  shows "\<exists>r w'. on_handshake s fails w = Some (r, w') \<and> steady w w' \<and> pipes.more w' = pipes.more w"
proof -
  have ex: "\<forall>a\<in>set (pending_connects w). pipe_at w a \<noteq> None" using pipes_invD(3) [OF assms] by (auto simp: waiting_at_def)
  have "\<exists>rm f. scan_connects s as w = Some (rm, f) \<and> (\<forall>a. f = Some a \<longrightarrow> pipe_at w a \<noteq> None)"
    if "\<forall>a\<in>set as. pipe_at w a \<noteq> None" for as
    using that by (induction as) (auto split: if_splits)
  then obtain rm f where f: "scan_connects s (pending_connects w) w = Some (rm, f)" "\<And>a. f = Some a \<Longrightarrow> pipe_at w a \<noteq> None"
    using ex by blast
  then show ?thesis
    using steady_refl [of w] steady_calls [of w] by (cases f) (auto simp: on_handshake_def find_pending_connect_def)
qed

section \<open>The contract with the callback\<close>

text \<open>
  \<open>uses m a u\<close>: the client, in its state \<open>m\<close>, may call the pipe at \<open>a\<close> for the session \<open>u\<close>.
\<close>

definition uses_valid :: "('m \<Rightarrow> nat \<Rightarrow> string \<Rightarrow> bool) \<Rightarrow> 'm pipes_scheme \<Rightarrow> bool" where
  "uses_valid uses w \<longleftrightarrow> (\<forall>a u. uses (pipes.more w) a u \<longrightarrow> (\<exists>p. pipe_at w a = Some p \<and> m_uuid p = u \<and> m_state p \<noteq> LWS_CLIENT_FAILED))"

text \<open>The notifications after which a client must not use the pipe any more.\<close>

definition last_event :: "notify_event \<Rightarrow> bool" where
  "last_event e \<longleftrightarrow> e = CONNECT_FAIL \<or> e = CONNECTION_DROPPED \<or> e = CONNECTION_CLOSED_GRACEFULLY"

lemma last_event_simps [simp]:
  "last_event CONNECT_FAIL" "last_event CONNECTION_DROPPED" "last_event CONNECTION_CLOSED_GRACEFULLY"
  "\<not> last_event CONNECT_SUCCESS" "\<not> last_event MESSAGE"
  by (simp_all add: last_event_def)

locale pipe_client =
  fixes notify :: "'m notifier"
    and uses :: "'m \<Rightarrow> nat \<Rightarrow> string \<Rightarrow> bool"
    and client_ok :: "'m \<Rightarrow> bool"
    and accepts :: "'m \<Rightarrow> string \<Rightarrow> notify_event \<Rightarrow> string option \<Rightarrow> bool"
  assumes notified: "pipes_inv w \<Longrightarrow> \<not> last_event e \<Longrightarrow> uses_valid uses w \<Longrightarrow> client_ok (pipes.more w) \<Longrightarrow>
      accepts (pipes.more w) u e m \<Longrightarrow>
      \<exists>w'. notify u e m w = Some w' \<and> steady w w' \<and> client_ok (pipes.more w') \<and>
        (\<forall>a v. uses (pipes.more w') a v \<longrightarrow> uses (pipes.more w) a v)"
    and lets_go: "last_event e \<Longrightarrow> client_ok (pipes.more w) \<Longrightarrow> accepts (pipes.more w) u e m \<Longrightarrow>
      \<exists>w'. notify u e m w = Some w' \<and> steady w w' \<and> client_ok (pipes.more w') \<and>
        set (pending_writes w') \<subseteq> set (pending_writes w) \<and>
        (\<forall>a v. uses (pipes.more w') a v \<longrightarrow> uses (pipes.more w) a v \<and> v \<noteq> u)"

text \<open>
  The events libwebsockets delivers: a socket that was returned for a connecting pipe is
  established, a pipe is in no list of pending work when its socket closes, and the fragments of a message come in
  order and are not larger than a reallocation. The client accepts what it is told.
\<close>

definition lws_delivers ::
  "('m \<Rightarrow> string \<Rightarrow> notify_event \<Rightarrow> string option \<Rightarrow> bool) \<Rightarrow> nat \<Rightarrow> lws_reason \<Rightarrow> 'm pipes_scheme \<Rightarrow> bool" where
  "lws_delivers accepts s r w \<longleftrightarrow> (case r of
     Event_wait_cancelled conn \<Rightarrow> fresh_sockets w conn
   | Client_connection_error m \<Rightarrow>
       (\<exists>a\<in>set (pending_connects w). connecting_on w s a) \<and>
       (\<forall>a p. connecting_on w s a \<longrightarrow> pipe_at w a = Some p \<longrightarrow> accepts (pipes.more w) (m_uuid p) CONNECT_FAIL m)
   | Client_established \<Rightarrow>
       (\<exists>a\<in>set (pending_connects w). connecting_on w s a) \<and>
       (\<forall>a p. connecting_on w s a \<longrightarrow> pipe_at w a = Some p \<longrightarrow> accepts (pipes.more w) (m_uuid p) CONNECT_SUCCESS None)
   | Client_closed \<Rightarrow>
       (\<exists>a p. user_data w s = Some a \<and> pipe_at w a = Some p \<and> a \<notin> set (pending_disconnects w) \<union> set (pending_writes w) \<and>
         accepts (pipes.more w) (m_uuid p) CONNECTION_DROPPED None \<and>
         accepts (pipes.more w) (m_uuid p) CONNECTION_CLOSED_GRACEFULLY None)
   | Client_receive x \<Rightarrow>
       (\<exists>a p. user_data w s = Some a \<and> pipe_at w a = Some p \<and> (rx_first x \<longrightarrow> recv_buf p = None) \<and>
         (\<not> rx_first x \<longrightarrow> length (rx_data x) \<le> RECV_BUF_REALLOC_SIZE) \<and>
         (\<forall>b m. receive_fragment x (recv_buf p, recv_len p) = Some (b, Some m) \<longrightarrow>
            accepts (pipes.more w) (m_uuid p) MESSAGE (Some (takeWhile (\<lambda>c. c \<noteq> CHR 0x00) m))))
   | Client_writeable sent \<Rightarrow> user_data w s \<noteq> None
   | _ \<Rightarrow> True)"

lemma uses_valid_steady:
  assumes "uses_valid uses w" and "steady w w'" and "\<forall>a v. uses (pipes.more w') a v \<longrightarrow> uses (pipes.more w) a v"
  shows "uses_valid uses w'"
  unfolding uses_valid_def
proof (intro allI impI)
  fix a u assume "uses (pipes.more w') a u"
  then obtain p where p: "pipe_at w a = Some p" "m_uuid p = u" "m_state p \<noteq> LWS_CLIENT_FAILED"
    using assms(1,3) unfolding uses_valid_def by blast
  obtain q where "pipe_at w' a = Some q" "same_role p q" using steadyD(3) [OF assms(2) p(1)] by blast
  then show "\<exists>p. pipe_at w' a = Some p \<and> m_uuid p = u \<and> m_state p \<noteq> LWS_CLIENT_FAILED" using p(2,3) by (simp add: same_role_def)
qed

context pipe_client begin

text \<open>A step that returns, keeps the invariant and leaves the client with valid pipes.\<close>

definition safe :: "('r \<times> 'm pipes_scheme) option \<Rightarrow> bool" where
  "safe res \<longleftrightarrow> (\<exists>r w'. res = Some (r, w') \<and> pipes_inv w' \<and> uses_valid uses w' \<and> client_ok (pipes.more w'))"

lemma safe_steady:
  assumes "pipes_inv w" and "uses_valid uses w" and "client_ok (pipes.more w)"
    and "\<exists>r w'. res = Some (r, w') \<and> steady w w' \<and> pipes.more w' = pipes.more w"
  shows "safe res"
proof -
  obtain r w' where w': "res = Some (r, w')" "steady w w'" "pipes.more w' = pipes.more w" using assms(4) by blast
  then show ?thesis
    using steady_inv [OF assms(1) w'(2)] uses_valid_steady [OF assms(2) w'(2)] assms(3) by (simp add: safe_def)
qed

lemma wait_cancelled_safe:
  assumes inv: "pipes_inv w" and valid: "uses_valid uses w" and ok: "client_ok (pipes.more w)" and fresh: "fresh_sockets w conn"
  shows "safe (lws_callback pre notify s (Event_wait_cancelled conn) w)"
proof -
  obtain w1 where w1: "process_pending_connects conn w = Some w1" "pipes_inv w1" "pipes.more w1 = pipes.more w"
    "\<forall>a. pipe_at w1 a = (if idle_at w a then map_option (attempted conn a) (pipe_at w a) else pipe_at w a)"
    using process_pending_connects_inv [OF inv fresh] by blast
  have "uses_valid uses w1"
    using valid w1(3,4) by (fastforce simp: uses_valid_def attempted_def idle_at_def)
  moreover obtain w2 where w2: "process_pending_disconnects w1 = Some w2" "steady w1 w2" "pipes.more w2 = pipes.more w1"
    using process_pending_disconnects_steady [OF w1(2)] by blast
  moreover obtain w3 where w3: "process_pending_writes w2 = Some w3" "steady w2 w3" "pipes.more w3 = pipes.more w2"
    using process_pending_writes_steady [OF steady_inv [OF w1(2) w2(2)]] by blast
  ultimately show ?thesis
    using safe_steady [OF w1(2), of "Some (Dummy, w3)"] steady_trans [OF w2(2) w3(2)] w1(1,3) w2(3) w3(3) ok by (simp add: lws_callback_def)
qed

lemma established_safe:
  assumes inv: "pipes_inv w" and valid: "uses_valid uses w" and ok: "client_ok (pipes.more w)"
    and ex: "\<exists>a\<in>set (pending_connects w). connecting_on w s a"
    and acc: "\<forall>a p. connecting_on w s a \<longrightarrow> pipe_at w a = Some p \<longrightarrow> accepts (pipes.more w) (m_uuid p) CONNECT_SUCCESS None"
  shows "safe (on_established notify s w)"
proof -
  obtain a w1 where w1: "find_and_remove_pending_connect s w = Some (Some a, w1)" "pipes_inv w1" "connecting_on w1 s a"
    "a \<notin> set (pending_connects w1)" "pipe_at w1 = pipe_at w" "user_data w1 = user_data w" "pipes.more w1 = pipes.more w"
    using find_and_remove_finds [OF inv ex] by blast
  obtain p where p: "pipe_at w1 a = Some p" "m_state p = LWS_CLIENT_CONNECTING" "m_wsi p = Some s"
    using w1(3) by (auto simp: connecting_on_def)
  let ?w2 = "put_pipe a (p\<lparr> m_vhd := True, m_state := LWS_CLIENT_CONNECTED \<rparr>) (w1\<lparr> user_data := (user_data w1)(s \<mapsto> a) \<rparr>)"
  have inv2: "pipes_inv ?w2" by (rule inv_established [OF w1(2) p w1(4)])
  have valid2: "uses_valid uses ?w2" using valid p w1(5,7) by (fastforce simp: uses_valid_def)
  have acc2: "accepts (pipes.more ?w2) (m_uuid p) CONNECT_SUCCESS None"
    using acc p w1(3,5,7) by (auto simp: connecting_on_def)
  have ok2: "client_ok (pipes.more ?w2)" using ok w1(7) by simp
  obtain w3 where w3: "notify (m_uuid p) CONNECT_SUCCESS None ?w2 = Some w3" "steady ?w2 w3"
    "\<forall>a v. uses (pipes.more w3) a v \<longrightarrow> uses (pipes.more ?w2) a v" "client_ok (pipes.more w3)"
    using notified [OF inv2 _ valid2 ok2 acc2] by auto
  have "on_established notify s w = Some (Dummy, w3)"
    using w1(1) p(1) w3(1) by (simp add: on_established_def Let_def)
  then show ?thesis using steady_inv [OF inv2 w3(2)] uses_valid_steady [OF valid2 w3(2,3)] w3(4) by (simp add: safe_def)
qed

lemma connection_error_safe:
  assumes inv: "pipes_inv w" and valid: "uses_valid uses w" and ok: "client_ok (pipes.more w)"
    and ex: "\<exists>a\<in>set (pending_connects w). connecting_on w s a"
    and acc: "\<forall>a p. connecting_on w s a \<longrightarrow> pipe_at w a = Some p \<longrightarrow> accepts (pipes.more w) (m_uuid p) CONNECT_FAIL m"
  shows "safe (on_connection_error notify s m w)"
proof -
  obtain a w1 where w1: "find_and_remove_pending_connect s w = Some (Some a, w1)" "pipes_inv w1" "connecting_on w1 s a"
    "a \<notin> set (pending_connects w1)" "pipe_at w1 = pipe_at w" "pipes.more w1 = pipes.more w"
    using find_and_remove_finds [OF inv ex] by blast
  obtain p where p: "pipe_at w1 a = Some p" "m_state p = LWS_CLIENT_CONNECTING" "m_wsi p = Some s"
    using w1(3) by (auto simp: connecting_on_def)
  let ?q = "p\<lparr> m_state := LWS_CLIENT_FAILED \<rparr>"
  let ?w2 = "put_pipe a ?q w1"
  have q: "pipe_ok w1 a ?q"
    using pipes_invD(2) [OF w1(2) p(1)] p(2) by (simp add: pipe_ok_def open_pipe_def recv_ok_fits)
  have inv2: "pipes_inv ?w2"
    by (rule inv_put [OF w1(2) p(1) w1(4) _ q]) (use p(2) in \<open>simp_all add: live_pipe_def open_pipe_def\<close>)
  have acc2: "accepts (pipes.more ?w2) (m_uuid p) CONNECT_FAIL m"
    using acc p w1(3,5,6) by (auto simp: connecting_on_def)
  have ok2: "client_ok (pipes.more ?w2)" using ok w1(6) by simp
  obtain w3 where w3: "notify (m_uuid p) CONNECT_FAIL m ?w2 = Some w3" "steady ?w2 w3"
    "\<forall>a v. uses (pipes.more w3) a v \<longrightarrow> uses (pipes.more ?w2) a v \<and> v \<noteq> m_uuid p" "client_ok (pipes.more w3)"
    using lets_go [OF _ ok2 acc2] by auto
  have "on_connection_error notify s m w = Some (Dummy, w3)"
    using w1(1) p(1) w3(1) by (simp add: on_connection_error_def)
  moreover have "uses_valid uses w3"
    unfolding uses_valid_def
  proof (intro allI impI)
    fix b v assume u: "uses (pipes.more w3) b v"
    then have "uses (pipes.more w) b v" "v \<noteq> m_uuid p" using w3(3) w1(6) by auto
    then obtain r where r: "pipe_at w b = Some r" "m_uuid r = v" "m_state r \<noteq> LWS_CLIENT_FAILED" "b \<noteq> a"
      using valid p(1) w1(5) unfolding uses_valid_def by fastforce
    then have "pipe_at ?w2 b = Some r" using w1(5) by simp
    then show "\<exists>p. pipe_at w3 b = Some p \<and> m_uuid p = v \<and> m_state p \<noteq> LWS_CLIENT_FAILED"
      using steadyD(3) [OF w3(2)] r(2,3) by (fastforce simp: same_role_def)
  qed
  ultimately show ?thesis using steady_inv [OF inv2 w3(2)] w3(4) by (simp add: safe_def)
qed

lemma closed_safe:
  assumes inv: "pipes_inv w" and valid: "uses_valid uses w" and ok: "client_ok (pipes.more w)"
    and a: "user_data w s = Some a" "pipe_at w a = Some p" "a \<notin> set (pending_disconnects w) \<union> set (pending_writes w)"
    and acc: "accepts (pipes.more w) (m_uuid p) CONNECTION_DROPPED None" "accepts (pipes.more w) (m_uuid p) CONNECTION_CLOSED_GRACEFULLY None"
  shows "safe (on_closed notify s w)"
proof -
  have "open_pipe p" using pipes_invD(1) [OF inv a(1)] a(2) by auto
  define e where "e = (if m_state p = LWS_CLIENT_DISCONNECTING then CONNECTION_CLOSED_GRACEFULLY else CONNECTION_DROPPED)"
  have e: "last_event e" "accepts (pipes.more w) (m_uuid p) e None"
    "(if m_state p = LWS_CLIENT_DISCONNECTING then notify (m_uuid p) CONNECTION_CLOSED_GRACEFULLY None w
      else if m_state p = LWS_CLIENT_CONNECTED then notify (m_uuid p) CONNECTION_DROPPED None w else Some w) =
     notify (m_uuid p) e None w"
    using acc \<open>open_pipe p\<close> by (auto simp: e_def open_pipe_def)
  obtain w1 where w1: "notify (m_uuid p) e None w = Some w1" "steady w w1" "set (pending_writes w1) \<subseteq> set (pending_writes w)"
    "\<forall>a v. uses (pipes.more w1) a v \<longrightarrow> uses (pipes.more w) a v \<and> v \<noteq> m_uuid p" "client_ok (pipes.more w1)"
    using lets_go [OF e(1) ok e(2)] by blast
  obtain q where q: "pipe_at w1 a = Some q" "same_role p q" using steadyD(3) [OF w1(2) a(2)] by blast
  let ?w2 = "pipe_delete a ((put_pipe a (q\<lparr> m_state := LWS_CLIENT_DISCONNECTED \<rparr>) w1)\<lparr> user_data := (user_data w1)(s := None) \<rparr>)"
  have "on_closed notify s w = Some (Dummy, ?w2)"
    by (simp add: on_closed_def a(1,2) e(3) w1(1) q(1) Let_def)
  moreover have "pipes_inv ?w2"
    by (rule inv_closed [OF steady_inv [OF inv w1(2)]]) (use a(1,3) steadyD(4,6) [OF w1(2)] w1(3) in auto)
  moreover have "uses_valid uses ?w2"
    unfolding uses_valid_def
  proof (intro allI impI)
    fix b v assume "uses (pipes.more ?w2) b v"
    then have u: "uses (pipes.more w) b v" "v \<noteq> m_uuid p" using w1(4) by auto
    then obtain r where r: "pipe_at w b = Some r" "m_uuid r = v" "m_state r \<noteq> LWS_CLIENT_FAILED" "b \<noteq> a"
      using valid a(2) unfolding uses_valid_def by fastforce
    then show "\<exists>p. pipe_at ?w2 b = Some p \<and> m_uuid p = v \<and> m_state p \<noteq> LWS_CLIENT_FAILED"
      using steadyD(3) [OF w1(2) r(1)] by (auto simp: same_role_def)
  qed
  ultimately show ?thesis using w1(5) by (simp add: safe_def)
qed

lemma receive_safe:
  assumes inv: "pipes_inv w" and valid: "uses_valid uses w" and ok: "client_ok (pipes.more w)"
    and a: "user_data w s = Some a" "pipe_at w a = Some p"
    and x: "rx_first x \<longrightarrow> recv_buf p = None" "\<not> rx_first x \<longrightarrow> length (rx_data x) \<le> RECV_BUF_REALLOC_SIZE"
    and acc: "\<forall>b m. receive_fragment x (recv_buf p, recv_len p) = Some (b, Some m) \<longrightarrow>
      accepts (pipes.more w) (m_uuid p) MESSAGE (Some (takeWhile (\<lambda>c. c \<noteq> CHR 0x00) m))"
  shows "safe (on_receive notify s x w)"
proof (cases "rx_binary x")
  case True
  then show ?thesis using inv valid ok a by (simp add: on_receive_def safe_def)
next
  case False
  have "recv_ok p" using pipes_invD(2) [OF inv a(2)] by (simp add: pipe_ok_def)
  then have "\<exists>b msg. receive_fragment x (recv_buf p, recv_len p) = Some (b, msg) \<and> buffer_fits b"
    by (intro receive_fragment_fits) (use x in \<open>simp_all add: recv_ok_fits\<close>)
  then obtain buf sz msg where f: "receive_fragment x (recv_buf p, recv_len p) = Some ((buf, sz), msg)" "buffer_fits (buf, sz)"
    by auto
  let ?q = "p\<lparr> recv_buf := buf, recv_len := sz \<rparr>"
  let ?w1 = "put_pipe a ?q w"
  have role: "same_role p ?q" using f(2) by (simp add: same_role_def recv_ok_fits)
  note st = steady_put [OF a(2) role]
  have inv1: "pipes_inv ?w1" and valid1: "uses_valid uses ?w1"
    using steady_inv [OF inv st] uses_valid_steady [OF valid st] by simp_all
  show ?thesis
  proof (cases msg)
    case None
    then show ?thesis using False a f(1) inv1 valid1 ok by (simp add: on_receive_def safe_def Let_def)
  next
    case (Some m)
    let ?m = "Some (takeWhile (\<lambda>c. c \<noteq> CHR 0x00) m)"
    obtain w2 where w2: "notify (m_uuid p) MESSAGE ?m ?w1 = Some w2" "steady ?w1 w2"
      "\<forall>a v. uses (pipes.more w2) a v \<longrightarrow> uses (pipes.more ?w1) a v" "client_ok (pipes.more w2)"
      using notified [OF inv1 _ valid1, of MESSAGE "m_uuid p" ?m] acc ok f(1) Some by auto
    then show ?thesis
      using Some False a f(1) steady_inv [OF inv1 w2(2)] uses_valid_steady [OF valid1 w2(2,3)] w2(4)
      by (simp add: on_receive_def safe_def Let_def)
  qed
qed

text \<open>Every event that can be delivered is handled, and what follows it can be handled again.\<close>

lemma callback_safe:
  assumes "pipes_inv w" and "uses_valid uses w" and "client_ok (pipes.more w)" and "lws_delivers accepts s r w"
  shows "safe (lws_callback pre notify s r w)"
proof (cases r)
  case (Append_handshake_header fails)
  then show ?thesis using safe_steady [OF assms(1-3) on_handshake_steady [OF assms(1)]] by (simp add: lws_callback_def)
next
  case (Event_wait_cancelled conn)
  then show ?thesis using wait_cancelled_safe [OF assms(1-3)] assms(4) by (simp add: lws_delivers_def)
next
  case (Client_connection_error m)
  then show ?thesis using connection_error_safe [OF assms(1-3)] assms(4) by (simp add: lws_delivers_def lws_callback_def)
next
  case Client_established
  then show ?thesis using established_safe [OF assms(1-3)] assms(4) by (simp add: lws_delivers_def lws_callback_def)
next
  case Client_closed
  then show ?thesis using closed_safe [OF assms(1-3)] assms(4) by (auto simp: lws_delivers_def lws_callback_def)
next
  case (Client_receive x)
  then show ?thesis using receive_safe [OF assms(1-3)] assms(4) by (auto simp: lws_delivers_def lws_callback_def)
next
  case (Client_writeable sent)
  then obtain a where a: "user_data w s = Some a" using assms(4) by (auto simp: lws_delivers_def)
  obtain p where "pipe_at w a = Some p" using pipes_invD(1) [OF assms(1) a] by blast
  then show ?thesis
    using Client_writeable safe_steady [OF assms(1-3) on_writeable_steady [OF a]] by (simp add: lws_callback_def)
next
  case Other_reason
  then show ?thesis using assms(1-3) by (simp add: lws_callback_def safe_def)
qed

end

section \<open>Sessions\<close>

lemma pipe_connect_simps [simp]:
  "pipe_at (pipe_connect a w) = pipe_at w" "user_data (pipe_connect a w) = user_data w"
  "pending_connects (pipe_connect a w) = pending_connects w @ [a]" "pending_disconnects (pipe_connect a w) = pending_disconnects w"
  "pending_writes (pipe_connect a w) = pending_writes w" "pipes.more (pipe_connect a w) = pipes.more w"
  by (simp_all add: pipe_connect_def add_pending_connect_def)

lemma inv_new_pipe:
  assumes inv: "pipes_inv w" and new: "pipe_at w a = None"
  shows "pipes_inv (pipe_connect a (put_pipe a (pipe_new pre uuid host port path ssl len free user pw) w))" (is "pipes_inv ?w")
proof (rule pipes_invI)
  let ?p = "pipe_new pre uuid host port path ssl len free user pw"
  have p: "m_state ?p = LWS_CLIENT_IDLE" "\<not> live_pipe ?p" "\<not> open_pipe ?p" "\<not> m_vhd ?p" "m_wsi ?p = None" "recv_ok ?p"
    by (simp_all add: pipe_new_def live_pipe_def open_pipe_def recv_ok_def)
  have a: "a \<notin> set (pending_connects w)" using pipes_invD(3) [OF inv, of a] new by (auto simp: waiting_at_def)
  show "\<exists>p. pipe_at ?w b = Some p \<and> m_wsi p = Some s \<and> open_pipe p" if "user_data ?w s = Some b" for s b
    using that pipes_invD(1) [OF inv, of s b] new by auto
  show "pipe_ok ?w b r" if "pipe_at ?w b = Some r" for b r
    using that pipes_invD(2) [OF inv, of b r] p by (cases "b = a") (auto simp: pipe_ok_def)
  show "waiting_at ?w b" if "b \<in> set (pending_connects ?w)" for b
    using that pipes_invD(3) [OF inv, of b] p(1) by (auto simp: waiting_at_def)
  show "pipe_at ?w b \<noteq> None" if "b \<in> set (pending_disconnects ?w) \<union> set (pending_writes ?w)" for b
    using that pipes_invD(4) [OF inv, of b] by auto
  show "b = c" if "pipe_at ?w b = Some r" "pipe_at ?w c = Some t" "live_pipe r" "live_pipe t" "m_wsi r = Some x" "m_wsi t = Some x"
    for b c r t x
    using that pipes_invD(5) [OF inv, of b r c t x] p(2) by (auto split: if_splits)
  show "distinct (pending_connects ?w)" using pipes_invD(6) [OF inv] a by simp
  have other: "b \<noteq> a" if "b \<in> set (pending_connects w)" for b using that a by auto
  have "sorted_wrt (\<lambda>b c. idle_at ?w b \<longrightarrow> idle_at ?w c) (pending_connects w)"
    using pipes_invD(7) [OF inv] by (auto simp: idle_at_def elim!: sorted_wrt_mono_rel [rotated] dest!: other)
  moreover have "idle_at ?w a" using p(1) by (simp add: idle_at_def)
  ultimately show "sorted_wrt (\<lambda>b c. idle_at ?w b \<longrightarrow> idle_at ?w c) (pending_connects ?w)"
    by (simp add: sorted_wrt_append)
qed

lemma inv_add_disconnect:
  assumes inv: "pipes_inv w" and a: "pipe_at w a \<noteq> None"
  shows "pipes_inv (w\<lparr> pending_disconnects := pending_disconnects w @ [a] \<rparr>)" (is "pipes_inv ?w")
proof (rule pipes_invI)
  show "pipe_ok ?w b r" if "pipe_at ?w b = Some r" for b r
    using that pipes_invD(2) [OF inv, of b r] by (simp add: pipe_ok_def)
  show "waiting_at ?w b" if "b \<in> set (pending_connects ?w)" for b
    using that pipes_invD(3) [OF inv, of b] by (simp add: waiting_at_def)
  show "pipe_at ?w b \<noteq> None" if "b \<in> set (pending_disconnects ?w) \<union> set (pending_writes ?w)" for b
    using that pipes_invD(4) [OF inv, of b] a by auto
  show "b = c" if "pipe_at ?w b = Some r" "pipe_at ?w c = Some t" "live_pipe r" "live_pipe t" "m_wsi r = Some x" "m_wsi t = Some x"
    for b c r t x
    using that pipes_invD(5) [OF inv, of b r c t x] by simp
  show "sorted_wrt (\<lambda>b c. idle_at ?w b \<longrightarrow> idle_at ?w c) (pending_connects ?w)"
    using pipes_invD(7) [OF inv] by (simp add: idle_at_def)
qed (use pipes_invD(1,6) [OF inv] in simp_all)

lemma pipe_close_inv:
  assumes inv: "pipes_inv w" and p: "pipe_at w a = Some p"
  shows "\<exists>w'. pipe_close a w = Some w' \<and> pipes_inv w' \<and> pipes.more w' = pipes.more w \<and>
    (\<forall>b. pipe_at w' b = (if b = a \<and> m_state p = LWS_CLIENT_CONNECTED then Some (p\<lparr> m_state := LWS_CLIENT_DISCONNECTING \<rparr>) else pipe_at w b))"
proof (cases "m_state p = LWS_CLIENT_CONNECTED")
  case True
  let ?q = "p\<lparr> m_state := LWS_CLIENT_DISCONNECTING \<rparr>"
  have "a \<notin> set (pending_connects w)" using pipes_invD(3) [OF inv, of a] p True by (auto simp: waiting_at_def)
  moreover have ok: "pipe_ok w a ?q" "m_vhd p"
    using pipes_invD(2) [OF inv p] True by (simp_all add: pipe_ok_def open_pipe_def recv_ok_fits)
  ultimately have inv1: "pipes_inv (put_pipe a ?q w)"
    by (intro inv_put [OF inv p]) (use True in \<open>simp_all add: live_pipe_def open_pipe_def\<close>)
  let ?w = "calls_lws Cancel_service ((put_pipe a ?q w)\<lparr> pending_disconnects := pending_disconnects w @ [a] \<rparr>)"
  have "pipe_close a w = Some ?w"
    using p True ok(2) by (simp add: pipe_close_def add_pending_disconnect_def cancel_service_of_def Let_def)
  moreover have "pipes_inv ?w"
    using steady_inv [OF inv_add_disconnect [OF inv1, of a] steady_calls] by simp
  ultimately show ?thesis using True by auto
next
  case False
  then show ?thesis using inv p by (simp add: pipe_close_def)
qed

section \<open>Progress and its limits\<close>

text \<open>
  Every pipe that waits is tried the next time the service is interrupted.
\<close>

lemma idle_attempted:
  assumes inv: "pipes_inv w" and fresh: "fresh_sockets w conn"
  shows "\<exists>w'. lws_callback pre notify s (Event_wait_cancelled conn) w = Some (Dummy, w') \<and>
    (\<forall>a p. pipe_at w a = Some p \<longrightarrow> m_state p = LWS_CLIENT_IDLE \<longrightarrow>
      (\<exists>q. pipe_at w' a = Some q \<and> m_state q = LWS_CLIENT_CONNECTING \<and> m_wsi q = conn a))"
proof -
  obtain w1 where w1: "process_pending_connects conn w = Some w1" "pipes_inv w1"
    "\<forall>a. pipe_at w1 a = (if idle_at w a then map_option (attempted conn a) (pipe_at w a) else pipe_at w a)"
    using process_pending_connects_inv [OF inv fresh] by blast
  obtain w2 where w2: "process_pending_disconnects w1 = Some w2" "steady w1 w2"
    using process_pending_disconnects_steady [OF w1(2)] by blast
  obtain w3 where w3: "process_pending_writes w2 = Some w3" "steady w2 w3"
    using process_pending_writes_steady [OF steady_inv [OF w1(2) w2(2)]] by blast
  have "\<exists>q. pipe_at w3 a = Some q \<and> m_state q = LWS_CLIENT_CONNECTING \<and> m_wsi q = conn a"
    if "pipe_at w a = Some p" "m_state p = LWS_CLIENT_IDLE" for a p
  proof -
    have "pipe_at w1 a = Some (attempted conn a p)" using w1(3) that by (auto simp: idle_at_def)
    then show ?thesis
      using steadyD(3) [OF steady_trans [OF w2(2) w3(2)]] by (fastforce simp: same_role_def attempted_def)
  qed
  then show ?thesis using w1(1) w2(1) w3(1) by (simp add: lws_callback_def)
qed

text \<open>
  A socket that closes while its pipe is in a list of pending work leaves a dangling pointer there:
  the next interruption of the service reads the deleted object.
\<close>

lemma mark_connecting_keeps:
  "mark_connecting as w = Some (bs, w') \<Longrightarrow> (\<forall>b. pipe_at w' b = None \<longleftrightarrow> pipe_at w b = None) \<and>
    pending_disconnects w' = pending_disconnects w \<and> pending_writes w' = pending_writes w"
proof (induction as arbitrary: bs w w')
  case (Cons a as)
  then obtain p where p: "pipe_at w a = Some p" by (auto simp: bind_eq_Some_conv)
  show ?case
  proof (cases "m_state p = LWS_CLIENT_IDLE")
    case True
    then obtain cs where "mark_connecting as (put_pipe a (p\<lparr> m_state := LWS_CLIENT_CONNECTING \<rparr>) w) = Some (cs, w')"
      using Cons.prems p by (auto simp: bind_eq_Some_conv)
    then show ?thesis using Cons.IH p by (metis (no_types, lifting) fun_upd_apply option.distinct(1) world_simps(8,11,12))
  next
    case False
    then show ?thesis using Cons.IH [of w] Cons.prems p by simp
  qed
qed simp

lemma connect_all_keeps:
  "connect_all conn as w = Some w' \<Longrightarrow> (\<forall>b. pipe_at w' b = None \<longleftrightarrow> pipe_at w b = None) \<and>
    pending_disconnects w' = pending_disconnects w \<and> pending_writes w' = pending_writes w"
proof (induction as arbitrary: w)
  case (Cons a as)
  then obtain p where p: "pipe_at w a = Some p" "\<not> m_vhd p"
    by (auto simp: bind_eq_Some_conv connect_client_def split: if_splits)
  let ?w = "put_pipe a (p\<lparr> m_state := LWS_CLIENT_CONNECTING, m_vhd := True, m_wsi := conn a \<rparr>) w"
  have "connect_all conn as ?w = Some w'" using Cons.prems p by (simp add: connect_client_def)
  then show ?case using Cons.IH [of ?w] p by auto
qed simp

lemma process_pending_connects_keeps:
  assumes "process_pending_connects conn w = Some w'"
  shows "pipe_at w' b = None \<longleftrightarrow> pipe_at w b = None" and "pending_disconnects w' = pending_disconnects w"
    and "pending_writes w' = pending_writes w"
proof -
  obtain bs w1 where w1: "mark_connecting (pending_connects w) w = Some (bs, w1)" "connect_all conn bs w1 = Some w'"
    using assms by (auto simp: process_pending_connects_def bind_eq_Some_conv)
  show "pipe_at w' b = None \<longleftrightarrow> pipe_at w b = None" "pending_disconnects w' = pending_disconnects w" "pending_writes w' = pending_writes w"
    using mark_connecting_keeps [OF w1(1)] connect_all_keeps [OF w1(2)] by simp_all
qed

lemma writable_all_keeps:
  "writable_all as w = Some w' \<Longrightarrow> pipe_at w' = pipe_at w \<and> pending_writes w' = pending_writes w"
  by (induction as arbitrary: w) (auto simp: bind_eq_Some_conv)

lemma in_state_missing: "a \<in> set as \<Longrightarrow> pipe_at w a = None \<Longrightarrow> in_state st as w = None"
proof (induction as)
  case (Cons b as)
  then show ?case by (cases "b = a"; cases "pipe_at w b") auto
qed simp

lemma dangling_undefined:
  assumes "pipe_at w a = None" and "a \<in> set (pending_disconnects w) \<union> set (pending_writes w)"
  shows "lws_callback pre notify s (Event_wait_cancelled conn) w = None"
proof (rule ccontr)
  assume "lws_callback pre notify s (Event_wait_cancelled conn) w \<noteq> None"
  then obtain w1 w2 w3 where w: "process_pending_connects conn w = Some w1" "process_pending_disconnects w1 = Some w2"
    "process_pending_writes w2 = Some w3"
    by (auto simp: lws_callback_def bind_eq_Some_conv)
  have gone: "pipe_at w1 a = None" using process_pending_connects_keeps(1) [OF w(1)] assms(1) by simp
  obtain ds where ds: "in_state LWS_CLIENT_DISCONNECTING (pending_disconnects w1) w1 = Some ds"
      "writable_all ds (w1\<lparr> pending_disconnects := [] \<rparr>) = Some w2"
    using w(2) by (auto simp: process_pending_disconnects_def bind_eq_Some_conv)
  have w2: "pipe_at w2 = pipe_at w1" "pending_writes w2 = pending_writes w1" using writable_all_keeps [OF ds(2)] by simp_all
  obtain ws where ws: "in_state LWS_CLIENT_CONNECTED (pending_writes w2) w2 = Some ws"
    using w(3) by (auto simp: process_pending_writes_def bind_eq_Some_conv)
  have "a \<notin> set (pending_disconnects w1)" "a \<notin> set (pending_writes w1)"
    using in_state_missing [of a _ w1] in_state_missing [of a _ w2] gone ds(1) ws w2 by fastforce+
  then show False using assms(2) process_pending_connects_keeps(2,3) [OF w(1)] by simp
qed

end
