(* ===== verification/WsUri.thy ===== *)
theory WsUri
  imports CString
begin

text \<open>
  \<open>parse_ws_uri\<close> of \<open>mod_audio_fork/lws_glue.cpp\<close>: the URI of the websocket server. The regular
  expression it searches for is written out as the backtracking matcher its ECMAScript semantics
  prescribe: lazy and greedy repetitions try their lengths in their order and the first overall
  match wins. C strings hold no NUL.
\<close>

section \<open>The expression \<open>^(.+?):?(\d+)?(/.*)?$\<close>\<close>

text \<open>The characters a dot matches.\<close>

definition dot :: "char \<Rightarrow> bool" where
  "dot c \<longleftrightarrow> of_char c \<noteq> (10::nat) \<and> of_char c \<noteq> (13::nat)"

text \<open>\<open>(/.*)?$\<close>: the dots have to reach the end.\<close>

definition match_path :: "string \<Rightarrow> string option" where
  "match_path s = (case s of
     [] \<Rightarrow> Some []
   | c # t \<Rightarrow> if c = CHR ''/'' \<and> (\<forall>d\<in>set t. dot d) then Some s else None)"

text \<open>\<open>(\d+)?\<close> and what follows it: the longest run of digits first, no digit last.\<close>

fun match_digits :: "nat \<Rightarrow> string \<Rightarrow> (string \<times> string) option" where
  "match_digits 0 s = map_option (Pair []) (match_path s)"
| "match_digits (Suc k) s = (case match_path (drop (Suc k) s) of
     Some p \<Rightarrow> Some (take (Suc k) s, p)
   | None \<Rightarrow> match_digits k s)"

definition match_port :: "string \<Rightarrow> (string \<times> string) option" where
  "match_port s = match_digits (length (takeWhile c_isdigit s)) s"

text \<open>\<open>:?\<close>: the colon first.\<close>

definition match_colon :: "string \<Rightarrow> (string \<times> string) option" where
  "match_colon s = (case s of
     c # t \<Rightarrow> if c = CHR '':'' then (case match_port t of Some r \<Rightarrow> Some r | None \<Rightarrow> match_port s) else match_port s
   | [] \<Rightarrow> match_port s)"

text \<open>\<open>(.+?)\<close>: the shortest non-empty text first. The three groups of the match.\<close>

fun match_host :: "string \<Rightarrow> string \<Rightarrow> (string \<times> string \<times> string) option" where
  "match_host h [] = None"
| "match_host h (c # s) =
     (if \<not> dot c then None
      else case match_colon s of
        Some (d, p) \<Rightarrow> Some (h @ [c], d, p)
      | None \<Rightarrow> match_host (h @ [c]) s)"

section \<open>The function\<close>

definition MAX_WS_URL_LEN :: nat where "MAX_WS_URL_LEN = 512"
definition MAX_PATH_LEN :: nat where "MAX_PATH_LEN = 4096"

datatype ssl_flag =
    LCCSCF_USE_SSL | LCCSCF_ALLOW_SELFSIGNED | LCCSCF_SKIP_SERVER_CERT_HOSTNAME_CHECK | LCCSCF_ALLOW_EXPIRED

record ws_target =
  ws_host :: "string option"          \<comment> \<open>\<open>None\<close>: the buffer holds no terminated string\<close>
  ws_path :: "string option"
  ws_port :: nat
  ws_ssl :: "ssl_flag list"

text \<open>\<open>strncpy\<close> into a buffer of \<open>n\<close> bytes: the string it then holds.\<close>

definition strncpy_buf :: "nat \<Rightarrow> string \<Rightarrow> string option" where
  "strncpy_buf n s = (if length s < n then Some s else None)"

text \<open>The scheme: the text after it, the flags and the port it implies.\<close>

definition strip_prefix :: "string \<Rightarrow> string \<Rightarrow> string option" where
  "strip_prefix p s = (if take (length p) s = p then Some (drop (length p) s) else None)"

definition ws_scheme :: "ssl_flag list \<Rightarrow> string \<Rightarrow> (string \<times> ssl_flag list \<times> nat) option" where
  "ws_scheme flags s = (
     case strip_prefix ''https://'' s of Some r \<Rightarrow> Some (r, flags, 443) | None \<Rightarrow>
     case strip_prefix ''HTTPS://'' s of Some r \<Rightarrow> Some (r, flags, 443) | None \<Rightarrow>
     case strip_prefix ''wss://'' s of Some r \<Rightarrow> Some (r, flags, 443) | None \<Rightarrow>
     case strip_prefix ''WSS://'' s of Some r \<Rightarrow> Some (r, flags, 443) | None \<Rightarrow>
     case strip_prefix ''http://'' s of Some r \<Rightarrow> Some (r, [], 80) | None \<Rightarrow>
     case strip_prefix ''HTTP://'' s of Some r \<Rightarrow> Some (r, [], 80) | None \<Rightarrow>
     case strip_prefix ''ws://'' s of Some r \<Rightarrow> Some (r, [], 80) | None \<Rightarrow>
     case strip_prefix ''WS://'' s of Some r \<Rightarrow> Some (r, [], 80) | None \<Rightarrow> None)"

text \<open>
  The result is \<open>None\<close> when the copy of the URI is not terminated and read past its end, and
  \<open>Some None\<close> when the function answers 0. \<open>atoi\<close> is stored in an unsigned int.
\<close>

definition parse_ws_uri :: "bool \<Rightarrow> bool \<Rightarrow> bool \<Rightarrow> string \<Rightarrow> ws_target option option" where
  "parse_ws_uri selfsigned skip_hostname expired uri =
     (let flags = LCCSCF_USE_SSL # (if selfsigned then [LCCSCF_ALLOW_SELFSIGNED] else []) @
        (if skip_hostname then [LCCSCF_SKIP_SERVER_CERT_HOSTNAME_CHECK] else []) @ (if expired then [LCCSCF_ALLOW_EXPIRED] else [])
      in case ws_scheme flags uri of
           None \<Rightarrow> Some None
         | Some (rest, ssl, port) \<Rightarrow>
             if MAX_WS_URL_LEN + MAX_PATH_LEN \<le> length uri then None
             else Some (case match_host [] rest of
                 None \<Rightarrow> None
               | Some (h, d, p) \<Rightarrow> Some \<lparr>
                   ws_host = strncpy_buf MAX_WS_URL_LEN h,
                   ws_path = (if p \<noteq> [] then strncpy_buf MAX_PATH_LEN p else Some ''/''),
                   ws_port = (if d \<noteq> [] then nat (atoi d mod 2 ^ 32) else port),
                   ws_ssl = ssl \<rparr>))"

section \<open>What the expression matches\<close>

lemma match_path_digit: "c_isdigit c \<Longrightarrow> match_path (c # s) = None"
  by (auto simp: match_path_def c_isdigit_def)

text \<open>Only the whole run of digits can be followed by a path or the end.\<close>

lemma match_digits_all:
  assumes "k \<le> length s" and "\<forall>c\<in>set (take k s). c_isdigit c"
  shows "match_digits k s = map_option (Pair (take k s)) (match_path (drop k s)) \<or>
    k \<noteq> 0 \<and> match_path (drop k s) = None \<and> match_digits k s = None"
  using assms
proof (induction k)
  case (Suc k)
  have "drop k s = s ! k # drop (Suc k) s" using Suc.prems(1) by (simp add: Cons_nth_drop_Suc)
  moreover have "c_isdigit (s ! k)" using Suc.prems by (simp add: take_Suc_conv_app_nth)
  ultimately have "match_path (drop k s) = None" using match_path_digit by simp
  moreover have "\<forall>c\<in>set (take k s). c_isdigit c" using Suc.prems by (simp add: take_Suc_conv_app_nth)
  ultimately have "match_digits k s = None" using Suc by auto
  then show ?case by (cases "match_path (drop (Suc k) s)") simp_all
qed simp

lemma match_port_eq: "match_port s = map_option (Pair (takeWhile c_isdigit s)) (match_path (dropWhile c_isdigit s))"
proof -
  have "\<forall>c\<in>set (take (length (takeWhile c_isdigit s)) s). c_isdigit c"
    by (metis set_takeWhileD takeWhile_eq_take)
  then show ?thesis
    using match_digits_all [of "length (takeWhile c_isdigit s)" s] length_takeWhile_le [of c_isdigit s]
    by (auto simp: match_port_def takeWhile_eq_take [symmetric] dropWhile_eq_drop [symmetric])
qed

lemma match_colon_eq: "match_colon s = (case s of c # t \<Rightarrow> if c = CHR '':'' then match_port t else match_port s | [] \<Rightarrow> match_port s)"
proof -
  have "match_port (CHR '':'' # t) = None" for t
    by (simp add: match_port_eq c_isdigit_def match_path_def)
  then show ?thesis by (auto simp: match_colon_def split: list.split option.split)
qed

text \<open>A run of text without a slash that ends in neither a digit nor a colon blocks a match.\<close>

lemma match_port_blocked:
  assumes "CHR ''/'' \<notin> set y" and "\<not> c_isdigit c" and "c \<noteq> CHR ''/''"
  shows "match_port (y @ c # t) = None"
  using assms(1)
proof (induction y)
  case Nil
  then show ?case using assms(2,3) by (simp add: match_port_eq match_path_def)
next
  case (Cons d y)
  then show ?case
    by (cases "c_isdigit d") (auto simp: match_port_eq match_path_def)
qed

lemma match_colon_blocked:
  assumes "CHR ''/'' \<notin> set y" and "\<not> c_isdigit c" and "c \<noteq> CHR ''/''" and "c \<noteq> CHR '':'' \<or> y \<noteq> []"
  shows "match_colon (y @ c # t) = None"
proof (cases y)
  case Nil
  then show ?thesis using match_port_blocked [of "[]" c t] assms(2-4) by (simp add: match_colon_eq)
next
  case (Cons b z)
  then show ?thesis
    using match_port_blocked [of z c t] match_port_blocked [of y c t] assms(1-3) by (simp add: match_colon_eq)
qed

lemma match_host_exact:
  assumes "match_colon t = Some (d, p)" and "h \<noteq> []" and "\<forall>c\<in>set h. dot c"
    and "\<And>x y. h = x @ y \<Longrightarrow> x \<noteq> [] \<Longrightarrow> y \<noteq> [] \<Longrightarrow> match_colon (y @ t) = None"
  shows "match_host acc (h @ t) = Some (acc @ h, d, p)"
  using assms(2-4)
proof (induction h arbitrary: acc)
  case (Cons c h)
  show ?case
  proof (cases "h = []")
    case True
    then show ?thesis using Cons.prems(2) assms(1) by simp
  next
    case False
    have "match_colon (h @ t) = None" using Cons.prems(3) [of "[c]" h] False by simp
    moreover have "match_host (acc @ [c]) (h @ t) = Some ((acc @ [c]) @ h, d, p)"
    proof (rule Cons.IH [OF False])
      show "\<forall>c\<in>set h. dot c" using Cons.prems(2) by simp
      show "match_colon (y @ t) = None" if "h = x @ y" "x \<noteq> []" "y \<noteq> []" for x y
        using Cons.prems(3) [of "c # x" y] that by simp
    qed
    ultimately show ?thesis using Cons.prems(2) by simp
  qed
qed simp

text \<open>A path of a URI: none, or one that starts with a slash and stays on one line.\<close>

definition uri_path :: "string \<Rightarrow> bool" where
  "uri_path p \<longleftrightarrow> match_path p = Some p"

definition host_text :: "string \<Rightarrow> bool" where
  "host_text h \<longleftrightarrow> h \<noteq> [] \<and> (\<forall>c\<in>set h. dot c \<and> c \<noteq> CHR ''/'' \<and> c \<noteq> CHR '':'')"

lemma match_port_digits: "\<forall>c\<in>set d. c_isdigit c \<Longrightarrow> uri_path p \<Longrightarrow> match_port (d @ p) = Some (d, p)"
proof -
  assume d: "\<forall>c\<in>set d. c_isdigit c" and p: "uri_path p"
  have "takeWhile c_isdigit p = []" "dropWhile c_isdigit p = p"
    using p by (cases p; auto simp: uri_path_def match_path_def c_isdigit_def split: if_splits)+
  then show ?thesis using d p by (simp add: match_port_eq uri_path_def)
qed

lemma match_host_port:
  assumes "host_text h" and "\<forall>c\<in>set d. c_isdigit c" and "uri_path p"
  shows "match_host [] (h @ CHR '':'' # d @ p) = Some (h, d, p)"
proof -
  have "match_host [] (h @ (CHR '':'' # d @ p)) = Some ([] @ h, d, p)"
  proof (rule match_host_exact)
    show "match_colon (CHR '':'' # d @ p) = Some (d, p)" using match_port_digits [OF assms(2,3)] by (simp add: match_colon_eq)
    show "match_colon (y @ CHR '':'' # d @ p) = None" if "h = x @ y" "x \<noteq> []" "y \<noteq> []" for x y
      using assms(1) that by (intro match_colon_blocked) (auto simp: host_text_def c_isdigit_def)
  qed (use assms(1) in \<open>auto simp: host_text_def\<close>)
  then show ?thesis by simp
qed

text \<open>Without a colon the digits at the end of the host are taken for the port.\<close>

lemma match_host_digits:
  assumes "host_text (h @ [c])" and "\<not> c_isdigit c" and "\<forall>c\<in>set d. c_isdigit c" and "uri_path p"
  shows "match_host [] (h @ c # d @ p) = Some (h @ [c], d, p)"
proof -
  have "\<exists>t. d @ p = CHR '':'' # t \<Longrightarrow> False"
    using assms(3,4) by (cases d; cases p) (auto simp: c_isdigit_def uri_path_def match_path_def split: if_splits)
  then have dp: "match_colon (d @ p) = Some (d, p)"
    using match_port_digits [OF assms(3,4)] by (auto simp: match_colon_eq split: list.split)
  have "match_host [] ((h @ [c]) @ (d @ p)) = Some ([] @ (h @ [c]), d, p)"
  proof (rule match_host_exact [OF dp])
    show "match_colon (y @ d @ p) = None" if xy: "h @ [c] = x @ y" "x \<noteq> []" "y \<noteq> []" for x y
    proof -
      obtain z where z: "y = z @ [c]" "h = x @ z"
        using xy(1,3) by (metis append_butlast_last_id append_is_Nil_conv butlast_append last_append last_snoc butlast_snoc)
      then show ?thesis
        using assms(1,2) match_colon_blocked [of z c "d @ p"] by (auto simp: host_text_def)
    qed
  qed (use assms(1) in \<open>auto simp: host_text_def\<close>)
  then show ?thesis by simp
qed

section \<open>URIs\<close>

definition ws_schemes :: "(string \<times> bool) list" where
  "ws_schemes = [(''https://'', True), (''HTTPS://'', True), (''wss://'', True), (''WSS://'', True),
     (''http://'', False), (''HTTP://'', False), (''ws://'', False), (''WS://'', False)]"

lemma strip_prefix_simps:
  "strip_prefix [] s = Some s" "strip_prefix (a # p) [] = None"
  "strip_prefix (a # p) (b # s) = (if a = b then strip_prefix p s else None)"
  by (auto simp: strip_prefix_def)

lemma ws_scheme_texts:
  "ws_scheme f (''https://'' @ r) = Some (r, f, 443)" "ws_scheme f (''HTTPS://'' @ r) = Some (r, f, 443)"
  "ws_scheme f (''wss://'' @ r) = Some (r, f, 443)" "ws_scheme f (''WSS://'' @ r) = Some (r, f, 443)"
  "ws_scheme f (''http://'' @ r) = Some (r, [], 80)" "ws_scheme f (''HTTP://'' @ r) = Some (r, [], 80)"
  "ws_scheme f (''ws://'' @ r) = Some (r, [], 80)" "ws_scheme f (''WS://'' @ r) = Some (r, [], 80)"
  by (simp_all add: ws_scheme_def strip_prefix_simps)

lemma ws_scheme_known:
  assumes "(sch, secure) \<in> set ws_schemes"
  shows "ws_scheme flags (sch @ rest) = Some (rest, if secure then flags else [], if secure then 443 else 80)"
proof -
  have "sch = ''https://'' \<and> secure \<or> sch = ''HTTPS://'' \<and> secure \<or> sch = ''wss://'' \<and> secure \<or> sch = ''WSS://'' \<and> secure \<or>
      sch = ''http://'' \<and> \<not> secure \<or> sch = ''HTTP://'' \<and> \<not> secure \<or> sch = ''ws://'' \<and> \<not> secure \<or> sch = ''WS://'' \<and> \<not> secure"
    using assms unfolding ws_schemes_def list.set insert_iff empty_iff prod.inject by argo
  then show ?thesis by (elim disjE conjE) (simp_all only: ws_scheme_texts if_True if_False)
qed

lemma show_nat_isdigit: "\<forall>c\<in>set (show_nat n). c_isdigit c"
  using show_nat_digits isdigit_digit_char by blast

text \<open>
  C27. The URI round trip: a URI made of one of the schemes, a host without slash and colon, a port and
  a path gives exactly these back, and so does one without a port when the host does not end in a
  digit, with the port of the scheme; TLS is on exactly for the secure schemes.
\<close>

theorem ws_uri_roundtrip:
  assumes "(sch, secure) \<in> set ws_schemes" and "host_text h" and "uri_path p"
    and "port = None \<longrightarrow> \<not> c_isdigit (last h)" and "\<forall>n. port = Some n \<longrightarrow> n < 2 ^ 31"
    and "uri = sch @ h @ (case port of Some n \<Rightarrow> CHR '':'' # show_nat n | None \<Rightarrow> []) @ p"
    and "length h < MAX_WS_URL_LEN" and "length p < MAX_PATH_LEN" and "length uri < MAX_WS_URL_LEN + MAX_PATH_LEN"
  shows "\<exists>t. parse_ws_uri a b c uri = Some (Some t) \<and> ws_host t = Some h \<and>
    ws_path t = Some (if p = [] then ''/'' else p) \<and> (ws_ssl t \<noteq> [] \<longleftrightarrow> secure) \<and>
    ws_port t = (case port of Some n \<Rightarrow> n | None \<Rightarrow> if secure then 443 else 80)"
proof (cases port)
  case None
  have h: "h = butlast h @ [last h]" "h \<noteq> []" using assms(2) by (simp_all add: host_text_def)
  have "match_host [] (butlast h @ last h # [] @ p) = Some (butlast h @ [last h], [], p)"
    by (rule match_host_digits) (use assms(2-4) None h in auto)
  then have "match_host [] (h @ p) = Some (h, [], p)" using h by (metis append.assoc append_Cons append_Nil)
  then show ?thesis
    using None assms(6-9) ws_scheme_known [OF assms(1)] by (auto simp: parse_ws_uri_def strncpy_buf_def Let_def)
next
  case (Some n)
  have "match_host [] (h @ CHR '':'' # show_nat n @ p) = Some (h, show_nat n, p)"
    by (rule match_host_port [OF assms(2) show_nat_isdigit assms(3)])
  moreover have "nat (atoi (show_nat n) mod 2 ^ 32) = n" using assms(5) Some by (simp add: atoi_show_nat)
  ultimately show ?thesis
    using Some assms(6-9) ws_scheme_known [OF assms(1)] show_nat_nonempty [of n]
    by (auto simp: parse_ws_uri_def strncpy_buf_def Let_def)
qed

theorem ws_uri_roundtrip_witness:
  "\<exists>t. parse_ws_uri False True False ''wss://call.example:90/stream'' = Some (Some t) \<and>
     ws_host t = Some ''call.example'' \<and> ws_port t = 90 \<and> ws_path t = Some ''/stream''"
proof -
  have u: "''wss://call.example:90/stream'' = ''wss://'' @ ''call.example'' @
      (case Some 90 of Some n \<Rightarrow> CHR '':'' # show_nat n | None \<Rightarrow> []) @ ''/stream''"
    by code_simp
  have "(''wss://'', True) \<in> set ws_schemes" "host_text ''call.example''" "uri_path ''/stream''"
    "length ''call.example'' < MAX_WS_URL_LEN" "length ''/stream'' < MAX_PATH_LEN"
    "length ''wss://call.example:90/stream'' < MAX_WS_URL_LEN + MAX_PATH_LEN"
    by (simp_all add: ws_schemes_def host_text_def dot_def uri_path_def match_path_def c_isdigit_def MAX_WS_URL_LEN_def MAX_PATH_LEN_def)
  from ws_uri_roundtrip [OF this(1-3) _ _ u this(4-6), of False True False] show ?thesis by (fastforce simp: c_isdigit_def)
qed

text \<open>
  A host that ends in digits needs its port: without one, the digits after the last other
  character are cut off the host and taken for the port. \<open>wss://10.0.0.7/x\<close> goes to port 7
  of the host \<open>10.0.0.\<close>.
\<close>

theorem ws_uri_digits_lost:
  assumes "(sch, secure) \<in> set ws_schemes" and "host_text (h @ [c])" and "\<not> c_isdigit c" and "uri_path p" and "n < 2 ^ 31"
    and "uri = sch @ h @ c # show_nat n @ p"
    and "length h + 1 < MAX_WS_URL_LEN" and "length p < MAX_PATH_LEN" and "length uri < MAX_WS_URL_LEN + MAX_PATH_LEN"
  shows "\<exists>t. parse_ws_uri x y z uri = Some (Some t) \<and> ws_host t = Some (h @ [c]) \<and> ws_port t = n"
proof -
  have "match_host [] (h @ c # show_nat n @ p) = Some (h @ [c], show_nat n, p)"
    by (rule match_host_digits [OF assms(2,3) show_nat_isdigit assms(4)])
  moreover have "nat (atoi (show_nat n) mod 2 ^ 32) = n" using assms(5) by (simp add: atoi_show_nat)
  ultimately show ?thesis
    using assms(6-9) ws_scheme_known [OF assms(1)] show_nat_nonempty [of n]
    by (auto simp: parse_ws_uri_def strncpy_buf_def Let_def)
qed

theorem ws_uri_digits_lost_witness:
  "\<exists>t. parse_ws_uri False False False ''wss://10.0.0.7/x'' = Some (Some t) \<and> ws_host t = Some ''10.0.0.'' \<and> ws_port t = 7"
proof -
  have u: "''wss://10.0.0.7/x'' = ''wss://'' @ ''10.0.0'' @ CHR ''.'' # show_nat 7 @ ''/x''"
    by code_simp
  have "(''wss://'', True) \<in> set ws_schemes" "host_text (''10.0.0'' @ [CHR ''.''])" "\<not> c_isdigit (CHR ''.'')" "uri_path ''/x''"
    "length ''10.0.0'' + 1 < MAX_WS_URL_LEN" "length ''/x'' < MAX_PATH_LEN" "length ''wss://10.0.0.7/x'' < MAX_WS_URL_LEN + MAX_PATH_LEN"
    by (simp_all add: ws_schemes_def host_text_def dot_def uri_path_def match_path_def c_isdigit_def MAX_WS_URL_LEN_def MAX_PATH_LEN_def)
  from ws_uri_digits_lost [OF this(1-4) _ u this(5-7), of False False False] show ?thesis by simp
qed

end
