(* ===== verification/LwsGlue.thy ===== *)
theory LwsGlue
  imports AudioFork Base64 PipeSafety WsUri
begin

text \<open>
  \<open>mod_audio_fork/lws_glue.cpp\<close> and \<open>parser.cpp\<close>: what ties a FreeSWITCH session to
  its pipe. The state of the glue extends the state of the pipes: for each live session the media bug
  found in the private data of its channel, the \<open>private_t\<close> blocks allocated from session
  memory, and the counters. Events, files and playback breaks are recorded in order. The read lock
  \<open>eventCallback\<close> takes on the session is released on every path and is left out, as are the
  log messages.

  cJSON is a library outside the repository; its functions are the record \<open>cjson\<close>, over a type
  of nodes \<open>'j\<close>. So are the resampler and the reads from the media bug.
\<close>

section \<open>State\<close>

definition MAX_SESSION_ID :: nat where "MAX_SESSION_ID = 256"
definition MAX_METADATA_LEN :: nat where "MAX_METADATA_LEN = 8192"
definition EVENT_CONNECT_SUCCESS :: string where "EVENT_CONNECT_SUCCESS = ''mod_audio_fork::connect''"
definition EVENT_CONNECT_FAIL :: string where "EVENT_CONNECT_FAIL = ''mod_audio_fork::connect_failed''"
definition EVENT_BUFFER_OVERRUN :: string where "EVENT_BUFFER_OVERRUN = ''mod_audio_fork::buffer_overrun''"
definition EVENT_JSON :: string where "EVENT_JSON = ''mod_audio_fork::json''"

record private_data =
  fd_mutex :: bool                    \<comment> \<open>the mutex exists\<close>
  sessionId :: "string option"        \<comment> \<open>\<open>None\<close>: the array holds no terminated string\<close>
  resampler :: bool
  pAudioPipe :: "nat option"
  fd_host :: "string option"
  fd_port :: nat
  fd_path :: "string option"
  sampling :: int
  playout :: "string list"            \<comment> \<open>the list of files, newest first\<close>
  channels :: int
  fd_id :: nat
  buffer_overrun_notified :: bool
  audio_paused :: bool
  graceful_shutdown :: bool
  initialMetadata :: "string option"

datatype glue_call =
    Fork_event string string "string option"      \<comment> \<open>responseHandler: session, name, body\<close>
  | Break_playback string
  | Write_file string "byte list"
  | Remove_file string
  | Media_bug_remove string
  | Media_bug_flush string

record glue =
  sessions :: "string \<rightharpoonup> nat option option" \<comment> \<open>the bug of a session, and its user data\<close>
  private_at :: "nat \<rightharpoonup> private_data"
  idxCallCount :: nat
  playCount :: nat
  glue_calls :: "glue_call list"

type_synonym world = "glue pipes_scheme"

record 'j cjson =
  cJSON_Parse :: "string \<Rightarrow> 'j option"
  cJSON_GetObjectItem :: "'j \<Rightarrow> string \<Rightarrow> 'j option"
  cJSON_DetachItem :: "'j \<Rightarrow> string \<Rightarrow> 'j option \<times> 'j" \<comment> \<open>the item, and the object without it\<close>
  cJSON_GetObjectCstr :: "'j \<Rightarrow> string \<Rightarrow> string option"
  cJSON_AddString :: "'j \<Rightarrow> string \<Rightarrow> string \<Rightarrow> 'j"
  cJSON_Print :: "'j option \<Rightarrow> string option"     \<comment> \<open>cJSON_PrintUnformatted, of NULL too\<close>
  valuestring :: "'j \<Rightarrow> string option"
  valueint :: "'j \<Rightarrow> int"

definition glue_does :: "glue_call \<Rightarrow> world \<Rightarrow> world" where
  "glue_does c w = pipes.more_update (\<lambda>g. g\<lparr> glue_calls := glue_calls g @ [c] \<rparr>) w"

definition put_private :: "nat \<Rightarrow> private_data \<Rightarrow> world \<Rightarrow> world" where
  "put_private d t w = pipes.more_update (\<lambda>g. g\<lparr> private_at := (private_at g)(d \<mapsto> t) \<rparr>) w"

definition set_bug :: "string \<Rightarrow> nat option option \<Rightarrow> world \<Rightarrow> world" where
  "set_bug u b w = pipes.more_update (\<lambda>g. g\<lparr> sessions := (sessions g)(u \<mapsto> b) \<rparr>) w"

definition byte_of_char :: "char \<Rightarrow> byte" where
  "byte_of_char c = of_nat (of_char c)"

section \<open>Messages from the server\<close>

definition parse_json :: "'j cjson \<Rightarrow> string \<Rightarrow> ('j \<times> string) option" where
  "parse_json C s = (case cJSON_Parse C s of
     None \<Rightarrow> None
   | Some j \<Rightarrow> Some (j, case cJSON_GetObjectCstr C j ''type'' of Some t \<Rightarrow> t | None \<Rightarrow> ''json''))"

text \<open>
  The file type of the audio; \<open>Some None\<close> is an unsupported type. A missing type is compared
  as a NULL string.
\<close>

definition raw_extension :: "int \<Rightarrow> string" where
  "raw_extension rate = (if rate = 8000 then ''.r8'' else if rate = 16000 then ''.r16'' else if rate = 24000 then ''.r24''
     else if rate = 32000 then ''.r32'' else if rate = 48000 then ''.r48'' else if rate = 64000 then ''.r64'' else ''.r16'')"

definition file_type :: "'j cjson \<Rightarrow> 'j \<Rightarrow> string option option" where
  "file_type C data = do {
     ty \<leftarrow> deref (cJSON_GetObjectCstr C data ''audioContentType'');
     if ty = ''raw'' then
       Some (Some (raw_extension (case cJSON_GetObjectItem C data ''sampleRate'' of Some r \<Rightarrow> valueint C r | None \<Rightarrow> 0)))
     else if ty = ''wave'' \<or> ty = ''wav'' then Some (Some ''.wav'')
     else Some None
   }"

definition playout_path :: "string \<Rightarrow> string \<Rightarrow> nat \<Rightarrow> string \<Rightarrow> string" where
  "playout_path temp_dir sid n ext =
     snprintf_buf 256 (temp_dir @ ''/'' @ sid @ ''_'' @ show_int (to_int32 (int n)) @ ''.tmp'' @ ext)"

definition play_audio :: "'j cjson \<Rightarrow> string \<Rightarrow> string \<Rightarrow> nat \<Rightarrow> 'j \<Rightarrow> world \<Rightarrow> world option" where
  "play_audio C temp_dir u d json w = (case cJSON_GetObjectItem C json ''data'' of
     None \<Rightarrow> Some w
   | Some data \<Rightarrow> do {
       let (audio, data) = cJSON_DetachItem C data ''audioContent'';
       ext \<leftarrow> file_type C data;
       case (ext, Option.bind audio (valuestring C)) of
         (Some e, Some content) \<Rightarrow> do {
           t \<leftarrow> private_at (pipes.more w) d;
           sid \<leftarrow> sessionId t;
           let path = playout_path temp_dir sid (playCount (pipes.more w)) e;
           let w = pipes.more_update (\<lambda>g. g\<lparr> playCount := (playCount g + 1) mod 2 ^ 32 \<rparr>) w;
           let w = glue_does (Write_file path (base64_decode (map byte_of_char content))) w;
           let w = put_private d (t\<lparr> playout := path # playout t \<rparr>) w;
           Some (glue_does (Fork_event u EVENT_PLAY_AUDIO (cJSON_Print C (Some (cJSON_AddString C data ''file'' path)))) w)
         }
       | _ \<Rightarrow> Some (glue_does (Fork_event u EVENT_PLAY_AUDIO (cJSON_Print C (Some data))) w)
     })"

definition processIncomingMessage :: "'j cjson \<Rightarrow> string \<Rightarrow> string \<Rightarrow> nat \<Rightarrow> string \<Rightarrow> world \<Rightarrow> world option" where
  "processIncomingMessage C temp_dir u d msg w = (case parse_json C msg of
     None \<Rightarrow> Some w
   | Some (json, type) \<Rightarrow>
       (let data = cJSON_GetObjectItem C json ''data'';
            forward = (\<lambda>name. Some (glue_does (Fork_event u name (cJSON_Print C data)) w))
        in if type = ''playAudio'' then play_audio C temp_dir u d json w
           else if type = ''killAudio'' then Some (glue_does (Break_playback u) (glue_does (Fork_event u EVENT_KILL_AUDIO None) w))
           else if type = ''transcription'' then forward EVENT_TRANSCRIPTION
           else if type = ''transfer'' then forward EVENT_TRANSFER
           else if type = ''disconnect'' then forward EVENT_DISCONNECT
           else if type = ''error'' then forward EVENT_ERROR
           else if type = ''json'' then Some (glue_does (Fork_event u EVENT_JSON (cJSON_Print C (Some json))) w)
           else Some w))"

section \<open>Notifications of the pipe\<close>

definition bug_data :: "glue \<Rightarrow> string \<Rightarrow> nat option" where
  "bug_data g u = Option.bind (Option.bind (sessions g u) id) id"

text \<open>The body of a failed connection quotes the reason as it is; a NULL reason is read.\<close>

definition eventCallback :: "'j cjson \<Rightarrow> string \<Rightarrow> glue notifier" where
  "eventCallback C temp_dir u e msg w = (case bug_data (pipes.more w) u of
     None \<Rightarrow> Some w
   | Some d \<Rightarrow> do {
       t \<leftarrow> private_at (pipes.more w) d;
       case e of
         CONNECT_SUCCESS \<Rightarrow> do {
           let w = glue_does (Fork_event u EVENT_CONNECT_SUCCESS None) w;
           meta \<leftarrow> initialMetadata t;
           if meta \<noteq> [] then do { a \<leftarrow> deref (pAudioPipe t); buffer_for_sending a meta w } else Some w
         }
       | CONNECT_FAIL \<Rightarrow> do {
           reason \<leftarrow> deref msg;
           let w = put_private d (t\<lparr> pAudioPipe := None \<rparr>) w;
           Some (glue_does (Fork_event u EVENT_CONNECT_FAIL (Some (''{\"reason\":\"'' @ reason @ ''\"}''))) w)
         }
       | CONNECTION_DROPPED \<Rightarrow>
           Some (glue_does (Fork_event u EVENT_DISCONNECT None) (put_private d (t\<lparr> pAudioPipe := None \<rparr>) w))
       | CONNECTION_CLOSED_GRACEFULLY \<Rightarrow> Some (put_private d (t\<lparr> pAudioPipe := None \<rparr>) w)
       | MESSAGE \<Rightarrow> do { m \<leftarrow> deref msg; processIncomingMessage C temp_dir u d m w }
     })"

section \<open>Sessions\<close>

definition RTP_PACKETIZATION_PERIOD :: int where "RTP_PACKETIZATION_PERIOD = 20"
definition FRAME_SIZE_8000 :: int where "FRAME_SIZE_8000 = 320"

text \<open>
  The size of the audio buffer: the product is a 32-bit int, and a negative one makes the allocation
  throw. Each intermediate value has to fit.
\<close>

definition int32 :: "int \<Rightarrow> int option" where
  "int32 x = (if - (2 ^ 31) \<le> x \<and> x < 2 ^ 31 then Some x else None)"

definition fork_buflen :: "nat \<Rightarrow> int \<Rightarrow> int \<Rightarrow> int \<Rightarrow> nat option" where
  "fork_buflen pre secs rate chans = do {
     a \<leftarrow> int32 (FRAME_SIZE_8000 * rate);
     b \<leftarrow> int32 (c_div a 8000 * chans);
     c \<leftarrow> int32 (b * 1000);
     n \<leftarrow> int32 (c_div c RTP_PACKETIZATION_PERIOD * secs);
     if n < 0 then None else Some (pre + nat n)
   }"

text \<open>
  What a start needs from its surroundings: \<open>LWS_PRE\<close>, the seconds to buffer, the addresses of
  the two blocks allocated, the bytes of a packet, the credentials of the channel, and whether the
  resampler could be made.
\<close>

record fork_setup =
  lws_pre :: nat
  nAudioBufferSecs :: int
  new_private :: nat
  new_pipe :: nat
  decoded_bytes_per_packet :: nat
  auth_username :: "string option"
  auth_password :: "string option"
  resampler_ok :: bool

definition fork_private :: "string \<Rightarrow> string \<Rightarrow> nat \<Rightarrow> string \<Rightarrow> int \<Rightarrow> int \<Rightarrow> string option \<Rightarrow> nat \<Rightarrow> nat \<Rightarrow> private_data" where
  "fork_private u host port path desired chans metadata n a =
     \<lparr> fd_mutex = True, sessionId = strncpy_buf MAX_SESSION_ID u, resampler = False,
       pAudioPipe = Some a, fd_host = strncpy_buf MAX_WS_URL_LEN host, fd_port = port,
       fd_path = strncpy_buf MAX_PATH_LEN path, sampling = desired, playout = [], channels = chans, fd_id = n,
       buffer_overrun_notified = False, audio_paused = False, graceful_shutdown = False,
       initialMetadata = (case metadata of Some m \<Rightarrow> strncpy_buf MAX_METADATA_LEN m | None \<Rightarrow> Some []) \<rparr>"

definition fork_data_init ::
  "fork_setup \<Rightarrow> string \<Rightarrow> string \<Rightarrow> nat \<Rightarrow> string \<Rightarrow> int \<Rightarrow> int \<Rightarrow> int \<Rightarrow> int \<Rightarrow> string option \<Rightarrow>
   world \<Rightarrow> (switch_status \<times> world) option" where
  "fork_data_init S u host port path sslFlags samp desired chans metadata w = do {
     let password = (if auth_username S = None then None else auth_password S);
     let n = (idxCallCount (pipes.more w) + 1) mod 2 ^ 32;
     let w = pipes.more_update (\<lambda>g. g\<lparr> idxCallCount := n \<rparr>) w;
     let t = fork_private u host port path desired chans metadata n (new_pipe S);
     sid \<leftarrow> sessionId t;
     buflen \<leftarrow> fork_buflen (lws_pre S) (nAudioBufferSecs S) desired chans;
     let w = put_pipe (new_pipe S) (pipe_new (lws_pre S) sid host port path sslFlags buflen
       (decoded_bytes_per_packet S) (auth_username S) password) w;
     if desired \<noteq> samp then
       (if resampler_ok S then Some (SWITCH_STATUS_SUCCESS, put_private (new_private S) (t\<lparr> resampler := True \<rparr>) w)
        else Some (SWITCH_STATUS_FALSE, put_private (new_private S) t w))
     else Some (SWITCH_STATUS_SUCCESS, put_private (new_private S) t w)
   }"

definition destroy_tech_pvt :: "nat \<Rightarrow> world \<Rightarrow> world option" where
  "destroy_tech_pvt d w = do {
     t \<leftarrow> private_at (pipes.more w) d;
     Some (put_private d (t\<lparr> resampler := False, fd_mutex := False \<rparr>) w)
   }"

definition fork_session_init ::
  "fork_setup \<Rightarrow> string \<Rightarrow> int \<Rightarrow> string \<Rightarrow> nat \<Rightarrow> string \<Rightarrow> int \<Rightarrow> int \<Rightarrow> int \<Rightarrow> string option \<Rightarrow>
   world \<Rightarrow> (switch_status \<times> world) option" where
  "fork_session_init S u samples_per_second host port path samp sslFlags chans metadata w = do {
     (st, w) \<leftarrow> fork_data_init S u host port path sslFlags samples_per_second samp chans metadata w;
     if st \<noteq> SWITCH_STATUS_SUCCESS then do {
       w \<leftarrow> destroy_tech_pvt (new_private S) w;
       Some (SWITCH_STATUS_FALSE, w) }
     else do {
       t \<leftarrow> private_at (pipes.more w) (new_private S);
       a \<leftarrow> deref (pAudioPipe t);
       Some (SWITCH_STATUS_SUCCESS, pipe_connect a w)
     }
   }"

text \<open>The files are removed; the list itself is freed and not read again.\<close>

definition remove_files :: "string list \<Rightarrow> world \<Rightarrow> world" where
  "remove_files fs w = foldl (\<lambda>w f. glue_does (Remove_file f) w) w fs"

text \<open>
  The end of a session. The id is read before the data is checked; the mutex is locked, and destroyed
  without being unlocked.
\<close>

definition fork_session_cleanup :: "string \<Rightarrow> string option \<Rightarrow> bool \<Rightarrow> world \<Rightarrow> (switch_status \<times> world) option" where
  "fork_session_cleanup u text channelIsClosing w = do {
     bug \<leftarrow> sessions (pipes.more w) u;
     case bug of
       None \<Rightarrow> Some (SWITCH_STATUS_FALSE, w)
     | Some data \<Rightarrow> do {
         d \<leftarrow> deref data;
         t \<leftarrow> private_at (pipes.more w) d;
         if \<not> fd_mutex t then None else do {
         let w = set_bug u None w;
         let w = (if channelIsClosing then w else glue_does (Media_bug_remove u) w);
         let w = remove_files (playout t) w;
         w \<leftarrow> (case (pAudioPipe t, text) of (Some a, Some m) \<Rightarrow> buffer_for_sending a m w | _ \<Rightarrow> Some w);
         w \<leftarrow> (case pAudioPipe t of Some a \<Rightarrow> pipe_close a w | None \<Rightarrow> Some w);
         w \<leftarrow> destroy_tech_pvt d w;
         Some (SWITCH_STATUS_SUCCESS, w) }
       }
   }"

text \<open>The operations on a running session find its data the same way.\<close>

definition with_private ::
  "string \<Rightarrow> (nat \<Rightarrow> private_data \<Rightarrow> world \<Rightarrow> (switch_status \<times> world) option) \<Rightarrow> world \<Rightarrow> (switch_status \<times> world) option" where
  "with_private u f w = do {
     bug \<leftarrow> sessions (pipes.more w) u;
     case bug of
       None \<Rightarrow> Some (SWITCH_STATUS_FALSE, w)
     | Some None \<Rightarrow> Some (SWITCH_STATUS_FALSE, w)
     | Some (Some d) \<Rightarrow> do { t \<leftarrow> private_at (pipes.more w) d; f d t w }
   }"

definition fork_session_send_text :: "string \<Rightarrow> string option \<Rightarrow> world \<Rightarrow> (switch_status \<times> world) option" where
  "fork_session_send_text u text w = with_private u (\<lambda>d t w. do {
     w \<leftarrow> (case (pAudioPipe t, text) of (Some a, Some m) \<Rightarrow> buffer_for_sending a m w | _ \<Rightarrow> Some w);
     Some (SWITCH_STATUS_SUCCESS, w)
   }) w"

text \<open>The flag is a bit field of one bit.\<close>

definition fork_session_pauseresume :: "string \<Rightarrow> int \<Rightarrow> world \<Rightarrow> (switch_status \<times> world) option" where
  "fork_session_pauseresume u pause w = with_private u (\<lambda>d t w.
     Some (SWITCH_STATUS_SUCCESS, put_private d (t\<lparr> audio_paused := odd pause \<rparr>) (glue_does (Media_bug_flush u) w))) w"

definition fork_session_graceful_shutdown :: "string \<Rightarrow> world \<Rightarrow> (switch_status \<times> world) option" where
  "fork_session_graceful_shutdown u w = with_private u (\<lambda>d t w. do {
     let w = put_private d (t\<lparr> graceful_shutdown := True \<rparr>) w;
     w \<leftarrow> (case pAudioPipe t of Some a \<Rightarrow> do_graceful_shutdown a w | None \<Rightarrow> Some w);
     Some (SWITCH_STATUS_SUCCESS, w)
   }) w"

text \<open>The module's own step after a successful start: the bug with its user data becomes the channel's.\<close>

definition fork_attach_bug :: "string \<Rightarrow> nat \<Rightarrow> world \<Rightarrow> world" where
  "fork_attach_bug u d w = set_bug u (Some (Some d)) w"

section \<open>Audio\<close>

text \<open>
  The loops of \<open>fork_frame\<close>, on the pipe and the data of the session. \<open>reads\<close> are the
  frames the media bug hands out before it has no more; a frame is written at the write pointer. A
  result has the new pipe, the notified flag and the number of overrun events.
\<close>

fun frame_loop :: "string list \<Rightarrow> nat \<Rightarrow> pipe \<Rightarrow> bool \<Rightarrow> nat \<Rightarrow> (pipe \<times> bool \<times> nat) option" where
  "frame_loop reads available p notified events =
     (let overrun = available < min_freespace p;
          p = (if overrun then p\<lparr> write_offset := 0 \<rparr> else p);
          events = (if overrun \<and> \<not> notified then events + 1 else events);
          notified = (notified \<or> overrun)
      in case reads of
           [] \<Rightarrow> Some (p, notified, events)
         | d # ds \<Rightarrow> do { p \<leftarrow> audio_write d p; frame_loop ds (space_available p) p notified events })"

declare frame_loop.simps [simp del]

text \<open>
  With a resampler: \<open>resample limit d\<close> is the number of samples per channel it writes, at most
  \<open>limit\<close>, and their bytes.
\<close>

fun resample_loop ::
  "(nat \<Rightarrow> string \<Rightarrow> nat \<times> string) \<Rightarrow> int \<Rightarrow> string list \<Rightarrow> nat \<Rightarrow> pipe \<Rightarrow> bool \<Rightarrow> nat \<Rightarrow> (pipe \<times> bool \<times> nat) option" where
  "resample_loop resample chans [] available p notified events = Some (p, notified, events)"
| "resample_loop resample chans (d # ds) available p notified events =
     (if d = [] then resample_loop resample chans ds available p notified events
      else do {
        let (out_len, bytes) = resample (available div 2 mod 2 ^ 32) d;
        mem \<leftarrow> write_at (write_offset p) bytes (audio_buffer p);
        let p = p\<lparr> audio_buffer := mem, write_offset := write_offset p + (if 0 < out_len then out_len * 2 ^ nat chans else 0) \<rparr>;
        let available = (if 0 < out_len then space_available p else available);
        if available < min_freespace p then Some (p, True, if notified then events else events + 1)
        else resample_loop resample chans ds available p notified events
      })"

definition fork_frame ::
  "nat \<Rightarrow> (nat \<Rightarrow> string \<Rightarrow> nat \<times> string) \<Rightarrow> string list \<Rightarrow> bool \<Rightarrow> string \<Rightarrow> nat option \<Rightarrow> world \<Rightarrow> world option" where
  "fork_frame pre resample reads trylock u data w = (case data of
     None \<Rightarrow> Some w
   | Some d \<Rightarrow> do {
       t \<leftarrow> private_at (pipes.more w) d;
       if audio_paused t \<or> graceful_shutdown t then Some w
       else if \<not> fd_mutex t then None
       else if \<not> trylock then Some w
       else (case pAudioPipe t of
         None \<Rightarrow> Some w
       | Some a \<Rightarrow> do {
           p \<leftarrow> pipe_at w a;
           if m_state p \<noteq> LWS_CLIENT_CONNECTED then Some w
           else do {
             (p, notified, events) \<leftarrow>
               (if resampler t then resample_loop resample (channels t) reads (space_available p) p (buffer_overrun_notified t) 0
                else frame_loop reads (space_available p) p (buffer_overrun_notified t) 0);
             let w = put_private d (t\<lparr> buffer_overrun_notified := notified \<rparr>) w;
             let w = ((glue_does (Fork_event u EVENT_BUFFER_OVERRUN None)) ^^ events) w;
             unlock_audio_buffer pre a (put_pipe a p w)
           }
         })
     })"

end
