(* ===== verification/Steps.thy ===== *)
theory Steps
  imports Prelude
begin

text \<open>
  Systems of steps, which the sessions of \<open>mod_audio_fork\<close>, \<open>mod_google_transcribe\<close> and \<open>mod_dialogflow\<close> have in
  common: \<open>may\<close> says when a step can happen, \<open>act\<close> what it does, \<open>None\<close> where the code is undefined. The
  locale \<open>step_system\<close> is the contract of an invariant under which no step that can happen is
  undefined; \<open>step_invariant\<close> adds a property that such steps keep.
\<close>

section \<open>Runs\<close>

inductive steps_to :: "('x \<Rightarrow> 's \<Rightarrow> bool) \<Rightarrow> ('x \<Rightarrow> 's \<Rightarrow> 's option) \<Rightarrow> 's \<Rightarrow> 's \<Rightarrow> bool" for may act s0 where
  steps_start: "steps_to may act s0 s0"
| steps_next: "steps_to may act s0 s \<Longrightarrow> may x s \<Longrightarrow> act x s = Some s' \<Longrightarrow> steps_to may act s0 s'"

text \<open>A list of steps, one after the other; and the same where every step must be possible.\<close>

fun run_steps :: "('x \<Rightarrow> 's \<Rightarrow> 's option) \<Rightarrow> 'x list \<Rightarrow> 's \<Rightarrow> 's option" where
  "run_steps act [] s = Some s"
| "run_steps act (x # xs) s = act x s \<bind> run_steps act xs"

fun run_allowed :: "('x \<Rightarrow> 's \<Rightarrow> bool) \<Rightarrow> ('x \<Rightarrow> 's \<Rightarrow> 's option) \<Rightarrow> 'x list \<Rightarrow> 's \<Rightarrow> 's option" where
  "run_allowed may act [] s = Some s"
| "run_allowed may act (x # xs) s = (if may x s then act x s \<bind> run_allowed may act xs else None)"

text \<open>Every step of the list finds what it needs.\<close>

fun all_allowed :: "('x \<Rightarrow> 's \<Rightarrow> bool) \<Rightarrow> ('x \<Rightarrow> 's \<Rightarrow> 's option) \<Rightarrow> 'x list \<Rightarrow> 's \<Rightarrow> bool" where
  "all_allowed may act [] s = True"
| "all_allowed may act (x # xs) s = (may x s \<and> (case act x s of Some s' \<Rightarrow> all_allowed may act xs s' | None \<Rightarrow> True))"

lemma steps_trans: "steps_to may act a b \<Longrightarrow> steps_to may act b c \<Longrightarrow> steps_to may act a c"
  by (rotate_tac, induction rule: steps_to.induct) (auto intro: steps_next)

lemma steps_first:
  assumes "steps_to may act s1 s2" and "may x s0" and "act x s0 = Some s1"
  shows "steps_to may act s0 s2"
  using steps_trans [OF steps_next [of may act s0 s0, OF steps_start assms(2,3)] assms(1)] .

lemma run_allowed_steps: "run_allowed may act xs s = Some s' \<Longrightarrow> steps_to may act s s'"
proof (induction xs arbitrary: s)
  case Nil
  then show ?case by (simp add: steps_start)
next
  case (Cons x xs)
  then obtain s1 where s1: "may x s" "act x s = Some s1" "run_allowed may act xs s1 = Some s'"
    by (auto simp: bind_eq_Some_conv split: if_splits)
  show ?case by (rule steps_first [where may = may and act = act, OF Cons.IH [OF s1(3)] s1(1,2)])
qed

section \<open>Contracts\<close>

locale step_system =
  fixes may :: "'x \<Rightarrow> 's \<Rightarrow> bool" and act :: "'x \<Rightarrow> 's \<Rightarrow> 's option" and inv :: "'s \<Rightarrow> bool"
  assumes step_defined: "inv s \<Longrightarrow> may x s \<Longrightarrow> \<exists>s'. act x s = Some s' \<and> inv s'"
begin

lemma reach_inv: "steps_to may act s0 s \<Longrightarrow> inv s0 \<Longrightarrow> inv s"
proof (induction rule: steps_to.induct)
  case (steps_next s x s')
  then show ?case using step_defined [of s x] by auto
qed

lemma reach_defined:
  assumes "steps_to may act s0 s" and "inv s0" and "may x s"
  shows "\<exists>s'. act x s = Some s' \<and> steps_to may act s0 s'"
  using step_defined [OF reach_inv [OF assms(1,2)] assms(3)] steps_next [of may act s0, OF assms(1,3)] by blast

lemma run_defined: "inv s \<Longrightarrow> all_allowed may act xs s \<Longrightarrow> \<exists>s'. run_steps act xs s = Some s' \<and> inv s'"
proof (induction xs arbitrary: s)
  case (Cons x xs)
  obtain s1 where "act x s = Some s1" "inv s1" using step_defined [OF Cons.prems(1)] Cons.prems(2) by auto
  then show ?case using Cons by simp
qed simp

end

locale step_invariant = step_system +
  fixes also_holds :: "'s \<Rightarrow> bool"
  assumes step_keeps: "inv s \<Longrightarrow> also_holds s \<Longrightarrow> may x s \<Longrightarrow> act x s = Some s' \<Longrightarrow> also_holds s'"
begin

lemma reach_keeps: "steps_to may act s0 s \<Longrightarrow> inv s0 \<Longrightarrow> also_holds s0 \<Longrightarrow> also_holds s"
proof (induction rule: steps_to.induct)
  case (steps_next s x s')
  then show ?case using step_keeps reach_inv by blast
qed

end

end
