(* ===== verification/LwsSafety.thy ===== *)
theory LwsSafety
  imports LwsGlue Steps
begin

text \<open>
  The soundness of the websocket client: \<open>eventCallback\<close> satisfies the contract \<open>pipe_client\<close>,
  the operations of a session keep the invariant the events rely on, and so any interleaving of calls,
  sessions and events is free of undefined behaviour as long as each step finds what it needs.
\<close>

section \<open>What the steps leave as it is\<close>

lemma glue_simps [simp]:
  "pipe_at (pipes.more_update f w) = pipe_at w" "user_data (pipes.more_update f w) = user_data w"
  "pending_connects (pipes.more_update f w) = pending_connects w" "pending_disconnects (pipes.more_update f w) = pending_disconnects w"
  "pending_writes (pipes.more_update f w) = pending_writes w" "lws_calls (pipes.more_update f w) = lws_calls w"
  "pipes.more (pipes.more_update f w) = f (pipes.more w)"
  by (cases w; simp)+

lemma glue_does_simps [simp]:
  "pipe_at (glue_does c w) = pipe_at w" "user_data (glue_does c w) = user_data w"
  "pending_connects (glue_does c w) = pending_connects w" "pending_disconnects (glue_does c w) = pending_disconnects w"
  "pending_writes (glue_does c w) = pending_writes w" "sessions (pipes.more (glue_does c w)) = sessions (pipes.more w)"
  "private_at (pipes.more (glue_does c w)) = private_at (pipes.more w)"
  "glue_calls (pipes.more (glue_does c w)) = glue_calls (pipes.more w) @ [c]"
  "playCount (pipes.more (glue_does c w)) = playCount (pipes.more w)"
  by (simp_all add: glue_does_def)

lemma put_private_simps [simp]:
  "pipe_at (put_private d t w) = pipe_at w" "user_data (put_private d t w) = user_data w"
  "pending_connects (put_private d t w) = pending_connects w" "pending_disconnects (put_private d t w) = pending_disconnects w"
  "pending_writes (put_private d t w) = pending_writes w" "sessions (pipes.more (put_private d t w)) = sessions (pipes.more w)"
  "private_at (pipes.more (put_private d t w)) = (private_at (pipes.more w))(d \<mapsto> t)"
  "glue_calls (pipes.more (put_private d t w)) = glue_calls (pipes.more w)"
  by (simp_all add: put_private_def)

lemma set_bug_simps [simp]:
  "pipe_at (set_bug u b w) = pipe_at w" "user_data (set_bug u b w) = user_data w"
  "pending_connects (set_bug u b w) = pending_connects w" "pending_disconnects (set_bug u b w) = pending_disconnects w"
  "pending_writes (set_bug u b w) = pending_writes w" "sessions (pipes.more (set_bug u b w)) = (sessions (pipes.more w))(u \<mapsto> b)"
  "private_at (pipes.more (set_bug u b w)) = private_at (pipes.more w)"
  "glue_calls (pipes.more (set_bug u b w)) = glue_calls (pipes.more w)"
  by (simp_all add: set_bug_def)

lemma steady_same:
  "pipe_at w' = pipe_at w \<Longrightarrow> user_data w' = user_data w \<Longrightarrow> pending_connects w' = pending_connects w \<Longrightarrow>
    pending_disconnects w' = pending_disconnects w \<Longrightarrow> pending_writes w' = pending_writes w \<Longrightarrow> steady w w'"
  using steady_refl [of w] by (simp add: steady_def)

lemma bug_data_cong: "sessions g = sessions h \<Longrightarrow> bug_data g u = bug_data h u"
  by (simp add: bug_data_def)

section \<open>The glue as a client of the pipes\<close>

definition glue_uses :: "glue \<Rightarrow> nat \<Rightarrow> string \<Rightarrow> bool" where
  "glue_uses g a u \<longleftrightarrow> (\<exists>d t. bug_data g u = Some d \<and> private_at g d = Some t \<and> pAudioPipe t = Some a)"

definition glue_ok :: "glue \<Rightarrow> bool" where
  "glue_ok g \<longleftrightarrow>
     (\<forall>u d. bug_data g u = Some d \<longrightarrow> (\<exists>t. private_at g d = Some t \<and> fd_mutex t \<and> initialMetadata t \<noteq> None \<and> sessionId t \<noteq> None)) \<and>
     (\<forall>u. sessions g u \<noteq> Some (Some None)) \<and>
     (\<forall>u v d. bug_data g u = Some d \<longrightarrow> bug_data g v = Some d \<longrightarrow> u = v)"

text \<open>A playAudio message that names the type of its audio.\<close>

definition message_ok :: "'j cjson \<Rightarrow> string \<Rightarrow> bool" where
  "message_ok C m \<longleftrightarrow> (\<forall>j data. parse_json C m = Some (j, ''playAudio'') \<longrightarrow> cJSON_GetObjectItem C j ''data'' = Some data \<longrightarrow>
     cJSON_GetObjectCstr C (snd (cJSON_DetachItem C data ''audioContent'')) ''audioContentType'' \<noteq> None)"

definition glue_accepts :: "'j cjson \<Rightarrow> glue \<Rightarrow> string \<Rightarrow> notify_event \<Rightarrow> string option \<Rightarrow> bool" where
  "glue_accepts C g u e msg \<longleftrightarrow> (\<forall>d t. bug_data g u = Some d \<longrightarrow> private_at g d = Some t \<longrightarrow>
     (e = CONNECT_SUCCESS \<longrightarrow> initialMetadata t = Some [] \<or> pAudioPipe t \<noteq> None) \<and>
     (e = CONNECT_FAIL \<longrightarrow> msg \<noteq> None) \<and>
     (e = MESSAGE \<longrightarrow> (\<exists>m. msg = Some m \<and> message_ok C m)))"

text \<open>
  A change of the glue that keeps its bugs and, in the data of a session, what the invariant needs:
  \<open>pAudioPipe\<close> may only become NULL.
\<close>

definition glue_mild :: "glue \<Rightarrow> glue \<Rightarrow> bool" where
  "glue_mild g h \<longleftrightarrow> sessions h = sessions g \<and>
     (\<forall>d. rel_option (\<lambda>t t'. fd_mutex t' = fd_mutex t \<and> initialMetadata t' = initialMetadata t \<and> sessionId t' = sessionId t \<and>
        (pAudioPipe t' = None \<or> pAudioPipe t' = pAudioPipe t)) (private_at g d) (private_at h d))"

lemma glue_mildD:
  assumes "glue_mild g h"
  shows "bug_data h u = bug_data g u"
    and "private_at g d = Some t \<Longrightarrow> \<exists>t'. private_at h d = Some t' \<and> fd_mutex t' = fd_mutex t \<and>
      initialMetadata t' = initialMetadata t \<and> sessionId t' = sessionId t"
    and "private_at h d = Some t' \<Longrightarrow> \<exists>t. private_at g d = Some t \<and> (pAudioPipe t' = None \<or> pAudioPipe t' = pAudioPipe t)"
proof -
  have rel: "rel_option (\<lambda>t t'. fd_mutex t' = fd_mutex t \<and> initialMetadata t' = initialMetadata t \<and> sessionId t' = sessionId t \<and>
      (pAudioPipe t' = None \<or> pAudioPipe t' = pAudioPipe t)) (private_at g d) (private_at h d)"
    using assms by (simp add: glue_mild_def)
  show "bug_data h u = bug_data g u" using assms by (simp add: glue_mild_def bug_data_def)
  show "private_at g d = Some t \<Longrightarrow> \<exists>t'. private_at h d = Some t' \<and> fd_mutex t' = fd_mutex t \<and>
      initialMetadata t' = initialMetadata t \<and> sessionId t' = sessionId t"
    using rel by (cases "private_at h d") simp_all
  show "private_at h d = Some t' \<Longrightarrow> \<exists>t. private_at g d = Some t \<and> (pAudioPipe t' = None \<or> pAudioPipe t' = pAudioPipe t)"
    using rel by (cases "private_at g d") simp_all
qed

lemma glue_mild_ok:
  assumes ok: "glue_ok g" and mild: "glue_mild g h"
  shows "glue_ok h"
proof -
  have same: "sessions h = sessions g" using mild by (simp add: glue_mild_def)
  have "\<exists>t. private_at h d = Some t \<and> fd_mutex t \<and> initialMetadata t \<noteq> None \<and> sessionId t \<noteq> None" if "bug_data h u = Some d" for u d
  proof -
    have "bug_data g u = Some d" using that glue_mildD(1) [OF mild] by simp
    then obtain t where "private_at g d = Some t" "fd_mutex t" "initialMetadata t \<noteq> None" "sessionId t \<noteq> None"
      using ok unfolding glue_ok_def by blast
    then show ?thesis using glue_mildD(2) [OF mild] by fastforce
  qed
  then show ?thesis using ok glue_mildD(1) [OF mild] same unfolding glue_ok_def by simp
qed

lemma glue_mild_uses: "glue_mild g h \<Longrightarrow> glue_uses h a u \<Longrightarrow> glue_uses g a u"
  unfolding glue_uses_def using glue_mildD(1,3) [of g h] by (metis option.distinct(1))

lemma glue_mild_refl: "glue_mild g g"
  by (auto simp: glue_mild_def intro: option.rel_refl)

lemma glue_mild_same:
  "sessions h = sessions g \<Longrightarrow> private_at h = private_at g \<Longrightarrow> glue_mild g h"
  by (auto simp: glue_mild_def intro: option.rel_refl)

lemma glue_mild_put:
  assumes "sessions h = sessions g" and "private_at h = (private_at g)(d \<mapsto> t')" and "private_at g d = Some t"
    and "fd_mutex t' = fd_mutex t" and "initialMetadata t' = initialMetadata t" and "sessionId t' = sessionId t"
    and "pAudioPipe t' = None \<or> pAudioPipe t' = pAudioPipe t"
  shows "glue_mild g h"
  using assms by (auto simp: glue_mild_def intro: option.rel_refl)

text \<open>Steps that leave the pipes alone and are mild on the glue.\<close>

definition quiet :: "world \<Rightarrow> world \<Rightarrow> bool" where
  "quiet w w' \<longleftrightarrow> pipe_at w' = pipe_at w \<and> user_data w' = user_data w \<and> pending_connects w' = pending_connects w \<and>
     pending_disconnects w' = pending_disconnects w \<and> pending_writes w' = pending_writes w \<and>
     glue_mild (pipes.more w) (pipes.more w')"

lemma quiet_steady: "quiet w w' \<Longrightarrow> steady w w'"
  by (auto simp: quiet_def intro: steady_same)

lemma play_audio_quiet:
  assumes "private_at (pipes.more w) d = Some t" and "sessionId t \<noteq> None"
    and "\<And>data. cJSON_GetObjectItem C j ''data'' = Some data \<Longrightarrow>
      cJSON_GetObjectCstr C (snd (cJSON_DetachItem C data ''audioContent'')) ''audioContentType'' \<noteq> None"
  shows "\<exists>w'. play_audio C temp_dir u d j w = Some w' \<and> quiet w w'"
proof (cases "cJSON_GetObjectItem C j ''data''")
  case None
  then show ?thesis by (simp add: play_audio_def quiet_def glue_mild_refl)
next
  case (Some data)
  obtain audio data' where data': "cJSON_DetachItem C data ''audioContent'' = (audio, data')" by fastforce
  obtain ty where ty: "cJSON_GetObjectCstr C data' ''audioContentType'' = Some ty" using assms(3) [OF Some] data' by auto
  have "file_type C data' \<noteq> None" by (simp add: file_type_def ty)
  then obtain ext where ext: "file_type C data' = Some ext" by blast
  obtain sid where sid: "sessionId t = Some sid" using assms(2) by blast
  show ?thesis
  proof (cases "ext = None \<or> Option.bind audio (valuestring C) = None")
    case True
    then show ?thesis
      using Some data' ext by (auto simp: play_audio_def quiet_def intro!: glue_mild_same split: option.split)
  next
    case False
    then obtain e content where "ext = Some e" "Option.bind audio (valuestring C) = Some content" by auto
    then show ?thesis
      using Some data' ext sid assms(1)
      by (auto simp: play_audio_def quiet_def Let_def intro!: glue_mild_put [OF _ _ assms(1)])
  qed
qed

lemma returns_if_cases:
  "(b \<Longrightarrow> \<exists>w'. x = Some w' \<and> P w') \<Longrightarrow> (\<not> b \<Longrightarrow> \<exists>w'. y = Some w' \<and> P w') \<Longrightarrow> \<exists>w'. (if b then x else y) = Some w' \<and> P w'"
  by simp

lemma glue_does_quiet: "quiet w w" "quiet w (glue_does c w)" "quiet w (glue_does c (glue_does b w))"
  by (simp_all add: quiet_def glue_mild_same)

lemma message_quiet:
  assumes "private_at (pipes.more w) d = Some t" and "sessionId t \<noteq> None" and "message_ok C m"
  shows "\<exists>w'. processIncomingMessage C temp_dir u d m w = Some w' \<and> quiet w w'"
proof (cases "parse_json C m")
  case None
  then show ?thesis by (simp add: processIncomingMessage_def quiet_def glue_mild_refl)
next
  case (Some r)
  obtain j ty where r: "r = (j, ty)" by (cases r)
  show ?thesis
    unfolding processIncomingMessage_def Some r option.case prod.case Let_def
  proof (intro returns_if_cases)
    assume ty: "ty = ''playAudio''"
    have "cJSON_GetObjectCstr C (snd (cJSON_DetachItem C data ''audioContent'')) ''audioContentType'' \<noteq> None"
      if "cJSON_GetObjectItem C j ''data'' = Some data" for data
      using assms(3) that unfolding message_ok_def Some r ty by blast
    then show "\<exists>w'. play_audio C temp_dir u d j w = Some w' \<and> quiet w w'"
      by (rule play_audio_quiet [OF assms(1,2)])
  qed (rule exI, rule conjI, rule refl, rule glue_does_quiet)+
qed

lemma event_notified:
  assumes inv: "pipes_inv w" and e: "\<not> last_event e" and valid: "uses_valid glue_uses w" and ok: "glue_ok (pipes.more w)"
    and acc: "glue_accepts C (pipes.more w) u e m"
  shows "\<exists>w'. eventCallback C temp_dir u e m w = Some w' \<and> steady w w' \<and> glue_mild (pipes.more w) (pipes.more w')"
proof (cases "bug_data (pipes.more w) u")
  case None
  then show ?thesis by (simp add: eventCallback_def steady_refl glue_mild_refl)
next
  case (Some d)
  obtain t where t: "private_at (pipes.more w) d = Some t" "initialMetadata t \<noteq> None" "sessionId t \<noteq> None"
    using ok Some unfolding glue_ok_def by blast
  consider "e = CONNECT_SUCCESS" | "e = MESSAGE" using e by (cases e) simp_all
  then show ?thesis
  proof cases
    case 1
    let ?w = "glue_does (Fork_event u EVENT_CONNECT_SUCCESS None) w"
    obtain meta where meta: "initialMetadata t = Some meta" using t(2) by blast
    have w1: "steady w ?w" "glue_mild (pipes.more w) (pipes.more ?w)" by (simp_all add: steady_same glue_mild_same)
    show ?thesis
    proof (cases "meta = []")
      case True
      then show ?thesis using Some t(1) meta 1 w1 by (simp add: eventCallback_def)
    next
      case False
      then obtain a where a: "pAudioPipe t = Some a"
        using acc Some t(1) meta 1 by (auto simp: glue_accepts_def)
      then obtain p where "pipe_at w a = Some p"
        using valid Some t(1) unfolding uses_valid_def glue_uses_def by blast
      then obtain w' where "buffer_for_sending a meta ?w = Some w'" "steady ?w w'" "pipes.more w' = pipes.more ?w"
        using buffer_for_sending_steady [OF steady_inv [OF inv w1(1)], of a p meta] by auto
      then show ?thesis using Some t(1) meta 1 a False w1 steady_trans by (fastforce simp: eventCallback_def)
    qed
  next
    case 2
    then obtain msg where msg: "m = Some msg" "message_ok C msg" using acc Some t(1) by (auto simp: glue_accepts_def)
    then show ?thesis
      using message_quiet [OF t(1,3) msg(2), of temp_dir u] quiet_steady Some t(1) 2
      by (fastforce simp: eventCallback_def quiet_def)
  qed
qed

lemma event_lets_go:
  assumes e: "last_event e" and ok: "glue_ok (pipes.more w)" and acc: "glue_accepts C (pipes.more w) u e m"
  shows "\<exists>w'. eventCallback C temp_dir u e m w = Some w' \<and> quiet w w' \<and> (\<forall>a. \<not> glue_uses (pipes.more w') a u)"
proof (cases "bug_data (pipes.more w) u")
  case None
  then show ?thesis by (simp add: eventCallback_def quiet_def glue_mild_refl glue_uses_def)
next
  case (Some d)
  obtain t where t: "private_at (pipes.more w) d = Some t" using ok Some unfolding glue_ok_def by blast
  let ?w = "put_private d (t\<lparr> pAudioPipe := None \<rparr>) w"
  have q: "quiet w ?w" "quiet w (glue_does c ?w)" for c
    using t by (auto simp: quiet_def intro!: glue_mild_put [OF _ _ t])
  have gone: "\<not> glue_uses (pipes.more ?w) a u" "\<not> glue_uses (pipes.more (glue_does c ?w)) a u" for a c
    using Some by (simp_all add: glue_uses_def bug_data_def)
  have "(\<exists>c. eventCallback C temp_dir u e m w = Some (glue_does c ?w)) \<or> eventCallback C temp_dir u e m w = Some ?w"
    using e acc Some t by (cases e) (auto simp: eventCallback_def glue_accepts_def)
  then show ?thesis using q gone by auto
qed

interpretation glue_client: pipe_client "eventCallback C temp_dir" glue_uses glue_ok "glue_accepts C" for C temp_dir
proof unfold_locales
  fix w :: world and e u m
  assume "pipes_inv w" "\<not> last_event e" "uses_valid glue_uses w" and ok: "glue_ok (pipes.more w)" and "glue_accepts C (pipes.more w) u e m"
  then obtain w' where "eventCallback C temp_dir u e m w = Some w'" "steady w w'" "glue_mild (pipes.more w) (pipes.more w')"
    using event_notified by blast
  then show "\<exists>w'. eventCallback C temp_dir u e m w = Some w' \<and> steady w w' \<and> glue_ok (pipes.more w') \<and>
      (\<forall>a v. glue_uses (pipes.more w') a v \<longrightarrow> glue_uses (pipes.more w) a v)"
    using glue_mild_ok [OF ok] glue_mild_uses by blast
next
  fix w :: world and e u m
  assume "last_event e" and ok: "glue_ok (pipes.more w)" and "glue_accepts C (pipes.more w) u e m"
  then obtain w' where w': "eventCallback C temp_dir u e m w = Some w'" "quiet w w'" "\<forall>a. \<not> glue_uses (pipes.more w') a u"
    using event_lets_go by blast
  then have "glue_mild (pipes.more w) (pipes.more w')" by (simp add: quiet_def)
  then show "\<exists>w'. eventCallback C temp_dir u e m w = Some w' \<and> steady w w' \<and> glue_ok (pipes.more w') \<and>
      set (pending_writes w') \<subseteq> set (pending_writes w) \<and>
      (\<forall>a v. glue_uses (pipes.more w') a v \<longrightarrow> glue_uses (pipes.more w) a v \<and> v \<noteq> u)"
    using w' quiet_steady [OF w'(2)] glue_mild_ok [OF ok] glue_mild_uses by (auto simp: quiet_def)
qed

section \<open>Every event is handled\<close>

definition glue_inv :: "world \<Rightarrow> bool" where
  "glue_inv w \<longleftrightarrow> pipes_inv w \<and> uses_valid glue_uses w \<and> glue_ok (pipes.more w)"

text \<open>
  Progress and preservation of the websocket client with the module's own callback: in a state
  where pipes, sockets, pending lists and the sessions' pointers fit together, every event
  libwebsockets can deliver is handled without undefined behaviour and leads to such a state again.
  In particular no callback uses a deleted pipe.
\<close>

theorem fork_event_safe:
  assumes "glue_inv w" and "lws_delivers (glue_accepts C) s r w"
  shows "\<exists>res w'. lws_callback pre (eventCallback C temp_dir) s r w = Some (res, w') \<and> glue_inv w'"
  using glue_client.callback_safe [of w C s r pre temp_dir] assms
  by (simp add: glue_inv_def glue_client.safe_def)

section \<open>Sessions\<close>

text \<open>
  What a session can ask for. A start is the glue's part and, when it succeeds, the module's own,
  which attaches the bug.
\<close>

datatype fork_op =
    Fork_start fork_setup int string nat string int int int "string option"
  | Fork_stop "string option" bool
  | Fork_text "string option"
  | Fork_pause int
  | Fork_graceful
  | Fork_audio "nat \<Rightarrow> string \<Rightarrow> nat \<times> string" "string list" bool

definition fork_op_step :: "nat \<Rightarrow> string \<Rightarrow> fork_op \<Rightarrow> world \<Rightarrow> world option" where
  "fork_op_step pre u x w = (case x of
     Fork_start S rate host port path samp ssl chans metadata \<Rightarrow> do {
       (st, w) \<leftarrow> fork_session_init S u rate host port path samp ssl chans metadata w;
       Some (if st = SWITCH_STATUS_SUCCESS then fork_attach_bug u (new_private S) w else w) }
   | Fork_stop text closing \<Rightarrow> map_option snd (fork_session_cleanup u text closing w)
   | Fork_text text \<Rightarrow> map_option snd (fork_session_send_text u text w)
   | Fork_pause b \<Rightarrow> map_option snd (fork_session_pauseresume u b w)
   | Fork_graceful \<Rightarrow> map_option snd (fork_session_graceful_shutdown u w)
   | Fork_audio resample reads lock \<Rightarrow> fork_frame pre resample reads lock u (bug_data (pipes.more w) u) w)"

text \<open>
  What the steps need: a start comes with new blocks for a session without a bug, with texts that
  fit their arrays and a rate that gives a buffer, and its resampler can be made; a graceful shutdown is
  not asked for before the service thread has seen the pipe; audio stays in the buffer.
\<close>

definition fork_op_ok :: "nat \<Rightarrow> string \<Rightarrow> fork_op \<Rightarrow> world \<Rightarrow> bool" where
  "fork_op_ok pre u x w \<longleftrightarrow> sessions (pipes.more w) u \<noteq> None \<and> (case x of
     Fork_start S rate host port path samp ssl chans metadata \<Rightarrow>
       sessions (pipes.more w) u = Some None \<and> pipe_at w (new_pipe S) = None \<and>
       (\<forall>v. bug_data (pipes.more w) v \<noteq> Some (new_private S)) \<and> length u < MAX_SESSION_ID \<and>
       (\<forall>m. metadata = Some m \<longrightarrow> length m < MAX_METADATA_LEN) \<and> (samp \<noteq> rate \<longrightarrow> resampler_ok S) \<and>
       fork_buflen (lws_pre S) (nAudioBufferSecs S) samp chans \<noteq> None
   | Fork_graceful \<Rightarrow> (\<forall>a. glue_uses (pipes.more w) a u \<longrightarrow> \<not> idle_at w a)
   | Fork_audio resample reads lock \<Rightarrow> (\<forall>d t a p. bug_data (pipes.more w) u = Some d \<longrightarrow> private_at (pipes.more w) d = Some t \<longrightarrow>
       pAudioPipe t = Some a \<longrightarrow> pipe_at w a = Some p \<longrightarrow>
       (if resampler t then resample_loop resample (channels t) reads (space_available p) p (buffer_overrun_notified t) 0
        else frame_loop reads (space_available p) p (buffer_overrun_notified t) 0) \<noteq> None)
   | _ \<Rightarrow> True)"

lemma remove_files_simps [simp]:
  "pipe_at (remove_files fs w) = pipe_at w" "user_data (remove_files fs w) = user_data w"
  "pending_connects (remove_files fs w) = pending_connects w" "pending_disconnects (remove_files fs w) = pending_disconnects w"
  "pending_writes (remove_files fs w) = pending_writes w" "sessions (pipes.more (remove_files fs w)) = sessions (pipes.more w)"
  "private_at (pipes.more (remove_files fs w)) = private_at (pipes.more w)"
  "glue_calls (pipes.more (remove_files fs w)) = glue_calls (pipes.more w) @ map Remove_file fs"
  unfolding remove_files_def by (induction fs arbitrary: w) simp_all

lemma glue_inv_steady:
  assumes "glue_inv w" and "steady w w'" and "glue_mild (pipes.more w) (pipes.more w')"
  shows "glue_inv w'"
  using assms steady_inv glue_mild_ok glue_mild_uses uses_valid_steady [of glue_uses w w'] unfolding glue_inv_def by blast

lemma glue_invE:
  assumes "glue_inv w" and "sessions (pipes.more w) u = Some (Some data)"
  obtains d t where "data = Some d" "bug_data (pipes.more w) u = Some d" "private_at (pipes.more w) d = Some t" "fd_mutex t"
    "initialMetadata t \<noteq> None" "sessionId t \<noteq> None" "\<And>a. pAudioPipe t = Some a \<Longrightarrow> \<exists>p. pipe_at w a = Some p \<and> m_uuid p = u"
proof -
  obtain d where d: "data = Some d" using assms unfolding glue_inv_def glue_ok_def by (cases data) auto
  then have b: "bug_data (pipes.more w) u = Some d" using assms(2) by (simp add: bug_data_def)
  then obtain t where t: "private_at (pipes.more w) d = Some t" "fd_mutex t" "initialMetadata t \<noteq> None" "sessionId t \<noteq> None"
    using assms(1) unfolding glue_inv_def glue_ok_def by blast
  moreover have "\<exists>p. pipe_at w a = Some p \<and> m_uuid p = u" if "pAudioPipe t = Some a" for a
    using assms(1) b t(1) that unfolding glue_inv_def uses_valid_def glue_uses_def by blast
  ultimately show ?thesis using that d b by blast
qed

lemma fork_private_resampler [simp]:
  "(fork_private u host port path rate chans metadata n a)\<lparr> resampler := False \<rparr> = fork_private u host port path rate chans metadata n a"
  by (simp add: fork_private_def)

lemma session_start_safe:
  assumes inv: "glue_inv w" and ok: "fork_op_ok pre u (Fork_start S rate host port path samp ssl chans metadata) w"
  shows "\<exists>w'. fork_op_step pre u (Fork_start S rate host port path samp ssl chans metadata) w = Some w' \<and> glue_inv w'"
proof -
  let ?a = "new_pipe S" and ?d = "new_private S"
  have s: "sessions (pipes.more w) u = Some None" "pipe_at w ?a = None" "\<forall>v. bug_data (pipes.more w) v \<noteq> Some ?d"
    "length u < MAX_SESSION_ID" "\<forall>m. metadata = Some m \<longrightarrow> length m < MAX_METADATA_LEN" "samp \<noteq> rate \<longrightarrow> resampler_ok S"
    using ok by (simp_all add: fork_op_ok_def)
  obtain len where len: "fork_buflen (lws_pre S) (nAudioBufferSecs S) samp chans = Some len" using ok by (auto simp: fork_op_ok_def)
  let ?p = "pipe_new (lws_pre S) u host port path ssl len (decoded_bytes_per_packet S) (auth_username S)
    (if auth_username S = None then None else auth_password S)"
  define n where "n = (idxCallCount (pipes.more w) + 1) mod 2 ^ 32"
  define t where "t = (fork_private u host port path samp chans metadata n ?a)\<lparr> resampler := (samp \<noteq> rate) \<rparr>"
  have "initialMetadata (fork_private u host port path samp chans metadata n ?a) \<noteq> None"
    using s(5) by (cases metadata) (simp_all add: fork_private_def strncpy_buf_def)
  then have t: "pAudioPipe t = Some ?a" "fd_mutex t" "initialMetadata t \<noteq> None" "sessionId t = Some u"
    using s(4) by (simp_all add: t_def fork_private_def strncpy_buf_def)
  let ?w' = "fork_attach_bug u ?d (pipe_connect ?a (put_private ?d t (put_pipe ?a ?p (pipes.more_update (\<lambda>g. g\<lparr> idxCallCount := n \<rparr>) w))))"
  have sid: "sessionId (fork_private u host port path samp chans metadata n ?a) = Some u"
    using s(4) by (simp add: fork_private_def strncpy_buf_def)
  have init: "fork_data_init S u host port path ssl rate samp chans metadata w =
      Some (SWITCH_STATUS_SUCCESS, put_private ?d t (put_pipe ?a ?p (pipes.more_update (\<lambda>g. g\<lparr> idxCallCount := n \<rparr>) w)))"
    unfolding fork_data_init_def Let_def n_def [symmetric] using s(6) len sid by (simp add: t_def)
  have w': "fork_op_step pre u (Fork_start S rate host port path samp ssl chans metadata) w = Some ?w'"
    using t(1) by (simp add: fork_op_step_def fork_session_init_def init)
  have at: "pipe_at ?w' = (pipe_at w)(?a \<mapsto> ?p)" and ss: "sessions (pipes.more ?w') = (sessions (pipes.more w))(u \<mapsto> Some (Some ?d))"
    and pv: "private_at (pipes.more ?w') = (private_at (pipes.more w))(?d \<mapsto> t)"
    by (simp_all add: fork_attach_bug_def)
  have bd: "bug_data (pipes.more ?w') v = (if v = u then Some ?d else bug_data (pipes.more w) v)" for v
    using ss by (simp add: bug_data_def)
  have "pipes_inv (pipe_connect ?a (put_pipe ?a ?p w))" using inv_new_pipe [of w ?a] inv s(2) by (simp add: glue_inv_def)
  then have "pipes_inv ?w'" by (rule steady_inv) (rule steady_same; simp add: fork_attach_bug_def)
  moreover have "glue_ok (pipes.more ?w')"
    using inv s(3) t(2-4) unfolding glue_inv_def glue_ok_def bd pv ss by (simp split: if_splits) blast
  moreover have "uses_valid glue_uses ?w'"
    unfolding uses_valid_def
  proof (intro allI impI)
    fix b v assume u: "glue_uses (pipes.more ?w') b v"
    show "\<exists>p. pipe_at ?w' b = Some p \<and> m_uuid p = v \<and> m_state p \<noteq> LWS_CLIENT_FAILED"
    proof (cases "v = u")
      case True
      then have "b = ?a" using u t(1) unfolding glue_uses_def bd pv by auto
      then show ?thesis using True at by (simp add: pipe_new_def)
    next
      case False
      then have "glue_uses (pipes.more w) b v" using u s(3) unfolding glue_uses_def bd pv by (auto split: if_splits)
      then obtain p where "pipe_at w b = Some p" "m_uuid p = v" "m_state p \<noteq> LWS_CLIENT_FAILED"
        using inv unfolding glue_inv_def uses_valid_def by blast
      then show ?thesis using at s(2) by auto
    qed
  qed
  ultimately show ?thesis using w' by (simp add: glue_inv_def)
qed

lemma session_stop_safe:
  assumes inv: "glue_inv w" and ok: "sessions (pipes.more w) u \<noteq> None"
  shows "\<exists>st w'. fork_session_cleanup u text closing w = Some (st, w') \<and> glue_inv w'"
proof (cases "sessions (pipes.more w) u = Some None")
  case True
  then show ?thesis using inv by (simp add: fork_session_cleanup_def)
next
  case False
  then obtain data where data: "sessions (pipes.more w) u = Some (Some data)" using ok by auto
  obtain d t where dt: "data = Some d" "bug_data (pipes.more w) u = Some d" "private_at (pipes.more w) d = Some t" "fd_mutex t"
    "\<And>a. pAudioPipe t = Some a \<Longrightarrow> \<exists>p. pipe_at w a = Some p \<and> m_uuid p = u"
    using glue_invE [OF inv data] by metis
  let ?w1 = "remove_files (playout t) (if closing then set_bug u None w else glue_does (Media_bug_remove u) (set_bug u None w))"
  have same: "pipe_at ?w1 = pipe_at w" "steady w ?w1" by (simp_all add: steady_same)
  have inv1: "pipes_inv ?w1" using inv steady_inv [OF _ same(2)] by (simp add: glue_inv_def)
  have more1: "sessions (pipes.more ?w1) = (sessions (pipes.more w))(u \<mapsto> None)" "private_at (pipes.more ?w1) = private_at (pipes.more w)"
    by simp_all
  have "\<exists>w2. (case (pAudioPipe t, text) of (Some a, Some m) \<Rightarrow> buffer_for_sending a m ?w1 | _ \<Rightarrow> Some ?w1) = Some w2 \<and>
      steady ?w1 w2 \<and> pipes.more w2 = pipes.more ?w1"
    using buffer_for_sending_steady [OF inv1] dt(5) same(1) steady_refl by (auto split: option.split)
  then obtain w2 where w2: "(case (pAudioPipe t, text) of (Some a, Some m) \<Rightarrow> buffer_for_sending a m ?w1 | _ \<Rightarrow> Some ?w1) = Some w2"
    "steady ?w1 w2" "pipes.more w2 = pipes.more ?w1" by blast
  have inv2: "pipes_inv w2" by (rule steady_inv [OF inv1 w2(2)])
  have keep: "\<exists>q. pipe_at w2 b = Some q \<and> m_uuid q = m_uuid p \<and> m_state q = m_state p" if "pipe_at w b = Some p" for b p
    using steadyD(3) [OF w2(2), of b p] that same(1) by (auto simp: same_role_def)
  have "\<exists>w3. (case pAudioPipe t of Some a \<Rightarrow> pipe_close a w2 | None \<Rightarrow> Some w2) = Some w3 \<and> pipes_inv w3 \<and>
      pipes.more w3 = pipes.more w2 \<and>
      (\<forall>b p. pipe_at w2 b = Some p \<longrightarrow> (\<exists>q. pipe_at w3 b = Some q \<and> m_uuid q = m_uuid p \<and>
        (m_state p \<noteq> LWS_CLIENT_FAILED \<longrightarrow> m_state q \<noteq> LWS_CLIENT_FAILED)))"
  proof (cases "pAudioPipe t")
    case None
    then show ?thesis using inv2 by simp
  next
    case (Some a)
    then obtain p where p: "pipe_at w2 a = Some p" using dt(5) keep by metis
    show ?thesis using pipe_close_inv [OF inv2 p] Some p by fastforce
  qed
  then obtain w3 where w3: "(case pAudioPipe t of Some a \<Rightarrow> pipe_close a w2 | None \<Rightarrow> Some w2) = Some w3" "pipes_inv w3"
    "pipes.more w3 = pipes.more w2"
    "\<And>b p. pipe_at w2 b = Some p \<Longrightarrow> \<exists>q. pipe_at w3 b = Some q \<and> m_uuid q = m_uuid p \<and>
        (m_state p \<noteq> LWS_CLIENT_FAILED \<longrightarrow> m_state q \<noteq> LWS_CLIENT_FAILED)" by blast
  let ?w4 = "put_private d (t\<lparr> resampler := False, fd_mutex := False \<rparr>) w3"
  have "private_at (pipes.more w3) d = Some t" using w3(3) w2(3) dt(3) by simp
  then have run: "fork_session_cleanup u text closing w = Some (SWITCH_STATUS_SUCCESS, ?w4)"
    using data dt(1,3,4) w2(1) w3(1) by (simp add: fork_session_cleanup_def destroy_tech_pvt_def Let_def)
  have ss: "sessions (pipes.more ?w4) = (sessions (pipes.more w))(u \<mapsto> None)"
    and pv: "private_at (pipes.more ?w4) = (private_at (pipes.more w))(d \<mapsto> t\<lparr> resampler := False, fd_mutex := False \<rparr>)"
    using w3(3) w2(3) by simp_all
  have bd: "bug_data (pipes.more ?w4) v = (if v = u then None else bug_data (pipes.more w) v)" for v
    using ss by (simp add: bug_data_def)
  have other: "d' \<noteq> d" if "bug_data (pipes.more w) v = Some d'" "v \<noteq> u" for v d'
    using inv that dt(2) unfolding glue_inv_def glue_ok_def by blast
  have "glue_ok (pipes.more ?w4)"
    using inv other unfolding glue_inv_def glue_ok_def bd pv ss by (simp split: if_splits)
  moreover have "uses_valid glue_uses ?w4"
    unfolding uses_valid_def
  proof (intro allI impI)
    fix b v assume "glue_uses (pipes.more ?w4) b v"
    then have "glue_uses (pipes.more w) b v" using other unfolding glue_uses_def bd pv by (auto split: if_splits)
    then obtain p where "pipe_at w b = Some p" "m_uuid p = v" "m_state p \<noteq> LWS_CLIENT_FAILED"
      using inv unfolding glue_inv_def uses_valid_def by blast
    then show "\<exists>p. pipe_at ?w4 b = Some p \<and> m_uuid p = v \<and> m_state p \<noteq> LWS_CLIENT_FAILED"
      using keep [of b p] w3(4) by fastforce
  qed
  moreover have "pipes_inv ?w4" by (rule steady_inv [OF w3(2)]) (simp add: steady_same)
  ultimately show ?thesis using run by (simp add: glue_inv_def)
qed

lemma with_private_safe:
  assumes inv: "glue_inv w" and ok: "sessions (pipes.more w) u \<noteq> None"
    and f: "\<And>d t. bug_data (pipes.more w) u = Some d \<Longrightarrow> private_at (pipes.more w) d = Some t \<Longrightarrow>
      (\<And>a. pAudioPipe t = Some a \<Longrightarrow> \<exists>p. pipe_at w a = Some p) \<Longrightarrow>
      \<exists>st w'. f d t w = Some (st, w') \<and> steady w w' \<and> glue_mild (pipes.more w) (pipes.more w')"
  shows "\<exists>st w'. with_private u f w = Some (st, w') \<and> glue_inv w'"
proof (cases "sessions (pipes.more w) u = Some None")
  case True
  then show ?thesis using inv by (simp add: with_private_def)
next
  case False
  then obtain data where data: "sessions (pipes.more w) u = Some (Some data)" using ok by auto
  obtain d t where dt: "data = Some d" "bug_data (pipes.more w) u = Some d" "private_at (pipes.more w) d = Some t"
    "\<And>a. pAudioPipe t = Some a \<Longrightarrow> \<exists>p. pipe_at w a = Some p \<and> m_uuid p = u"
    using glue_invE [OF inv data] by metis
  then obtain st w' where "f d t w = Some (st, w')" "steady w w'" "glue_mild (pipes.more w) (pipes.more w')"
    using f [OF dt(2,3)] by blast
  then show ?thesis using glue_inv_steady [OF inv] data dt(1,3) by (simp add: with_private_def)
qed

lemma frame_loop_simps:
  "frame_loop [] av p n e = Some (if av < min_freespace p then p\<lparr> write_offset := 0 \<rparr> else p, n \<or> av < min_freespace p,
     if av < min_freespace p \<and> \<not> n then e + 1 else e)"
  "frame_loop (d # ds) av p n e = do {
     p' \<leftarrow> audio_write d (if av < min_freespace p then p\<lparr> write_offset := 0 \<rparr> else p);
     frame_loop ds (space_available p') p' (n \<or> av < min_freespace p) (if av < min_freespace p \<and> \<not> n then e + 1 else e) }"
  by (subst frame_loop.simps; simp add: Let_def)+

lemma audio_write_role: "audio_write d p = Some q \<Longrightarrow> same_role p q"
  by (auto simp: audio_write_def intro: same_roleI)

lemma frame_loop_role: "frame_loop reads av p n e = Some (p', n', e') \<Longrightarrow> same_role p p'"
proof (induction reads arbitrary: av p n e)
  case Nil
  then show ?case by (auto simp: frame_loop_simps intro: same_roleI split: if_splits)
next
  case (Cons d ds)
  let ?p = "if av < min_freespace p then p\<lparr> write_offset := 0 \<rparr> else p"
  have p: "same_role p ?p" by (auto intro: same_roleI)
  obtain q where q: "audio_write d ?p = Some q" "same_role q p'"
    using Cons by (auto simp: frame_loop_simps(2) bind_eq_Some_conv)
  then show ?case using p audio_write_role [OF q(1)] by (auto simp: same_role_def split: if_splits)
qed

lemma resample_loop_role: "resample_loop rs c reads av p n e = Some (p', n', e') \<Longrightarrow> same_role p p'"
proof (induction rs c reads av p n e rule: resample_loop.induct)
  case (2 rs c d ds av p n e)
  show ?case
  proof (cases "d = []")
    case True
    then show ?thesis using 2 by simp
  next
    case False
    obtain len bytes where rs: "rs (av div 2 mod 2 ^ 32) d = (len, bytes)" by fastforce
    then obtain mem where mem: "write_at (write_offset p) bytes (audio_buffer p) = Some mem"
      using "2.prems" False by (auto simp: bind_eq_Some_conv Let_def)
    let ?q = "p\<lparr> audio_buffer := mem, write_offset := write_offset p + (if 0 < len then len * 2 ^ nat c else 0) \<rparr>"
    have q: "same_role p ?q" by (rule same_roleI) simp_all
    have "p' = ?q \<or> same_role ?q p'"
      using "2.IH"(2) [OF False rs [symmetric] refl mem refl refl] "2.prems" False rs mem by (auto simp: Let_def split: if_splits)
    then show ?thesis using q by (auto simp: same_role_def)
  qed
qed (simp add: same_role_refl)

lemma events_quiet: "quiet w (((glue_does c) ^^ n) w)"
proof (induction n)
  case (Suc n)
  then show ?case by (simp add: quiet_def glue_mild_def)
qed (simp add: quiet_def glue_mild_refl)

lemma glue_mild_trans:
  assumes "glue_mild g1 g2" and "glue_mild g2 g3"
  shows "glue_mild g1 g3"
proof -
  let ?R = "\<lambda>t t'. fd_mutex t' = fd_mutex t \<and> initialMetadata t' = initialMetadata t \<and> sessionId t' = sessionId t \<and>
    (pAudioPipe t' = None \<or> pAudioPipe t' = pAudioPipe t)"
  have "rel_option ?R (private_at g1 d) (private_at g3 d)" for d
    using assms by (cases "private_at g1 d"; cases "private_at g2 d"; cases "private_at g3 d")
      (auto simp: glue_mild_def dest!: spec [of _ d])
  then show ?thesis using assms by (simp add: glue_mild_def)
qed

lemma glue_quiet_trans: "quiet w1 w2 \<Longrightarrow> quiet w2 w3 \<Longrightarrow> quiet w1 w3"
  by (auto simp: quiet_def intro: glue_mild_trans)

lemma audio_safe:
  assumes inv: "glue_inv w" and ok: "fork_op_ok pre u (Fork_audio rs reads lock) w"
  shows "\<exists>w'. fork_op_step pre u (Fork_audio rs reads lock) w = Some w' \<and> glue_inv w'"
proof (cases "bug_data (pipes.more w) u")
  case None
  then show ?thesis using inv by (simp add: fork_op_step_def fork_frame_def)
next
  case (Some d)
  then obtain data where "sessions (pipes.more w) u = Some (Some data)" by (auto simp: bug_data_def bind_eq_Some_conv)
  then obtain t where t: "private_at (pipes.more w) d = Some t" "fd_mutex t"
    "\<And>a. pAudioPipe t = Some a \<Longrightarrow> \<exists>p. pipe_at w a = Some p"
    using glue_invE [OF inv] Some by (metis option.inject)
  show ?thesis
  proof (cases "audio_paused t \<or> graceful_shutdown t \<or> \<not> lock \<or> pAudioPipe t = None")
    case True
    then show ?thesis using inv Some t by (auto simp: fork_op_step_def fork_frame_def)
  next
    case run: False
    then obtain a p where a: "pAudioPipe t = Some a" "pipe_at w a = Some p" using t(3) by blast
    show ?thesis
    proof (cases "m_state p = LWS_CLIENT_CONNECTED")
      case False
      then show ?thesis using inv Some t a run by (simp add: fork_op_step_def fork_frame_def)
    next
      case True
      let ?loop = "if resampler t then resample_loop rs (channels t) reads (space_available p) p (buffer_overrun_notified t) 0
        else frame_loop reads (space_available p) p (buffer_overrun_notified t) 0"
      have "?loop \<noteq> None" using ok Some t(1) a by (simp add: fork_op_ok_def)
      then obtain q n e where loop: "?loop = Some (q, n, e)" by auto
      have role: "same_role p q"
        using loop resample_loop_role frame_loop_role by (cases "resampler t") auto
      let ?w0 = "put_private d (t\<lparr> buffer_overrun_notified := n \<rparr>) w"
      define w1 where "w1 = ((glue_does (Fork_event u EVENT_BUFFER_OVERRUN None)) ^^ e) ?w0"
      have "quiet w ?w0" using t(1) by (auto simp: quiet_def intro!: glue_mild_put [OF _ _ t(1)])
      then have q1: "quiet w w1" unfolding w1_def by (rule glue_quiet_trans [OF _ events_quiet])
      then have inv1: "glue_inv w1" using glue_inv_steady [OF inv quiet_steady] by (simp add: quiet_def)
      have at1: "pipe_at w1 a = Some p" using q1 a(2) by (simp add: quiet_def)
      have vhd: "m_vhd p" using pipes_invD(2) [of w a p] inv a(2) True by (simp add: glue_inv_def pipe_ok_def)
      have "\<exists>w'. unlock_audio_buffer pre a (put_pipe a q w1) = Some w' \<and> steady w1 w' \<and> pipes.more w' = pipes.more w1"
        using put_and_write_steady [OF at1 role vhd] steady_put [OF at1 role] by (simp add: unlock_audio_buffer_def)
      then obtain w' where w': "unlock_audio_buffer pre a (put_pipe a q w1) = Some w'" "steady w1 w'" "pipes.more w' = pipes.more w1"
        by blast
      have "fork_op_step pre u (Fork_audio rs reads lock) w =
          do { (p, notified, events) \<leftarrow> ?loop;
               unlock_audio_buffer pre a (put_pipe a p (((glue_does (Fork_event u EVENT_BUFFER_OVERRUN None)) ^^ events)
                 (put_private d (t\<lparr> buffer_overrun_notified := notified \<rparr>) w))) }"
        using Some t(1,2) a True run by (simp add: fork_op_step_def fork_frame_def Let_def)
      then have "fork_op_step pre u (Fork_audio rs reads lock) w = Some w'" unfolding loop using w'(1) w1_def by simp
      moreover have "glue_inv w'" using glue_inv_steady [OF inv1 w'(2)] w'(3) by (simp add: glue_mild_refl)
      ultimately show ?thesis by blast
    qed
  qed
qed

lemma session_safe:
  assumes inv: "glue_inv w" and ok: "fork_op_ok pre u x w"
  shows "\<exists>w'. fork_op_step pre u x w = Some w' \<and> glue_inv w'"
proof -
  have s: "sessions (pipes.more w) u \<noteq> None" using ok by (simp add: fork_op_ok_def)
  have pinv: "pipes_inv w" using inv by (simp add: glue_inv_def)
  show ?thesis
  proof (cases x)
    case (Fork_start S rate host port path samp ssl chans metadata)
    then show ?thesis using session_start_safe [OF inv] ok by blast
  next
    case (Fork_stop msg closing)
    then show ?thesis using session_stop_safe [OF inv s, of msg closing] by (auto simp: fork_op_step_def)
  next
    case (Fork_text msg)
    have "\<exists>st w'. fork_session_send_text u msg w = Some (st, w') \<and> glue_inv w'"
      unfolding fork_session_send_text_def
    proof (rule with_private_safe [OF inv s])
      fix d t assume ex: "\<And>a. pAudioPipe t = Some a \<Longrightarrow> \<exists>p. pipe_at w a = Some p"
      have "\<exists>w'. (case (pAudioPipe t, msg) of (Some a, Some m) \<Rightarrow> buffer_for_sending a m w | _ \<Rightarrow> Some w) = Some w' \<and>
          steady w w' \<and> pipes.more w' = pipes.more w"
        using buffer_for_sending_steady [OF pinv] ex steady_refl by (auto split: option.split)
      then obtain w' where "(case (pAudioPipe t, msg) of (Some a, Some m) \<Rightarrow> buffer_for_sending a m w | _ \<Rightarrow> Some w) = Some w'"
        "steady w w'" "pipes.more w' = pipes.more w" by blast
      then show "\<exists>st w'. (do {
          w \<leftarrow> (case (pAudioPipe t, msg) of (Some a, Some m) \<Rightarrow> buffer_for_sending a m w | _ \<Rightarrow> Some w);
          Some (SWITCH_STATUS_SUCCESS, w) }) = Some (st, w') \<and> steady w w' \<and> glue_mild (pipes.more w) (pipes.more w')"
        by (simp add: glue_mild_refl)
    qed
    then show ?thesis using Fork_text by (auto simp: fork_op_step_def)
  next
    case (Fork_pause b)
    have "\<exists>st w'. fork_session_pauseresume u b w = Some (st, w') \<and> glue_inv w'"
      unfolding fork_session_pauseresume_def
    proof (rule with_private_safe [OF inv s])
      fix d t assume t: "private_at (pipes.more w) d = Some t"
      have "quiet w (put_private d (t\<lparr> audio_paused := odd b \<rparr>) (glue_does (Media_bug_flush u) w))"
        using t by (auto simp: quiet_def intro!: glue_mild_put [OF _ _ t])
      then show "\<exists>st w'. Some (SWITCH_STATUS_SUCCESS, put_private d (t\<lparr> audio_paused := odd b \<rparr>) (glue_does (Media_bug_flush u) w)) =
          Some (st, w') \<and> steady w w' \<and> glue_mild (pipes.more w) (pipes.more w')"
        using quiet_steady by (auto simp: quiet_def)
    qed
    then show ?thesis using Fork_pause by (auto simp: fork_op_step_def)
  next
    case Fork_graceful
    have "\<exists>st w'. fork_session_graceful_shutdown u w = Some (st, w') \<and> glue_inv w'"
      unfolding fork_session_graceful_shutdown_def
    proof (rule with_private_safe [OF inv s])
      fix d t assume b: "bug_data (pipes.more w) u = Some d" and t: "private_at (pipes.more w) d = Some t"
        and ex: "\<And>a. pAudioPipe t = Some a \<Longrightarrow> \<exists>p. pipe_at w a = Some p"
      let ?w1 = "put_private d (t\<lparr> graceful_shutdown := True \<rparr>) w"
      have q: "quiet w ?w1" using t by (auto simp: quiet_def intro!: glue_mild_put [OF _ _ t])
      have inv1: "pipes_inv ?w1" using steady_inv [OF pinv quiet_steady [OF q]] .
      have "\<exists>w'. (case pAudioPipe t of Some a \<Rightarrow> do_graceful_shutdown a ?w1 | None \<Rightarrow> Some ?w1) = Some w' \<and>
          steady ?w1 w' \<and> pipes.more w' = pipes.more ?w1"
      proof (cases "pAudioPipe t")
        case (Some a)
        then obtain p where p: "pipe_at w a = Some p" using ex by blast
        have "\<not> idle_at w a" using ok Fork_graceful b t Some unfolding fork_op_ok_def glue_uses_def by auto
        then show ?thesis using do_graceful_shutdown_steady [OF inv1, of a p] p Some by (simp add: idle_at_def)
      qed (simp add: steady_refl)
      then obtain w' where w': "(case pAudioPipe t of Some a \<Rightarrow> do_graceful_shutdown a ?w1 | None \<Rightarrow> Some ?w1) = Some w'"
        "steady ?w1 w'" "pipes.more w' = pipes.more ?w1" by blast
      have "steady w w'" using steady_trans [OF quiet_steady [OF q] w'(2)] .
      moreover have "glue_mild (pipes.more w) (pipes.more w')" using q w'(3) by (simp add: quiet_def)
      ultimately show "\<exists>st w'. (do {
          let w = ?w1;
          w \<leftarrow> (case pAudioPipe t of Some a \<Rightarrow> do_graceful_shutdown a w | None \<Rightarrow> Some w);
          Some (SWITCH_STATUS_SUCCESS, w) }) = Some (st, w') \<and> steady w w' \<and> glue_mild (pipes.more w) (pipes.more w')"
        using w'(1) by simp
    qed
    then show ?thesis using Fork_graceful by (auto simp: fork_op_step_def)
  next
    case (Fork_audio rs reads lock)
    then show ?thesis using audio_safe [OF inv] ok by blast
  qed
qed

section \<open>Runs of the module\<close>

text \<open>
  Calls begin and end; sessions ask for operations; the service threads of libwebsockets deliver
  events. A call ends after its bug was removed.
\<close>

datatype fork_step =
    Call_begins string
  | Call_ends string
  | Session_asks string fork_op
  | Service nat lws_reason

fun fork_do :: "'j cjson \<Rightarrow> string \<Rightarrow> nat \<Rightarrow> fork_step \<Rightarrow> world \<Rightarrow> world option" where
  "fork_do C temp_dir pre (Call_begins u) w = Some (set_bug u None w)"
| "fork_do C temp_dir pre (Call_ends u) w = Some (pipes.more_update (\<lambda>g. g\<lparr> sessions := (sessions g)(u := None) \<rparr>) w)"
| "fork_do C temp_dir pre (Session_asks u x) w = fork_op_step pre u x w"
| "fork_do C temp_dir pre (Service s r) w = map_option snd (lws_callback pre (eventCallback C temp_dir) s r w)"

fun fork_step_ok :: "'j cjson \<Rightarrow> nat \<Rightarrow> fork_step \<Rightarrow> world \<Rightarrow> bool" where
  "fork_step_ok C pre (Call_begins u) w = (sessions (pipes.more w) u = None)"
| "fork_step_ok C pre (Call_ends u) w = (sessions (pipes.more w) u = Some None)"
| "fork_step_ok C pre (Session_asks u x) w = fork_op_ok pre u x w"
| "fork_step_ok C pre (Service s r) w = lws_delivers (glue_accepts C) s r w"

abbreviation fork_run :: "'j cjson \<Rightarrow> string \<Rightarrow> nat \<Rightarrow> fork_step list \<Rightarrow> world \<Rightarrow> world option" where
  "fork_run C temp_dir pre \<equiv> run_steps (fork_do C temp_dir pre)"

text \<open>Each step of the run finds what it needs.\<close>

abbreviation fork_run_ok :: "'j cjson \<Rightarrow> string \<Rightarrow> nat \<Rightarrow> fork_step list \<Rightarrow> world \<Rightarrow> bool" where
  "fork_run_ok C temp_dir pre \<equiv> all_allowed (fork_step_ok C pre) (fork_do C temp_dir pre)"

lemma sessions_change_inv:
  assumes inv: "glue_inv w" and w': "w' = pipes.more_update (\<lambda>g. g\<lparr> sessions := (sessions g)(u := b) \<rparr>) w"
    and b: "b = None \<or> b = Some None"
  shows "glue_inv w'"
proof -
  have ss: "sessions (pipes.more w') = (sessions (pipes.more w))(u := b)" and pv: "private_at (pipes.more w') = private_at (pipes.more w)"
    by (simp_all add: w')
  have bd: "bug_data (pipes.more w') v = (if v = u then None else bug_data (pipes.more w) v)" for v
    using ss b by (auto simp: bug_data_def)
  have "pipes_inv w'" using inv steady_inv [OF _ steady_same [of w' w]] by (simp add: glue_inv_def w')
  moreover have "glue_ok (pipes.more w')"
    using inv b unfolding glue_inv_def glue_ok_def bd pv ss by auto
  moreover have "uses_valid glue_uses w'"
    using inv unfolding glue_inv_def uses_valid_def glue_uses_def bd pv by (simp add: w')
  ultimately show ?thesis by (simp add: glue_inv_def)
qed

lemma fork_step_safe:
  assumes "glue_inv w" and "fork_step_ok C pre x w"
  shows "\<exists>w'. fork_do C temp_dir pre x w = Some w' \<and> glue_inv w'"
proof (cases x)
  case (Call_begins u)
  then show ?thesis using sessions_change_inv [OF assms(1) refl, of "Some None" u] by (simp add: set_bug_def)
next
  case (Call_ends u)
  then show ?thesis using sessions_change_inv [OF assms(1) refl, of None u] by simp
next
  case (Session_asks u y)
  then show ?thesis using session_safe [OF assms(1)] assms(2) by simp
next
  case (Service s r)
  then have "lws_delivers (glue_accepts C) s r w" using assms(2) by simp
  then have "\<exists>res w'. lws_callback pre (eventCallback C temp_dir) s r w = Some (res, w') \<and> glue_inv w'"
    using glue_client.callback_safe [of w C s r pre temp_dir] assms(1) by (simp add: glue_inv_def glue_client.safe_def)
  then show ?thesis using Service by auto
qed

interpretation forks: step_system "fork_step_ok C pre" "fork_do C temp_dir pre" glue_inv for C pre temp_dir
  by unfold_locales (rule fork_step_safe)

definition empty_world :: world where
  "empty_world = \<lparr> pipe_at = Map.empty, user_data = Map.empty, pending_connects = [], pending_disconnects = [],
     pending_writes = [], lws_calls = [],
     \<dots> = \<lparr> sessions = Map.empty, private_at = Map.empty, idxCallCount = 0, playCount = 0, glue_calls = [] \<rparr> \<rparr>"

lemma empty_world_inv: "glue_inv empty_world"
  by (simp add: glue_inv_def empty_world_def pipes_inv_def uses_valid_def glue_ok_def glue_uses_def bug_data_def)


definition no_json :: "unit cjson" where
  "no_json = \<lparr> cJSON_Parse = \<lambda>_. None, cJSON_GetObjectItem = \<lambda>_ _. None, cJSON_DetachItem = \<lambda>j _. (None, j),
     cJSON_GetObjectCstr = \<lambda>_ _. None, cJSON_AddString = \<lambda>j _ _. j, cJSON_Print = \<lambda>_. None,
     valuestring = \<lambda>_. None, valueint = \<lambda>_. 0 \<rparr>"

definition sample_setup :: "nat \<Rightarrow> nat \<Rightarrow> fork_setup" where
  "sample_setup d a = \<lparr> lws_pre = 2, nAudioBufferSecs = 2, new_private = d, new_pipe = a, decoded_bytes_per_packet = 320,
     auth_username = None, auth_password = None, resampler_ok = True \<rparr>"

definition sample_start :: "nat \<Rightarrow> nat \<Rightarrow> string option \<Rightarrow> fork_op" where
  "sample_start d a meta = Fork_start (sample_setup d a) 8000 ''h'' 443 ''/'' 8000 0 1 meta"

definition one_call :: "fork_step list" where
  "one_call = [Call_begins ''u'', Session_asks ''u'' (sample_start 1 2 (Some ''m'')), Service 0 (Event_wait_cancelled [2 \<mapsto> 7]),
     Service 7 Client_established, Service 0 (Event_wait_cancelled Map.empty), Service 7 (Client_writeable 1),
     Session_asks ''u'' (Fork_stop None False), Service 0 (Event_wait_cancelled Map.empty),
     Service 7 (Client_writeable 0), Service 7 Client_closed, Call_ends ''u'']"

lemmas run_defs = fork_op_step_def fork_op_ok_def fork_session_init_def fork_data_init_def fork_private_def fork_buflen_def int32_def
  strncpy_buf_def fork_attach_bug_def set_bug_def put_private_def glue_does_def bug_data_def put_pipe_def calls_lws_def
  pipe_connect_def add_pending_connect_def pipe_new_def lws_callback_def process_pending_connects_def connect_client_def
  process_pending_disconnects_def process_pending_writes_def on_established_def find_and_remove_pending_connect_def
  eventCallback_def buffer_for_sending_def add_pending_write_def cancel_service_of_def on_writeable_def
  fork_session_cleanup_def remove_files_def pipe_close_def add_pending_disconnect_def destroy_tech_pvt_def on_closed_def pipe_delete_def
  lws_delivers_def fresh_sockets_def connecting_on_def glue_accepts_def c_div_def
  sample_start_def sample_setup_def empty_world_def MAX_SESSION_ID_def MAX_METADATA_LEN_def MAX_WS_URL_LEN_def MAX_PATH_LEN_def
  FRAME_SIZE_8000_def RTP_PACKETIZATION_PERIOD_def


end
