(* ===== verification/LwsRuns.thy ===== *)
theory LwsRuns
  imports LwsSafety
begin

text \<open>
  What the websocket client does on particular paths: two runs of ordinary steps that end in undefined
  behaviour, the bounds of the audio loops, and the files of the audio a server sends.
\<close>

section \<open>Runs that go wrong\<close>

definition starting :: "nat \<Rightarrow> nat \<Rightarrow> nat \<Rightarrow> string option \<Rightarrow> fork_step list" where
  "starting d a s meta = [Session_asks ''u'' (sample_start d a meta), Service 0 (Event_wait_cancelled [a \<mapsto> s])]"

text \<open>
  A session stops before its first attempt is answered and starts again; then the first attempt fails
  and the second succeeds.
\<close>

definition restart_run :: "string \<Rightarrow> fork_step list" where
  "restart_run meta = Call_begins ''u'' # starting 1 2 7 None @ [Session_asks ''u'' (Fork_stop None False)] @
     starting 3 4 8 (Some meta) @ [Service 7 (Client_connection_error (Some ''refused'')), Service 8 Client_established]"


text \<open>
  A session sends a text, and before the service thread looks at the list of pending writes the far
  end closes the connection.
\<close>

definition close_run :: "string \<Rightarrow> fork_step list" where
  "close_run t = Call_begins ''u'' # starting 1 2 7 None @
     [Service 7 Client_established, Session_asks ''u'' (Fork_text (Some t)), Service 7 Client_closed,
      Service 0 (Event_wait_cancelled Map.empty)]"


text \<open>A graceful shutdown before the service thread has seen the pipe uses the service of a NULL pointer.\<close>

lemma fork_early_graceful:
  "fork_run C temp_dir 2 [Call_begins ''u'', Session_asks ''u'' (sample_start 1 2 None), Session_asks ''u'' Fork_graceful] empty_world = None"
  by (simp add: run_defs fork_session_graceful_shutdown_def with_private_def do_graceful_shutdown_def)

text \<open>
  A session that stops before it is connected leaves a connection behind that no session can use or close.
\<close>

definition orphan_run :: "fork_step list" where
  "orphan_run = Call_begins ''u'' # starting 1 2 7 None @ [Session_asks ''u'' (Fork_stop None False),
     Service 7 Client_established, Call_ends ''u'']"

lemma fork_stop_leaves_connection:
  "\<exists>w p. fork_run C temp_dir 2 orphan_run empty_world = Some w \<and> pipe_at w 2 = Some p \<and> m_state p = LWS_CLIENT_CONNECTED \<and>
     user_data w 7 = Some 2 \<and> pending_disconnects w = [] \<and> (\<forall>u. \<not> glue_uses (pipes.more w) 2 u)"
  by (simp add: orphan_run_def starting_def run_defs glue_uses_def)

section \<open>The audio loops\<close>

definition buffer_sane :: "pipe \<Rightarrow> bool" where
  "buffer_sane p \<longleftrightarrow> write_offset p \<le> length (audio_buffer p) \<and> length (audio_buffer p) < 2 ^ 64 \<and>
     min_freespace p \<le> length (audio_buffer p)"

lemma mod_room: "k \<le> l \<Longrightarrow> l < n \<Longrightarrow> (l + n - k) mod n = l - (k :: nat)"
  by (metis Nat.add_diff_assoc2 less_imp_diff_less mod_add_self2 mod_less)

lemma sane_space: "buffer_sane p \<Longrightarrow> space_available p = length (audio_buffer p) - write_offset p"
  unfolding buffer_sane_def space_available_def by (elim conjE) (rule mod_room)

lemma sane_write:
  assumes "buffer_sane p" and "length d \<le> length (audio_buffer p) - write_offset p"
  shows "\<exists>q. audio_write d p = Some q \<and> buffer_sane q \<and> min_freespace q = min_freespace p"
  using assms by (auto simp: audio_write_def write_at_def buffer_sane_def)

lemma frame_loop_stays:
  assumes "buffer_sane p" and "\<forall>d\<in>set reads. length d \<le> min_freespace p"
  shows "\<exists>q n' e'. frame_loop reads (space_available p) p n e = Some (q, n', e') \<and> buffer_sane q"
  using assms
proof (induction reads arbitrary: p n e)
  case Nil
  then show ?case by (auto simp: frame_loop_simps buffer_sane_def)
next
  case (Cons d ds)
  let ?p = "if space_available p < min_freespace p then p\<lparr> write_offset := 0 \<rparr> else p"
  have "buffer_sane ?p" "length d \<le> length (audio_buffer ?p) - write_offset ?p"
    using Cons.prems by (auto simp: buffer_sane_def sane_space)
  then obtain q where q: "audio_write d ?p = Some q" "buffer_sane q" "min_freespace q = min_freespace p"
    using sane_write [of ?p d] by auto
  then show ?case using Cons.IH [OF q(2)] Cons.prems(2) by (simp add: frame_loop_simps)
qed

text \<open>
  What the resampler documents: it writes at most the given number of samples of each channel, of two bytes.
\<close>

definition resampler_ok_for :: "(nat \<Rightarrow> string \<Rightarrow> nat \<times> string) \<Rightarrow> int \<Rightarrow> bool" where
  "resampler_ok_for rs chans \<longleftrightarrow> (\<forall>limit d. fst (rs limit d) \<le> limit \<and> length (snd (rs limit d)) = 2 * nat chans * fst (rs limit d))"

lemma resample_loop_stays:
  assumes "buffer_sane p" and "resampler_ok_for rs 1"
  shows "\<exists>q n' e'. resample_loop rs 1 reads (space_available p) p n e = Some (q, n', e') \<and> buffer_sane q"
  using assms(1)
proof (induction reads arbitrary: p n e)
  case (Cons d ds)
  show ?case
  proof (cases "d = []")
    case False
    obtain len bytes where rs: "rs (space_available p div 2 mod 2 ^ 32) d = (len, bytes)" by fastforce
    have "len \<le> space_available p div 2 mod 2 ^ 32" "length bytes = 2 * len"
      using assms(2) rs unfolding resampler_ok_for_def by (metis fst_conv, metis snd_conv fst_conv mult.right_neutral nat_one_as_int nat_1 One_nat_def)
    then have len: "length bytes \<le> length (audio_buffer p) - write_offset p" "length bytes = 2 * len"
      using sane_space [OF Cons.prems] by (auto intro: order_trans [OF _ times_div_less_eq_dividend] dest: order_trans [OF _ mod_less_eq_dividend])
    define q where "q = p\<lparr> audio_buffer := take (write_offset p) (audio_buffer p) @ map Some bytes @ drop (write_offset p + length bytes) (audio_buffer p),
      write_offset := write_offset p + 2 * len \<rparr>"
    have q: "buffer_sane q" using Cons.prems len by (auto simp: buffer_sane_def q_def)
    have w: "write_at (write_offset p) bytes (audio_buffer p) =
        Some (take (write_offset p) (audio_buffer p) @ map Some bytes @ drop (write_offset p + length bytes) (audio_buffer p))"
      using len(1) Cons.prems by (auto simp: write_at_def buffer_sane_def)
    have "length (audio_buffer q) = length (audio_buffer p)"
      using len(1) Cons.prems unfolding q_def buffer_sane_def by simp linarith
    then have "(if 0 < len then space_available q else space_available p) = space_available q"
      using sane_space [OF q] sane_space [OF Cons.prems] by (simp add: q_def)
    moreover have "resample_loop rs 1 (d # ds) (space_available p) p n e =
        (let available = (if 0 < len then space_available q else space_available p)
         in if available < min_freespace q then Some (q, True, if n then e else e + 1)
            else resample_loop rs 1 ds available q n e)"
    proof -
      have "(if 0 < len then len * 2 ^ nat 1 else 0) = 2 * len" by simp
      then show ?thesis unfolding resample_loop.simps using False rs w by (simp only: if_False Let_def prod.case option.case bind.simps q_def)
    qed
    ultimately have "resample_loop rs 1 (d # ds) (space_available p) p n e =
        (if space_available q < min_freespace q then Some (q, True, if n then e else e + 1)
         else resample_loop rs 1 ds (space_available q) q n e)" by (simp only: Let_def)
    then show ?thesis using q Cons.IH [OF q] by auto
  qed (use Cons in simp)
qed simp

text \<open>
  C24. The bounds of the audio loops: as long as the media bug hands out at most a packet at a time,
  the loop without a resampler never leaves the buffer, whatever its fill; with a resampler a mono
  stream never does either. A stereo stream does: the room is halved for two-byte samples but not for
  the second channel, so a resampler that uses the room it is given writes twice as much as there is.
\<close>

theorem fork_frame_bounds:
  assumes "buffer_sane p"
  shows "((\<forall>d\<in>set reads. length d \<le> min_freespace p) \<longrightarrow> frame_loop reads (space_available p) p n e \<noteq> None) \<and>
    (resampler_ok_for rs 1 \<longrightarrow> resample_loop rs 1 reads (space_available p) p n e \<noteq> None) \<and>
    (resampler_ok_for rs' 2 \<longrightarrow> fst (rs' (space_available p div 2) d) = space_available p div 2 \<longrightarrow> d \<noteq> [] \<longrightarrow>
      2 \<le> space_available p \<longrightarrow> space_available p < 2 ^ 32 \<longrightarrow> resample_loop rs' 2 (d # reads) (space_available p) p n e = None)"
proof (intro conjI impI)
  assume "\<forall>d\<in>set reads. length d \<le> min_freespace p"
  then show "frame_loop reads (space_available p) p n e \<noteq> None" using frame_loop_stays [OF assms] by fastforce
next
  assume "resampler_ok_for rs 1"
  then show "resample_loop rs 1 reads (space_available p) p n e \<noteq> None" using resample_loop_stays [OF assms] by fastforce
next
  assume rs: "resampler_ok_for rs' 2" "fst (rs' (space_available p div 2) d) = space_available p div 2" and d: "d \<noteq> []"
    and space: "2 \<le> space_available p" "space_available p < 2 ^ 32"
  let ?half = "space_available p div 2"
  obtain bytes where b: "rs' ?half d = (?half, bytes)" using rs(2) by (metis prod.collapse)
  then have "length bytes = 4 * ?half" using rs(1) unfolding resampler_ok_for_def by (metis fst_conv snd_conv mult_2 nat_numeral numeral_Bit0 distrib_right)
  moreover have "space_available p < 4 * ?half" using space(1) by presburger
  ultimately have "length (audio_buffer p) < write_offset p + length bytes"
    using sane_space [OF assms] assms by (simp add: buffer_sane_def)
  then have "write_at (write_offset p) bytes (audio_buffer p) = None" by (simp add: write_at_def)
  moreover have "?half mod 2 ^ 32 = ?half" using space(2) by simp
  ultimately show "resample_loop rs' 2 (d # reads) (space_available p) p n e = None" using d b by simp
qed

definition sample_resampler :: "nat \<Rightarrow> nat \<Rightarrow> string \<Rightarrow> nat \<times> string" where
  "sample_resampler chans limit d = (limit, replicate (2 * chans * limit) CHR ''x'')"

theorem fork_frame_bounds_witness:
  "frame_loop [''ab'', ''cd'', ''ef'', ''gh''] 6 sample_pipe False 0 \<noteq> None \<and>
   resample_loop (sample_resampler 1) 1 [''ab'', ''cd''] 6 sample_pipe False 0 \<noteq> None \<and>
   resample_loop (sample_resampler 2) 2 [''ab''] 6 sample_pipe False 0 = None"
proof -
  have sane: "buffer_sane sample_pipe" and space: "space_available sample_pipe = 6" and free: "min_freespace sample_pipe = 2"
    by (simp_all add: buffer_sane_def sample_pipe_def pipe_new_def space_available_def)
  have rs: "resampler_ok_for (sample_resampler 1) 1" "resampler_ok_for (sample_resampler 2) 2"
    by (simp_all add: resampler_ok_for_def sample_resampler_def)
  have "fst (sample_resampler 2 (space_available sample_pipe div 2) ''ab'') = space_available sample_pipe div 2"
    by (simp add: sample_resampler_def)
  from fork_frame_bounds [OF sane, of "[''ab'', ''cd'', ''ef'', ''gh'']" False 0 "sample_resampler 1" "sample_resampler 2" "''ab''"]
    fork_frame_bounds [OF sane, of "[''ab'', ''cd'']" False 0 "sample_resampler 1" "sample_resampler 2" "''ab''"]
    fork_frame_bounds [OF sane, of "[]" False 0 "sample_resampler 1" "sample_resampler 2" "''ab''"] rs this
  show ?thesis unfolding space free by auto
qed

section \<open>Files\<close>

definition written_files :: "glue_call list \<Rightarrow> string list" where
  "written_files cs = concat (map (\<lambda>c. case c of Write_file f _ \<Rightarrow> [f] | _ \<Rightarrow> []) cs)"

definition removed_files :: "glue_call list \<Rightarrow> string list" where
  "removed_files cs = concat (map (\<lambda>c. case c of Remove_file f \<Rightarrow> [f] | _ \<Rightarrow> []) cs)"

lemma files_simps [simp]:
  "written_files [] = []" "written_files (cs @ ds) = written_files cs @ written_files ds"
  "written_files (Write_file f b # cs) = f # written_files cs" "written_files (Fork_event u e j # cs) = written_files cs"
  "written_files (Break_playback u # cs) = written_files cs"
  "removed_files (map Remove_file fs) = fs" "removed_files (Media_bug_remove u # cs) = removed_files cs"
  by (induction fs) (simp_all add: written_files_def removed_files_def)

text \<open>The messages of one connection, in the order they arrive.\<close>

fun deliver :: "'j cjson \<Rightarrow> string \<Rightarrow> string \<Rightarrow> string list \<Rightarrow> world \<Rightarrow> world option" where
  "deliver C temp_dir u [] w = Some w"
| "deliver C temp_dir u (m # ms) w = eventCallback C temp_dir u MESSAGE (Some m) w \<bind> deliver C temp_dir u ms"

text \<open>The list of a session keeps the files written for it.\<close>

definition lists_files :: "nat \<Rightarrow> world \<Rightarrow> world \<Rightarrow> bool" where
  "lists_files d w w' \<longleftrightarrow> (\<exists>cs. glue_calls (pipes.more w') = glue_calls (pipes.more w) @ cs \<and>
     (\<forall>t. private_at (pipes.more w) d = Some t \<longrightarrow>
       (\<exists>t'. private_at (pipes.more w') d = Some t' \<and> playout t' = rev (written_files cs) @ playout t)))"

lemma lists_files_trans:
  assumes "lists_files d w1 w2" and "lists_files d w2 w3"
  shows "lists_files d w1 w3"
proof -
  obtain cs where cs: "glue_calls (pipes.more w2) = glue_calls (pipes.more w1) @ cs"
    "\<And>t. private_at (pipes.more w1) d = Some t \<Longrightarrow>
      \<exists>t'. private_at (pipes.more w2) d = Some t' \<and> playout t' = rev (written_files cs) @ playout t"
    using assms(1) unfolding lists_files_def by blast
  obtain ds where ds: "glue_calls (pipes.more w3) = glue_calls (pipes.more w2) @ ds"
    "\<And>t. private_at (pipes.more w2) d = Some t \<Longrightarrow>
      \<exists>t'. private_at (pipes.more w3) d = Some t' \<and> playout t' = rev (written_files ds) @ playout t"
    using assms(2) unfolding lists_files_def by blast
  have "\<exists>t'. private_at (pipes.more w3) d = Some t' \<and> playout t' = rev (written_files (cs @ ds)) @ playout t"
    if t: "private_at (pipes.more w1) d = Some t" for t
  proof -
    obtain t2 where "private_at (pipes.more w2) d = Some t2" "playout t2 = rev (written_files cs) @ playout t" using cs(2) [OF t] by blast
    then show ?thesis using ds(2) [of t2] by auto
  qed
  then show ?thesis using cs(1) ds(1) unfolding lists_files_def by (intro exI [of _ "cs @ ds"]) simp
qed

lemma lists_files_events:
  "lists_files d w w" "lists_files d w (glue_does (Fork_event u e j) w)"
  "lists_files d w (glue_does (Break_playback v) (glue_does (Fork_event u e j) w))"
  by (auto simp: lists_files_def)

lemma play_audio_lists:
  assumes "play_audio C temp_dir u d j w = Some w'"
  shows "lists_files d w w'"
proof (cases "cJSON_GetObjectItem C j ''data''")
  case None
  then show ?thesis using assms by (simp add: play_audio_def lists_files_events)
next
  case (Some data)
  obtain audio data' where data': "cJSON_DetachItem C data ''audioContent'' = (audio, data')" by fastforce
  obtain ext where ext: "file_type C data' = Some ext"
    using assms Some data' by (cases "file_type C data'") (auto simp: play_audio_def Let_def)
  show ?thesis
  proof (cases "ext = None \<or> Option.bind audio (valuestring C) = None")
    case True
    then show ?thesis
      using assms Some data' ext lists_files_events(2) by (auto simp: play_audio_def split: option.splits)
  next
    case False
    then obtain e content where "ext = Some e" "Option.bind audio (valuestring C) = Some content" by auto
    then show ?thesis
      using assms Some data' ext by (auto simp: play_audio_def lists_files_def Let_def bind_eq_Some_conv)
  qed
qed

lemma if_Some_cases: "(if b then x else y) = Some z \<Longrightarrow> (b \<Longrightarrow> x = Some z \<Longrightarrow> P) \<Longrightarrow> (\<not> b \<Longrightarrow> y = Some z \<Longrightarrow> P) \<Longrightarrow> P"
  by (auto split: if_splits)

lemma message_lists:
  assumes "processIncomingMessage C temp_dir u d m w = Some w'"
  shows "lists_files d w w'"
proof (cases "parse_json C m")
  case None
  then show ?thesis using assms by (simp add: processIncomingMessage_def lists_files_events)
next
  case (Some r)
  obtain j ty where r: "r = (j, ty)" by (cases r)
  show ?thesis
    using assms unfolding processIncomingMessage_def Some r option.case prod.case Let_def
    by (elim if_Some_cases) (auto intro: play_audio_lists lists_files_events)
qed

lemma deliver_safe:
  assumes "glue_inv w" and "bug_data (pipes.more w) u = Some d" and "\<forall>m\<in>set ms. message_ok C m"
  shows "\<exists>w'. deliver C temp_dir u ms w = Some w' \<and> glue_inv w' \<and> bug_data (pipes.more w') u = Some d \<and>
    sessions (pipes.more w') = sessions (pipes.more w) \<and> lists_files d w w'"
  using assms
proof (induction ms arbitrary: w)
  case Nil
  then show ?case by (simp add: lists_files_events)
next
  case (Cons m ms)
  obtain t where t: "private_at (pipes.more w) d = Some t" "sessionId t \<noteq> None"
    using Cons.prems(1,2) unfolding glue_inv_def glue_ok_def by blast
  obtain w1 where w1: "processIncomingMessage C temp_dir u d m w = Some w1" "quiet w w1"
    using message_quiet [OF t] Cons.prems(3) by (metis list.set_intros(1))
  have ev: "eventCallback C temp_dir u MESSAGE (Some m) w = Some w1"
    using Cons.prems(2) t(1) w1(1) by (simp add: eventCallback_def)
  have mild: "glue_mild (pipes.more w) (pipes.more w1)" using w1(2) by (simp add: quiet_def)
  have inv1: "glue_inv w1" using glue_inv_steady [OF Cons.prems(1) quiet_steady [OF w1(2)] mild] .
  have b1: "bug_data (pipes.more w1) u = Some d" "sessions (pipes.more w1) = sessions (pipes.more w)"
    using glue_mildD(1) [OF mild] Cons.prems(2) mild by (simp_all add: glue_mild_def)
  obtain w' where "deliver C temp_dir u ms w1 = Some w'" "glue_inv w'" "bug_data (pipes.more w') u = Some d"
    "sessions (pipes.more w') = sessions (pipes.more w1)" "lists_files d w1 w'"
    using Cons.IH [OF inv1 b1(1)] Cons.prems(3) by auto
  then show ?case using ev b1(2) lists_files_trans [OF message_lists [OF w1(1)]] by auto
qed

lemma calls_keep:
  "buffer_for_sending a m w = Some w' \<Longrightarrow> pipes.more w' = pipes.more w"
  "pipe_close a w = Some w' \<Longrightarrow> pipes.more w' = pipes.more w"
  by (auto simp: buffer_for_sending_def add_pending_write_def pipe_close_def add_pending_disconnect_def cancel_service_of_def
    bind_eq_Some_conv Let_def split: if_splits)

lemma cleanup_calls:
  assumes "fork_session_cleanup u msg closing w = Some (st, w')" and "bug_data (pipes.more w) u = Some d"
    and "private_at (pipes.more w) d = Some t"
  shows "glue_calls (pipes.more w') =
    glue_calls (pipes.more w) @ (if closing then [] else [Media_bug_remove u]) @ map Remove_file (playout t)"
proof -
  let ?w1 = "remove_files (playout t) (if closing then set_bug u None w else glue_does (Media_bug_remove u) (set_bug u None w))"
  have "sessions (pipes.more w) u = Some (Some (Some d))" using assms(2) by (auto simp: bug_data_def bind_eq_Some_conv)
  then obtain w2 w3 where w: "(case (pAudioPipe t, msg) of (Some a, Some m) \<Rightarrow> buffer_for_sending a m ?w1 | _ \<Rightarrow> Some ?w1) = Some w2"
    "(case pAudioPipe t of Some a \<Rightarrow> pipe_close a w2 | None \<Rightarrow> Some w2) = Some w3" "destroy_tech_pvt d w3 = Some w'"
    using assms(1,3) by (auto simp: fork_session_cleanup_def bind_eq_Some_conv Let_def split: if_splits)
  have "pipes.more w2 = pipes.more ?w1" using w(1) calls_keep(1) by (auto split: option.splits)
  moreover have "pipes.more w3 = pipes.more w2" using w(2) calls_keep(2) by (auto split: option.splits)
  moreover have "glue_calls (pipes.more w') = glue_calls (pipes.more w3)"
    using w(3) by (auto simp: destroy_tech_pvt_def bind_eq_Some_conv)
  ultimately show ?thesis by simp
qed


definition char_of_byte :: "byte \<Rightarrow> char" where
  "char_of_byte b = char_of (unat b)"

lemma byte_char_byte: "map byte_of_char (map char_of_byte bs) = bs"
proof -
  have "byte_of_char (char_of_byte b) = b" for b
  proof -
    have "unat b < 2 ^ LENGTH(8)" by (rule unsigned_less)
    then have "unat b mod 256 = unat b" by simp
    then show ?thesis by (simp add: byte_of_char_def char_of_byte_def)
  qed
  then show ?thesis by (simp add: comp_def)
qed

text \<open>
  C26. Audio arrives as it was sent: a playAudio message that carries the base64 text of some bytes and
  a supported type makes the module write a file with exactly these bytes, and then announce it.
\<close>

theorem fork_audio_arrives:
  assumes "parse_json C m = Some (j, ''playAudio'')" and "cJSON_GetObjectItem C j ''data'' = Some data"
    and "cJSON_DetachItem C data ''audioContent'' = (Some audio, data')" and "file_type C data' = Some (Some e)"
    and "valuestring C audio = Some (map char_of_byte (base64_encode bytes))"
    and "private_at (pipes.more w) d = Some t" and "sessionId t = Some sid"
  shows "\<exists>w' path. processIncomingMessage C temp_dir u d m w = Some w' \<and> glue_calls (pipes.more w') = glue_calls (pipes.more w) @
    [Write_file path bytes, Fork_event u EVENT_PLAY_AUDIO (cJSON_Print C (Some (cJSON_AddString C data' ''file'' path)))]"
proof -
  have "base64_decode (map byte_of_char (map char_of_byte (base64_encode bytes))) = bytes"
    unfolding byte_char_byte by (rule base64_decode_encode)
  then show ?thesis using assms by (simp add: processIncomingMessage_def play_audio_def Let_def del: map_map)
qed

text \<open>A server that answers every line with a playAudio message of that content.\<close>

datatype json_node = JText string | JItems "(string \<times> json_node) list"

definition items :: "json_node \<Rightarrow> (string \<times> json_node) list" where
  "items j = (case j of JItems xs \<Rightarrow> xs | JText _ \<Rightarrow> [])"

definition node_text :: "json_node \<Rightarrow> string option" where
  "node_text j = (case j of JText s \<Rightarrow> Some s | JItems _ \<Rightarrow> None)"

definition sample_json :: "json_node cjson" where
  "sample_json = \<lparr> cJSON_Parse = \<lambda>m. Some (JItems [(''type'', JText ''playAudio''),
       (''data'', JItems [(''audioContentType'', JText ''wav''), (''audioContent'', JText m)])]),
     cJSON_GetObjectItem = \<lambda>j k. map_of (items j) k,
     cJSON_DetachItem = \<lambda>j k. (map_of (items j) k, JItems (filter (\<lambda>(k', _). k' \<noteq> k) (items j))),
     cJSON_GetObjectCstr = \<lambda>j k. Option.bind (map_of (items j) k) node_text,
     cJSON_AddString = \<lambda>j k v. JItems (items j @ [(k, JText v)]), cJSON_Print = \<lambda>_. Some ''{}'',
     valuestring = node_text, valueint = \<lambda>_. 0 \<rparr>"

definition sample_private :: private_data where
  "sample_private = \<lparr> fd_mutex = True, sessionId = Some ''u'', resampler = False, pAudioPipe = None, fd_host = Some ''h'',
     fd_port = 443, fd_path = Some ''/'', sampling = 8000, playout = [], channels = 1, fd_id = 0,
     buffer_overrun_notified = False, audio_paused = False, graceful_shutdown = False, initialMetadata = Some [] \<rparr>"

definition sample_world :: world where
  "sample_world = \<lparr> pipe_at = Map.empty, user_data = Map.empty, pending_connects = [], pending_disconnects = [],
     pending_writes = [], lws_calls = [],
     \<dots> = \<lparr> sessions = [''u'' \<mapsto> Some (Some 1)], private_at = [1 \<mapsto> sample_private], idxCallCount = 1, playCount = 0, glue_calls = [] \<rparr> \<rparr>"

lemma sample_world_inv: "glue_inv sample_world"
  by (auto simp: glue_inv_def sample_world_def pipes_inv_def uses_valid_def glue_ok_def glue_uses_def bug_data_def
    sample_private_def split: if_splits)


definition audio_data :: json_node where
  "audio_data = JItems [(''audioContentType'', JText ''wav''), (''audioContent'', JText (map char_of_byte (base64_encode [97, 98])))]"

lemma fork_audio_arrives_witness:
  "\<exists>w' path. processIncomingMessage sample_json ''/t'' ''u'' 1 (map char_of_byte (base64_encode [97, 98])) sample_world = Some w' \<and>
    glue_calls (pipes.more w') = glue_calls (pipes.more sample_world) @
    [Write_file path [97, 98], Fork_event ''u'' EVENT_PLAY_AUDIO (cJSON_Print sample_json (Some (cJSON_AddString sample_json
      (JItems [(''audioContentType'', JText ''wav'')]) ''file'' path)))]"
  by (rule fork_audio_arrives [where j = "JItems [(''type'', JText ''playAudio''), (''data'', audio_data)]" and data = audio_data
      and audio = "JText (map char_of_byte (base64_encode [97, 98]))" and t = sample_private])
    (simp_all add: audio_data_def parse_json_def sample_json_def node_text_def items_def sample_world_def sample_private_def file_type_def)

end
