(* ===== verification/RecognizeConfig.thy ===== *)
theory RecognizeConfig
  imports Transcribe Dbl
begin

text \<open>
  The constructor of \<open>GStreamer\<close> in \<open>mod_google_transcribe/google_glue.cpp\<close>: the first request to the
  recognizer, built from the options of the command and the variables of the channel. The messages
  are generated from the protocol of Google's speech service; an unset field has the default of
  proto3. The channel, \<open>switch_true\<close>, \<open>switch_separate_string\<close>, \<open>atof\<close> and cJSON are the parameter
  \<open>recognizer_env\<close>.
\<close>

section \<open>Messages\<close>

datatype interaction_type =
    DISCUSSION | PRESENTATION | PHONE_CALL | VOICEMAIL | PROFESSIONALLY_PRODUCED | VOICE_SEARCH | VOICE_COMMAND | DICTATION

datatype microphone_distance = NEARFIELD | MIDFIELD | FARFIELD

datatype media_type = AUDIO | VIDEO

datatype device_type = SMARTPHONE | PC | PHONE_LINE | VEHICLE | OTHER_OUTDOOR_DEVICE | OTHER_INDOOR_DEVICE

record phrase =
  phrase_value :: string
  phrase_boost :: "dbl option"

record phrase_set =
  phrases :: "phrase list"
  set_boost :: "dbl option"

record diarization =
  min_speaker_count :: "int option"
  max_speaker_count :: "int option"

record metadata =
  interaction_type :: "interaction_type option"
  naics_code :: "int option"
  microphone_distance :: "microphone_distance option"
  original_media_type :: "media_type option"
  recording_device_type :: "device_type option"

record streaming_config =
  cfg_interim_results :: bool
  cfg_single_utterance :: bool
  language_code :: string
  sample_rate_hertz :: int
  audio_channel_count :: int
  separate_per_channel :: bool
  cfg_max_alternatives :: int
  cfg_profanity_filter :: bool
  cfg_word_time_offsets :: bool
  cfg_automatic_punctuation :: bool
  cfg_model :: string
  cfg_use_enhanced :: bool
  adaptation :: "phrase_set list"
  speech_contexts :: nat                \<comment> \<open>contexts without phrases\<close>
  alternative_languages :: "string list"
  cfg_diarization :: "diarization option"
  cfg_metadata :: metadata

text \<open>
  An item of a JSON array of hints: its entry \<open>phrase\<close>, if there is one, is a string or something
  else, and its entry \<open>boost\<close> has a number.
\<close>

record json_hint =
  hint_phrase :: "string option option"
  hint_boost :: "dbl option"

record recognizer_env =
  chan_var :: "string \<Rightarrow> string option"
  is_true :: "string option \<Rightarrow> bool"
  to_float :: "string \<Rightarrow> dbl"                              \<comment> \<open>\<open>(float) atof\<close>\<close>
  split_text :: "string \<Rightarrow> char \<Rightarrow> nat \<Rightarrow> string list"
  json_hints :: "string \<Rightarrow> json_hint list option"          \<comment> \<open>cJSON_Parse, and the items\<close>

section \<open>The request\<close>

definition case_insensitive_match :: "string \<Rightarrow> string \<Rightarrow> bool" where
  "case_insensitive_match s1 s2 \<longleftrightarrow> map c_tolower s1 = map c_tolower s2"

text \<open>A row of \<open>if\<close>s, each of which sets the field when its name matches.\<close>

definition set_matching :: "(string \<times> 'e) list \<Rightarrow> string \<Rightarrow> 'e option" where
  "set_matching table v = foldl (\<lambda>f (n, e). if case_insensitive_match n v then Some e else f) None table"

definition interaction_types :: "(string \<times> interaction_type) list" where
  "interaction_types = [(''discussion'', DISCUSSION), (''presentation'', PRESENTATION), (''phone_call'', PHONE_CALL),
     (''voicemail'', VOICEMAIL), (''professionally_produced'', PROFESSIONALLY_PRODUCED), (''voice_search'', VOICE_SEARCH),
     (''voice_command'', VOICE_COMMAND), (''dictation'', DICTATION)]"

definition microphone_distances :: "(string \<times> microphone_distance) list" where
  "microphone_distances = [(''nearfield'', NEARFIELD), (''midfield'', MIDFIELD), (''farfield'', FARFIELD)]"

definition media_types :: "(string \<times> media_type) list" where
  "media_types = [(''audio'', AUDIO), (''video'', VIDEO)]"

definition device_types :: "(string \<times> device_type) list" where
  "device_types = [(''smartphone'', SMARTPHONE), (''pc'', PC), (''phone_line'', PHONE_LINE), (''vehicle'', VEHICLE),
     (''other_outdoor_device'', OTHER_OUTDOOR_DEVICE), (''other_indoor_device'', OTHER_INDOOR_DEVICE)]"

definition request_metadata :: "recognizer_env \<Rightarrow> metadata" where
  "request_metadata V =
     \<lparr> interaction_type = Option.bind (chan_var V ''GOOGLE_SPEECH_METADATA_INTERACTION_TYPE'') (set_matching interaction_types),
       naics_code = map_option atoi (chan_var V ''GOOGLE_SPEECH_METADATA_INDUSTRY_NAICS_CODE''),
       microphone_distance = Option.bind (chan_var V ''GOOGLE_SPEECH_METADATA_MICROPHONE_DISTANCE'') (set_matching microphone_distances),
       original_media_type = Option.bind (chan_var V ''GOOGLE_SPEECH_METADATA_ORIGINAL_MEDIA_TYPE'') (set_matching media_types),
       recording_device_type = Option.bind (chan_var V ''GOOGLE_SPEECH_METADATA_RECORDING_DEVICE_TYPE'') (set_matching device_types) \<rparr>"

definition request_diarization :: "recognizer_env \<Rightarrow> diarization option" where
  "request_diarization V = (case chan_var V ''GOOGLE_SPEECH_SPEAKER_DIARIZATION'' of
     None \<Rightarrow> None
   | Some _ \<Rightarrow> Some
       \<lparr> min_speaker_count = map_option (\<lambda>v. max (atoi v) 1) (chan_var V ''GOOGLE_SPEECH_SPEAKER_DIARIZATION_MIN_SPEAKER_COUNT''),
         max_speaker_count = map_option (\<lambda>v. max (atoi v) 2) (chan_var V ''GOOGLE_SPEECH_SPEAKER_DIARIZATION_MAX_SPEAKER_COUNT'') \<rparr>)"

text \<open>
  A phrase is added for every item before the item is looked at. A phrase that is no string is
  passed on as NULL.
\<close>

definition json_phrase :: "json_hint \<Rightarrow> phrase option" where
  "json_phrase i = (case hint_phrase i of
     None \<Rightarrow> Some \<lparr> phrase_value = [], phrase_boost = None \<rparr>
   | Some s \<Rightarrow> do { v \<leftarrow> deref s; Some \<lparr> phrase_value = v, phrase_boost = hint_boost i \<rparr> })"

fun json_phrases :: "json_hint list \<Rightarrow> phrase list option" where
  "json_phrases [] = Some []"
| "json_phrases (i # is) = do { p \<leftarrow> json_phrase i; ps \<leftarrow> json_phrases is; Some (p # ps) }"

definition request_hints :: "recognizer_env \<Rightarrow> string \<Rightarrow> phrase_set option" where
  "request_hints V txt = do {
     boost \<leftarrow> (let v = chan_var V ''GOOGLE_SPEECH_HINTS_BOOST''
       in if is_true V v then map_option (\<lambda>v. Some (to_float V v)) (deref v) else Some None);
     ps \<leftarrow> (case json_hints V txt of
       Some items \<Rightarrow> json_phrases items
     | None \<Rightarrow> Some (map (\<lambda>s. \<lparr> phrase_value = s, phrase_boost = None \<rparr>) (split_text V txt CHR '','' 500)));
     Some \<lparr> phrases = ps, set_boost = boost \<rparr>
   }"

definition request_config :: "recognizer_env \<Rightarrow> int \<Rightarrow> speech_options \<Rightarrow> streaming_config option" where
  "request_config V channels opts = do {
     lng \<leftarrow> deref (lang opts);
     hs \<leftarrow> (case hints opts of None \<Rightarrow> Some [] | Some txt \<Rightarrow> map_option (\<lambda>s. [s]) (request_hints V txt));
     Some \<lparr> cfg_interim_results = interim opts,
       cfg_single_utterance = single_utterance opts,
       language_code = lng,
       sample_rate_hertz = 8000,
       audio_channel_count = (if channels > 1 then channels else 0),
       separate_per_channel = (channels > 1 \<and> separate_recognition opts),
       cfg_max_alternatives = (if max_alternatives opts > 1 then max_alternatives opts else 0),
       cfg_profanity_filter = profanity_filter opts,
       cfg_word_time_offsets = word_time_offset opts,
       cfg_automatic_punctuation = punctuation opts,
       cfg_model = (case model opts of Some m \<Rightarrow> m | None \<Rightarrow> []),
       cfg_use_enhanced = enhanced opts,
       adaptation = hs,
       speech_contexts = length hs,
       alternative_languages = (case chan_var V ''GOOGLE_SPEECH_ALTERNATIVE_LANGUAGE_CODES'' of
         Some v \<Rightarrow> split_text V v CHR '','' 3 | None \<Rightarrow> []),
       cfg_diarization = request_diarization V,
       cfg_metadata = request_metadata V \<rparr>
   }"

section \<open>Properties of the request\<close>

text \<open>A row of \<open>if\<close>s over lower-case names that differ is a lookup of the lower-case text.\<close>

lemma set_matching_lookup:
  assumes "distinct (map fst table)" and "\<forall>n\<in>fst ` set table. map c_tolower n = n"
  shows "set_matching table v = map_of table (map c_tolower v)"
proof -
  have "foldl (\<lambda>f (n, e). if case_insensitive_match n v then Some e else f) a table =
      (case map_of table (map c_tolower v) of Some e \<Rightarrow> Some e | None \<Rightarrow> a)" for a
    using assms
  proof (induction table arbitrary: a)
    case (Cons x xs)
    obtain n e where x: "x = (n, e)" by (cases x)
    have "map c_tolower n = n" using Cons.prems(2) x by simp
    moreover have "map_of xs n = None" using Cons.prems(1) x by (simp add: map_of_eq_None_iff)
    ultimately show ?case
      using Cons by (auto simp: x case_insensitive_match_def split: option.split)
  qed simp
  then show ?thesis by (simp add: set_matching_def split: option.split)
qed


lemma json_phrases_length: "json_phrases is = Some ps \<Longrightarrow> length ps = length is"
  by (induction "is" arbitrary: ps) (auto simp: bind_eq_Some_conv)

lemma json_phrases_defined: "json_phrases is \<noteq> None \<longleftrightarrow> (\<forall>i\<in>set is. hint_phrase i \<noteq> Some None)"
proof (induction "is")
  case (Cons i "is")
  then show ?case
    by (cases "json_phrase i") (auto simp: json_phrase_def deref_def bind_eq_None_conv bind_eq_Some_conv split: option.splits)
qed simp

text \<open>
  When the request can be built: exactly when the command has a language, no boost is asked for
  without a value, and no item of a JSON array of hints has a phrase that is not a string. Then the
  speaker counts are at least one and two, more than one channel is announced only with several
  channels, and a JSON array gives as many phrases as it has items.
\<close>

theorem recognizer_request:
  "(request_config V channels opts \<noteq> None \<longleftrightarrow> lang opts \<noteq> None \<and>
     (\<forall>h. hints opts = Some h \<longrightarrow>
        (is_true V (chan_var V ''GOOGLE_SPEECH_HINTS_BOOST'') \<longrightarrow> chan_var V ''GOOGLE_SPEECH_HINTS_BOOST'' \<noteq> None) \<and>
        (\<forall>items. json_hints V h = Some items \<longrightarrow> (\<forall>i\<in>set items. hint_phrase i \<noteq> Some None)))) \<and>
   (\<forall>c. request_config V channels opts = Some c \<longrightarrow>
     Some (language_code c) = lang opts \<and> sample_rate_hertz c = 8000 \<and>
     (audio_channel_count c = 0 \<and> \<not> separate_per_channel c \<or> audio_channel_count c = channels \<and> 1 < channels) \<and>
     (\<forall>d n. cfg_diarization c = Some d \<longrightarrow> (min_speaker_count d = Some n \<longrightarrow> 1 \<le> n) \<and> (max_speaker_count d = Some n \<longrightarrow> 2 \<le> n)) \<and>
     (\<forall>h items. hints opts = Some h \<longrightarrow> json_hints V h = Some items \<longrightarrow>
        (\<exists>s. adaptation c = [s] \<and> length (phrases s) = length items)))"
proof (intro conjI allI impI)
  have "request_hints V h \<noteq> None \<longleftrightarrow>
      (is_true V (chan_var V ''GOOGLE_SPEECH_HINTS_BOOST'') \<longrightarrow> chan_var V ''GOOGLE_SPEECH_HINTS_BOOST'' \<noteq> None) \<and>
      (\<forall>items. json_hints V h = Some items \<longrightarrow> (\<forall>i\<in>set items. hint_phrase i \<noteq> Some None))" for h
    using json_phrases_defined by (auto simp: request_hints_def deref_def Let_def bind_eq_None_conv split: option.splits)
  moreover have "request_config V channels opts \<noteq> None \<longleftrightarrow> lang opts \<noteq> None \<and> (\<forall>h. hints opts = Some h \<longrightarrow> request_hints V h \<noteq> None)"
    by (cases "lang opts"; cases "hints opts"; cases "request_hints V (the (hints opts))") (simp_all add: request_config_def)
  ultimately show "request_config V channels opts \<noteq> None \<longleftrightarrow> lang opts \<noteq> None \<and>
     (\<forall>h. hints opts = Some h \<longrightarrow>
        (is_true V (chan_var V ''GOOGLE_SPEECH_HINTS_BOOST'') \<longrightarrow> chan_var V ''GOOGLE_SPEECH_HINTS_BOOST'' \<noteq> None) \<and>
        (\<forall>items. json_hints V h = Some items \<longrightarrow> (\<forall>i\<in>set items. hint_phrase i \<noteq> Some None)))"
    by (simp del: not_None_eq)
next
  fix c
  assume c: "request_config V channels opts = Some c"
  then show "Some (language_code c) = lang opts" "sample_rate_hertz c = 8000"
    "audio_channel_count c = 0 \<and> \<not> separate_per_channel c \<or> audio_channel_count c = channels \<and> 1 < channels"
    by (auto simp: request_config_def bind_eq_Some_conv deref_def)
  have "cfg_diarization c = request_diarization V" using c by (auto simp: request_config_def bind_eq_Some_conv)
  then show "1 \<le> n" if "cfg_diarization c = Some d" "min_speaker_count d = Some n" for d n
    using that by (auto simp: request_diarization_def split: option.splits)
  show "2 \<le> n" if "cfg_diarization c = Some d" "max_speaker_count d = Some n" for d n
    using that \<open>cfg_diarization c = request_diarization V\<close> by (auto simp: request_diarization_def split: option.splits)
  show "\<exists>s. adaptation c = [s] \<and> length (phrases s) = length items"
    if "hints opts = Some h" "json_hints V h = Some items" for h items
    using c that json_phrases_length by (auto simp: request_config_def request_hints_def Let_def bind_eq_Some_conv)
qed

definition sample_recognizer :: recognizer_env where
  "sample_recognizer = \<lparr> chan_var = map_of [(''GOOGLE_SPEECH_SPEAKER_DIARIZATION'', ''true''),
       (''GOOGLE_SPEECH_SPEAKER_DIARIZATION_MIN_SPEAKER_COUNT'', ''0'')],
     is_true = (\<lambda>v. v = Some ''true''), to_float = (\<lambda>_. Fin 1), split_text = (\<lambda>s _ _. [s]),
     json_hints = (\<lambda>_. Some [\<lparr> hint_phrase = Some (Some ''yes''), hint_boost = None \<rparr>]) \<rparr>"

definition sample_options :: speech_options where
  "sample_options = \<lparr> lang = Some ''en-US'', interim = True, single_utterance = False, separate_recognition = False,
     max_alternatives = 0, profanity_filter = False, word_time_offset = False, punctuation = False, model = None,
     enhanced = False, hints = Some ''[]'', play_file = None \<rparr>"

lemma recognizer_request_witness:
  "\<exists>c. request_config sample_recognizer 1 sample_options = Some c \<and> language_code c = ''en-US'' \<and> sample_rate_hertz c = 8000 \<and>
     (\<exists>s. adaptation c = [s] \<and> length (phrases s) = 1)"
proof -
  note request = recognizer_request [of sample_recognizer 1 sample_options]
  have "request_config sample_recognizer 1 sample_options \<noteq> None"
    using request by (simp add: sample_recognizer_def sample_options_def)
  then obtain c where "request_config sample_recognizer 1 sample_options = Some c" by blast
  then show ?thesis using request by (simp add: sample_recognizer_def sample_options_def)
qed

end
