(* ===== verification/SpeechResult.thy ===== *)
theory SpeechResult
  imports Dbl Prelude
begin

text \<open>
  The messages of the recognizer in \<open>grpc_read_thread\<close> of \<open>mod_google_transcribe/google_glue.cpp\<close>:
  the JSON that is built of a result and the time of its end in milliseconds. A response is a message
  of Google's speech service; its fields are read by generated accessors.
\<close>

section \<open>Messages\<close>

record word_info =
  word_text :: string
  start_time :: "int option"          \<comment> \<open>the seconds, when the field is there\<close>
  end_time :: "int option"
  speaker_tag :: int
  word_confidence :: dbl

record alternative =
  confidence :: dbl
  transcript :: string
  words :: "word_info list"

record recognition_result =
  stability :: dbl
  is_final :: bool
  res_language_code :: string
  channel_tag :: int
  end_seconds :: int                  \<comment> \<open>int64\<close>
  end_nanos :: int                    \<comment> \<open>int32\<close>
  alternatives :: "alternative list"

datatype json = JNull | JNum dbl | JText string | JBool bool | JArray "json list" | JObject "(string \<times> json) list"

section \<open>The time of the end\<close>

text \<open>Rounding to a \<open>float\<close>: 24 bits.\<close>

definition round_flt :: "rat \<Rightarrow> dbl" where
  "round_flt r =
     (if r = 0 then Fin 0
      else let e = max (exponent \<bar>r\<bar>) (-126);
               q = 2 powi (e - 23);
               v = of_int (round_even (r / q)) * q
           in if 2 ^ 128 \<le> \<bar>v\<bar> then Inf (r < 0) else Fin v)"

text \<open>\<open>(int) trunc(x)\<close>: undefined outside of \<open>int\<close>.\<close>

definition rat_trunc :: "rat \<Rightarrow> int" where
  "rat_trunc r = (if r < 0 then \<lceil>r\<rceil> else \<lfloor>r\<rfloor>)"

definition int_of_dbl :: "dbl \<Rightarrow> int option" where
  "int_of_dbl d = (case d of
     Fin r \<Rightarrow> (let i = rat_trunc r in if - (2 ^ 31) \<le> i \<and> i < 2 ^ 31 then Some i else None)
   | _ \<Rightarrow> None)"

definition end_time_ms :: "int \<Rightarrow> int \<Rightarrow> int option" where
  "end_time_ms secs nanos =
     (let seconds = to_int32 secs
      in int_of_dbl (dbl_add (dbl_mul (Fin (of_int seconds)) (Fin 1000)) (dbl_div (round_flt (of_int nanos)) (Fin 1000000))))"

section \<open>JSON\<close>

definition num :: "int \<Rightarrow> json" where "num i = JNum (round_dbl (of_int i))"

definition word_json :: "word_info \<Rightarrow> json" where
  "word_json w = JObject ([(''word'', JText (word_text w))] @
     (case start_time w of Some s \<Rightarrow> [(''start_time'', num s)] | None \<Rightarrow> []) @
     (case end_time w of Some s \<Rightarrow> [(''end_time'', num s)] | None \<Rightarrow> []) @
     (if 0 < speaker_tag w then [(''speaker_tag'', num (speaker_tag w))] else []) @
     (if dbl_less (Fin 0) (word_confidence w) then [(''confidence'', JNum (word_confidence w))] else []))"

definition alternative_json :: "alternative \<Rightarrow> json" where
  "alternative_json a = JObject ([(''confidence'', JNum (confidence a)), (''transcript'', JText (transcript a))] @
     (if words a = [] then [] else [(''words'', JArray (map word_json (words a)))]))"

definition result_json :: "recognition_result \<Rightarrow> json option" where
  "result_json r = do {
     span \<leftarrow> end_time_ms (end_seconds r) (end_nanos r);
     Some (JObject [(''stability'', JNum (stability r)), (''is_final'', JBool (is_final r)),
       (''alternatives'', JArray (map alternative_json (alternatives r))),
       (''language_code'', JText (res_language_code r)), (''channel_tag'', num (channel_tag r)),
       (''result_end_time'', num span)])
   }"

section \<open>Exact numbers\<close>

lemma bits_bounds: "0 < n \<Longrightarrow> 2 ^ (bits n - 1) \<le> n \<and> n < 2 ^ bits n \<and> 0 < bits n"
proof (induction n rule: less_induct)
  case (less n)
  show ?case
  proof (cases "n = 1")
    case True
    then show ?thesis by (simp add: bits.simps [of "Suc 0"] bits.simps [of 0])
  next
    case False
    then have "0 < n div 2" "n div 2 < n" using less.prems by auto
    then have IH: "2 ^ (bits (n div 2) - 1) \<le> n div 2 \<and> n div 2 < 2 ^ bits (n div 2) \<and> 0 < bits (n div 2)" using less.IH by blast
    then obtain b where b: "bits (n div 2) = Suc b" using gr0_conv_Suc by blast
    have "bits n = Suc (bits (n div 2))" using less.prems by (simp add: bits.simps [of n])
    then show ?thesis using IH by (auto simp: b)
  qed
qed

lemma round_even_int: "round_even (of_int i) = i"
  by (simp add: round_even_def)

lemma exponent_int:
  assumes "0 < i" and "i < 2 ^ k"
  shows "0 \<le> exponent (of_int i) \<and> exponent (of_int i) < int k"
proof -
  define b where "b = bits (nat i)"
  have b: "2 ^ (b - 1) \<le> nat i" "0 < b" using bits_bounds [of "nat i"] assms(1) by (simp_all add: b_def)
  then have "2 ^ (b - 1) \<le> i" using assms(1) by (metis nat_eq_iff2 of_nat_le_iff of_nat_numeral of_nat_power less_imp_le int_nat_eq)
  then have le: "(2::rat) ^ (b - 1) \<le> of_int i" by (metis of_int_le_iff of_int_numeral of_int_power)
  have "(2::int) ^ (b - 1) < 2 ^ k" using \<open>2 ^ (b - 1) \<le> i\<close> assms(2) by linarith
  then have "b - 1 < k" by (simp add: power_strict_increasing_iff)
  moreover have "exponent (of_int i) = int b - 1"
    using le b(2) by (simp add: exponent_def b_def [symmetric] bits.simps [of "Suc 0"] bits.simps [of 0] power_int_def nat_diff_distrib)
  ultimately show ?thesis using b(2) by linarith
qed

text \<open>Integers are exact when they have at most as many bits as the format, but for zeros at the end.\<close>

lemma exact_scale:
  assumes "i \<noteq> 0" and "i = m * 2 ^ s" and "\<bar>i\<bar> < 2 ^ (Suc n + s)" and "l \<le> 0"
  shows "of_int (round_even (of_int i / 2 powi (max (exponent \<bar>of_int i\<bar>) l - int n))) *
    2 powi (max (exponent \<bar>of_int i\<bar>) l - int n) = (of_int i :: rat)"
proof -
  define e where "e = max (exponent \<bar>of_int i\<bar>) l"
  have "0 \<le> exponent (of_int \<bar>i\<bar>)" "exponent (of_int \<bar>i\<bar>) < int (Suc n + s)"
    using exponent_int [OF _ assms(3)] assms(1) by simp_all
  then have e: "e \<le> int (n + s)" "0 \<le> e" using assms(4) by (simp_all add: e_def)
  define j where "j = nat (int (n + s) - e)"
  have j: "e - int n = int s - int j" using e by (simp add: j_def)
  have "(of_int i :: rat) / 2 powi (int s - int j) = of_int (m * 2 ^ j)"
    by (simp add: assms(2) power_int_diff)
  then have "of_int (round_even (of_int i / 2 powi (e - int n))) = (of_int (m * 2 ^ j) :: rat)"
    unfolding j using round_even_int by metis
  then show ?thesis unfolding e_def [symmetric] j by (simp add: power_int_diff assms(2))
qed

lemma of_int_less_power: "\<bar>i\<bar> < 2 ^ a \<Longrightarrow> a \<le> b \<Longrightarrow> \<bar>of_int i :: rat\<bar> < 2 ^ b"
proof -
  assume "\<bar>i\<bar> < 2 ^ a" "a \<le> b"
  then have "\<bar>i\<bar> < 2 ^ b" by (meson less_le_trans power_increasing one_le_numeral)
  then show ?thesis by (metis of_int_abs of_int_less_iff of_int_numeral of_int_power)
qed

lemma round_dbl_int:
  assumes "\<bar>i\<bar> < 2 ^ 53"
  shows "round_dbl (of_int i) = Fin (of_int i)"
proof (cases "i = 0")
  case False
  then show ?thesis
    using exact_scale [of i i 0 52 "-1022"] of_int_less_power [OF assms, of 1024] assms by (simp add: round_dbl_def Let_def)
qed (simp add: round_dbl_def)

lemma round_flt_int:
  assumes "i = m * 2 ^ s" and "\<bar>i\<bar> < 2 ^ (24 + s)" and "s \<le> 100"
  shows "round_flt (of_int i) = Fin (of_int i)"
proof (cases "i = 0")
  case False
  have "24 + s = Suc 23 + s" by simp
  then show ?thesis
    using exact_scale [OF False assms(1), of 23 "-126"] of_int_less_power [OF assms(2), of 128] assms(2,3) False
    by (simp add: round_flt_def Let_def)
qed (simp add: round_flt_def)

text \<open>
  C34. The time of a result: for a time of whole milliseconds no rounding is seen, the number in the JSON is
  the time in milliseconds; beyond the range of \<open>int\<close> the conversion is undefined.
\<close>

theorem transcribe_end_time:
  assumes "0 \<le> secs" and "secs < 2 ^ 31" and "0 \<le> k" and "k < 1000"
  shows "end_time_ms secs (k * 1000000) = (if secs * 1000 + k < 2 ^ 31 then Some (secs * 1000 + k) else None)"
proof -
  have flt: "round_flt (of_int (k * 1000000)) = Fin (of_int (k * 1000000))"
    by (rule round_flt_int [of _ "k * 15625" 6]) (use assms in simp_all)
  have "dbl_div (Fin (of_int (k * 1000000))) (Fin 1000000) = Fin (of_int k)"
    using round_dbl_int [of k] assms by simp
  moreover have "dbl_mul (Fin (of_int secs)) (Fin 1000) = Fin (of_int (secs * 1000))"
    using round_dbl_int [of "secs * 1000"] assms by simp
  moreover have "dbl_add (Fin (of_int (secs * 1000))) (Fin (of_int k)) = Fin (of_int (secs * 1000 + k))"
    using round_dbl_int [of "secs * 1000 + k"] assms by simp
  moreover have "to_int32 secs = secs" using assms by (intro to_int32_id) simp_all
  moreover have "rat_trunc (of_int (secs * 1000 + k)) = secs * 1000 + k"
    unfolding rat_trunc_def by (simp only: floor_of_int ceiling_of_int if_cancel)
  ultimately show ?thesis
    unfolding end_time_ms_def Let_def using flt assms by (simp add: int_of_dbl_def)
qed

lemma transcribe_end_time_witness: "end_time_ms 2 250000000 = Some 2250 \<and> end_time_ms 2147484 0 = None"
  using transcribe_end_time [of 2 250] transcribe_end_time [of 2147484 0] by simp

section \<open>Reading the JSON\<close>

definition jget :: "json \<Rightarrow> string \<Rightarrow> json option" where
  "jget j k = (case j of JObject xs \<Rightarrow> map_of xs k | _ \<Rightarrow> None)"

definition read_num :: "json option \<Rightarrow> dbl" where
  "read_num j = (case j of Some (JNum d) \<Rightarrow> d | _ \<Rightarrow> Fin 0)"

definition read_int :: "json option \<Rightarrow> int" where
  "read_int j = (case read_num j of Fin r \<Rightarrow> \<lfloor>r\<rfloor> | _ \<Rightarrow> 0)"

definition read_text :: "json option \<Rightarrow> string" where
  "read_text j = (case j of Some (JText s) \<Rightarrow> s | _ \<Rightarrow> [])"

definition read_array :: "json option \<Rightarrow> json list" where
  "read_array j = (case j of Some (JArray js) \<Rightarrow> js | _ \<Rightarrow> [])"

definition read_word :: "json \<Rightarrow> word_info" where
  "read_word j = \<lparr> word_text = read_text (jget j ''word''),
     start_time = map_option (\<lambda>n. read_int (Some n)) (jget j ''start_time''),
     end_time = map_option (\<lambda>n. read_int (Some n)) (jget j ''end_time''),
     speaker_tag = read_int (jget j ''speaker_tag''), word_confidence = read_num (jget j ''confidence'') \<rparr>"

definition read_alternative :: "json \<Rightarrow> alternative" where
  "read_alternative j = \<lparr> confidence = read_num (jget j ''confidence''), transcript = read_text (jget j ''transcript''),
     words = map read_word (read_array (jget j ''words'')) \<rparr>"

text \<open>What the recognizer documents of a word: times and tag are small, the confidence is not negative, zero if unset.\<close>

definition word_ok :: "word_info \<Rightarrow> bool" where
  "word_ok w \<longleftrightarrow> (\<forall>s. start_time w = Some s \<longrightarrow> \<bar>s\<bar> < 2 ^ 53) \<and> (\<forall>s. end_time w = Some s \<longrightarrow> \<bar>s\<bar> < 2 ^ 53) \<and>
     0 \<le> speaker_tag w \<and> speaker_tag w < 2 ^ 31 \<and> (word_confidence w = Fin 0 \<or> dbl_less (Fin 0) (word_confidence w))"

lemma read_int_num: "\<bar>i\<bar> < 2 ^ 53 \<Longrightarrow> read_int (Some (num i)) = i"
  by (simp add: read_int_def read_num_def num_def round_dbl_int)

lemma read_word_json:
  assumes "word_ok w"
  shows "read_word (word_json w) = w"
proof -
  have "read_text (jget (word_json w) ''word'') = word_text w"
    by (simp add: word_json_def jget_def read_text_def)
  moreover have "map_option (\<lambda>n. read_int (Some n)) (jget (word_json w) ''start_time'') = start_time w"
    using assms by (cases "start_time w"; cases "end_time w") (simp_all add: word_json_def jget_def read_int_num word_ok_def)
  moreover have "map_option (\<lambda>n. read_int (Some n)) (jget (word_json w) ''end_time'') = end_time w"
    using assms by (cases "start_time w"; cases "end_time w") (simp_all add: word_json_def jget_def read_int_num word_ok_def)
  moreover have "read_int (jget (word_json w) ''speaker_tag'') = speaker_tag w"
  proof (cases "0 < speaker_tag w")
    case True
    then have "jget (word_json w) ''speaker_tag'' = Some (num (speaker_tag w))"
      by (cases "start_time w"; cases "end_time w") (simp_all add: word_json_def jget_def)
    then show ?thesis using assms by (simp add: read_int_num word_ok_def)
  next
    case False
    then have "jget (word_json w) ''speaker_tag'' = None"
      by (cases "start_time w"; cases "end_time w") (simp_all add: word_json_def jget_def)
    then show ?thesis using assms False by (simp add: word_ok_def read_int_def read_num_def)
  qed
  moreover have "read_num (jget (word_json w) ''confidence'') = word_confidence w"
    using assms by (cases "start_time w"; cases "end_time w") (auto simp: word_json_def jget_def read_num_def word_ok_def)
  ultimately show ?thesis by (simp add: read_word_def)
qed

lemma read_alternative_json:
  assumes "\<forall>w\<in>set (words a). word_ok w"
  shows "read_alternative (alternative_json a) = a"
proof -
  have "map read_word (map word_json (words a)) = words a"
    using assms read_word_json by (simp add: map_idI)
  then show ?thesis
    by (simp add: read_alternative_def alternative_json_def jget_def read_num_def read_text_def read_array_def)
qed

text \<open>
  C35. The JSON of a result: reading it gives back the alternatives with their transcripts, confidences
  and words in the order of the recognizer, whether it is final, its language, channel and stability.
\<close>

theorem transcribe_result_roundtrip:
  assumes "result_json r = Some j" and "\<forall>a\<in>set (alternatives r). \<forall>w\<in>set (words a). word_ok w" and "\<bar>channel_tag r\<bar> < 2 ^ 31"
  shows "map read_alternative (read_array (jget j ''alternatives'')) = alternatives r \<and>
    jget j ''is_final'' = Some (JBool (is_final r)) \<and> read_text (jget j ''language_code'') = res_language_code r \<and>
    read_int (jget j ''channel_tag'') = channel_tag r \<and> read_num (jget j ''stability'') = stability r"
proof -
  obtain span where j: "j = JObject [(''stability'', JNum (stability r)), (''is_final'', JBool (is_final r)),
       (''alternatives'', JArray (map alternative_json (alternatives r))),
       (''language_code'', JText (res_language_code r)), (''channel_tag'', num (channel_tag r)),
       (''result_end_time'', num span)]"
    using assms(1) by (auto simp: result_json_def bind_eq_Some_conv)
  have "map read_alternative (map alternative_json (alternatives r)) = alternatives r"
    using assms(2) read_alternative_json by (simp add: map_idI)
  then show ?thesis
    using assms(3) by (simp add: j jget_def read_array_def read_text_def read_num_def read_int_num)
qed

definition sample_result :: recognition_result where
  "sample_result = \<lparr> stability = Fin 0, is_final = True, res_language_code = ''en-us'', channel_tag = 1, end_seconds = 0,
     end_nanos = 0, alternatives = [\<lparr> confidence = Fin (1/2), transcript = ''hello'',
       words = [\<lparr> word_text = ''hello'', start_time = Some 0, end_time = Some 1, speaker_tag = 0, word_confidence = Fin 0 \<rparr>] \<rparr>] \<rparr>"

lemma transcribe_result_roundtrip_witness:
  "\<exists>j. result_json sample_result = Some j \<and>
     map read_alternative (read_array (jget j ''alternatives'')) = alternatives sample_result"
proof -
  have span: "end_time_ms 0 0 = Some 0"
    by (simp add: end_time_ms_def round_flt_def round_dbl_def int_of_dbl_def rat_trunc_def to_int32_id)
  then obtain j where "result_json sample_result = Some j" by (auto simp: result_json_def sample_result_def)
  then show ?thesis
    using transcribe_result_roundtrip [of sample_result j] by (simp add: sample_result_def word_ok_def)
qed

end
