(* ===== verification/SimpleBuffer.thy ===== *)
theory SimpleBuffer
  imports Prelude
begin

text \<open>
  \<open>mod_google_transcribe/simple_buffer.h\<close>: the ring buffer that keeps the audio of a call until the
  recognizer is connected. It is filled first and emptied afterwards. Its memory is a list of bytes
  of which each is \<open>None\<close> until it is written; a copy that would leave the memory is undefined.
\<close>

section \<open>The class\<close>

record 'a simple_buffer =
  m_data :: "'a option list"          \<comment> \<open>the memory behind m_pData\<close>
  num_items :: nat                    \<comment> \<open>uint32_t\<close>
  chunk_size :: nat
  num_chunks :: nat
  next_write :: nat                   \<comment> \<open>m_pNextWrite - m_pData\<close>

definition simple_buffer_new :: "nat \<Rightarrow> nat \<Rightarrow> 'a simple_buffer" where
  "simple_buffer_new sz n = \<lparr> m_data = replicate (sz * n mod 2 ^ 32) None, num_items = 0, chunk_size = sz,
     num_chunks = n, next_write = 0 \<rparr>"

text \<open>\<open>memcpy(m_pNextWrite, data, datalen)\<close>.\<close>

definition copy_in :: "'a simple_buffer \<Rightarrow> 'a list \<Rightarrow> 'a simple_buffer option" where
  "copy_in b d = map_option (\<lambda>m. b\<lparr> m_data := m \<rparr>) (write_at (next_write b) d (m_data b))"

text \<open>The step of the write pointer; \<open>m_numChunks - 1\<close> is computed on 32 bits.\<close>

definition advance :: "'a simple_buffer \<Rightarrow> 'a simple_buffer" where
  "advance b =
     (let offset = next_write b div chunk_size b
      in if (num_chunks b + (2 ^ 32 - 1)) mod 2 ^ 32 \<le> offset then b\<lparr> next_write := 0 \<rparr>
         else b\<lparr> next_write := next_write b + chunk_size b \<rparr>)"

text \<open>One round of the loop of \<open>add\<close>, which copies all of the data, and the loop.\<close>

definition add_round :: "'a list \<Rightarrow> 'a simple_buffer \<Rightarrow> 'a simple_buffer option" where
  "add_round d b = do {
     b \<leftarrow> copy_in b d;
     let b = (if num_items b < num_chunks b then b\<lparr> num_items := num_items b + 1 \<rparr> else b);
     Some (advance b)
   }"

fun add_rounds :: "nat \<Rightarrow> 'a list \<Rightarrow> 'a simple_buffer \<Rightarrow> 'a simple_buffer option" where
  "add_rounds 0 d b = Some b"
| "add_rounds (Suc n) d b = do { b \<leftarrow> add_round d b; add_rounds n d b }"

definition buffer_add :: "'a simple_buffer \<Rightarrow> 'a list \<Rightarrow> 'a simple_buffer option" where
  "buffer_add b d =
     (if chunk_size b = 0 then None
      else if length d mod chunk_size b \<noteq> 0 then Some b
      else add_rounds (length d div chunk_size b) d b)"

text \<open>
  \<open>getNextChunk\<close>: the position of the chunk, or NULL. The count is decremented before it is known
  to be positive, so on an empty buffer it becomes the largest 32-bit number.
\<close>

definition next_chunk :: "'a simple_buffer \<Rightarrow> nat option \<times> 'a simple_buffer" where
  "next_chunk b =
     (if num_items b \<noteq> 0 then (Some (next_write b), advance (b\<lparr> num_items := num_items b - 1 \<rparr>))
      else (None, b\<lparr> num_items := 2 ^ 32 - 1 \<rparr>))"

text \<open>The bytes of a chunk.\<close>

definition chunk_at :: "'a simple_buffer \<Rightarrow> nat \<Rightarrow> 'a option list" where
  "chunk_at b p = take (chunk_size b) (drop p (m_data b))"

text \<open>
  The loop of \<open>connect\<close> in \<open>google_glue.cpp\<close>: take chunks until there is none. The measure of the
  recursion is the count.
\<close>

function drain :: "'a simple_buffer \<Rightarrow> 'a option list list \<times> 'a simple_buffer" where
  "drain b = (case next_chunk b of
     (None, b') \<Rightarrow> ([], b')
   | (Some p, b') \<Rightarrow> (let (cs, b'') = drain b' in (chunk_at b p # cs, b'')))"
  by pat_completeness auto
termination
  by (relation "measure num_items") (auto simp: next_chunk_def advance_def Let_def split: if_splits)

declare drain.simps [simp del]

section \<open>Slots\<close>

definition buffer_ok :: "'a simple_buffer \<Rightarrow> bool" where
  "buffer_ok b \<longleftrightarrow> 0 < chunk_size b \<and> 0 < num_chunks b \<and> num_chunks b < 2 ^ 32 \<and>
     length (m_data b) = chunk_size b * num_chunks b \<and> num_items b \<le> num_chunks b \<and>
     (\<exists>i<num_chunks b. next_write b = chunk_size b * i)"

definition slot :: "'a simple_buffer \<Rightarrow> nat \<Rightarrow> 'a option list" where
  "slot b i = chunk_at b (chunk_size b * i)"

definition at_slot :: "'a simple_buffer \<Rightarrow> nat" where
  "at_slot b = next_write b div chunk_size b"

lemma buffer_okD:
  assumes "buffer_ok b"
  shows "0 < chunk_size b" "0 < num_chunks b" "length (m_data b) = chunk_size b * num_chunks b"
    "at_slot b < num_chunks b" "next_write b = chunk_size b * at_slot b"
  using assms by (auto simp: buffer_ok_def at_slot_def)

lemma advance_ok:
  assumes "buffer_ok b"
  shows "buffer_ok (advance b) \<and> at_slot (advance b) = Suc (at_slot b) mod num_chunks b \<and>
    m_data (advance b) = m_data b \<and> chunk_size (advance b) = chunk_size b \<and>
    num_chunks (advance b) = num_chunks b \<and> num_items (advance b) = num_items b"
proof -
  note ok = buffer_okD [OF assms]
  obtain m where m: "num_chunks b = Suc m" using ok(2) gr0_conv_Suc by blast
  have "Suc m + (2 ^ 32 - 1) = m + 2 ^ 32" by simp
  moreover have "m < 2 ^ 32" using assms m by (simp add: buffer_ok_def)
  ultimately have last: "(num_chunks b + (2 ^ 32 - 1)) mod 2 ^ 32 = num_chunks b - 1"
    unfolding m by (metis diff_Suc_1 mod_add_self2 mod_less)
  show ?thesis
  proof (cases "at_slot b = num_chunks b - 1")
    case True
    then have "advance b = b\<lparr> next_write := 0 \<rparr>"
      using last by (simp add: advance_def at_slot_def)
    then show ?thesis using assms True ok(2) by (auto simp: buffer_ok_def at_slot_def)
  next
    case False
    then have lt: "Suc (at_slot b) < num_chunks b" using ok(4) by simp
    then have "advance b = b\<lparr> next_write := next_write b + chunk_size b \<rparr>"
      unfolding advance_def Let_def last at_slot_def by simp
    moreover have "next_write b + chunk_size b = chunk_size b * Suc (at_slot b)" using ok(5) by simp
    ultimately show ?thesis
      using assms lt ok(1) by (auto simp: buffer_ok_def at_slot_def)
  qed
qed

lemma copy_in_slots:
  assumes "buffer_ok b" and "length d = chunk_size b"
  shows "\<exists>b'. copy_in b d = Some b' \<and> b' = b\<lparr> m_data := m_data b' \<rparr> \<and> length (m_data b') = length (m_data b) \<and>
    (\<forall>i<num_chunks b. slot b' i = (if i = at_slot b then map Some d else slot b i))"
proof -
  note ok = buffer_okD [OF assms(1)]
  have fits: "next_write b + length d \<le> length (m_data b)"
    using ok assms(2) by (metis Suc_leI mult_Suc_right add.commute mult_le_mono2)
  let ?m = "take (next_write b) (m_data b) @ map Some d @ drop (next_write b + length d) (m_data b)"
  have "slot (b\<lparr> m_data := ?m \<rparr>) i = (if i = at_slot b then map Some d else slot b i)" if i: "i < num_chunks b" for i
  proof -
    let ?c = "chunk_size b"
    consider "i < at_slot b" | "i = at_slot b" | "at_slot b < i" by linarith
    then show ?thesis
    proof cases
      case 1
      then have "?c * i + ?c \<le> next_write b"
        using ok(5) by (metis Suc_leI mult_Suc_right add.commute mult_le_mono2)
      then show ?thesis
        using 1 fits by (simp add: slot_def chunk_at_def take_drop min_def)
    next
      case 2
      then show ?thesis
        using fits ok assms(2) by (simp add: slot_def chunk_at_def)
    next
      case 3
      then have le: "next_write b + ?c \<le> ?c * i"
        using ok(5) by (metis Suc_leI mult_Suc_right add.commute mult_le_mono2)
      then show ?thesis
        using 3 fits assms(2) by (simp add: slot_def chunk_at_def)
    qed
  qed
  then show ?thesis using fits by (simp add: copy_in_def write_at_def)
qed

section \<open>Adding single chunks\<close>

lemma add_chunk:
  assumes "buffer_ok b" and "length d = chunk_size b"
  shows "\<exists>b'. buffer_add b d = Some b' \<and> buffer_ok b' \<and> chunk_size b' = chunk_size b \<and> num_chunks b' = num_chunks b \<and>
    at_slot b' = Suc (at_slot b) mod num_chunks b \<and> num_items b' = min (num_items b + 1) (num_chunks b) \<and>
    (\<forall>i<num_chunks b. slot b' i = (if i = at_slot b then map Some d else slot b i))"
proof -
  obtain b1 where b1: "copy_in b d = Some b1" "b1 = b\<lparr> m_data := m_data b1 \<rparr>" "length (m_data b1) = length (m_data b)"
    "\<forall>i<num_chunks b. slot b1 i = (if i = at_slot b then map Some d else slot b i)"
    using copy_in_slots [OF assms] by blast
  define b2 where "b2 = (if num_items b1 < num_chunks b1 then b1\<lparr> num_items := num_items b1 + 1 \<rparr> else b1)"
  have eq: "chunk_size b1 = chunk_size b" "num_chunks b1 = num_chunks b" "num_items b1 = num_items b" "next_write b1 = next_write b"
    by (subst b1(2); simp)+
  have ok2: "buffer_ok b2" using assms(1) eq b1(3) by (auto simp: b2_def buffer_ok_def)
  have run: "buffer_add b d = Some (advance b2)"
    using assms buffer_okD(1) [OF assms(1)] by (simp add: buffer_add_def add_round_def b1(1) b2_def)
  have "slot (advance b2) i = slot b1 i" for i
    using advance_ok [OF ok2] by (simp add: slot_def chunk_at_def b2_def)
  then show ?thesis
    using advance_ok [OF ok2] b1(4) eq assms(1) run
    by (auto simp: b2_def at_slot_def buffer_ok_def)
qed

fun buffer_adds :: "'a simple_buffer \<Rightarrow> 'a list list \<Rightarrow> 'a simple_buffer option" where
  "buffer_adds b [] = Some b"
| "buffer_adds b (d # ds) = do { b \<leftarrow> buffer_add b d; buffer_adds b ds }"

lemma buffer_adds_snoc: "buffer_adds b (ds @ [d]) = do { b \<leftarrow> buffer_adds b ds; buffer_add b d }"
  by (induction ds arbitrary: b) (simp_all add: bind_assoc split: option.split)

lemma new_ok:
  assumes "0 < sz" and "0 < n" and "sz * n < 2 ^ 32"
  shows "buffer_ok (simple_buffer_new sz n)"
proof -
  have "n < 2 ^ 32" using assms(1,3) by (metis One_nat_def Suc_leI le_less_trans mult_le_mono1 nat_mult_1)
  then show ?thesis using assms by (simp add: buffer_ok_def simple_buffer_new_def)
qed

lemma mod_apart: "j < k \<Longrightarrow> k < j + n \<Longrightarrow> j mod n \<noteq> k mod (n :: nat)"
  by (metis add_diff_inverse_nat less_diff_conv2 less_imp_le_nat mod_eq_dvd_iff_nat nat_dvd_not_less not_less_iff_gr_or_eq zero_less_diff add.commute)

text \<open>What a fresh buffer holds after single chunks.\<close>

definition filled :: "nat \<Rightarrow> nat \<Rightarrow> 'a list list \<Rightarrow> 'a simple_buffer \<Rightarrow> bool" where
  "filled sz n ds b \<longleftrightarrow> buffer_ok b \<and> chunk_size b = sz \<and> num_chunks b = n \<and>
     at_slot b = length ds mod n \<and> num_items b = min (length ds) n \<and>
     (\<forall>j<length ds. length ds \<le> j + n \<longrightarrow> slot b (j mod n) = map Some (ds ! j)) \<and>
     (\<forall>i<n. length ds \<le> i \<longrightarrow> slot b i = replicate sz None)"

lemma filled_new:
  assumes "0 < sz" and "0 < n" and "sz * n < 2 ^ 32"
  shows "filled sz n [] (simple_buffer_new sz n :: 'a simple_buffer)"
proof -
  have "slot (simple_buffer_new sz n :: 'a simple_buffer) i = replicate sz None" if "i < n" for i
  proof -
    have "sz \<le> sz * n - sz * i" using that by (metis Suc_leI diff_mult_distrib2 le_diff_conv2 mult_le_mono2 nat_mult_1_right plus_1_eq_Suc less_imp_le_nat add.commute)
    then show ?thesis using assms(3) by (simp add: slot_def chunk_at_def simple_buffer_new_def min_def)
  qed
  then show ?thesis
    using new_ok [OF assms] by (simp add: filled_def simple_buffer_new_def at_slot_def)
qed

lemma filled_adds:
  assumes "0 < sz" and "0 < n" and "sz * n < 2 ^ 32" and "\<forall>d\<in>set ds. length d = sz"
  shows "\<exists>b. buffer_adds (simple_buffer_new sz n) ds = Some b \<and> filled sz n ds b"
  using assms(4)
proof (induction ds rule: rev_induct)
  case Nil
  then show ?case using filled_new [OF assms(1-3)] by simp
next
  case (snoc d ds)
  then obtain b where b: "buffer_adds (simple_buffer_new sz n) ds = Some b" "filled sz n ds b" by auto
  then obtain b' where b': "buffer_add b d = Some b'" "buffer_ok b'" "chunk_size b' = sz" "num_chunks b' = n"
    "at_slot b' = Suc (at_slot b) mod n" "num_items b' = min (num_items b + 1) n"
    "\<forall>i<n. slot b' i = (if i = at_slot b then map Some d else slot b i)"
    using add_chunk [of b d] snoc.prems by (auto simp: filled_def)
  have at: "at_slot b = length ds mod n" using b(2) by (simp add: filled_def)
  have "slot b' (j mod n) = map Some ((ds @ [d]) ! j)"
    if j: "j < length (ds @ [d])" "length (ds @ [d]) \<le> j + n" for j
  proof (cases "j = length ds")
    case True
    then show ?thesis using b'(7) at assms(2) by simp
  next
    case False
    then have "j < length ds" "length ds < j + n" using j by auto
    then have "j mod n \<noteq> at_slot b" unfolding at by (rule mod_apart)
    then show ?thesis
      using b'(7) b(2) \<open>j < length ds\<close> \<open>length ds < j + n\<close> assms(2) by (simp add: filled_def nth_append)
  qed
  moreover have "slot b' i = replicate sz None" if "i < n" "length (ds @ [d]) \<le> i" for i
    using that b'(7) at b(2) by (simp add: filled_def)
  ultimately have "filled sz n (ds @ [d]) b'"
    using b' b(2) at by (auto simp: filled_def mod_Suc_eq)
  then show ?case using b(1) b'(1) by (simp add: buffer_adds_snoc)
qed

section \<open>Emptying the buffer\<close>

lemma drain_slots:
  assumes "buffer_ok b"
  shows "fst (drain b) = map (\<lambda>i. slot b ((at_slot b + i) mod num_chunks b)) [0..<num_items b]"
  using assms
proof (induction "num_items b" arbitrary: b)
  case 0
  then show ?case by (simp add: drain.simps [of b] next_chunk_def)
next
  case (Suc k)
  let ?b1 = "b\<lparr> num_items := num_items b - 1 \<rparr>"
  note ok = buffer_okD [OF Suc.prems]
  have ok1: "buffer_ok ?b1" using Suc.prems by (auto simp: buffer_ok_def)
  have at1: "at_slot ?b1 = at_slot b" by (simp add: at_slot_def)
  note adv = advance_ok [OF ok1]
  have "slot (advance ?b1) i = slot b i" for i using adv by (simp add: slot_def chunk_at_def)
  moreover have "k = num_items (advance ?b1)" using adv Suc.hyps(2) by simp
  moreover have "(Suc (at_slot b) mod num_chunks b + i) mod num_chunks b = (at_slot b + Suc i) mod num_chunks b" for i
    by (simp add: mod_add_left_eq)
  ultimately have "fst (drain (advance ?b1)) = map (\<lambda>i. slot b ((at_slot b + Suc i) mod num_chunks b)) [0..<k]"
    using Suc.hyps(1) [of "advance ?b1"] adv at1 by simp
  moreover have "next_chunk b = (Some (next_write b), advance ?b1)"
    using Suc.hyps(2) by (simp add: next_chunk_def)
  moreover have "chunk_at b (next_write b) = slot b (at_slot b mod num_chunks b)"
    using ok(4,5) by (simp add: slot_def)
  ultimately have "fst (drain b) = slot b (at_slot b mod num_chunks b) #
      map (\<lambda>i. slot b ((at_slot b + Suc i) mod num_chunks b)) [0..<k]"
    by (simp add: drain.simps [of b] split_def)
  then show ?case
    unfolding Suc.hyps(2) [symmetric] upt_conv_Cons [OF zero_less_Suc] list.map map_Suc_upt [symmetric]
    by (simp add: comp_def del: upt_Suc)
qed

text \<open>
  The buffer as a queue: after at least as many single chunks as it has room for, emptying it
  gives the last ones, as many as it has room for, in the order in which they were added.
\<close>

theorem simple_buffer_keeps_last:
  assumes "0 < sz" and "0 < n" and "sz * n < 2 ^ 32" and "\<forall>d\<in>set ds. length d = sz" and "n \<le> length ds"
  shows "\<exists>b. buffer_adds (simple_buffer_new sz n) ds = Some b \<and>
    fst (drain b) = map (map Some) (drop (length ds - n) ds)"
proof -
  obtain b where b: "buffer_adds (simple_buffer_new sz n) ds = Some b" "filled sz n ds b"
    using filled_adds [OF assms(1-4)] by blast
  have "slot b ((length ds mod n + i) mod n) = map Some (ds ! (length ds - n + i))" if "i < n" for i
  proof -
    have "(length ds mod n + i) mod n = (length ds - n + i) mod n"
    proof -
      have "length ds + i = (length ds - n + i) + n" using assms(5) by simp
      then show ?thesis by (metis mod_add_left_eq mod_add_self2)
    qed
    moreover have "length ds - n + i < length ds" "length ds \<le> length ds - n + i + n" using that assms(5) by simp_all
    ultimately show ?thesis using b(2) by (simp add: filled_def)
  qed
  then have "fst (drain b) = map (\<lambda>i. map Some (ds ! (length ds - n + i))) [0..<n]"
    using b(2) drain_slots [of b] assms(5) by (simp add: filled_def)
  also have "\<dots> = map (map Some) (drop (length ds - n) ds)"
    by (rule nth_equalityI) (use assms(5) in simp_all)
  finally show ?thesis using b(1) by blast
qed

theorem simple_buffer_keeps_last_witness:
  "\<exists>b. buffer_adds (simple_buffer_new 2 2) [[1, 2], [3, 4], [5, 6 :: nat]] = Some b \<and>
     fst (drain b) = [[Some 3, Some 4], [Some 5, Some 6]]"
  using simple_buffer_keeps_last [of 2 2 "[[1, 2], [3, 4], [5, 6 :: nat]]"] by simp

text \<open>
  A buffer that is not full: after \<open>k\<close> chunks, fewer than it has room for, reading starts at
  the slot after the last one written, so emptying it gives \<open>k\<close> chunks of which the first ones, up to
  the end of the memory, were never written; up to half full, all of them.
\<close>

theorem simple_buffer_not_full:
  assumes "0 < sz" and "sz * n < 2 ^ 32" and "\<forall>d\<in>set ds. length d = sz" and "length ds < n"
  shows "\<exists>b. buffer_adds (simple_buffer_new sz n) ds = Some b \<and>
    fst (drain b) = map (\<lambda>i. if length ds + i < n then replicate sz None else map Some (ds ! (length ds + i - n))) [0..<length ds]"
proof -
  have n: "0 < n" using assms(4) by simp
  obtain b where b: "buffer_adds (simple_buffer_new sz n) ds = Some b" "filled sz n ds b"
    using filled_adds [OF assms(1) n assms(2,3)] by blast
  have "slot b ((length ds + i) mod n) =
      (if length ds + i < n then replicate sz None else map Some (ds ! (length ds + i - n)))" if "i < length ds" for i
  proof (cases "length ds + i < n")
    case True
    then show ?thesis using b(2) by (simp add: filled_def)
  next
    case False
    define j where "j = length ds + i - n"
    have j: "j < length ds" "j < n" "length ds + i = j + n" using False that assms(4) by (simp_all add: j_def)
    then have "(length ds + i) mod n = j mod n" by (metis mod_add_self2)
    moreover have "slot b (j mod n) = map Some (ds ! j)"
      using b(2) j(1) assms(4) unfolding filled_def by (metis less_imp_le trans_le_add2)
    ultimately show ?thesis using False by (simp add: j_def)
  qed
  note reads = this
  have "fst (drain b) = map (\<lambda>i. slot b ((length ds + i) mod n)) [0..<length ds]"
    using b(2) drain_slots [of b] assms(4) by (simp add: filled_def)
  also have "\<dots> = map (\<lambda>i. if length ds + i < n then replicate sz None else map Some (ds ! (length ds + i - n))) [0..<length ds]"
    by (rule map_cong [OF refl], rule reads) simp
  finally have "fst (drain b) =
      map (\<lambda>i. if length ds + i < n then replicate sz None else map Some (ds ! (length ds + i - n))) [0..<length ds]" .
  then show ?thesis using b(1) by blast
qed

theorem simple_buffer_not_full_witness:
  "\<exists>b. buffer_adds (simple_buffer_new 2 4) [[1, 2], [3, 4 :: nat]] = Some b \<and>
     fst (drain b) = [replicate 2 None, replicate 2 None]"
  using simple_buffer_not_full [of 2 4 "[[1, 2], [3, 4 :: nat]]"] by simp

text \<open>
  Data of several chunks at once: every round copies all of it, so at the last slot the copy leaves
  the memory.
\<close>

lemma simple_buffer_overflow:
  assumes "buffer_ok b" and "at_slot b = num_chunks b - 1" and "length d = 2 * chunk_size b"
  shows "buffer_add b d = None"
proof -
  note ok = buffer_okD [OF assms(1)]
  have "length (m_data b) = next_write b + chunk_size b"
    using ok assms(2) by (metis Suc_pred' mult_Suc_right add.commute)
  then show ?thesis
    using ok(1) assms(3) by (simp add: buffer_add_def numeral_2_eq_2 add_round_def copy_in_def write_at_def)
qed

end
