(* ===== verification/TranscribeGlue.thy ===== *)
theory TranscribeGlue
  imports RecognizeConfig SpeechResult SimpleBuffer
begin

text \<open>
  The recognizer of \<open>mod_google_transcribe/google_glue.cpp\<close>: the class \<open>GStreamer\<close>, and the three
  threads that use it as a step relation. The media thread writes the audio of a call, the reader
  thread waits for the connection and passes on what the recognizer answers, and any number of
  threads may end the session. gRPC is outside the repository: the calls on the stream are recorded,
  and what they answer is part of the steps.
\<close>

section \<open>GStreamer\<close>

definition CHUNKSIZE :: nat where "CHUNKSIZE = 320"

text \<open>
  The request is one of the two alternatives of its \<open>oneof\<close>: setting the audio drops the
  configuration. A byte is \<open>None\<close> when it comes from memory that was never written.
\<close>

datatype request = Config_request streaming_config | Audio_request "char option list"

datatype stream_call = StreamingRecognize | Write request | WritesDone | Finish

record streamer =
  m_request :: request
  m_writesDone :: bool
  m_connected :: bool
  m_promise :: bool                     \<comment> \<open>the promise has its value\<close>
  m_audioBuffer :: "char simple_buffer"
  stream_calls :: "stream_call list"

definition streamer_new :: "streaming_config \<Rightarrow> streamer" where
  "streamer_new cfg = \<lparr> m_request = Config_request cfg, m_writesDone = False, m_connected = False, m_promise = False,
     m_audioBuffer = simple_buffer_new CHUNKSIZE 15, stream_calls = [] \<rparr>"

definition on_stream :: "stream_call \<Rightarrow> streamer \<Rightarrow> streamer" where
  "on_stream c s = s\<lparr> stream_calls := stream_calls s @ [c] \<rparr>"

text \<open>\<open>m_promise.set_value()\<close> throws when the promise has its value; nothing catches it.\<close>

definition set_promise :: "streamer \<Rightarrow> streamer option" where
  "set_promise s = (if m_promise s then None else Some (s\<lparr> m_promise := True \<rparr>))"

definition send_audio :: "char option list \<Rightarrow> streamer \<Rightarrow> streamer" where
  "send_audio d s = (let s = s\<lparr> m_request := Audio_request d \<rparr> in on_stream (Write (m_request s)) s)"

definition streamer_connect :: "streamer \<Rightarrow> streamer option" where
  "streamer_connect s =
     (if m_connected s then None
      else do {
        let s = (on_stream StreamingRecognize s)\<lparr> m_connected := True \<rparr>;
        s \<leftarrow> set_promise s;
        let s = on_stream (Write (m_request s)) s;
        if num_items (m_audioBuffer s) = 0 then Some s
        else (let (chunks, b) = drain (m_audioBuffer s)
              in Some (fold send_audio chunks (s\<lparr> m_audioBuffer := b \<rparr>)))
      })"

definition streamer_write :: "string \<Rightarrow> streamer \<Rightarrow> streamer option" where
  "streamer_write d s =
     (if \<not> m_connected s then
        (if length d mod CHUNKSIZE = 0
         then map_option (\<lambda>b. s\<lparr> m_audioBuffer := b \<rparr>) (buffer_add (m_audioBuffer s) d)
         else Some s)
      else Some (send_audio (map Some d) s))"

definition cancel_connect :: "streamer \<Rightarrow> streamer option" where
  "cancel_connect s = (if m_connected s then None else set_promise s)"

text \<open>
  \<open>writesDone\<close> in two parts: the tests, which cancel the connection or say whether the stream is still to
  be closed, and the call with the setting of the flag. Nothing keeps another thread out in between.
\<close>

definition writes_done_test :: "streamer \<Rightarrow> (bool \<times> streamer) option" where
  "writes_done_test s =
     (if \<not> m_connected s then map_option (Pair False) (cancel_connect s)
      else Some (\<not> m_writesDone s, s))"

definition writes_done_call :: "streamer \<Rightarrow> streamer" where
  "writes_done_call s = (on_stream WritesDone s)\<lparr> m_writesDone := True \<rparr>"

definition streamer_finish :: "streamer \<Rightarrow> streamer" where
  "streamer_finish s = on_stream Finish s"

section \<open>A session\<close>

record vad_settings =
  vad_mode :: int
  vad_silence_ms :: int
  vad_voice_ms :: int
  vad_debug :: int

definition vad_settings :: "recognizer_env \<Rightarrow> vad_settings" where
  "vad_settings V = \<lparr> vad_mode = (case chan_var V ''RECOGNIZER_VAD_MODE'' of Some v \<Rightarrow> atoi v | None \<Rightarrow> 2),
     vad_silence_ms = (case chan_var V ''RECOGNIZER_VAD_SILENCE_MS'' of Some v \<Rightarrow> atoi v | None \<Rightarrow> 150),
     vad_voice_ms = (case chan_var V ''RECOGNIZER_VAD_VOICE_MS'' of Some v \<Rightarrow> atoi v | None \<Rightarrow> 250),
     vad_debug = 0 \<rparr>"

record recognizer_setup =
  wants_single_utterance :: bool
  setup_play_file :: bool
  setup_resampler :: bool
  setup_vad :: bool
  setup_vad_settings :: "vad_settings option"

record response =
  resp_error :: "string option"         \<comment> \<open>the text of the status\<close>
  resp_results :: "recognition_result list"
  resp_end_of_utterance :: bool

text \<open>The calls of the response handler, and those that release what the session holds.\<close>

datatype handler_call =
    Said string | Said_json json
  | Stop_broadcast | Break_channel | Destroy_resampler | Destroy_vad | Remove_bug

datatype reader_pc = Reader_wait | Reader_read | Reader_test | Reader_call | Reader_done

datatype media_pc = Media_out | Media_entered | Media_in

text \<open>A thread in the cleanup. Thread 0 is the media thread, which ends the session when the channel closes.\<close>

datatype cleanup_pc = Cleanup_out | Cleanup_test | Cleanup_call | Cleanup_join | Cleanup_release

datatype mutex_holder = Held_by_media | Held_by_cleanup nat

record speech =
  gstreamer :: streamer
  alive :: bool                         \<comment> \<open>the object was not deleted\<close>
  cb_streamer :: bool                   \<comment> \<open>cb->streamer is not NULL\<close>
  got_end_of_utterance :: bool
  attached :: bool                      \<comment> \<open>the channel has the bug under its name\<close>
  holder :: "mutex_holder option"
  handled :: "handler_call list"
  reader :: reader_pc
  media :: media_pc
  cleaning :: "nat \<Rightarrow> cleanup_pc"

definition on_streamer :: "(streamer \<Rightarrow> streamer option) \<Rightarrow> speech \<Rightarrow> speech option" where
  "on_streamer f s = (if alive s then map_option (\<lambda>g. s\<lparr> gstreamer := g \<rparr>) (f (gstreamer s)) else None)"

definition responds :: "handler_call \<Rightarrow> speech \<Rightarrow> speech" where
  "responds c s = s\<lparr> handled := handled s @ [c] \<rparr>"

text \<open>
  \<open>google_speech_session_init\<close>: \<open>None\<close> where the code is undefined, \<open>Some None\<close> when it fails. The
  parameters are the configuration, whether the resampler could be made, and the channel variable
  that asks for the connection to wait for speech.
\<close>

definition speech_session_init ::
  "recognizer_env \<Rightarrow> int \<Rightarrow> speech_options \<Rightarrow> int \<Rightarrow> bool \<Rightarrow> bool \<Rightarrow> bool \<Rightarrow> (recognizer_setup \<times> speech) option option" where
  "speech_session_init V channels opts sample_rate resampler_ok vad_wanted vad_made =
     (if sample_rate \<noteq> 8000 \<and> \<not> resampler_ok then Some None
      else do {
        cfg \<leftarrow> request_config V channels opts;
        let vad = (vad_wanted \<and> vad_made);
        g \<leftarrow> (if vad then Some (streamer_new cfg) else streamer_connect (streamer_new cfg));
        Some (Some (\<lparr> wants_single_utterance = single_utterance opts, setup_play_file = (play_file opts \<noteq> None),
            setup_resampler = (sample_rate \<noteq> 8000), setup_vad = vad,
            setup_vad_settings = (if vad then Some (vad_settings V) else None) \<rparr>,
          \<lparr> gstreamer = g, alive = True, cb_streamer = True, got_end_of_utterance = False, attached = True, holder = None,
            handled = [], reader = Reader_wait, media = Media_out, cleaning = (\<lambda>_. Cleanup_out) \<rparr>))
      })"

section \<open>The media thread\<close>

text \<open>
  What a frame brings: the bytes of its samples, whether it is empty, whether speech starts with it
  for the detector, and what the resampler makes of it.
\<close>

record media_frame =
  frame_bytes :: string
  frame_empty :: bool
  frame_starts_talking :: bool
  frame_resampled :: string

definition frame_audio :: "recognizer_setup \<Rightarrow> media_frame \<Rightarrow> string" where
  "frame_audio S f = (if setup_resampler S then frame_resampled f else frame_bytes f)"

definition speech_frame_enter :: "recognizer_setup \<Rightarrow> speech \<Rightarrow> speech" where
  "speech_frame_enter S s =
     (if cb_streamer s \<and> (\<not> wants_single_utterance S \<or> \<not> got_end_of_utterance s) then s\<lparr> media := Media_entered \<rparr> else s)"

definition speech_frame_trylock :: "speech \<Rightarrow> speech" where
  "speech_frame_trylock s =
     (if holder s = None then s\<lparr> holder := Some Held_by_media, media := Media_in \<rparr> else s\<lparr> media := Media_out \<rparr>)"

definition speech_frame_one :: "recognizer_setup \<Rightarrow> media_frame \<Rightarrow> speech \<Rightarrow> speech option" where
  "speech_frame_one S f s =
     (if frame_empty f then Some s
      else do {
        s \<leftarrow> (if \<not> setup_vad S then Some s
              else if \<not> alive s then None
              else if \<not> m_connected (gstreamer s) \<and> frame_starts_talking f
              then do { s \<leftarrow> on_streamer streamer_connect s; Some (responds (Said ''vad_detected'') s) }
              else Some s);
        on_streamer (streamer_write (frame_audio S f)) s
      })"

definition speech_frame_leave :: "speech \<Rightarrow> speech" where
  "speech_frame_leave s = s\<lparr> holder := None, media := Media_out \<rparr>"

section \<open>The reader thread\<close>

definition reader_woken :: "speech \<Rightarrow> speech option" where
  "reader_woken s =
     (if \<not> alive s then None
      else Some (s\<lparr> reader := (if m_connected (gstreamer s) then Reader_read else Reader_done) \<rparr>))"

fun handle_results :: "recognition_result list \<Rightarrow> speech \<Rightarrow> speech option" where
  "handle_results [] s = Some s"
| "handle_results (r # rs) s = do { j \<leftarrow> result_json r; handle_results rs (responds (Said_json j) s) }"

text \<open>One round of the loop, up to \<open>writesDone\<close>; \<open>located\<close> says whether the session still exists.\<close>

definition reader_response :: "recognizer_setup \<Rightarrow> bool \<Rightarrow> response \<Rightarrow> speech \<Rightarrow> speech option" where
  "reader_response S located r s =
     (if \<not> alive s then None
      else if \<not> located then Some (s\<lparr> reader := Reader_done \<rparr>)
      else do {
        let s = (case resp_error r of
            Some m \<Rightarrow> responds (Said_json (JObject [(''type'', JText ''error''), (''error'', JText m)])) s | None \<Rightarrow> s);
        let s = (if setup_play_file S then responds (Said ''play_interrupt'') s else s);
        s \<leftarrow> handle_results (resp_results r) s;
        if resp_end_of_utterance r then do {
          let s = responds (Said ''end_of_utterance'') (s\<lparr> got_end_of_utterance := True \<rparr>);
          Some (if wants_single_utterance S then s\<lparr> reader := Reader_test \<rparr> else s)
        } else Some s
      })"

text \<open>The end of the responses: \<open>code\<close> and \<open>too_long\<close> are what the status of the stream says.\<close>

definition reader_ended :: "bool \<Rightarrow> int \<Rightarrow> bool \<Rightarrow> speech \<Rightarrow> speech option" where
  "reader_ended located code too_long s =
     (if \<not> alive s then None
      else do {
        s \<leftarrow> (if \<not> located then Some s
             else do {
               s \<leftarrow> on_streamer (\<lambda>g. Some (streamer_finish g)) s;
               Some (if code = 11 then responds (Said (if too_long then ''max_duration_exceeded'' else ''no_audio'')) s else s)
             });
        Some (s\<lparr> reader := Reader_done \<rparr>)
      })"

definition reader_tests :: "speech \<Rightarrow> speech option" where
  "reader_tests s =
     (if \<not> alive s then None
      else do {
        (call, g) \<leftarrow> writes_done_test (gstreamer s);
        Some (s\<lparr> gstreamer := g, reader := (if call then Reader_call else Reader_read) \<rparr>)
      })"

definition reader_calls :: "speech \<Rightarrow> speech option" where
  "reader_calls s = do { s \<leftarrow> on_streamer (\<lambda>g. Some (writes_done_call g)) s; Some (s\<lparr> reader := Reader_read \<rparr>) }"

section \<open>The end of the session\<close>

definition at_cleanup :: "nat \<Rightarrow> cleanup_pc \<Rightarrow> speech \<Rightarrow> speech" where
  "at_cleanup n p s = s\<lparr> cleaning := (cleaning s)(n := p) \<rparr>"

text \<open>
  Under the mutex: a second thread finds the bug detached and returns. Playback is stopped, in a way
  that depends on whether the channel is broadcasting.
\<close>

definition cleanup_begin :: "recognizer_setup \<Rightarrow> bool \<Rightarrow> nat \<Rightarrow> speech \<Rightarrow> speech" where
  "cleanup_begin S broadcasting n s =
     (if \<not> attached s then s
      else at_cleanup n (if cb_streamer s then Cleanup_test else Cleanup_release)
        (s\<lparr> attached := False, holder := Some (Held_by_cleanup n),
            handled := handled s @ (if setup_play_file S then [if broadcasting then Stop_broadcast else Break_channel] else []) \<rparr>))"

definition cleanup_tests :: "nat \<Rightarrow> speech \<Rightarrow> speech option" where
  "cleanup_tests n s =
     (if \<not> alive s then None
      else do {
        (call, g) \<leftarrow> writes_done_test (gstreamer s);
        Some (at_cleanup n (if call then Cleanup_call else Cleanup_join) (s\<lparr> gstreamer := g \<rparr>))
      })"

definition cleanup_calls :: "nat \<Rightarrow> speech \<Rightarrow> speech option" where
  "cleanup_calls n s = do { s \<leftarrow> on_streamer (\<lambda>g. Some (writes_done_call g)) s; Some (at_cleanup n Cleanup_join s) }"

definition cleanup_joined :: "nat \<Rightarrow> speech \<Rightarrow> speech" where
  "cleanup_joined n s = at_cleanup n Cleanup_release (s\<lparr> alive := False, cb_streamer := False \<rparr>)"

text \<open>The bug is removed unless the channel is closing, which is when the media thread does the cleanup.\<close>

definition cleanup_releases :: "recognizer_setup \<Rightarrow> nat \<Rightarrow> speech \<Rightarrow> speech" where
  "cleanup_releases S n s = at_cleanup n Cleanup_out (s\<lparr> holder := None,
     handled := handled s @ (if setup_resampler S then [Destroy_resampler] else []) @ (if setup_vad S then [Destroy_vad] else []) @
       (if n \<noteq> 0 then [Remove_bug] else []) \<rparr>)"

section \<open>Steps\<close>

datatype speech_step =
    Frame_enter | Frame_trylock | Frame_one media_frame | Frame_leave
  | Reader_woken | Reader_response bool response | Reader_ended bool int bool | Reader_tests | Reader_calls
  | Cleanup_begin bool nat | Cleanup_tests nat | Cleanup_calls nat | Cleanup_joined nat | Cleanup_releases nat

text \<open>
  When a step can be taken. A cleanup waits for the mutex, then for the reader thread. Removing the bug
  waits until its callback is not running; the media thread is not in its callback when it ends the
  session itself, and the other way round.
\<close>

fun enabled :: "speech_step \<Rightarrow> speech \<Rightarrow> bool" where
  "enabled Frame_enter s \<longleftrightarrow> media s = Media_out \<and> cleaning s 0 = Cleanup_out"
| "enabled Frame_trylock s \<longleftrightarrow> media s = Media_entered"
| "enabled (Frame_one f) s \<longleftrightarrow> media s = Media_in"
| "enabled Frame_leave s \<longleftrightarrow> media s = Media_in"
| "enabled Reader_woken s \<longleftrightarrow> reader s = Reader_wait \<and> m_promise (gstreamer s)"
| "enabled (Reader_response l r) s \<longleftrightarrow> reader s = Reader_read"
| "enabled (Reader_ended l c t) s \<longleftrightarrow> reader s = Reader_read"
| "enabled Reader_tests s \<longleftrightarrow> reader s = Reader_test"
| "enabled Reader_calls s \<longleftrightarrow> reader s = Reader_call"
| "enabled (Cleanup_begin b n) s \<longleftrightarrow> cleaning s n = Cleanup_out \<and> holder s = None \<and> (n = 0 \<longrightarrow> media s = Media_out)"
| "enabled (Cleanup_tests n) s \<longleftrightarrow> cleaning s n = Cleanup_test"
| "enabled (Cleanup_calls n) s \<longleftrightarrow> cleaning s n = Cleanup_call"
| "enabled (Cleanup_joined n) s \<longleftrightarrow> cleaning s n = Cleanup_join \<and> reader s = Reader_done"
| "enabled (Cleanup_releases n) s \<longleftrightarrow> cleaning s n = Cleanup_release \<and> media s = Media_out"

fun speech_do :: "recognizer_setup \<Rightarrow> speech_step \<Rightarrow> speech \<Rightarrow> speech option" where
  "speech_do S Frame_enter s = Some (speech_frame_enter S s)"
| "speech_do S Frame_trylock s = Some (speech_frame_trylock s)"
| "speech_do S (Frame_one f) s = speech_frame_one S f s"
| "speech_do S Frame_leave s = Some (speech_frame_leave s)"
| "speech_do S Reader_woken s = reader_woken s"
| "speech_do S (Reader_response l r) s = reader_response S l r s"
| "speech_do S (Reader_ended l c t) s = reader_ended l c t s"
| "speech_do S Reader_tests s = reader_tests s"
| "speech_do S Reader_calls s = reader_calls s"
| "speech_do S (Cleanup_begin b n) s = Some (cleanup_begin S b n s)"
| "speech_do S (Cleanup_tests n) s = cleanup_tests n s"
| "speech_do S (Cleanup_calls n) s = cleanup_calls n s"
| "speech_do S (Cleanup_joined n) s = Some (cleanup_joined n s)"
| "speech_do S (Cleanup_releases n) s = Some (cleanup_releases S n s)"

end
