(* ===== verification/TranscribeSafety.thy ===== *)
theory TranscribeSafety
  imports TranscribeGlue Steps
begin

text \<open>
  The threads of the recognizer: under every interleaving the stream object is used only while it
  exists, and what is sent on the stream.
\<close>

section \<open>The invariant\<close>

definition stream_inv :: "streamer \<Rightarrow> bool" where
  "stream_inv g \<longleftrightarrow> (m_connected g \<longrightarrow> m_promise g) \<and>
     (\<not> m_connected g \<longrightarrow> buffer_ok (m_audioBuffer g) \<and> chunk_size (m_audioBuffer g) = CHUNKSIZE)"

definition mutex_inv :: "speech \<Rightarrow> bool" where
  "mutex_inv s \<longleftrightarrow> (\<forall>n. cleaning s n \<noteq> Cleanup_out \<longleftrightarrow> holder s = Some (Held_by_cleanup n)) \<and>
     (media s = Media_in \<longleftrightarrow> holder s = Some Held_by_media) \<and>
     (media s \<noteq> Media_out \<longrightarrow> cleaning s 0 = Cleanup_out)"

definition life_inv :: "speech \<Rightarrow> bool" where
  "life_inv s \<longleftrightarrow> (alive s \<longleftrightarrow> cb_streamer s) \<and>
     (\<forall>n. cleaning s n \<noteq> Cleanup_out \<longrightarrow> \<not> attached s \<and> (alive s \<longleftrightarrow> cleaning s n \<noteq> Cleanup_release)) \<and>
     (\<not> alive s \<longrightarrow> reader s = Reader_done \<and> \<not> attached s) \<and>
     (media s = Media_in \<longrightarrow> alive s) \<and>
     (media s = Media_entered \<longrightarrow> alive s \<or> holder s \<noteq> None)"

definition connect_inv :: "speech \<Rightarrow> bool" where
  "connect_inv s \<longleftrightarrow> stream_inv (gstreamer s) \<and>
     (m_promise (gstreamer s) \<longrightarrow> m_connected (gstreamer s) \<or> \<not> alive s \<or> (\<exists>n. cleaning s n = Cleanup_join)) \<and>
     (reader s \<noteq> Reader_wait \<longrightarrow> reader s = Reader_done \<or> m_connected (gstreamer s)) \<and>
     (\<forall>n. cleaning s n = Cleanup_call \<longrightarrow> m_connected (gstreamer s)) \<and>
     (\<forall>n. cleaning s n = Cleanup_join \<longrightarrow> m_promise (gstreamer s))"

definition speech_inv :: "speech \<Rightarrow> bool" where
  "speech_inv s \<longleftrightarrow> mutex_inv s \<and> life_inv s \<and> connect_inv s"

lemmas speech_inv_defs = speech_inv_def mutex_inv_def life_inv_def connect_inv_def

text \<open>A frame adds at most one chunk, and the times of the results are in the range of \<open>int\<close>.\<close>

definition audio_ok :: "string \<Rightarrow> bool" where
  "audio_ok d \<longleftrightarrow> (length d mod CHUNKSIZE = 0 \<longrightarrow> length d \<le> CHUNKSIZE)"

fun step_ok :: "recognizer_setup \<Rightarrow> speech_step \<Rightarrow> bool" where
  "step_ok S (Frame_one f) \<longleftrightarrow> audio_ok (frame_audio S f)"
| "step_ok S (Reader_response l r) \<longleftrightarrow> (\<forall>x\<in>set (resp_results r). result_json x \<noteq> None)"
| "step_ok S _ \<longleftrightarrow> True"

section \<open>The stream\<close>

lemma fold_send_audio:
  "m_connected (fold send_audio cs g) = m_connected g" "m_promise (fold send_audio cs g) = m_promise g"
  by (induction cs arbitrary: g) (simp_all add: send_audio_def on_stream_def)

lemma connect_stream:
  assumes "\<not> m_connected g" and "\<not> m_promise g"
  shows "\<exists>g'. streamer_connect g = Some g' \<and> m_connected g' \<and> m_promise g'"
  using assms
  by (auto simp: streamer_connect_def set_promise_def on_stream_def Let_def fold_send_audio split: prod.split)

lemma write_stream:
  assumes "stream_inv g" and "audio_ok d"
  shows "\<exists>g'. streamer_write d g = Some g' \<and> stream_inv g' \<and> m_connected g' = m_connected g \<and> m_promise g' = m_promise g"
proof (cases "m_connected g")
  case True
  then show ?thesis using assms(1) by (simp add: streamer_write_def send_audio_def on_stream_def stream_inv_def)
next
  case False
  show ?thesis
  proof (cases "length d mod CHUNKSIZE = 0")
    case True
    have ok: "buffer_ok (m_audioBuffer g)" "chunk_size (m_audioBuffer g) = CHUNKSIZE"
      using assms(1) False by (simp_all add: stream_inv_def)
    have "length d = 0 \<or> length d = CHUNKSIZE"
      using True assms(2) unfolding audio_ok_def CHUNKSIZE_def by presburger
    then have "\<exists>b. buffer_add (m_audioBuffer g) d = Some b \<and> buffer_ok b \<and> chunk_size b = CHUNKSIZE"
      using add_chunk [OF ok(1), of d] ok buffer_okD(1) [OF ok(1)] by (auto simp: buffer_add_def)
    then show ?thesis using False True assms(1) by (auto simp: streamer_write_def stream_inv_def)
  qed (use False assms(1) in \<open>simp add: streamer_write_def\<close>)
qed

section \<open>Steps\<close>

lemma handle_results_defined:
  "\<forall>x\<in>set rs. result_json x \<noteq> None \<Longrightarrow> \<exists>h. handle_results rs s = Some (s\<lparr> handled := h \<rparr>)"
proof (induction rs arbitrary: s)
  case (Cons r rs)
  obtain j where j: "result_json r = Some j" using Cons.prems by auto
  obtain h where "handle_results rs (responds (Said_json j) s) = Some ((responds (Said_json j) s)\<lparr> handled := h \<rparr>)"
    using Cons.IH [of "responds (Said_json j) s"] Cons.prems by auto
  then show ?case using j by (auto simp: responds_def)
qed (metis handle_results.simps(1) speech.surjective speech.update_convs(7))

text \<open>What the reader changes, and what a frame changes.\<close>

lemma speech_inv_quiet:
  assumes "speech_inv s" and "alive s" and "stream_inv g" and "m_connected g = m_connected (gstreamer s)"
    and "m_promise g = m_promise (gstreamer s)" and "p = Reader_wait \<or> p = Reader_done \<or> m_connected g"
  shows "speech_inv (s\<lparr> gstreamer := g, got_end_of_utterance := e, handled := h, reader := p \<rparr>)"
  using assms by (auto simp: speech_inv_defs)

lemma speech_inv_connect:
  assumes "speech_inv s" and "media s = Media_in" and "stream_inv g" and "m_connected g" and "m_promise g"
  shows "speech_inv (s\<lparr> gstreamer := g, handled := h \<rparr>)"
  using assms by (auto simp: speech_inv_defs)

lemma speech_inv_same:
  assumes "speech_inv s" and "stream_inv g" and "m_connected g = m_connected (gstreamer s)" and "m_promise g = m_promise (gstreamer s)"
  shows "speech_inv (s\<lparr> gstreamer := g \<rparr>)"
proof -
  have "mutex_inv (s\<lparr> gstreamer := g \<rparr>)" using assms(1) by (simp add: speech_inv_def mutex_inv_def)
  moreover have "life_inv (s\<lparr> gstreamer := g \<rparr>) = life_inv s" by (simp add: life_inv_def)
  moreover have "connect_inv (s\<lparr> gstreamer := g \<rparr>)" using assms unfolding speech_inv_def connect_inv_def by simp
  ultimately show ?thesis using assms(1) by (simp add: speech_inv_def)
qed

lemma speech_inv_alive: "speech_inv s \<Longrightarrow> reader s \<noteq> Reader_done \<or> media s = Media_in \<Longrightarrow> alive s"
  by (auto simp: speech_inv_def life_inv_def)

lemma speech_inv_stream: "speech_inv s \<Longrightarrow> stream_inv (gstreamer s)"
  by (simp add: speech_inv_def connect_inv_def)

lemma frame_steps_inv:
  assumes "speech_inv s"
  shows "enabled Frame_enter s \<Longrightarrow> speech_inv (speech_frame_enter S s)"
    and "enabled Frame_trylock s \<Longrightarrow> speech_inv (speech_frame_trylock s)"
    and "enabled Frame_leave s \<Longrightarrow> speech_inv (speech_frame_leave s)"
proof -
  show "speech_inv (speech_frame_enter S s)" if "enabled Frame_enter s"
  proof -
    have "mutex_inv (s\<lparr> media := Media_entered \<rparr>)" using assms that by (auto simp: speech_inv_def mutex_inv_def)
    moreover have "life_inv (s\<lparr> media := Media_entered \<rparr>)" if "cb_streamer s"
      using assms that by (auto simp: speech_inv_def life_inv_def)
    moreover have "connect_inv (s\<lparr> media := Media_entered \<rparr>)" using assms by (simp add: speech_inv_def connect_inv_def)
    ultimately show ?thesis using assms by (simp add: speech_inv_def speech_frame_enter_def)
  qed
  show "speech_inv (speech_frame_trylock s)" if "enabled Frame_trylock s"
  proof -
    have "mutex_inv (speech_frame_trylock s)"
      using assms that by (auto simp: speech_inv_def mutex_inv_def speech_frame_trylock_def)
    moreover have "life_inv (speech_frame_trylock s)"
      using assms that by (auto simp: speech_inv_def life_inv_def speech_frame_trylock_def)
    moreover have "connect_inv (speech_frame_trylock s)"
      using assms by (simp add: speech_inv_def connect_inv_def speech_frame_trylock_def)
    ultimately show ?thesis by (simp add: speech_inv_def)
  qed
  show "speech_inv (speech_frame_leave s)" if "enabled Frame_leave s"
  proof -
    have "mutex_inv (speech_frame_leave s)"
      using assms that by (auto simp: speech_inv_def mutex_inv_def speech_frame_leave_def)
    moreover have "life_inv (speech_frame_leave s)"
      using assms by (auto simp: speech_inv_def life_inv_def speech_frame_leave_def)
    moreover have "connect_inv (speech_frame_leave s)"
      using assms by (simp add: speech_inv_def connect_inv_def speech_frame_leave_def)
    ultimately show ?thesis by (simp add: speech_inv_def)
  qed
qed

lemma frame_one_inv:
  assumes "speech_inv s" and "enabled (Frame_one f) s" and "audio_ok (frame_audio S f)"
  shows "\<exists>s'. speech_frame_one S f s = Some s' \<and> speech_inv s'"
proof (cases "frame_empty f")
  case False
  have m: "media s = Media_in" "alive s" using assms(1,2) speech_inv_alive by auto
  have writes: "\<exists>s'. on_streamer (streamer_write (frame_audio S f)) t = Some s' \<and> speech_inv s'" if t: "speech_inv t" "alive t" for t
  proof -
    obtain g where g: "streamer_write (frame_audio S f) (gstreamer t) = Some g" "stream_inv g"
      "m_connected g = m_connected (gstreamer t)" "m_promise g = m_promise (gstreamer t)"
      using write_stream [OF speech_inv_stream [OF t(1)] assms(3)] by blast
    then show ?thesis using speech_inv_same [OF t(1) g(2-4)] t(2) by (simp add: on_streamer_def)
  qed
  show ?thesis
  proof (cases "setup_vad S \<and> \<not> m_connected (gstreamer s) \<and> frame_starts_talking f")
    case True
    have "\<not> m_promise (gstreamer s)"
      using assms(1) True m by (auto simp: speech_inv_defs)
    then obtain g where g: "streamer_connect (gstreamer s) = Some g" "m_connected g" "m_promise g"
      using connect_stream True by blast
    have "speech_inv (s\<lparr> gstreamer := g, handled := handled s @ [Said ''vad_detected''] \<rparr>)"
      using speech_inv_connect [OF assms(1) m(1)] g by (simp add: stream_inv_def)
    then show ?thesis
      using writes [of "responds (Said ''vad_detected'') (s\<lparr> gstreamer := g \<rparr>)"] True False m(2) g(1)
      by (simp add: speech_frame_one_def on_streamer_def responds_def)
  next
    case no: False
    then have "speech_frame_one S f s = on_streamer (streamer_write (frame_audio S f)) s"
      using False m(2) by (auto simp: speech_frame_one_def)
    then show ?thesis using writes [OF assms(1) m(2)] by simp
  qed
qed (use assms(1) in \<open>simp add: speech_frame_one_def\<close>)

lemma reader_steps_inv:
  assumes "speech_inv s"
  shows "enabled Reader_woken s \<Longrightarrow> \<exists>s'. reader_woken s = Some s' \<and> speech_inv s'"
    and "enabled (Reader_ended l c t) s \<Longrightarrow> \<exists>s'. reader_ended l c t s = Some s' \<and> speech_inv s'"
    and "enabled Reader_tests s \<Longrightarrow> \<exists>s'. reader_tests s = Some s' \<and> speech_inv s'"
    and "enabled Reader_calls s \<Longrightarrow> \<exists>s'. reader_calls s = Some s' \<and> speech_inv s'"
proof -
  note stream = speech_inv_stream [OF assms]
  have alive: "alive s" if "reader s \<noteq> Reader_done" using speech_inv_alive [OF assms] that by blast
  have connected: "m_connected (gstreamer s)" if "reader s \<noteq> Reader_done" "reader s \<noteq> Reader_wait"
    using assms that by (auto simp: speech_inv_def connect_inv_def)
  note quiet = speech_inv_quiet [OF assms alive]
  show "\<exists>s'. reader_woken s = Some s' \<and> speech_inv s'" if "enabled Reader_woken s"
    using quiet [OF _ stream refl refl, where e = "got_end_of_utterance s" and h = "handled s"] that alive by (simp add: reader_woken_def)
  show "\<exists>s'. reader_tests s = Some s' \<and> speech_inv s'" if "enabled Reader_tests s"
    using quiet [OF _ stream refl refl, where e = "got_end_of_utterance s" and h = "handled s"] that alive connected
    by (simp add: reader_tests_def writes_done_test_def)
  have call: "stream_inv (writes_done_call g)" "stream_inv (streamer_finish g)" if "stream_inv g" for g
    using that by (simp_all add: stream_inv_def writes_done_call_def streamer_finish_def on_stream_def)
  have same: "m_connected (writes_done_call g) = m_connected g" "m_promise (writes_done_call g) = m_promise g"
    "m_connected (streamer_finish g) = m_connected g" "m_promise (streamer_finish g) = m_promise g" for g
    by (simp_all add: writes_done_call_def streamer_finish_def on_stream_def)
  show "\<exists>s'. reader_calls s = Some s' \<and> speech_inv s'" if "enabled Reader_calls s"
    using quiet [OF _ call(1) [OF stream] same(1,2), where e = "got_end_of_utterance s" and h = "handled s"] that alive connected same
    by (simp add: reader_calls_def on_streamer_def)
  show "\<exists>s'. reader_ended l c t s = Some s' \<and> speech_inv s'" if "enabled (Reader_ended l c t) s"
    using quiet [OF _ call(2) [OF stream] same(3,4), where e = "got_end_of_utterance s"]
      quiet [OF _ call(2) [OF stream] same(3,4), where e = "got_end_of_utterance s" and h = "handled s"]
      quiet [OF _ stream refl refl, where e = "got_end_of_utterance s" and h = "handled s"] that alive
    by (simp add: reader_ended_def on_streamer_def responds_def)
qed

lemma reader_response_inv:
  assumes "speech_inv s" and "enabled (Reader_response l r) s" and "\<forall>x\<in>set (resp_results r). result_json x \<noteq> None"
  shows "\<exists>s'. reader_response S l r s = Some s' \<and> speech_inv s'"
proof -
  have alive: "alive s" "reader s = Reader_read" using speech_inv_alive [OF assms(1)] assms(2) by auto
  have connected: "m_connected (gstreamer s)" using assms(1) alive(2) by (simp add: speech_inv_def connect_inv_def)
  define t where "t = (let s = (case resp_error r of
            Some m \<Rightarrow> responds (Said_json (JObject [(''type'', JText ''error''), (''error'', JText m)])) s | None \<Rightarrow> s)
        in if setup_play_file S then responds (Said ''play_interrupt'') s else s)"
  have t: "t = s\<lparr> handled := handled t \<rparr>" by (simp add: t_def Let_def responds_def split: option.split)
  obtain h where "handle_results (resp_results r) t = Some (t\<lparr> handled := h \<rparr>)"
    using handle_results_defined [OF assms(3)] by blast
  then have h: "handle_results (resp_results r) t = Some (s\<lparr> handled := h \<rparr>)" by (subst (asm) (2) t) simp
  note quiet = speech_inv_quiet [OF assms(1) alive(1) speech_inv_stream [OF assms(1)] refl refl]
  show ?thesis
  proof (cases l)
    case True
    then have run: "reader_response S l r s = (if resp_end_of_utterance r then
          let s = responds (Said ''end_of_utterance'') (s\<lparr> handled := h, got_end_of_utterance := True \<rparr>)
          in Some (if wants_single_utterance S then s\<lparr> reader := Reader_test \<rparr> else s)
        else Some (s\<lparr> handled := h \<rparr>))"
      using alive(1) h by (simp add: reader_response_def t_def Let_def)
    have "speech_inv (s\<lparr> handled := h \<rparr>)"
      using quiet [where p = "reader s" and e = "got_end_of_utterance s" and h = h] connected by simp
    moreover have "speech_inv (s\<lparr> got_end_of_utterance := True, handled := h @ [Said ''end_of_utterance''] \<rparr>)"
      using quiet [where p = "reader s" and e = True and h = "h @ [Said ''end_of_utterance'']"] connected by simp
    moreover have "speech_inv (s\<lparr> got_end_of_utterance := True, handled := h @ [Said ''end_of_utterance''], reader := Reader_test \<rparr>)"
      using quiet [where p = Reader_test and e = True and h = "h @ [Said ''end_of_utterance'']"] connected by simp
    ultimately show ?thesis unfolding run by (simp add: responds_def Let_def)
  next
    case False
    then show ?thesis
      using quiet [where p = Reader_done and e = "got_end_of_utterance s" and h = "handled s"] alive(1) by (simp add: reader_response_def)
  qed
qed

lemma speech_inv_holds:
  assumes "speech_inv s" and "cleaning s n \<noteq> Cleanup_out"
  shows "holder s = Some (Held_by_cleanup n)" and "m \<noteq> n \<Longrightarrow> cleaning s m = Cleanup_out" and "media s \<noteq> Media_in" and "\<not> attached s"
    and "alive s \<longleftrightarrow> cleaning s n \<noteq> Cleanup_release"
proof -
  show h: "holder s = Some (Held_by_cleanup n)" using assms by (simp add: speech_inv_def mutex_inv_def)
  show "m \<noteq> n \<Longrightarrow> cleaning s m = Cleanup_out"
    using assms(1) h unfolding speech_inv_def mutex_inv_def by (metis mutex_holder.inject option.inject)
  show "media s \<noteq> Media_in"
    using assms(1) h unfolding speech_inv_def mutex_inv_def by (metis mutex_holder.distinct(1) option.inject)
  show "\<not> attached s" "alive s \<longleftrightarrow> cleaning s n \<noteq> Cleanup_release"
    using assms unfolding speech_inv_def life_inv_def by blast+
qed

text \<open>A step of the cleanup that holds the mutex, to another point at which it holds it.\<close>

lemma speech_inv_cleanup:
  assumes "speech_inv s" and "cleaning s n \<noteq> Cleanup_out" and "p \<noteq> Cleanup_out" and "p \<noteq> Cleanup_release" and "cleaning s n \<noteq> Cleanup_release"
    and "stream_inv g" and "m_connected (gstreamer s) \<longrightarrow> m_connected g" and "p = Cleanup_call \<longrightarrow> m_connected g"
    and "m_promise g \<longrightarrow> m_connected g \<or> p = Cleanup_join" and "p = Cleanup_join \<longrightarrow> m_promise g"
  shows "speech_inv (at_cleanup n p (s\<lparr> gstreamer := g \<rparr>))"
proof -
  let ?t = "at_cleanup n p (s\<lparr> gstreamer := g \<rparr>)"
  note held = speech_inv_holds [OF assms(1,2)]
  have "mutex_inv ?t" using assms(1-3) by (auto simp: speech_inv_def mutex_inv_def at_cleanup_def)
  moreover have "life_inv ?t"
    using assms(1,4,5) held(1,4,5) unfolding speech_inv_def life_inv_def at_cleanup_def by auto
  moreover have "connect_inv ?t"
    using assms(1,6-10) held(2) unfolding speech_inv_def connect_inv_def at_cleanup_def by auto
  ultimately show ?thesis by (simp add: speech_inv_def)
qed

lemma cleanup_steps_inv:
  assumes "speech_inv s"
  shows "enabled (Cleanup_begin b n) s \<Longrightarrow> speech_inv (cleanup_begin S b n s)"
    and "enabled (Cleanup_tests n) s \<Longrightarrow> \<exists>s'. cleanup_tests n s = Some s' \<and> speech_inv s'"
    and "enabled (Cleanup_calls n) s \<Longrightarrow> \<exists>s'. cleanup_calls n s = Some s' \<and> speech_inv s'"
    and "enabled (Cleanup_joined n) s \<Longrightarrow> speech_inv (cleanup_joined n s)"
    and "enabled (Cleanup_releases n) s \<Longrightarrow> speech_inv (cleanup_releases S n s)"
proof -
  note stream = speech_inv_stream [OF assms]
  show "speech_inv (cleanup_begin S b n s)" if e: "enabled (Cleanup_begin b n) s"
  proof (cases "attached s")
    case True
    have free: "cleaning s m = Cleanup_out" "media s \<noteq> Media_in" for m
      using assms e by (auto simp: speech_inv_def mutex_inv_def)
    have a: "alive s" "cb_streamer s" using assms True by (auto simp: speech_inv_def life_inv_def)
    have t: "cleanup_begin S b n s = at_cleanup n Cleanup_test (s\<lparr> attached := False, holder := Some (Held_by_cleanup n),
      handled := handled s @ (if setup_play_file S then [if b then Stop_broadcast else Break_channel] else []) \<rparr>)"
      using True a by (simp add: cleanup_begin_def)
    have "mutex_inv (cleanup_begin S b n s)" using e free by (auto simp: t mutex_inv_def at_cleanup_def)
    moreover have "life_inv (cleanup_begin S b n s)" using a free by (auto simp: t life_inv_def at_cleanup_def)
    moreover have "connect_inv (cleanup_begin S b n s)"
      using assms a free unfolding speech_inv_def connect_inv_def t at_cleanup_def by auto
    ultimately show ?thesis by (simp add: speech_inv_def)
  qed (use assms in \<open>simp add: cleanup_begin_def\<close>)
  show "\<exists>s'. cleanup_tests n s = Some s' \<and> speech_inv s'" if e: "enabled (Cleanup_tests n) s"
  proof (cases "m_connected (gstreamer s)")
    case True
    then have "m_promise (gstreamer s)" using stream by (simp add: stream_inv_def)
    then show ?thesis
      using speech_inv_cleanup [OF assms, of n _ "gstreamer s"] e True stream speech_inv_holds(5) [OF assms, of n]
      by (simp add: cleanup_tests_def writes_done_test_def)
  next
    case False
    have "\<not> m_promise (gstreamer s)"
    proof
      assume "m_promise (gstreamer s)"
      then obtain m where "cleaning s m = Cleanup_join"
        using assms False e speech_inv_holds(5) [OF assms, of n] by (auto simp: speech_inv_def connect_inv_def)
      then show False using e speech_inv_holds(2) [OF assms, of n m] by (cases "m = n") auto
    qed
    then have "cancel_connect (gstreamer s) = Some ((gstreamer s)\<lparr> m_promise := True \<rparr>)"
      using False by (simp add: cancel_connect_def set_promise_def)
    moreover have "stream_inv ((gstreamer s)\<lparr> m_promise := True \<rparr>)" using stream by (simp add: stream_inv_def)
    ultimately show ?thesis
      using speech_inv_cleanup [OF assms, of n Cleanup_join "(gstreamer s)\<lparr> m_promise := True \<rparr>"] e False
        speech_inv_holds(5) [OF assms, of n]
      by (simp add: cleanup_tests_def writes_done_test_def)
  qed
  show "\<exists>s'. cleanup_calls n s = Some s' \<and> speech_inv s'" if e: "enabled (Cleanup_calls n) s"
  proof -
    have c: "m_connected (gstreamer s)" using assms e by (auto simp: speech_inv_def connect_inv_def)
    then have "stream_inv (writes_done_call (gstreamer s))" "m_connected (writes_done_call (gstreamer s))"
      "m_promise (writes_done_call (gstreamer s))"
      using stream by (simp_all add: stream_inv_def writes_done_call_def on_stream_def)
    then show ?thesis
      using speech_inv_cleanup [OF assms, of n Cleanup_join "writes_done_call (gstreamer s)"] e speech_inv_holds(5) [OF assms, of n]
      by (simp add: cleanup_calls_def on_streamer_def)
  qed
  show "speech_inv (cleanup_joined n s)" if e: "enabled (Cleanup_joined n) s"
  proof -
    have out: "cleaning s n \<noteq> Cleanup_out" using e by simp
    note held = speech_inv_holds [OF assms out]
    have "mutex_inv (cleanup_joined n s)"
      using assms out by (auto simp: speech_inv_def mutex_inv_def cleanup_joined_def at_cleanup_def)
    moreover have "life_inv (cleanup_joined n s)"
      using e held unfolding life_inv_def cleanup_joined_def at_cleanup_def by auto
    moreover have "connect_inv (cleanup_joined n s)"
      using assms e unfolding speech_inv_def connect_inv_def cleanup_joined_def at_cleanup_def by auto
    ultimately show ?thesis by (simp add: speech_inv_def)
  qed
  show "speech_inv (cleanup_releases S n s)" if e: "enabled (Cleanup_releases n) s"
  proof -
    have out: "cleaning s n \<noteq> Cleanup_out" using e by simp
    note held = speech_inv_holds [OF assms out]
    have "mutex_inv (cleanup_releases S n s)"
      using e held(1,2) by (auto simp: mutex_inv_def cleanup_releases_def at_cleanup_def)
    moreover have "life_inv (cleanup_releases S n s)"
      using assms e held unfolding speech_inv_def life_inv_def cleanup_releases_def at_cleanup_def by auto
    moreover have "connect_inv (cleanup_releases S n s)"
      using assms e held unfolding speech_inv_def connect_inv_def cleanup_releases_def at_cleanup_def by auto
    ultimately show ?thesis by (simp add: speech_inv_def)
  qed
qed

lemma step_inv:
  assumes "speech_inv s" and "enabled x s" and "step_ok S x"
  shows "\<exists>s'. speech_do S x s = Some s' \<and> speech_inv s'"
proof (cases x)
  case (Frame_one f)
  then show ?thesis using frame_one_inv [OF assms(1), of f S] assms(2,3) by simp
next
  case (Reader_response l r)
  then show ?thesis using reader_response_inv [OF assms(1), of l r S] assms(2,3) by simp
qed (use assms frame_steps_inv [OF assms(1)] reader_steps_inv [OF assms(1)] cleanup_steps_inv [OF assms(1)] in simp_all)

interpretation speech: step_system "\<lambda>x s. enabled x s \<and> step_ok S x" "speech_do S" speech_inv for S
  by unfold_locales (blast intro: step_inv)

abbreviation speech_reach :: "recognizer_setup \<Rightarrow> speech \<Rightarrow> speech \<Rightarrow> bool" where
  "speech_reach S \<equiv> steps_to (\<lambda>x s. enabled x s \<and> step_ok S x) (speech_do S)"

lemmas reach_start = steps_start [where may = "\<lambda>x s. enabled x s \<and> step_ok S x" and act = "speech_do S"] for S

lemma reach_step: "speech_reach S s0 s \<Longrightarrow> enabled x s \<Longrightarrow> step_ok S x \<Longrightarrow> speech_do S x s = Some s' \<Longrightarrow> speech_reach S s0 s'"
  by (rule steps_next) auto

lemma init_inv:
  assumes "speech_session_init V channels opts rate rok vw vm = Some (Some (S, s0))"
  shows "speech_inv s0"
proof -
  have b: "buffer_ok (simple_buffer_new CHUNKSIZE 15)" using new_ok [of CHUNKSIZE 15] by (simp add: CHUNKSIZE_def)
  obtain cfg g where g: "(if vw \<and> vm then Some (streamer_new cfg) else streamer_connect (streamer_new cfg)) = Some g"
    and s0: "s0 = \<lparr> gstreamer = g, alive = True, cb_streamer = True, got_end_of_utterance = False, attached = True, holder = None,
            handled = [], reader = Reader_wait, media = Media_out, cleaning = (\<lambda>_. Cleanup_out) \<rparr>"
    using assms by (auto simp: speech_session_init_def Let_def bind_eq_Some_conv split: if_splits)
  have new: "stream_inv (streamer_new cfg)" "\<not> m_connected (streamer_new cfg)" "\<not> m_promise (streamer_new cfg)"
    using b by (simp_all add: streamer_new_def stream_inv_def simple_buffer_new_def)
  have "stream_inv g \<and> (m_promise g \<longrightarrow> m_connected g)"
  proof (cases "vw \<and> vm")
    case True
    then show ?thesis using g new by auto
  next
    case False
    then show ?thesis using g connect_stream [OF new(2,3)] by (auto simp: stream_inv_def)
  qed
  then show ?thesis unfolding s0 by (simp add: speech_inv_defs)
qed


end
