(* ===== verification/TranscribeRuns.thy ===== *)
theory TranscribeRuns
  imports TranscribeSafety
begin

text \<open>
  What the recognizer sends: the order of the calls on the stream, the audio that was buffered before the
  connection, the races that a session with single utterances has, and the end of a session.
\<close>

section \<open>The order of the calls\<close>

definition without_finish :: "stream_call list \<Rightarrow> stream_call list" where
  "without_finish cs = filter (\<lambda>c. c \<noteq> Finish) cs"

lemma without_finish_simps [simp]:
  "without_finish [] = []" "without_finish (cs @ ds) = without_finish cs @ without_finish ds"
  "without_finish (Finish # cs) = without_finish cs" "c \<noteq> Finish \<Longrightarrow> without_finish (c # cs) = c # without_finish cs"
  by (simp_all add: without_finish_def)

definition audio_calls :: "char option list list \<Rightarrow> stream_call list" where
  "audio_calls ds = map (\<lambda>d. Write (Audio_request d)) ds"

lemma audio_calls_simps [simp]:
  "audio_calls [] = []" "audio_calls (ds @ es) = audio_calls ds @ audio_calls es" "audio_calls [d] = [Write (Audio_request d)]"
  by (simp_all add: audio_calls_def)

lemma audio_no_finish [simp]: "without_finish (audio_calls ds) = audio_calls ds" "count_list (audio_calls ds) Finish = 0"
  by (induction ds) (simp_all add: audio_calls_def without_finish_def)

text \<open>The protocol of the stream: opened once, the configuration first, then audio, then closed at most once.\<close>

definition stream_opened :: "streaming_config \<Rightarrow> streamer \<Rightarrow> bool" where
  "stream_opened cfg g \<longleftrightarrow> (\<exists>audio. without_finish (stream_calls g) =
     [StreamingRecognize, Write (Config_request cfg)] @ audio_calls audio @ (if m_writesDone g then [WritesDone] else []))"

definition stream_order :: "streaming_config \<Rightarrow> streamer \<Rightarrow> bool" where
  "stream_order cfg g \<longleftrightarrow> (if m_connected g then stream_opened cfg g
     else stream_calls g = [] \<and> m_request g = Config_request cfg \<and> \<not> m_writesDone g)"

lemma fold_send_calls:
  "stream_calls (fold send_audio cs g) = stream_calls g @ audio_calls cs" "m_writesDone (fold send_audio cs g) = m_writesDone g"
  by (induction cs arbitrary: g) (simp_all add: send_audio_def on_stream_def audio_calls_def)

lemma connect_calls:
  assumes "streamer_connect g = Some g'" and "stream_order cfg g"
  shows "\<exists>audio. stream_calls g' = [StreamingRecognize, Write (Config_request cfg)] @ audio_calls audio \<and>
    audio = (if num_items (m_audioBuffer g) = 0 then [] else fst (drain (m_audioBuffer g))) \<and> m_connected g' \<and> \<not> m_writesDone g'"
proof -
  have g: "\<not> m_connected g" "\<not> m_promise g" "stream_calls g = []" "m_request g = Config_request cfg" "\<not> m_writesDone g"
    using assms by (auto simp: streamer_connect_def stream_order_def set_promise_def on_stream_def Let_def split: if_splits)
  show ?thesis
  proof (cases "num_items (m_audioBuffer g) = 0")
    case True
    then show ?thesis
      using assms(1) g by (auto simp: streamer_connect_def set_promise_def on_stream_def Let_def intro: exI [of _ "[]"])
  next
    case False
    then show ?thesis
      using assms(1) g by (auto simp: streamer_connect_def set_promise_def on_stream_def Let_def fold_send_calls fold_send_audio split: prod.splits)
  qed
qed

lemma connect_order:
  assumes "streamer_connect g = Some g'" and "stream_order cfg g"
  shows "stream_order cfg g'" "\<not> m_writesDone g'" "count_list (stream_calls g') Finish = 0" "m_connected g'"
proof -
  obtain audio where "stream_calls g' = [StreamingRecognize, Write (Config_request cfg)] @ audio_calls audio" "m_connected g'" "\<not> m_writesDone g'"
    using connect_calls [OF assms] by blast
  then show "stream_order cfg g'" "\<not> m_writesDone g'" "count_list (stream_calls g') Finish = 0" "m_connected g'"
    by (auto simp: stream_order_def stream_opened_def intro: exI [of _ audio])
qed

lemma write_order:
  assumes "streamer_write d g = Some g'" and "stream_order cfg g" and "\<not> m_writesDone g"
  shows "stream_order cfg g'" "\<not> m_writesDone g'" "count_list (stream_calls g') Finish = count_list (stream_calls g) Finish"
    "m_connected g' = m_connected g"
proof -
  have "stream_order cfg g' \<and> \<not> m_writesDone g' \<and> count_list (stream_calls g') Finish = count_list (stream_calls g) Finish \<and>
    m_connected g' = m_connected g"
  proof (cases "m_connected g")
    case True
    obtain audio where "without_finish (stream_calls g) = [StreamingRecognize, Write (Config_request cfg)] @ audio_calls audio"
      using assms(2,3) True by (auto simp: stream_order_def stream_opened_def)
    then have "without_finish (stream_calls g @ [Write (Audio_request (map Some d))]) =
        [StreamingRecognize, Write (Config_request cfg)] @ audio_calls (audio @ [map Some d])" by simp
    then show ?thesis
      using assms True by (auto simp: streamer_write_def send_audio_def on_stream_def stream_order_def stream_opened_def simp del: audio_calls_simps)
  next
    case False
    then show ?thesis using assms by (auto simp: streamer_write_def stream_order_def split: if_splits)
  qed
  then show "stream_order cfg g'" "\<not> m_writesDone g'" "count_list (stream_calls g') Finish = count_list (stream_calls g) Finish"
    "m_connected g' = m_connected g" by simp_all
qed

lemma done_order:
  assumes "stream_order cfg g" and "m_connected g" and "\<not> m_writesDone g"
  shows "stream_order cfg (writes_done_call g)" "count_list (stream_calls (writes_done_call g)) Finish = count_list (stream_calls g) Finish"
  using assms by (auto simp: stream_order_def stream_opened_def writes_done_call_def on_stream_def)

lemma finish_order:
  assumes "stream_order cfg g" and "m_connected g"
  shows "stream_order cfg (streamer_finish g)" "count_list (stream_calls (streamer_finish g)) Finish = Suc (count_list (stream_calls g) Finish)"
  using assms by (auto simp: stream_order_def stream_opened_def streamer_finish_def on_stream_def)

definition order_inv :: "streaming_config \<Rightarrow> speech \<Rightarrow> bool" where
  "order_inv cfg s \<longleftrightarrow> stream_order cfg (gstreamer s) \<and>
     count_list (stream_calls (gstreamer s)) Finish \<le> (if reader s = Reader_done then 1 else 0) \<and>
     (m_writesDone (gstreamer s) \<longrightarrow> \<not> alive s \<or> (\<exists>n. cleaning s n = Cleanup_join)) \<and>
     (\<forall>n. cleaning s n = Cleanup_call \<longrightarrow> \<not> m_writesDone (gstreamer s)) \<and>
     reader s \<noteq> Reader_test \<and> reader s \<noteq> Reader_call"

lemma handle_results_keeps:
  "handle_results rs s = Some s' \<Longrightarrow> \<exists>h. s' = s\<lparr> handled := h \<rparr>"
proof (induction rs arbitrary: s)
  case Nil
  then show ?case by (intro exI [of _ "handled s"]) simp
next
  case (Cons r rs)
  then obtain j where "handle_results rs (responds (Said_json j) s) = Some s'" by (auto simp: bind_eq_Some_conv)
  from Cons.IH [OF this] show ?case by (auto simp: responds_def)
qed

lemma order_frame:
  assumes "speech_inv s" and "order_inv cfg s" and "media s = Media_in" and "speech_frame_one S f s = Some s'"
  shows "order_inv cfg s'"
proof (cases "frame_empty f")
  case False
  have m: "alive s" using speech_inv_alive [OF assms(1)] assms(3) by blast
  have idle: "cleaning s n = Cleanup_out" for n using speech_inv_holds(3) [OF assms(1), of n] assms(3) by blast
  have open_now: "\<not> m_writesDone (gstreamer s)" using assms(2) m idle by (auto simp: order_inv_def)
  have order: "stream_order cfg (gstreamer s)" using assms(2) by (simp add: order_inv_def)
  have writes: "order_inv cfg t'"
    if t: "on_streamer (streamer_write (frame_audio S f)) (s\<lparr> gstreamer := g, handled := h \<rparr>) = Some t'"
      and g: "stream_order cfg g" "\<not> m_writesDone g" "count_list (stream_calls g) Finish \<le> count_list (stream_calls (gstreamer s)) Finish" for g h t'
  proof -
    obtain g' where g': "streamer_write (frame_audio S f) g = Some g'" "t' = s\<lparr> gstreamer := g', handled := h \<rparr>"
      using t m by (auto simp: on_streamer_def)
    note w = write_order [OF g'(1) g(1,2)]
    have "count_list (stream_calls g') Finish \<le> count_list (stream_calls (gstreamer s)) Finish" using w(3) g(3) by simp
    then show ?thesis using assms(2) w(1,2) idle unfolding order_inv_def g'(2) by (auto split: if_splits)
  qed
  show ?thesis
  proof (cases "setup_vad S \<and> \<not> m_connected (gstreamer s) \<and> frame_starts_talking f")
    case True
    then obtain g where g: "streamer_connect (gstreamer s) = Some g"
      "on_streamer (streamer_write (frame_audio S f)) (s\<lparr> gstreamer := g, handled := handled s @ [Said ''vad_detected''] \<rparr>) = Some s'"
      using assms(4) False m by (auto simp: speech_frame_one_def on_streamer_def responds_def bind_eq_Some_conv)
    show ?thesis using writes [OF g(2)] connect_order [OF g(1) order] by simp
  next
    case no: False
    then have "speech_frame_one S f s = on_streamer (streamer_write (frame_audio S f)) (s\<lparr> gstreamer := gstreamer s, handled := handled s \<rparr>)"
      using False m by (auto simp: speech_frame_one_def)
    then show ?thesis using writes [where g = "gstreamer s" and h = "handled s" and t' = s'] assms(4) order open_now by simp
  qed
qed (use assms(2,4) in \<open>simp add: speech_frame_one_def\<close>)

lemma reader_response_shape:
  assumes "reader_response S l r s = Some s'" and "alive s" and "reader s = Reader_read" and "\<not> wants_single_utterance S"
  shows "\<exists>h e p. s' = s\<lparr> handled := h, got_end_of_utterance := e, reader := p \<rparr> \<and> (p = Reader_read \<or> p = Reader_done)"
proof (cases l)
  case False
  then have "s' = s\<lparr> handled := handled s, got_end_of_utterance := got_end_of_utterance s, reader := Reader_done \<rparr>"
    using assms(1,2) by (simp add: reader_response_def)
  then show ?thesis by blast
next
  case True
  define t where "t = (let s = (case resp_error r of
        Some m \<Rightarrow> responds (Said_json (JObject [(''type'', JText ''error''), (''error'', JText m)])) s | None \<Rightarrow> s)
    in if setup_play_file S then responds (Said ''play_interrupt'') s else s)"
  have t: "t = s\<lparr> handled := handled t \<rparr>" by (simp add: t_def Let_def responds_def split: option.split)
  have run: "reader_response S l r s = do { t' \<leftarrow> handle_results (resp_results r) t;
      if resp_end_of_utterance r then Some (responds (Said ''end_of_utterance'') (t'\<lparr> got_end_of_utterance := True \<rparr>)) else Some t' }"
    using True assms(2,4) by (cases "resp_end_of_utterance r"; cases "setup_play_file S") (simp_all add: reader_response_def t_def Let_def)
  obtain t' where h: "handle_results (resp_results r) t = Some t'"
    using assms(1) unfolding run by (cases "handle_results (resp_results r) t") auto
  have t': "s' = (if resp_end_of_utterance r then responds (Said ''end_of_utterance'') (t'\<lparr> got_end_of_utterance := True \<rparr>) else t')"
    using assms(1) unfolding run h by (simp split: if_splits)
  obtain h where "t' = t\<lparr> handled := h \<rparr>" using handle_results_keeps [OF h] by blast
  then have "t' = s\<lparr> handled := h \<rparr>" by (subst (asm) t) simp
  then have "s' = s\<lparr> handled := handled s', got_end_of_utterance := got_end_of_utterance s', reader := reader s \<rparr>"
    using t' by (simp add: responds_def)
  then show ?thesis using assms(3) by metis
qed

lemma order_woken: "order_inv cfg s \<Longrightarrow> reader_woken s = Some s' \<Longrightarrow> reader s = Reader_wait \<Longrightarrow> order_inv cfg s'"
  by (cases "alive s"; cases "m_connected (gstreamer s)") (auto simp: reader_woken_def order_inv_def)

lemma order_response:
  assumes "speech_inv s" and "order_inv cfg s" and "\<not> wants_single_utterance S" and "reader s = Reader_read"
    and "reader_response S l r s = Some s'"
  shows "order_inv cfg s'"
proof -
  have "alive s" using speech_inv_alive [OF assms(1)] assms(4) by simp
  then obtain h e p where "s' = s\<lparr> handled := h, got_end_of_utterance := e, reader := p \<rparr>" "p = Reader_read \<or> p = Reader_done"
    using reader_response_shape [OF assms(5)] assms(3,4) by blast
  then show ?thesis using assms(2,4) by (auto simp: order_inv_def)
qed

lemma order_ended:
  assumes "speech_inv s" and "order_inv cfg s" and "reader s = Reader_read" and "reader_ended l c t s = Some s'"
  shows "order_inv cfg s'"
proof -
  have alive: "alive s" using speech_inv_alive [OF assms(1)] assms(3) by simp
  have conn: "m_connected (gstreamer s)" using assms(1,3) by (simp add: speech_inv_def connect_inv_def)
  have order: "stream_order cfg (gstreamer s)" "count_list (stream_calls (gstreamer s)) Finish = 0"
    using assms(2,3) by (simp_all add: order_inv_def)
  obtain g h where g: "s' = s\<lparr> gstreamer := g, handled := h, reader := Reader_done \<rparr>" "g = gstreamer s \<or> g = streamer_finish (gstreamer s)"
  proof (cases l)
    case True
    then have "s' = s\<lparr> gstreamer := streamer_finish (gstreamer s), handled := handled s', reader := Reader_done \<rparr>"
      using assms(4) alive by (auto simp: reader_ended_def on_streamer_def responds_def)
    then show ?thesis using that by blast
  next
    case False
    then have "s' = s\<lparr> gstreamer := gstreamer s, handled := handled s, reader := Reader_done \<rparr>"
      using assms(4) alive by (simp add: reader_ended_def)
    then show ?thesis using that by blast
  qed
  have "stream_order cfg g" "count_list (stream_calls g) Finish \<le> 1" "m_writesDone g = m_writesDone (gstreamer s)"
    using g(2) order finish_order [OF order(1) conn] by (auto simp: streamer_finish_def on_stream_def)
  then show ?thesis using assms(2) unfolding order_inv_def g(1) by simp
qed

lemma order_cleanup:
  assumes "speech_inv s" and "order_inv cfg s"
  shows "enabled (Cleanup_begin b n) s \<Longrightarrow> order_inv cfg (cleanup_begin S b n s)"
    and "enabled (Cleanup_tests n) s \<Longrightarrow> cleanup_tests n s = Some s' \<Longrightarrow> order_inv cfg s'"
    and "enabled (Cleanup_calls n) s \<Longrightarrow> cleanup_calls n s = Some s' \<Longrightarrow> order_inv cfg s'"
    and "enabled (Cleanup_joined n) s \<Longrightarrow> order_inv cfg (cleanup_joined n s)"
    and "enabled (Cleanup_releases n) s \<Longrightarrow> order_inv cfg (cleanup_releases S n s)"
proof -
  have others: "cleaning s m = Cleanup_out" if "cleaning s n \<noteq> Cleanup_out" "m \<noteq> n" for m
    using speech_inv_holds(2) [OF assms(1) that] .
  have order: "stream_order cfg (gstreamer s)" using assms(2) by (simp add: order_inv_def)
  show "order_inv cfg (cleanup_begin S b n s)" if e: "enabled (Cleanup_begin b n) s"
  proof -
    have "\<not> alive s \<or> \<not> m_writesDone (gstreamer s)"
    proof (rule ccontr)
      assume "\<not> (\<not> alive s \<or> \<not> m_writesDone (gstreamer s))"
      then obtain m where "cleaning s m = Cleanup_join" using assms(2) by (auto simp: order_inv_def)
      then show False using speech_inv_holds(1) [OF assms(1), of m] e by simp
    qed
    then show ?thesis using assms(2) unfolding order_inv_def cleanup_begin_def at_cleanup_def by auto
  qed
  show "order_inv cfg s'" if e: "enabled (Cleanup_tests n) s" and r: "cleanup_tests n s = Some s'"
  proof -
    have alive: "alive s" using speech_inv_holds(5) [OF assms(1), of n] e by simp
    have no: "\<not> m_writesDone (gstreamer s)"
    proof
      assume "m_writesDone (gstreamer s)"
      then obtain m where "cleaning s m = Cleanup_join" using assms(2) alive by (auto simp: order_inv_def)
      then show False using others [of m] e by (cases "m = n") simp_all
    qed
    then obtain g where g: "s' = at_cleanup n (if m_connected (gstreamer s) then Cleanup_call else Cleanup_join) (s\<lparr> gstreamer := g \<rparr>)"
      "g = gstreamer s \<or> g = (gstreamer s)\<lparr> m_promise := True \<rparr> \<and> \<not> m_connected (gstreamer s)"
      using r by (auto simp: cleanup_tests_def writes_done_test_def cancel_connect_def set_promise_def split: if_splits)
    have "stream_order cfg g" using g(2) order by (auto simp: stream_order_def)
    then show ?thesis using assms(2) g(2) no unfolding order_inv_def g(1) at_cleanup_def by auto
  qed
  show "order_inv cfg s'" if e: "enabled (Cleanup_calls n) s" and r: "cleanup_calls n s = Some s'"
  proof -
    have c: "m_connected (gstreamer s)" "\<not> m_writesDone (gstreamer s)"
      using assms e by (auto simp: speech_inv_def connect_inv_def order_inv_def)
    have s': "s' = at_cleanup n Cleanup_join (s\<lparr> gstreamer := writes_done_call (gstreamer s) \<rparr>)"
      using r by (auto simp: cleanup_calls_def on_streamer_def split: if_splits)
    show ?thesis
      using assms(2) done_order [OF order c] others e unfolding order_inv_def s' at_cleanup_def by auto
  qed
  show "order_inv cfg (cleanup_joined n s)" if e: "enabled (Cleanup_joined n) s"
    using assms(2) others e unfolding order_inv_def cleanup_joined_def at_cleanup_def by auto
  show "order_inv cfg (cleanup_releases S n s)" if e: "enabled (Cleanup_releases n) s"
  proof -
    have "\<not> alive s" using speech_inv_holds(5) [OF assms(1), of n] e by simp
    then show ?thesis using assms(2) unfolding order_inv_def cleanup_releases_def at_cleanup_def by auto
  qed
qed

lemma order_media:
  "order_inv cfg (s\<lparr> media := m \<rparr>) = order_inv cfg s" "order_inv cfg (s\<lparr> holder := h \<rparr>) = order_inv cfg s"
  by (simp_all add: order_inv_def)

lemma order_step:
  assumes "speech_inv s" and "order_inv cfg s" and "enabled x s" and "speech_do S x s = Some s'" and "\<not> wants_single_utterance S"
  shows "order_inv cfg s'"
proof (cases x)
  case (Frame_one f)
  then show ?thesis using order_frame [OF assms(1,2)] assms(3,4) by simp
next
  case Reader_woken
  then show ?thesis using order_woken [OF assms(2)] assms(3,4) by simp
next
  case (Reader_response l r)
  then show ?thesis using order_response [OF assms(1,2,5)] assms(3,4) by simp
next
  case (Reader_ended l c t)
  then show ?thesis using order_ended [OF assms(1,2)] assms(3,4) by simp
next
  case (Cleanup_begin b n)
  then show ?thesis using order_cleanup(1) [OF assms(1,2), of b n S] assms(3,4) by simp
next
  case (Cleanup_tests n)
  then show ?thesis using order_cleanup(2) [OF assms(1,2), of n s'] assms(3,4) by simp
next
  case (Cleanup_calls n)
  then show ?thesis using order_cleanup(3) [OF assms(1,2), of n s'] assms(3,4) by simp
next
  case (Cleanup_joined n)
  then show ?thesis using order_cleanup(4) [OF assms(1,2), of n] assms(3,4) by simp
next
  case (Cleanup_releases n)
  then show ?thesis using order_cleanup(5) [OF assms(1,2), of n S] assms(3,4) by simp
next
  case Frame_enter
  then show ?thesis using assms(2,4) by (auto simp: order_media speech_frame_enter_def)
next
  case Frame_trylock
  then show ?thesis using assms(2,4) by (auto simp: order_media speech_frame_trylock_def)
next
  case Frame_leave
  then show ?thesis using assms(2,4) by (auto simp: order_media speech_frame_leave_def)
qed (use assms(2,3) in \<open>simp_all add: order_inv_def\<close>)

lemma init_order:
  assumes "speech_session_init V channels opts rate rok vw vm = Some (Some (S, s0))"
  shows "\<exists>cfg. request_config V channels opts = Some cfg \<and> order_inv cfg s0 \<and> wants_single_utterance S = single_utterance opts"
proof -
  obtain cfg g where cfg: "request_config V channels opts = Some cfg"
    and g: "(if vw \<and> vm then Some (streamer_new cfg) else streamer_connect (streamer_new cfg)) = Some g"
    and s0: "s0 = \<lparr> gstreamer = g, alive = True, cb_streamer = True, got_end_of_utterance = False, attached = True, holder = None,
            handled = [], reader = Reader_wait, media = Media_out, cleaning = (\<lambda>_. Cleanup_out) \<rparr>"
    and S: "wants_single_utterance S = single_utterance opts"
    using assms by (auto simp: speech_session_init_def Let_def bind_eq_Some_conv split: if_splits)
  have new: "stream_order cfg (streamer_new cfg)" "\<not> m_writesDone (streamer_new cfg)" "stream_calls (streamer_new cfg) = []"
    by (simp_all add: stream_order_def streamer_new_def)
  have "stream_order cfg g \<and> \<not> m_writesDone g \<and> count_list (stream_calls g) Finish = 0"
    using g new connect_order [OF _ new(1)] by (auto split: if_splits)
  then show ?thesis using cfg S unfolding s0 by (simp add: order_inv_def)
qed

interpretation speech_order: step_invariant "\<lambda>x s. enabled x s \<and> step_ok S x" "speech_do S" speech_inv
    "\<lambda>s. \<not> wants_single_utterance S \<longrightarrow> order_inv cfg s" for S cfg
  by unfold_locales (blast intro: order_step)

text \<open>
  C29. The order of the calls: unless single utterances are asked for, under every interleaving the stream is
  opened at most once, the configuration is sent first, then only audio, then the stream is closed
  for writing at most once and nothing is written after it, and its status is fetched at most once.
\<close>

theorem transcribe_protocol:
  assumes "speech_session_init V channels opts rate rok vw vm = Some (Some (S, s0))" and "speech_reach S s0 s"
    and "\<not> single_utterance opts"
  shows "\<exists>cfg. request_config V channels opts = Some cfg \<and> count_list (stream_calls (gstreamer s)) Finish \<le> 1 \<and>
    (stream_calls (gstreamer s) = [] \<or> (\<exists>audio fin. without_finish (stream_calls (gstreamer s)) =
       [StreamingRecognize, Write (Config_request cfg)] @ audio_calls audio @ fin \<and> (fin = [] \<or> fin = [WritesDone])))"
proof -
  obtain cfg where cfg: "request_config V channels opts = Some cfg" "order_inv cfg s0" "\<not> wants_single_utterance S"
    using init_order [OF assms(1)] assms(3) by auto
  have "order_inv cfg s" using speech_order.reach_keeps [OF assms(2) init_inv [OF assms(1)]] cfg(2,3) by blast
  then have order: "stream_order cfg (gstreamer s)" "count_list (stream_calls (gstreamer s)) Finish \<le> 1"
    by (auto simp: order_inv_def split: if_splits)
  have "stream_calls (gstreamer s) = [] \<or> (\<exists>audio fin. without_finish (stream_calls (gstreamer s)) =
       [StreamingRecognize, Write (Config_request cfg)] @ audio_calls audio @ fin \<and> (fin = [] \<or> fin = [WritesDone]))"
  proof (cases "m_connected (gstreamer s)")
    case True
    then obtain audio where "without_finish (stream_calls (gstreamer s)) = [StreamingRecognize, Write (Config_request cfg)] @
        audio_calls audio @ (if m_writesDone (gstreamer s) then [WritesDone] else [])"
      using order(1) by (auto simp: stream_order_def stream_opened_def simp del: append.simps)
    then show ?thesis
      by (intro disjI2 exI [of _ audio] exI [of _ "if m_writesDone (gstreamer s) then [WritesDone] else []"]) simp
  qed (use order(1) in \<open>simp add: stream_order_def\<close>)
  then show ?thesis using cfg(1) order(2) by blast
qed

section \<open>Single utterances\<close>

abbreviation speech_run :: "recognizer_setup \<Rightarrow> speech_step list \<Rightarrow> speech \<Rightarrow> speech option" where
  "speech_run S \<equiv> run_allowed (\<lambda>x s. enabled x s \<and> step_ok S x) (speech_do S)"

lemma init_connected:
  assumes "speech_session_init V channels opts rate rok vw vm = Some (Some (S, s0))" and "\<not> (vw \<and> vm)"
  shows "\<exists>g cfg. s0 = \<lparr> gstreamer = g, alive = True, cb_streamer = True, got_end_of_utterance = False, attached = True, holder = None,
            handled = [], reader = Reader_wait, media = Media_out, cleaning = (\<lambda>_. Cleanup_out) \<rparr> \<and>
     m_connected g \<and> m_promise g \<and> \<not> m_writesDone g \<and> stream_calls g = [StreamingRecognize, Write (Config_request cfg)] \<and>
     setup_vad S = False \<and> wants_single_utterance S = single_utterance opts"
proof -
  obtain cfg g where g: "streamer_connect (streamer_new cfg) = Some g"
    and s0: "s0 = \<lparr> gstreamer = g, alive = True, cb_streamer = True, got_end_of_utterance = False, attached = True, holder = None,
            handled = [], reader = Reader_wait, media = Media_out, cleaning = (\<lambda>_. Cleanup_out) \<rparr>"
    and S: "setup_vad S = False" "wants_single_utterance S = single_utterance opts"
    using assms by (auto simp: speech_session_init_def Let_def bind_eq_Some_conv split: if_splits)
  have "g = (on_stream (Write (Config_request cfg)) (on_stream StreamingRecognize (streamer_new cfg)))\<lparr> m_connected := True, m_promise := True \<rparr>"
    using g by (simp add: streamer_connect_def streamer_new_def set_promise_def on_stream_def simple_buffer_new_def)
  then have "m_connected g \<and> m_promise g \<and> \<not> m_writesDone g \<and> stream_calls g = [StreamingRecognize, Write (Config_request cfg)]"
    by (simp add: on_stream_def streamer_new_def)
  then show ?thesis using s0 S by blast
qed

text \<open>An answer that ends a single utterance.\<close>

definition utterance_end :: response where
  "utterance_end = \<lparr> resp_error = None, resp_results = [], resp_end_of_utterance = True \<rparr>"

definition one_frame :: media_frame where
  "one_frame = \<lparr> frame_bytes = ''ab'', frame_empty = False, frame_starts_talking = False, frame_resampled = ''ab'' \<rparr>"

text \<open>
  C30. The races of single utterances: when the recognizer reports the end of the utterance, the reader thread
  closes the stream without a lock. If the session ends at that moment, both threads pass the test and the
  stream is closed twice, which the code says crashes gRPC; and a frame that is just being handled is
  written after the stream was closed.
\<close>

theorem transcribe_single_utterance_races:
  assumes "speech_session_init V channels opts rate rok vw vm = Some (Some (S, s0))" and "single_utterance opts" and "\<not> (vw \<and> vm)"
  shows "(\<exists>s. speech_reach S s0 s \<and> count_list (stream_calls (gstreamer s)) WritesDone = 2) \<and>
    (\<exists>s calls d. speech_reach S s0 s \<and> stream_calls (gstreamer s) = calls @ [WritesDone, Write (Audio_request d)])"
proof -
  obtain g cfg where s0: "s0 = \<lparr> gstreamer = g, alive = True, cb_streamer = True, got_end_of_utterance = False, attached = True, holder = None,
            handled = [], reader = Reader_wait, media = Media_out, cleaning = (\<lambda>_. Cleanup_out) \<rparr>"
    and g: "m_connected g" "m_promise g" "\<not> m_writesDone g" "stream_calls g = [StreamingRecognize, Write (Config_request cfg)]"
    and S: "setup_vad S = False" "wants_single_utterance S"
    using init_connected [OF assms(1,3)] assms(2) by blast
  note defs = reader_woken_def reader_response_def reader_tests_def reader_calls_def cleanup_begin_def cleanup_tests_def cleanup_calls_def
    writes_done_test_def writes_done_call_def on_streamer_def on_stream_def at_cleanup_def responds_def utterance_end_def
    speech_frame_enter_def speech_frame_trylock_def speech_frame_one_def one_frame_def frame_audio_def streamer_write_def send_audio_def
    audio_ok_def CHUNKSIZE_def
  obtain s1 where s1: "speech_run S [Reader_woken, Reader_response True utterance_end, Reader_tests, Cleanup_begin False 1, Cleanup_tests 1,
      Reader_calls, Cleanup_calls 1] s0 = Some s1" "count_list (stream_calls (gstreamer s1)) WritesDone = 2"
    using g S by (cases "setup_play_file S"; cases "setup_resampler S") (simp_all add: s0 defs Let_def)
  obtain s2 where s2: "speech_run S [Reader_woken, Frame_enter, Frame_trylock, Reader_response True utterance_end, Reader_tests,
      Reader_calls, Frame_one one_frame] s0 = Some s2"
    "stream_calls (gstreamer s2) = [StreamingRecognize, Write (Config_request cfg)] @ [WritesDone, Write (Audio_request (map Some ''ab''))]"
    using g S by (cases "setup_play_file S"; cases "setup_resampler S") (simp_all add: s0 defs Let_def)
  show ?thesis using run_allowed_steps [OF s1(1)] run_allowed_steps [OF s2(1)] s1(2) s2(2) by blast
qed

section \<open>The end of a session\<close>

definition ends :: "recognizer_setup \<Rightarrow> nat \<Rightarrow> speech \<Rightarrow> bool" where
  "ends S n s \<longleftrightarrow> (\<exists>s'. speech_reach S s s' \<and> cleaning s' n = Cleanup_out \<and> holder s' = None \<and> \<not> alive s')"

lemma ends_step:
  assumes "speech_inv s" and "enabled x s" and "step_ok S x"
    and "\<And>s'. speech_inv s' \<Longrightarrow> speech_do S x s = Some s' \<Longrightarrow> ends S n s'"
  shows "ends S n s"
proof -
  obtain s' where s': "speech_do S x s = Some s'" "speech_inv s'" using step_inv [OF assms(1-3)] by blast
  have "speech_reach S s t" if "speech_reach S s' t" for t
    by (rule steps_first [where x = x, OF that]) (use assms(2,3) s'(1) in simp_all)
  then show ?thesis using assms(4) [OF s'(2,1)] unfolding ends_def by blast
qed

lemma ends_out:
  assumes "speech_inv s" and "cleaning s n = Cleanup_release" and "media s = Media_out"
  shows "ends S n s"
proof -
  have "speech_do S (Cleanup_releases n) s = Some (cleanup_releases S n s)" by simp
  then have "speech_reach S s (cleanup_releases S n s)"
    using reach_step [OF reach_start, of "Cleanup_releases n" s S] assms(2,3) by simp
  moreover have "\<not> alive s" using speech_inv_holds(5) [OF assms(1), of n] assms(2) by simp
  ultimately show ?thesis by (auto simp: ends_def cleanup_releases_def at_cleanup_def intro!: exI [of _ "cleanup_releases S n s"])
qed

lemma ends_release:
  assumes "speech_inv s" and "cleaning s n = Cleanup_release"
  shows "ends S n s"
proof (cases "media s")
  case Media_entered
  have held: "holder s \<noteq> None" using speech_inv_holds(1) [OF assms(1), of n] assms(2) by simp
  show ?thesis
  proof (rule ends_step [OF assms(1), of Frame_trylock])
    fix s' assume "speech_inv s'" "speech_do S Frame_trylock s = Some s'"
    then show "ends S n s'" using ends_out [of s' n S] assms(2) held by (auto simp: speech_frame_trylock_def)
  qed (use Media_entered in simp_all)
next
  case Media_in
  then show ?thesis using speech_inv_holds(3) [OF assms(1), of n] assms(2) by simp
qed (use ends_out [OF assms] in simp)

lemma ends_join:
  assumes "speech_inv s" and "cleaning s n = Cleanup_join"
  shows "ends S n s"
proof -
  have joined: "ends S n s" if "speech_inv s" "cleaning s n = Cleanup_join" "reader s = Reader_done" for s
  proof (rule ends_step [OF that(1), of "Cleanup_joined n"])
    fix s' assume "speech_inv s'" "speech_do S (Cleanup_joined n) s = Some s'"
    then show "ends S n s'" using ends_release [of s' n S] by (auto simp: cleanup_joined_def at_cleanup_def)
  qed (use that in simp_all)
  have read: "ends S n s" if "speech_inv s" "cleaning s n = Cleanup_join" "reader s = Reader_read" for s
  proof (rule ends_step [OF that(1), of "Reader_ended True 0 False"])
    fix s' assume "speech_inv s'" "speech_do S (Reader_ended True 0 False) s = Some s'"
    then show "ends S n s'" using joined [of s'] that(2) by (auto simp: reader_ended_def on_streamer_def split: if_splits)
  qed (use that in simp_all)
  have call: "ends S n s" if "speech_inv s" "cleaning s n = Cleanup_join" "reader s = Reader_call" for s
  proof (rule ends_step [OF that(1), of Reader_calls])
    fix s' assume "speech_inv s'" "speech_do S Reader_calls s = Some s'"
    then show "ends S n s'" using read [of s'] that(2) by (auto simp: reader_calls_def on_streamer_def split: if_splits)
  qed (use that in simp_all)
  show ?thesis
  proof (cases "reader s")
    case Reader_wait
    have "m_promise (gstreamer s)" using assms by (auto simp: speech_inv_def connect_inv_def)
    show ?thesis
    proof (rule ends_step [OF assms(1), of Reader_woken])
      fix s' assume "speech_inv s'" "speech_do S Reader_woken s = Some s'"
      then show "ends S n s'"
        using read [of s'] joined [of s'] assms(2) by (cases "m_connected (gstreamer s)") (auto simp: reader_woken_def split: if_splits)
    qed (use Reader_wait \<open>m_promise (gstreamer s)\<close> in simp_all)
  next
    case Reader_test
    show ?thesis
    proof (rule ends_step [OF assms(1), of Reader_tests])
      fix s' assume "speech_inv s'" "speech_do S Reader_tests s = Some s'"
      then have "speech_inv s'" "cleaning s' n = Cleanup_join" "reader s' = Reader_call \<or> reader s' = Reader_read"
        using assms(2) by (auto simp: reader_tests_def bind_eq_Some_conv split: if_splits)
      then show "ends S n s'" using read [of s'] call [of s'] by blast
    qed (use Reader_test in simp_all)
  qed (use assms read call joined in blast)+
qed

text \<open>
  C31. A session can always be ended: whenever a thread is in the cleanup, there is a run, in which the server
  ends its responses and the other threads take the steps they have under way, after which the cleanup has
  returned, the mutex is free and the stream object is deleted. No thread is left waiting for another.
\<close>

theorem transcribe_cleanup_ends:
  assumes "speech_session_init V channels opts rate rok vw vm = Some (Some (S, s0))" and "speech_reach S s0 s"
    and "cleaning s n \<noteq> Cleanup_out"
  shows "\<exists>s'. speech_reach S s s' \<and> cleaning s' n = Cleanup_out \<and> holder s' = None \<and> \<not> alive s'"
proof -
  have inv: "speech_inv s" using speech.reach_inv [OF assms(2) init_inv [OF assms(1)]] .
  have call: "ends S n s" if "speech_inv s" "cleaning s n = Cleanup_call" for s
  proof (rule ends_step [OF that(1), of "Cleanup_calls n"])
    fix s' assume "speech_inv s'" "speech_do S (Cleanup_calls n) s = Some s'"
    then show "ends S n s'" using ends_join [of s' n S] by (auto simp: cleanup_calls_def on_streamer_def at_cleanup_def split: if_splits)
  qed (use that in simp_all)
  have "ends S n s"
  proof (cases "cleaning s n")
    case Cleanup_test
    show ?thesis
    proof (rule ends_step [OF inv, of "Cleanup_tests n"])
      fix s' assume "speech_inv s'" "speech_do S (Cleanup_tests n) s = Some s'"
      then have "speech_inv s'" "cleaning s' n = Cleanup_call \<or> cleaning s' n = Cleanup_join"
        by (auto simp: cleanup_tests_def at_cleanup_def bind_eq_Some_conv split: if_splits)
      then show "ends S n s'" using call [of s'] ends_join [of s' n S] by blast
    qed (use Cleanup_test in simp_all)
  qed (use assms(3) inv call ends_join ends_release in blast)+
  then show ?thesis by (simp add: ends_def)
qed

section \<open>The audio before the connection\<close>

fun streamer_writes :: "string list \<Rightarrow> streamer \<Rightarrow> streamer option" where
  "streamer_writes [] g = Some g"
| "streamer_writes (d # ds) g = do { g \<leftarrow> streamer_write d g; streamer_writes ds g }"

lemma writes_before:
  assumes "\<not> m_connected g" and "\<forall>d\<in>set ds. length d = CHUNKSIZE" and "buffer_adds (m_audioBuffer g) ds = Some b"
  shows "streamer_writes ds g = Some (g\<lparr> m_audioBuffer := b \<rparr>)"
  using assms
proof (induction ds arbitrary: g)
  case (Cons d ds)
  then obtain b1 where "buffer_add (m_audioBuffer g) d = Some b1" "buffer_adds b1 ds = Some b"
    by (auto simp: bind_eq_Some_conv)
  then show ?case using Cons.IH [of "g\<lparr> m_audioBuffer := b1 \<rparr>"] Cons.prems(1,2) by (simp add: streamer_write_def)
qed simp

lemma writes_after:
  assumes "m_connected g"
  shows "\<exists>g'. streamer_writes ds g = Some g' \<and> stream_calls g' = stream_calls g @ audio_calls (map (map Some) ds)"
  using assms
proof (induction ds arbitrary: g)
  case (Cons d ds)
  have "m_connected (send_audio (map Some d) g)" using Cons.prems by (simp add: send_audio_def on_stream_def)
  then show ?case using Cons.IH [of "send_audio (map Some d) g"] Cons.prems
    by (auto simp: streamer_write_def send_audio_def on_stream_def audio_calls_def)
qed simp

text \<open>
  C32. What the recognizer hears when the connection waits for speech: of at least fifteen frames of one
  chunk each the last fifteen, in order, and then every frame that follows. Of fewer frames before the
  speech it is sent as many chunks, but the first of them come from memory that was never written.
\<close>

theorem transcribe_replays_audio:
  assumes "\<forall>d\<in>set ds. length d = CHUNKSIZE"
  shows "\<exists>g1 g2 g3 audio. streamer_writes ds (streamer_new cfg) = Some g1 \<and> streamer_connect g1 = Some g2 \<and>
    streamer_writes es g2 = Some g3 \<and>
    stream_calls g3 = [StreamingRecognize, Write (Config_request cfg)] @ audio_calls (audio @ map (map Some) es) \<and>
    audio = (if 15 \<le> length ds then map (map Some) (drop (length ds - 15) ds)
      else map (\<lambda>i. if length ds + i < 15 then replicate CHUNKSIZE None else map Some (ds ! (length ds + i - 15))) [0..<length ds])"
proof -
  define audio :: "char option list list" where "audio = (if 15 \<le> length ds then map (map Some) (drop (length ds - 15) ds)
      else map (\<lambda>i. if length ds + i < 15 then replicate CHUNKSIZE None else map Some (ds ! (length ds + i - 15))) [0..<length ds])"
  have sizes: "0 < CHUNKSIZE" "CHUNKSIZE * 15 < 2 ^ 32" by (simp_all add: CHUNKSIZE_def)
  obtain b where b: "buffer_adds (simple_buffer_new CHUNKSIZE 15) ds = Some b" "fst (drain b) = audio"
  proof (cases "15 \<le> length ds")
    case True
    then show ?thesis
      using simple_buffer_keeps_last [OF sizes(1) _ sizes(2) assms] that by (auto simp: audio_def)
  next
    case False
    then show ?thesis
      using simple_buffer_not_full [OF sizes(1) sizes(2) assms] that by (auto simp: audio_def)
  qed
  define g1 where "g1 = (streamer_new cfg)\<lparr> m_audioBuffer := b \<rparr>"
  have g1: "streamer_writes ds (streamer_new cfg) = Some g1"
    using writes_before [of "streamer_new cfg" ds b] assms b(1) by (simp add: g1_def streamer_new_def)
  have new: "\<not> m_connected g1" "\<not> m_promise g1" "stream_order cfg g1" "m_audioBuffer g1 = b"
    by (simp_all add: g1_def streamer_new_def stream_order_def)
  obtain g2 where g2: "streamer_connect g1 = Some g2" using connect_stream [OF new(1,2)] by blast
  obtain sent where sent: "stream_calls g2 = [StreamingRecognize, Write (Config_request cfg)] @ audio_calls sent" "m_connected g2"
    "num_items b \<noteq> 0 \<longrightarrow> sent = audio" "num_items b = 0 \<longrightarrow> sent = []"
    using connect_calls [OF g2 new(3)] b(2) new(4) by auto
  have "sent = audio"
  proof (cases "num_items b = 0")
    case True
    then have "drain b = ([], b\<lparr> num_items := 2 ^ 32 - 1 \<rparr>)" by (simp add: drain.simps [of b] next_chunk_def)
    then show ?thesis using b(2) sent(4) True by simp
  qed (use sent(3) in simp)
  then show ?thesis using g1 g2 writes_after [OF sent(2), of es] sent(1) unfolding audio_def by auto
qed

section \<open>A concrete session\<close>

definition sample_session :: "bool \<Rightarrow> recognizer_setup \<times> speech" where
  "sample_session single = the (the (speech_session_init sample_recognizer 1
     (sample_options\<lparr> hints := None, single_utterance := single \<rparr>) 8000 True False False))"

lemma sample_session:
  "speech_session_init sample_recognizer 1 (sample_options\<lparr> hints := None, single_utterance := single \<rparr>) 8000 True False False =
     Some (Some (fst (sample_session single), snd (sample_session single)))"
  by (simp add: sample_session_def speech_session_init_def request_config_def sample_options_def streamer_connect_def streamer_new_def
    simple_buffer_new_def set_promise_def on_stream_def Let_def)


lemma transcribe_protocol_witness:
  "\<exists>cfg. request_config sample_recognizer 1 (sample_options\<lparr> hints := None, single_utterance := False \<rparr>) = Some cfg \<and>
     count_list (stream_calls (gstreamer (snd (sample_session False)))) Finish \<le> 1"
  using transcribe_protocol [OF sample_session [of False] reach_start] by auto

lemma transcribe_single_utterance_races_witness:
  "\<exists>s. speech_reach (fst (sample_session True)) (snd (sample_session True)) s \<and>
     count_list (stream_calls (gstreamer s)) WritesDone = 2"
  using transcribe_single_utterance_races [OF sample_session [of True]] by simp

lemma transcribe_cleanup_ends_witness:
  "\<exists>s'. speech_reach (fst (sample_session False)) (cleanup_begin (fst (sample_session False)) False 1 (snd (sample_session False))) s' \<and> \<not> alive s'"
proof -
  have s: "enabled (Cleanup_begin False 1) (snd (sample_session False))"
    "cleaning (cleanup_begin (fst (sample_session False)) False 1 (snd (sample_session False))) 1 \<noteq> Cleanup_out"
    by (simp_all add: sample_session_def speech_session_init_def request_config_def sample_options_def streamer_connect_def streamer_new_def
      simple_buffer_new_def set_promise_def on_stream_def cleanup_begin_def at_cleanup_def Let_def)
  have "speech_reach (fst (sample_session False)) (snd (sample_session False)) (cleanup_begin (fst (sample_session False)) False 1 (snd (sample_session False)))"
    by (rule reach_step [OF reach_start s(1)]) simp_all
  then show ?thesis using transcribe_cleanup_ends [OF sample_session [of False] _ s(2)] by blast
qed

definition sample_config :: streaming_config where
  "sample_config = the (request_config sample_recognizer 1 sample_options)"

lemma transcribe_replays_audio_witness:
  "\<exists>g1 g2. streamer_writes [replicate CHUNKSIZE CHR ''a''] (streamer_new sample_config) = Some g1 \<and> streamer_connect g1 = Some g2 \<and>
     stream_calls g2 = [StreamingRecognize, Write (Config_request sample_config), Write (Audio_request (replicate CHUNKSIZE None))]"
  using transcribe_replays_audio [of "[replicate CHUNKSIZE CHR ''a'']" sample_config "[]"] by (auto simp: audio_calls_def)

end
