(* ===== verification/DialogflowParser.thy ===== *)
theory DialogflowParser
  imports SpeechResult
begin

text \<open>
  \<open>mod_dialogflow/parser.cpp\<close>: the JSON of a response of Dialogflow. The classes of the messages are
  generated from Google's protocol; a message is the list of its set fields, and the accessors give the
  default of proto3 for the others. The name of the value 0 of an enumeration is the parameter
  \<open>enum_zero\<close>. Texts hold no zero bytes.
\<close>

section \<open>Messages\<close>

datatype pb_value =
    V_unset | V_null | V_num dbl | V_text string | V_bool bool
  | V_struct "(string \<times> pb_value) list"         \<comment> \<open>in the order of iteration\<close>
  | V_list "pb_value list"

datatype pb_field =
    F_text string | F_num dbl | F_int int | F_flag bool | F_enum string
  | F_texts "string list" | F_struct "(string \<times> pb_value) list"
  | F_msg "(string \<times> pb_field) list" | F_msgs "(string \<times> pb_field) list list"

type_synonym message = "(string \<times> pb_field) list"

type_synonym enum_zero = "string \<Rightarrow> string"

definition has :: "message \<Rightarrow> string \<Rightarrow> bool" where
  "has m k \<longleftrightarrow> map_of m k \<noteq> None"

definition text_of :: "message \<Rightarrow> string \<Rightarrow> string" where
  "text_of m k = (case map_of m k of Some (F_text s) \<Rightarrow> s | _ \<Rightarrow> [])"

definition num_of :: "message \<Rightarrow> string \<Rightarrow> dbl" where
  "num_of m k = (case map_of m k of Some (F_num d) \<Rightarrow> d | _ \<Rightarrow> Fin 0)"

definition int_of :: "message \<Rightarrow> string \<Rightarrow> int" where
  "int_of m k = (case map_of m k of Some (F_int i) \<Rightarrow> i | _ \<Rightarrow> 0)"

definition flag_of :: "message \<Rightarrow> string \<Rightarrow> bool" where
  "flag_of m k = (case map_of m k of Some (F_flag b) \<Rightarrow> b | _ \<Rightarrow> False)"

definition enum_of :: "enum_zero \<Rightarrow> string \<Rightarrow> message \<Rightarrow> string \<Rightarrow> string" where
  "enum_of Z ty m k = (case map_of m k of Some (F_enum s) \<Rightarrow> s | _ \<Rightarrow> Z ty)"

definition texts_of :: "message \<Rightarrow> string \<Rightarrow> string list" where
  "texts_of m k = (case map_of m k of Some (F_texts ss) \<Rightarrow> ss | _ \<Rightarrow> [])"

definition struct_of :: "message \<Rightarrow> string \<Rightarrow> (string \<times> pb_value) list" where
  "struct_of m k = (case map_of m k of Some (F_struct fs) \<Rightarrow> fs | _ \<Rightarrow> [])"

definition msg_of :: "message \<Rightarrow> string \<Rightarrow> message" where
  "msg_of m k = (case map_of m k of Some (F_msg x) \<Rightarrow> x | _ \<Rightarrow> [])"

definition msgs_of :: "message \<Rightarrow> string \<Rightarrow> message list" where
  "msgs_of m k = (case map_of m k of Some (F_msgs xs) \<Rightarrow> xs | _ \<Rightarrow> [])"

definition optional :: "message \<Rightarrow> string \<Rightarrow> string \<times> json \<Rightarrow> (string \<times> json) list" where
  "optional m k e = (if has m k then [e] else [])"

section \<open>Values\<close>

text \<open>A value that is not set gives NULL, which cJSON does not add to an object or an array.\<close>

fun parse_value :: "pb_value \<Rightarrow> json option" where
  "parse_value V_unset = None"
| "parse_value V_null = Some JNull"
| "parse_value (V_num d) = Some (JNum d)"
| "parse_value (V_text s) = Some (JText s)"
| "parse_value (V_bool b) = Some (JBool b)"
| "parse_value (V_struct fs) = Some (JObject (concat (map (\<lambda>(k, v). case parse_value v of Some j \<Rightarrow> [(k, j)] | None \<Rightarrow> []) fs)))"
| "parse_value (V_list vs) = Some (JArray (concat (map (\<lambda>v. case parse_value v of Some j \<Rightarrow> [j] | None \<Rightarrow> []) vs)))"

definition parse_struct :: "(string \<times> pb_value) list \<Rightarrow> json" where
  "parse_struct fs = JObject (concat (map (\<lambda>(k, v). case parse_value v of Some j \<Rightarrow> [(k, j)] | None \<Rightarrow> []) fs))"

section \<open>The functions of the parser\<close>

definition parse_voice_selection_params :: "enum_zero \<Rightarrow> message \<Rightarrow> json" where
  "parse_voice_selection_params Z m = JObject [
     (''name'', JText (text_of m ''name'')),
     (''ssml_gender'', JText (enum_of Z ''SsmlVoiceGender'' m ''ssml_gender''))]"

definition parse_synthesize_speech_config :: "enum_zero \<Rightarrow> message \<Rightarrow> json" where
  "parse_synthesize_speech_config Z m = JObject [
     (''speaking_rate'', JNum (num_of m ''speaking_rate'')),
     (''pitch'', JNum (num_of m ''pitch'')),
     (''volume_gain_db'', JNum (num_of m ''volume_gain_db'')),
     (''effects_profile_id'', JArray (map JText (texts_of m ''effects_profile_id''))),
     (''voice'', parse_voice_selection_params Z (msg_of m ''voice''))]"

definition parse_output_audio_config :: "enum_zero \<Rightarrow> message \<Rightarrow> json" where
  "parse_output_audio_config Z m = JObject [
     (''audio_encoding'', JText (enum_of Z ''OutputAudioEncoding'' m ''audio_encoding'')),
     (''sample_rate_hertz'', num (int_of m ''sample_rate_hertz'')),
     (''synthesize_speech_config'', parse_synthesize_speech_config Z (msg_of m ''synthesize_speech_config''))]"

definition parse_followup_intent_info :: "message \<Rightarrow> json" where
  "parse_followup_intent_info m = JObject [
     (''followup_intent_name'', JText (text_of m ''followup_intent_name'')),
     (''parent_followup_intent_name'', JText (text_of m ''parent_followup_intent_name''))]"

definition parse_card_button :: "message \<Rightarrow> json" where
  "parse_card_button m = JObject [
     (''text'', JText (text_of m ''text'')),
     (''postback'', JText (text_of m ''postback''))]"

definition parse_card :: "message \<Rightarrow> json" where
  "parse_card m = JObject [
     (''title'', JText (text_of m ''title'')),
     (''subtitle'', JText (text_of m ''subtitle'')),
     (''image_uri'', JText (text_of m ''image_uri'')),
     (''buttons'', JArray (map parse_card_button (msgs_of m ''buttons'')))]"

definition parse_image :: "message \<Rightarrow> json" where
  "parse_image m = JObject [
     (''accessibility_text'', JText (text_of m ''accessibility_text'')),
     (''image_uri'', JText (text_of m ''image_uri''))]"

definition parse_link_out_suggestion :: "message \<Rightarrow> json" where
  "parse_link_out_suggestion m = JObject [
     (''destination_name'', JText (text_of m ''destination_name'')),
     (''uri'', JText (text_of m ''uri''))]"

definition parse_select_item_info :: "message \<Rightarrow> json" where
  "parse_select_item_info m = JObject [
     (''key'', JText (text_of m ''key'')),
     (''synonyms'', JArray (map JText (texts_of m ''synonyms'')))]"

definition parse_list_select_item :: "message \<Rightarrow> json" where
  "parse_list_select_item m = JObject [
     (''info'', parse_select_item_info (msg_of m ''info'')),
     (''title'', JText (text_of m ''title'')),
     (''description'', JText (text_of m ''description'')),
     (''image'', parse_image (msg_of m ''image''))]"

definition parse_list_select :: "message \<Rightarrow> json" where
  "parse_list_select m = JObject [
     (''title'', JText (text_of m ''title'')),
     (''items'', JArray (map parse_list_select_item (msgs_of m ''items'')))]"

definition parse_quick_replies :: "message \<Rightarrow> json" where
  "parse_quick_replies m = JObject [
     (''title'', JText (text_of m ''title'')),
     (''quick_replies'', JArray (map JText (texts_of m ''quick_replies'')))]"

definition parse_simple_response :: "message \<Rightarrow> json" where
  "parse_simple_response m = JObject [
     (''ssml'', JText (text_of m ''ssml'')),
     (''text_to_speech'', JText (text_of m ''text_to_speech'')),
     (''display_text'', JText (text_of m ''display_text''))]"

definition parse_simple_responses :: "message \<Rightarrow> json" where
  "parse_simple_responses m = JObject [
     (''simple_responses'', JArray (map parse_simple_response (msgs_of m ''simple_responses'')))]"

definition parse_suggestion :: "message \<Rightarrow> json" where
  "parse_suggestion m = JObject [
     (''title'', JText (text_of m ''title''))]"

definition parse_suggestions :: "message \<Rightarrow> json" where
  "parse_suggestions m = JObject [
     (''suggestions'', JArray (map parse_suggestion (msgs_of m ''suggestions'')))]"

definition parse_telephony_play_audio :: "message \<Rightarrow> json" where
  "parse_telephony_play_audio m = JObject [
     (''audio_uri'', JText (text_of m ''audio_uri''))]"

definition parse_telephony_synthesize_speech :: "message \<Rightarrow> json" where
  "parse_telephony_synthesize_speech m = JObject [
     (''text'', JText (text_of m ''text'')),
     (''ssml'', JText (text_of m ''ssml''))]"

definition parse_telephony_transfer_call :: "message \<Rightarrow> json" where
  "parse_telephony_transfer_call m = JObject [
     (''phone_number'', JText (text_of m ''phone_number''))]"

definition parse_text :: "message \<Rightarrow> json" where
  "parse_text m = JObject [
     (''text'', JArray (map JText (texts_of m ''text'')))]"

definition parse_intent_message :: "enum_zero \<Rightarrow> message \<Rightarrow> json" where
  "parse_intent_message Z m = JObject (
     [(''platform'', JText (enum_of Z ''Intent_Message_Platform'' m ''platform''))] @
     optional m ''text'' (''text'', parse_text (msg_of m ''text'')) @
     optional m ''image'' (''image'', parse_image (msg_of m ''image'')) @
     optional m ''quick_replies'' (''quick_replies'', parse_quick_replies (msg_of m ''quick_replies'')) @
     optional m ''card'' (''card'', parse_card (msg_of m ''card'')) @
     optional m ''payload'' (''payload'', parse_struct (struct_of m ''payload'')) @
     optional m ''simple_responses'' (''simple_responses'', parse_simple_responses (msg_of m ''simple_responses'')) @
     optional m ''basic_card'' (''basic_card'', parse_card (msg_of m ''card'')) @
     optional m ''suggestions'' (''suggestions'', parse_suggestions (msg_of m ''suggestions'')) @
     optional m ''link_out_suggestion'' (''link_out_suggestion'', parse_link_out_suggestion (msg_of m ''link_out_suggestion'')) @
     optional m ''list_select'' (''list_select'', parse_list_select (msg_of m ''list_select'')) @
     optional m ''telephony_play_audio'' (''telephony_play_audio'', parse_telephony_play_audio (msg_of m ''telephony_play_audio'')) @
     optional m ''telephony_synthesize_speech'' (''telephony_synthesize_speech'', parse_telephony_synthesize_speech (msg_of m ''telephony_synthesize_speech'')) @
     optional m ''telephony_transfer_call'' (''telephony_transfer_call'', parse_telephony_transfer_call (msg_of m ''telephony_transfer_call'')))"

definition parse_parameter :: "message \<Rightarrow> json" where
  "parse_parameter m = JObject [
     (''name'', JText (text_of m ''name'')),
     (''display_name'', JText (text_of m ''display_name'')),
     (''value'', JText (text_of m ''value'')),
     (''default_value'', JText (text_of m ''default_value'')),
     (''entity_type_display_name'', JText (text_of m ''entity_type_display_name'')),
     (''mandatory'', JBool (flag_of m ''mandatory'')),
     (''prompts'', JArray (map JText (texts_of m ''prompts''))),
     (''is_list'', JBool (flag_of m ''is_list''))]"

definition parse_training_phrase_part :: "message \<Rightarrow> json" where
  "parse_training_phrase_part m = JObject [
     (''text'', JText (text_of m ''text'')),
     (''entity_type'', JText (text_of m ''entity_type'')),
     (''alias'', JText (text_of m ''alias'')),
     (''user'', JBool (flag_of m ''user_defined''))]"

definition parse_training_phrase :: "enum_zero \<Rightarrow> message \<Rightarrow> json" where
  "parse_training_phrase Z m = JObject [
     (''name'', JText (text_of m ''name'')),
     (''type'', JText (enum_of Z ''Intent_TrainingPhrase_Type'' m ''type'')),
     (''parts'', JArray (map parse_training_phrase_part (msgs_of m ''parts''))),
     (''times_added_count'', num (int_of m ''times_added_count''))]"

definition parse_context :: "message \<Rightarrow> json" where
  "parse_context m = JObject (
     [(''name'', JText (text_of m ''name'')),
      (''lifespan_count'', num (int_of m ''lifespan_count''))] @
     optional m ''parameters'' (''parameters'', parse_struct (struct_of m ''parameters'')))"

definition parse_intent :: "enum_zero \<Rightarrow> message \<Rightarrow> json" where
  "parse_intent Z m = JObject [
     (''name'', JText (text_of m ''name'')),
     (''display_name'', JText (text_of m ''display_name'')),
     (''webhook_state'', JText (enum_of Z ''Intent_WebhookState'' m ''webhook_state'')),
     (''priority'', num (int_of m ''priority'')),
     (''is_fallback'', JBool (flag_of m ''is_fallback'')),
     (''ml_disabled'', JBool (flag_of m ''ml_disabled'')),
     (''end_interaction'', JBool (flag_of m ''end_interaction'')),
     (''input_context_names'', JArray (map JText (texts_of m ''input_context_names''))),
     (''events'', JArray (map JText (texts_of m ''events''))),
     (''training_phrases'', JArray (map (parse_training_phrase Z) (msgs_of m ''training_phrases''))),
     (''action'', JText (text_of m ''action'')),
     (''output_contexts'', JArray (map parse_context (msgs_of m ''output_contexts''))),
     (''reset_contexts'', JBool (flag_of m ''reset_contexts'')),
     (''parameters'', JArray (map parse_parameter (msgs_of m ''parameters''))),
     (''messages'', JArray (map (parse_intent_message Z) (msgs_of m ''messages''))),
     (''default_response_platforms'', JArray (map JText (texts_of m ''default_response_platforms''))),
     (''root_followup_intent_name'', JText (text_of m ''root_followup_intent_name'')),
     (''followup_intent_info'', JArray (map parse_followup_intent_info (msgs_of m ''followup_intent_info'')))]"

definition parse_knowledge_answers_answer :: "enum_zero \<Rightarrow> message \<Rightarrow> json" where
  "parse_knowledge_answers_answer Z m = JObject [
     (''source'', JText (text_of m ''source'')),
     (''faq_question'', JText (text_of m ''faq_question'')),
     (''answer'', JText (text_of m ''answer'')),
     (''match_confidence_level'', JText (enum_of Z ''KnowledgeAnswers_Answer_MatchConfidenceLevel'' m ''match_confidence_level'')),
     (''match_confidence'', JNum (num_of m ''match_confidence''))]"

definition parse_knowledge_answers :: "enum_zero \<Rightarrow> message \<Rightarrow> json" where
  "parse_knowledge_answers Z m = JObject [
     (''answers'', JArray (map (parse_knowledge_answers_answer Z) (msgs_of m ''answers'')))]"

definition parse_sentiment :: "message \<Rightarrow> json" where
  "parse_sentiment m = JObject [
     (''score'', JNum (num_of m ''score'')),
     (''magnitude'', JNum (num_of m ''magnitude''))]"

definition parse_sentiment_analysis_result :: "message \<Rightarrow> json" where
  "parse_sentiment_analysis_result m = JObject [
     (''query_text_sentiment'', parse_sentiment (msg_of m ''query_text_sentiment''))]"

definition parse_query_result :: "enum_zero \<Rightarrow> message \<Rightarrow> json" where
  "parse_query_result Z m = JObject (
     [(''query_text'', JText (text_of m ''query_text'')),
      (''language_code'', JText (text_of m ''language_code'')),
      (''speech_recognition_confidence'', JNum (num_of m ''speech_recognition_confidence'')),
      (''action'', JText (text_of m ''action'')),
      (''parameters'', parse_struct (struct_of m ''parameters'')),
      (''all_required_params_present'', JBool (flag_of m ''all_required_params_present'')),
      (''fulfillment_text'', JText (text_of m ''fulfillment_text'')),
      (''fulfillment_messages'', JArray (map (parse_intent_message Z) (msgs_of m ''fulfillment_messages''))),
      (''webhook_source'', JText (text_of m ''webhook_source''))] @
     optional m ''webhook_payload'' (''webhook_payload'', parse_struct (struct_of m ''webhook_payload'')) @
     [(''output_contexts'', JArray (map parse_context (msgs_of m ''output_contexts''))),
      (''intent'', parse_intent Z (msg_of m ''intent'')),
      (''intent_detection_confidence'', JNum (num_of m ''intent_detection_confidence''))] @
     optional m ''diagnostic_info'' (''diagnostic_info'', parse_struct (struct_of m ''diagnostic_info'')) @
     [(''sentiment_analysis_result'', parse_sentiment_analysis_result (msg_of m ''sentiment_analysis_result'')),
      (''knowledge_answers'', parse_knowledge_answers Z (msg_of m ''knowledge_answers''))])"

definition parse_streaming_recognition_result :: "enum_zero \<Rightarrow> message \<Rightarrow> json" where
  "parse_streaming_recognition_result Z m = JObject [
     (''message_type'', JText (enum_of Z ''StreamingRecognitionResult_MessageType'' m ''message_type'')),
     (''transcript'', JText (text_of m ''transcript'')),
     (''is_final'', JBool (flag_of m ''is_final'')),
     (''confidence'', JNum (num_of m ''confidence''))]"

definition parse_status :: "message \<Rightarrow> json" where
  "parse_status m = JObject [
     (''code'', num (int_of m ''code'')),
     (''message'', JText (text_of m ''message''))]"

definition parse_streaming_detect_intent_response :: "enum_zero \<Rightarrow> message \<Rightarrow> json" where
  "parse_streaming_detect_intent_response Z m = JObject (
     [(''response_id'', JText (text_of m ''response_id''))] @
     optional m ''recognition_result'' (''recognition_result'', parse_streaming_recognition_result Z (msg_of m ''recognition_result'')) @
     optional m ''query_result'' (''query_result'', parse_query_result Z (msg_of m ''query_result'')) @
     [(''alternative_query_results'', JArray (map (parse_query_result Z) (msgs_of m ''alternative_query_results''))),
      (''webhook_status'', parse_status (msg_of m ''webhook_status''))] @
     optional m ''output_audio_config'' (''output_audio_config'', parse_output_audio_config Z (msg_of m ''output_audio_config'')))"

definition parse_basic_card_button_open_uri_action :: "message \<Rightarrow> json" where
  "parse_basic_card_button_open_uri_action m = JObject [
     (''uri'', JText (text_of m ''uri''))]"

definition parse_basic_card_button :: "message \<Rightarrow> json" where
  "parse_basic_card_button m = JObject [
     (''title'', JText (text_of m ''title'')),
     (''open_uri_action'', parse_basic_card_button_open_uri_action (msg_of m ''open_uri_action''))]"

definition parse_basic_card :: "message \<Rightarrow> json" where
  "parse_basic_card m = JObject [
     (''title'', JText (text_of m ''title'')),
     (''subtitle'', JText (text_of m ''subtitle'')),
     (''formatted_text'', JText (text_of m ''formatted_text'')),
     (''image'', parse_image (msg_of m ''image'')),
     (''buttons'', JArray (map parse_basic_card_button (msgs_of m ''buttons'')))]"

definition parse_carousel_select_item :: "message \<Rightarrow> json" where
  "parse_carousel_select_item m = JObject [
     (''info'', parse_select_item_info (msg_of m ''info'')),
     (''title'', JText (text_of m ''title'')),
     (''description'', JText (text_of m ''description'')),
     (''image'', parse_image (msg_of m ''image''))]"

definition parse_carousel_select :: "message \<Rightarrow> json" where
  "parse_carousel_select m = JObject [
     (''items'', JArray (map parse_carousel_select_item (msgs_of m ''items'')))]"

section \<open>Cards\<close>

text \<open>
  Basic cards are lost: the message of a basic card is the only one of its alternatives that is set, and
  the parser reads the fields of the other kind of card, so the JSON of every basic card is the same, with
  empty texts and no button.
\<close>

theorem dialogflow_basic_card_lost:
  assumes "has m ''basic_card''" and "\<not> has m ''card''"
  shows "\<exists>fs. parse_intent_message Z m = JObject fs \<and> map_of fs ''basic_card'' =
    Some (JObject [(''title'', JText []), (''subtitle'', JText []), (''image_uri'', JText []), (''buttons'', JArray [])])"
proof -
  have "msg_of m ''card'' = []" using assms(2) by (simp add: msg_of_def has_def)
  then have "parse_card (msg_of m ''card'') =
      JObject [(''title'', JText []), (''subtitle'', JText []), (''image_uri'', JText []), (''buttons'', JArray [])]"
    by (simp add: parse_card_def text_of_def msgs_of_def)
  then show ?thesis using assms(1) by (simp add: parse_intent_message_def optional_def)
qed

lemma dialogflow_basic_card_lost_witness:
  "\<exists>fs. parse_intent_message (\<lambda>_. []) [(''basic_card'', F_msg [(''title'', F_text ''Hello'')])] = JObject fs \<and> map_of fs ''basic_card'' =
    Some (JObject [(''title'', JText []), (''subtitle'', JText []), (''image_uri'', JText []), (''buttons'', JArray [])])"
  by (rule dialogflow_basic_card_lost) (simp_all add: has_def)

end
