(* ===== verification/DialogflowRequest.thy ===== *)
theory DialogflowRequest
  imports DialogflowParser
begin

text \<open>
  The first request of \<open>mod_dialogflow/google_glue.cpp\<close>: \<open>tokenize\<close>, the constructor of \<open>GStreamer\<close>,
  \<open>startStream\<close> and \<open>parseEventParams\<close>. The channel variables, \<open>stod\<close> and cJSON are the parameter
  \<open>dialogflow_env\<close>; \<open>stod\<close> throws on a text that is no number, and nothing catches it.
\<close>

section \<open>The project\<close>

text \<open>The tokens between the delimiters, of which there is always one more than delimiters.\<close>

lemma cut_at_shorter: "cut_at c s = (a, Some b) \<Longrightarrow> length b < length s"
  by (induction s arbitrary: a) (auto split: if_splits prod.splits)

function tokenize :: "char \<Rightarrow> string \<Rightarrow> string list" where
  "tokenize d s = (case cut_at d s of (a, None) \<Rightarrow> [a] | (a, Some b) \<Rightarrow> a # tokenize d b)"
  by pat_completeness auto
termination by (relation "measure (\<lambda>(d, s). length s)") (auto dest: cut_at_shorter [OF sym])

declare tokenize.simps [simp del]

record dialogflow_env =
  df_var :: "string \<Rightarrow> string option"
  df_stod :: "string \<Rightarrow> dbl option"
  df_json :: "string \<Rightarrow> json option"

record df_options =
  df_project :: string
  df_environment :: string
  df_region :: string
  df_speaking_rate :: dbl
  df_pitch :: dbl
  df_volume :: dbl
  df_voice_name :: string
  df_voice_gender :: string
  df_effects :: string
  df_sentiment :: bool

definition df_defaults :: df_options where
  "df_defaults = \<lparr> df_project = [], df_environment = ''draft'', df_region = ''us'', df_speaking_rate = Fin 0, df_pitch = Fin 0,
     df_volume = Fin 0, df_voice_name = [], df_voice_gender = [], df_effects = [], df_sentiment = False \<rparr>"

definition df_token :: "dialogflow_env \<Rightarrow> nat \<Rightarrow> string \<Rightarrow> df_options \<Rightarrow> df_options option" where
  "df_token V idx s p =
     (if idx = 0 then Some (p\<lparr> df_project := s \<rparr>)
      else if s = [] then Some p
      else if idx = 1 then Some (p\<lparr> df_environment := s \<rparr>)
      else if idx = 2 then Some (p\<lparr> df_region := s \<rparr>)
      else if idx = 3 then map_option (\<lambda>x. p\<lparr> df_speaking_rate := x \<rparr>) (df_stod V s)
      else if idx = 4 then map_option (\<lambda>x. p\<lparr> df_pitch := x \<rparr>) (df_stod V s)
      else if idx = 5 then map_option (\<lambda>x. p\<lparr> df_volume := x \<rparr>) (df_stod V s)
      else if idx = 6 then Some (p\<lparr> df_voice_name := s \<rparr>)
      else if idx = 7 then Some (p\<lparr> df_voice_gender := s \<rparr>)
      else if idx = 8 then Some (p\<lparr> df_effects := s \<rparr>)
      else if idx = 9 then Some (p\<lparr> df_sentiment := (s = ''true'') \<rparr>)
      else Some p)"

fun df_tokens :: "dialogflow_env \<Rightarrow> nat \<Rightarrow> string list \<Rightarrow> df_options \<Rightarrow> df_options option" where
  "df_tokens V idx [] p = Some p"
| "df_tokens V idx (s # ss) p = do { p \<leftarrow> df_token V idx s p; df_tokens V (idx + 1) ss p }"

definition df_parse_project :: "dialogflow_env \<Rightarrow> string \<Rightarrow> df_options option" where
  "df_parse_project V projectId = df_tokens V 0 (tokenize CHR '':'' projectId) df_defaults"

definition df_endpoint :: "df_options \<Rightarrow> string" where
  "df_endpoint p = (if df_region p = ''us'' then ''dialogflow.googleapis.com''
     else df_region p @ ''-dialogflow.googleapis.com:443'')"

section \<open>The parameters of an event\<close>

definition scalar_value :: "json \<Rightarrow> pb_value option" where
  "scalar_value j = (case j of JBool b \<Rightarrow> Some (V_bool b) | JNum d \<Rightarrow> Some (V_num d) | JText s \<Rightarrow> Some (V_text s) | _ \<Rightarrow> None)"

text \<open>The items of a node with their names; those of an array have none.\<close>

definition json_items :: "json \<Rightarrow> (string option \<times> json) list" where
  "json_items j = (case j of JObject xs \<Rightarrow> map (\<lambda>(k, x). (Some k, x)) xs | JArray xs \<Rightarrow> map (Pair None) xs | _ \<Rightarrow> [])"

text \<open>\<open>map->insert\<close> keeps the entry that is there; the name of the item becomes a string.\<close>

fun add_params :: "(string option \<times> json) list \<Rightarrow> (string \<times> pb_value) list \<Rightarrow> (string \<times> pb_value) list option" where
  "add_params [] m = Some m"
| "add_params ((name, j) # xs) m = (case scalar_value j of
     None \<Rightarrow> add_params xs m
   | Some v \<Rightarrow> do { k \<leftarrow> deref name; add_params xs (if map_of m k = None then m @ [(k, v)] else m) })"

definition parse_event_params :: "json \<Rightarrow> (string \<times> pb_value) list option" where
  "parse_event_params j = add_params (json_items j) []"

section \<open>The request\<close>

datatype voice_gender = SSML_VOICE_GENDER_UNSPECIFIED | SSML_VOICE_GENDER_MALE | SSML_VOICE_GENDER_FEMALE | SSML_VOICE_GENDER_NEUTRAL

datatype df_query =
    Query_event string string "(string \<times> pb_value) list"   \<comment> \<open>name, language, parameters\<close>
  | Query_text string string                               \<comment> \<open>text, language\<close>
  | Query_audio int string bool                            \<comment> \<open>rate, language, single utterance\<close>

record df_output =
  out_speaking_rate :: "dbl option"
  out_pitch :: "dbl option"
  out_volume_gain_db :: "dbl option"
  out_effects :: "string list"
  out_voice_name :: string
  out_gender :: voice_gender

record df_request =
  req_session :: string
  req_query :: "df_query option"
  req_output :: "df_output option"
  req_sentiment :: bool
  req_audio :: "string option"

definition c_toupper :: "char \<Rightarrow> char" where
  "c_toupper c = (if 97 \<le> (of_char c :: nat) \<and> (of_char c :: nat) \<le> 122 then char_of ((of_char c :: nat) - 32) else c)"

definition df_gender :: "string \<Rightarrow> voice_gender" where
  "df_gender g = (case g of
     [] \<Rightarrow> SSML_VOICE_GENDER_UNSPECIFIED
   | c # _ \<Rightarrow> (if c_toupper c = CHR ''F'' then SSML_VOICE_GENDER_MALE
       else if c_toupper c = CHR ''M'' then SSML_VOICE_GENDER_FEMALE
       else if c_toupper c = CHR ''N'' then SSML_VOICE_GENDER_NEUTRAL
       else SSML_VOICE_GENDER_UNSPECIFIED))"

text \<open>A double is a condition: true unless it is zero.\<close>

definition dbl_true :: "dbl \<Rightarrow> bool" where
  "dbl_true d \<longleftrightarrow> d \<noteq> Fin 0"

definition any_output_changed :: "df_options \<Rightarrow> bool" where
  "any_output_changed p \<longleftrightarrow> dbl_true (df_speaking_rate p) \<or> dbl_true (df_pitch p) \<or> dbl_true (df_volume p) \<or>
     df_voice_name p \<noteq> [] \<or> df_voice_gender p \<noteq> [] \<or> df_effects p \<noteq> []"

definition df_output_config :: "df_options \<Rightarrow> df_output option" where
  "df_output_config p =
     (if any_output_changed p then Some
        \<lparr> out_speaking_rate = (if dbl_true (df_speaking_rate p) then Some (df_speaking_rate p) else None),
          out_pitch = (if dbl_true (df_pitch p) then Some (df_pitch p) else None),
          out_volume_gain_db = (if dbl_true (df_volume p) then Some (df_volume p) else None),
          out_effects = (if df_effects p \<noteq> [] then [df_effects p] else []),
          out_voice_name = df_voice_name p,
          out_gender = df_gender (df_voice_gender p) \<rparr>
      else None)"

definition df_session_name :: "df_options \<Rightarrow> string \<Rightarrow> string" where
  "df_session_name p sid = snprintf_buf 256 (''projects/'' @ df_project p @ ''/locations/'' @ df_region p @
     ''/agent/environments/'' @ df_environment p @ ''/users/-/sessions/'' @ sid)"

text \<open>The parameters of an event are added only if its text is JSON.\<close>

definition df_query :: "dialogflow_env \<Rightarrow> string \<Rightarrow> string option \<Rightarrow> string option \<Rightarrow> df_query option" where
  "df_query V lng event txt = (case event of
     Some e \<Rightarrow> do {
       ps \<leftarrow> (case Option.bind txt (df_json V) of Some j \<Rightarrow> parse_event_params j | None \<Rightarrow> Some []);
       Some (Query_event e lng ps) }
   | None \<Rightarrow> Some (case txt of Some t \<Rightarrow> Query_text t lng | None \<Rightarrow> Query_audio 16000 lng True))"

definition df_first_request ::
  "dialogflow_env \<Rightarrow> df_options \<Rightarrow> string \<Rightarrow> string \<Rightarrow> string option \<Rightarrow> string option \<Rightarrow> df_request option" where
  "df_first_request V p lng sid event txt = do {
     query \<leftarrow> df_query V lng event txt;
     Some \<lparr> req_session = df_session_name p sid, req_query = Some query, req_output = df_output_config p,
       req_sentiment = df_sentiment p, req_audio = None \<rparr>
   }"

section \<open>Tokens\<close>

fun join_with :: "char \<Rightarrow> string list \<Rightarrow> string" where
  "join_with d [] = []"
| "join_with d [t] = t"
| "join_with d (t # u # ts) = t @ d # join_with d (u # ts)"

lemma join_Cons: "ts \<noteq> [] \<Longrightarrow> join_with d (t # ts) = t @ d # join_with d ts"
  by (cases ts) simp_all

lemma cut_at_parts: "cut_at d s = (a, r) \<Longrightarrow> d \<notin> set a \<and> s = a @ (case r of None \<Rightarrow> [] | Some b \<Rightarrow> d # b)"
  by (induction s arbitrary: a r) (auto split: if_splits prod.splits)

lemma cut_at_first: "d \<notin> set a \<Longrightarrow> cut_at d (a @ d # b) = (a, Some b)" "d \<notin> set a \<Longrightarrow> cut_at d a = (a, None)"
  by (induction a) auto

lemma tokenize_nonempty [simp]: "tokenize d s \<noteq> []"
  by (subst tokenize.simps) (auto split: prod.split option.split)

text \<open>
  The tokens of a project: they hold no delimiter, joined with delimiters they are the text again, and every
  list of texts without delimiter is what its join is taken apart into.
\<close>

theorem dialogflow_tokens:
  "join_with d (tokenize d s) = s \<and> (\<forall>t\<in>set (tokenize d s). d \<notin> set t) \<and>
   (ts \<noteq> [] \<longrightarrow> (\<forall>t\<in>set ts. d \<notin> set t) \<longrightarrow> tokenize d (join_with d ts) = ts)"
proof (intro conjI impI)
  show "join_with d (tokenize d s) = s"
  proof (induction d s rule: tokenize.induct)
    case (1 d s)
    obtain a r where c: "cut_at d s = (a, r)" by fastforce
    have tokens: "tokenize d s = (case r of None \<Rightarrow> [a] | Some b \<Rightarrow> a # tokenize d b)"
      by (simp add: tokenize.simps [of d s] c split: option.split)
    show ?case
      unfolding tokens using cut_at_parts [OF c] 1 [OF c [symmetric]] by (cases r) (auto simp: join_Cons)
  qed
  show "\<forall>t\<in>set (tokenize d s). d \<notin> set t"
  proof (induction d s rule: tokenize.induct)
    case (1 d s)
    obtain a r where c: "cut_at d s = (a, r)" by fastforce
    have tokens: "tokenize d s = (case r of None \<Rightarrow> [a] | Some b \<Rightarrow> a # tokenize d b)"
      by (simp add: tokenize.simps [of d s] c split: option.split)
    show ?case
      unfolding tokens using cut_at_parts [OF c] 1 [OF c [symmetric]] by (cases r) auto
  qed
  show "tokenize d (join_with d ts) = ts" if "ts \<noteq> []" "\<forall>t\<in>set ts. d \<notin> set t"
    using that
  proof (induction ts rule: join_with.induct)
    case (2 d t)
    then show ?case by (simp add: tokenize.simps [of d t] cut_at_first)
  next
    case (3 d t u ts)
    then show ?case by (simp add: tokenize.simps [of d "t @ d # join_with d (u # ts)"] cut_at_first)
  qed simp
qed

lemma dialogflow_tokens_witness: "tokenize CHR '':'' (join_with CHR '':'' [''p'', [], ''eu'']) = [''p'', [], ''eu'']"
  using dialogflow_tokens [of "CHR '':''" "[]" "[''p'', [], ''eu'']"] by simp

section \<open>Options and voices\<close>

lemma c_toupper_letters:
  "c_toupper CHR ''F'' = CHR ''F''" "c_toupper CHR ''f'' = CHR ''F''" "c_toupper CHR ''M'' = CHR ''M''" "c_toupper CHR ''m'' = CHR ''M''"
  by code_simp+

text \<open>
  The voice: the gender that is asked for is exchanged, a name that starts with an F asks for a male
  voice and one that starts with an M for a female one, in either case of the letter.
\<close>

lemma dialogflow_gender_swapped:
  "(df_gender (CHR ''F'' # s) = SSML_VOICE_GENDER_MALE \<and> df_gender (CHR ''f'' # s) = SSML_VOICE_GENDER_MALE) \<and>
   (df_gender (CHR ''M'' # s) = SSML_VOICE_GENDER_FEMALE \<and> df_gender (CHR ''m'' # s) = SSML_VOICE_GENDER_FEMALE)"
  by (simp add: df_gender_def c_toupper_letters)

section \<open>Event parameters\<close>

definition scalars :: "(string \<times> json) list \<Rightarrow> (string \<times> pb_value) list" where
  "scalars xs = concat (map (\<lambda>(k, j). case scalar_value j of Some v \<Rightarrow> [(k, v)] | None \<Rightarrow> []) xs)"

lemma add_params_object:
  "\<exists>r. add_params (map (\<lambda>(k, x). (Some k, x)) xs) m = Some r \<and> map_of r = map_of (m @ scalars xs) \<and>
     (distinct (map fst m) \<longrightarrow> distinct (map fst r))"
proof (induction xs arbitrary: m)
  case Nil
  then show ?case by (simp add: scalars_def)
next
  case (Cons x xs)
  obtain k j where x: "x = (k, j)" by (cases x)
  show ?case
  proof (cases "scalar_value j")
    case None
    then show ?thesis using Cons.IH [of m] by (simp add: x scalars_def)
  next
    case (Some v)
    let ?m = "if map_of m k = None then m @ [(k, v)] else m"
    obtain r where r: "add_params (map (\<lambda>(k, x). (Some k, x)) xs) ?m = Some r" "map_of r = map_of (?m @ scalars xs)"
      "distinct (map fst ?m) \<longrightarrow> distinct (map fst r)"
      using Cons.IH [of ?m] by blast
    have "scalars (x # xs) = (k, v) # scalars xs" using Some x by (simp add: scalars_def)
    then have "map_of (?m @ scalars xs) = map_of (m @ scalars (x # xs))"
      by (auto simp: map_add_def fun_eq_iff split: option.split)
    moreover have "distinct (map fst m) \<longrightarrow> distinct (map fst ?m)" by (auto simp: map_of_eq_None_iff)
    ultimately show ?thesis using r Some by (simp add: x)
  qed
qed

lemma add_params_array:
  "add_params (map (Pair None) xs) m = (if \<exists>j\<in>set xs. scalar_value j \<noteq> None then None else Some m)"
  by (induction xs) (auto split: option.split)

lemma add_params_distinct:
  assumes "distinct (map fst (m @ scalars xs))"
  shows "add_params (map (\<lambda>(k, x). (Some k, x)) xs) m = Some (m @ scalars xs)"
  using assms
proof (induction xs arbitrary: m)
  case Nil
  then show ?case by (simp add: scalars_def)
next
  case (Cons x xs)
  obtain k j where x: "x = (k, j)" by (cases x)
  show ?case
  proof (cases "scalar_value j")
    case None
    then show ?thesis using Cons.IH [of m] Cons.prems by (simp add: x scalars_def)
  next
    case (Some v)
    have s: "scalars (x # xs) = (k, v) # scalars xs" using Some x by (simp add: scalars_def)
    have "map_of m k = None" using Cons.prems by (auto simp: s map_of_eq_None_iff)
    then show ?thesis using Cons.IH [of "m @ [(k, v)]"] Cons.prems Some unfolding x s [unfolded x] by simp
  qed
qed

definition flat_value :: "pb_value \<Rightarrow> bool" where
  "flat_value v \<longleftrightarrow> (case v of V_num _ \<Rightarrow> True | V_text _ \<Rightarrow> True | V_bool _ \<Rightarrow> True | _ \<Rightarrow> False)"

lemma scalars_of_struct:
  "scalars (concat (map (\<lambda>(k, v). case parse_value v of Some j \<Rightarrow> [(k, j)] | None \<Rightarrow> []) fs)) = filter (\<lambda>(k, v). flat_value v) fs"
proof (induction fs)
  case (Cons x fs)
  obtain k v where "x = (k, v)" by (cases x)
  then show ?case using Cons by (cases v) (simp_all add: scalars_def scalar_value_def flat_value_def)
qed (simp add: scalars_def)

text \<open>
  C40. The parameters of an event: for an object the structure holds the first boolean, number or text of
  every name and nothing else; an array is undefined as soon as it has such an item; and a structure
  that came from Dialogflow as JSON goes back with exactly its flat fields.
\<close>

theorem dialogflow_event_params:
  "(\<exists>r. parse_event_params (JObject xs) = Some r \<and> map_of r = map_of (scalars xs) \<and> distinct (map fst r)) \<and>
   (parse_event_params (JArray js) = (if \<exists>j\<in>set js. scalar_value j \<noteq> None then None else Some [])) \<and>
   (distinct (map fst fs) \<longrightarrow> parse_event_params (parse_struct fs) = Some (filter (\<lambda>(k, v). flat_value v) fs))"
proof (intro conjI impI)
  show "\<exists>r. parse_event_params (JObject xs) = Some r \<and> map_of r = map_of (scalars xs) \<and> distinct (map fst r)"
    using add_params_object [of xs "[]"] by (simp add: parse_event_params_def json_items_def)
  show "parse_event_params (JArray js) = (if \<exists>j\<in>set js. scalar_value j \<noteq> None then None else Some [])"
    by (simp add: parse_event_params_def json_items_def add_params_array)
  assume "distinct (map fst fs)"
  then have "distinct (map fst (filter (\<lambda>(k, v). flat_value v) fs))" by (simp add: distinct_map_filter)
  then show "parse_event_params (parse_struct fs) = Some (filter (\<lambda>(k, v). flat_value v) fs)"
    using add_params_distinct [of "[]"] by (simp add: parse_event_params_def parse_struct_def json_items_def scalars_of_struct)
qed

lemma dialogflow_event_params_witness:
  "parse_event_params (parse_struct [(''n'', V_num (Fin 1)), (''l'', V_list []), (''b'', V_bool True)]) =
     Some [(''n'', V_num (Fin 1)), (''b'', V_bool True)]"
  using dialogflow_event_params [of "[]" "[]" "[(''n'', V_num (Fin 1)), (''l'', V_list []), (''b'', V_bool True)]"]
  by (simp add: flat_value_def)

end
