(* ===== verification/DialogflowGlue.thy ===== *)
theory DialogflowGlue
  imports DialogflowRequest Dialogflow
begin

text \<open>
  The sessions of \<open>mod_dialogflow/google_glue.cpp\<close> as a step relation: the media thread writes the
  audio of a call, the reader thread passes on the responses, any number of threads may stop the
  session, and the state-change hook removes the audio files. The calls on the stream are recorded, and
  what they answer is part of the steps.
\<close>

section \<open>GStreamer\<close>

datatype df_call = Streaming_detect | Df_write df_request | Df_writes_done | Df_finish

record df_stream =
  ds_request :: df_request
  ds_finished :: bool
  ds_packets :: nat                     \<comment> \<open>uint32_t\<close>
  ds_calls :: "df_call list"

definition df_on_stream :: "df_call \<Rightarrow> df_stream \<Rightarrow> df_stream" where
  "df_on_stream c g = g\<lparr> ds_calls := ds_calls g @ [c] \<rparr>"

definition df_start_stream :: "df_request \<Rightarrow> df_stream" where
  "df_start_stream r = \<lparr> ds_request = r, ds_finished = False, ds_packets = 0, ds_calls = [Streaming_detect, Df_write r] \<rparr>"

text \<open>
  \<open>write\<close> after its test, and \<open>finish\<close> after its test: nothing holds the reader thread back between the
  test of the flag and what follows, so they are steps of their own.
\<close>

definition df_audio_request :: "df_request \<Rightarrow> string \<Rightarrow> df_request" where
  "df_audio_request r d = r\<lparr> req_query := None, req_sentiment := False, req_audio := Some d \<rparr>"

definition df_stream_write :: "string \<Rightarrow> df_stream \<Rightarrow> df_stream" where
  "df_stream_write d g =
     (let r = df_audio_request (ds_request g) d
      in df_on_stream (Df_write r) (g\<lparr> ds_request := r, ds_packets := (ds_packets g + 1) mod 2 ^ 32 \<rparr>))"

definition df_stream_writes_done :: "df_stream \<Rightarrow> df_stream" where
  "df_stream_writes_done g = df_on_stream Df_writes_done g"

definition df_stream_finish :: "df_stream \<Rightarrow> df_stream" where
  "df_stream_finish g = df_on_stream Df_finish (g\<lparr> ds_finished := True \<rparr>)"

section \<open>A session\<close>

datatype df_handled =
    Df_event string json | Df_error string
  | Df_wrote string string | Df_removed string | Df_unhook | Df_remove_bug | Df_destroy_resampler

datatype df_reader_pc = DR_read | DR_end | DR_finish | DR_done

datatype df_media_pc = DM_out | DM_in | DM_write string

datatype df_stop_pc = DS_out | DS_waiting | DS_finish | DS_join | DS_end

datatype df_holder = By_media | By_stop nat

record df_session =
  df_sid :: string
  df_stream :: df_stream
  df_alive :: bool                      \<comment> \<open>the object was not deleted\<close>
  df_streamer :: bool                   \<comment> \<open>cb->streamer is not NULL\<close>
  df_resampler :: bool
  df_thread :: bool
  df_attached :: bool                   \<comment> \<open>the channel has the bug\<close>
  df_holder :: "df_holder option"
  df_reader :: df_reader_pc
  df_media :: df_media_pc
  df_stopping :: "nat \<Rightarrow> df_stop_pc"       \<comment> \<open>thread 0 is the media thread, at the close of the channel\<close>
  df_hooked :: bool
  df_files :: "(string \<times> string) list"    \<comment> \<open>audioFiles, of all sessions\<close>
  df_play_count :: nat                  \<comment> \<open>playCount, of all sessions\<close>
  df_did :: "df_handled list"

definition df_does :: "df_handled \<Rightarrow> df_session \<Rightarrow> df_session" where
  "df_does c s = s\<lparr> df_did := df_did s @ [c] \<rparr>"

text \<open>\<open>killcb\<close>.\<close>

definition df_kill :: "df_session \<Rightarrow> df_session" where
  "df_kill s = (let s = (if df_streamer s then s\<lparr> df_alive := False, df_streamer := False \<rparr> else s)
     in if df_resampler s then df_does Df_destroy_resampler (s\<lparr> df_resampler := False \<rparr>) else s)"

text \<open>
  \<open>google_dialogflow_session_init\<close>: \<open>None\<close> where the code is undefined or an exception is not caught,
  \<open>Some None\<close> when it fails. The files and the counter are those of the module at that time.
\<close>

definition df_session_init ::
  "DialogflowRequest.dialogflow_env \<Rightarrow> bool \<Rightarrow> bool \<Rightarrow> bool \<Rightarrow> string \<Rightarrow> string \<Rightarrow> string \<Rightarrow> string option \<Rightarrow> string option \<Rightarrow>
    (string \<times> string) list \<Rightarrow> nat \<Rightarrow> df_session option option" where
  "df_session_init V default_credentials mutex_ok resampler_ok sid lng projectId event txt files count =
     (if \<not> default_credentials \<and> df_var V ''GOOGLE_APPLICATION_CREDENTIALS'' = None then Some None
      else if \<not> mutex_ok then Some None
      else do {
        p \<leftarrow> df_parse_project V projectId;
        r \<leftarrow> df_first_request V p lng sid event txt;
        if \<not> resampler_ok then Some None
        else Some (Some \<lparr> df_sid = sid, df_stream = df_start_stream r, df_alive = True, df_streamer = True, df_resampler = True,
          df_thread = True, df_attached = True, df_holder = None, df_reader = DR_read, df_media = DM_out,
          df_stopping = (\<lambda>_. DS_out), df_hooked = True, df_files = files, df_play_count = count, df_did = [] \<rparr>)
      })"

definition df_on_streamer :: "(df_stream \<Rightarrow> df_stream) \<Rightarrow> df_session \<Rightarrow> df_session option" where
  "df_on_streamer f s = (if df_alive s then Some (s\<lparr> df_stream := f (df_stream s) \<rparr>) else None)"

section \<open>The media thread\<close>

definition df_frame_lock :: "df_session \<Rightarrow> df_session option" where
  "df_frame_lock s =
     (if df_holder s \<noteq> None then Some s
      else if \<not> df_streamer s then Some s
      else if \<not> df_alive s then None
      else if ds_finished (df_stream s) then Some s
      else Some (s\<lparr> df_holder := Some By_media, df_media := DM_in \<rparr>))"

text \<open>A frame that is not empty, as the resampler gives it: the test of \<open>write\<close>, then the rest of it.\<close>

definition df_frame_one :: "string \<Rightarrow> df_session \<Rightarrow> df_session option" where
  "df_frame_one d s = (if \<not> df_resampler s \<or> \<not> df_alive s then None
     else Some (if ds_finished (df_stream s) then s else s\<lparr> df_media := DM_write d \<rparr>))"

definition df_frame_write :: "df_session \<Rightarrow> df_session option" where
  "df_frame_write s = (case df_media s of
     DM_write d \<Rightarrow> do { s \<leftarrow> df_on_streamer (df_stream_write d) s; Some (s\<lparr> df_media := DM_in \<rparr>) }
   | _ \<Rightarrow> Some s)"

definition df_frame_leave :: "df_session \<Rightarrow> df_session" where
  "df_frame_leave s = s\<lparr> df_holder := None, df_media := DM_out \<rparr>"

section \<open>The reader thread\<close>

definition df_event_type :: "enum_zero \<Rightarrow> message \<Rightarrow> string" where
  "df_event_type Z m =
     (if has m ''query_result'' then DIALOGFLOW_EVENT_INTENT
      else if enum_of Z ''StreamingRecognitionResult_MessageType'' (msg_of m ''recognition_result'') ''message_type''
           = ''END_OF_SINGLE_UTTERANCE'' then DIALOGFLOW_EVENT_END_OF_UTTERANCE
      else DIALOGFLOW_EVENT_TRANSCRIPTION)"

definition df_extension :: "enum_zero \<Rightarrow> message \<Rightarrow> string" where
  "df_extension Z m =
     (if \<not> has m ''output_audio_config'' then []
      else let e = enum_of Z ''OutputAudioEncoding'' (msg_of m ''output_audio_config'') ''audio_encoding''
           in if e = ''OUTPUT_AUDIO_ENCODING_MP3'' then ''.mp3''
              else if e = ''OUTPUT_AUDIO_ENCODING_OGG_OPUS'' then ''.opus''
              else ''.wav'')"

definition df_save_audio :: "enum_zero \<Rightarrow> string \<Rightarrow> message \<Rightarrow> df_session \<Rightarrow> df_session" where
  "df_save_audio Z temp_dir m s =
     (let audio = text_of m ''output_audio''
      in if audio = [] then s
         else let n = (df_play_count s + 1) mod 2 ^ 64;
                  path = temp_dir @ ''/'' @ df_sid s @ ''_'' @ show_nat n @ df_extension Z m;
                  s = df_does (Df_wrote path audio) (s\<lparr> df_play_count := n \<rparr>);
                  s = s\<lparr> df_files := df_files s @ [(df_sid s, path)] \<rparr>
              in df_does (Df_event DIALOGFLOW_EVENT_AUDIO_PROVIDED (JObject [(''path'', JText path)])) s)"

definition df_response :: "enum_zero \<Rightarrow> string \<Rightarrow> bool \<Rightarrow> message \<Rightarrow> df_session \<Rightarrow> df_session option" where
  "df_response Z temp_dir located m s =
     (if \<not> df_alive s then None
      else if \<not> located then Some (s\<lparr> df_reader := DR_end \<rparr>)
      else let s = (if has m ''query_result'' \<or> has m ''recognition_result''
                    then df_does (Df_event (df_event_type Z m) (parse_streaming_detect_intent_response Z m)) s else s)
           in Some (df_save_audio Z temp_dir m s))"

definition df_reader_tests :: "bool \<Rightarrow> df_session \<Rightarrow> df_session option" where
  "df_reader_tests located s =
     (if \<not> located then Some (s\<lparr> df_reader := DR_done \<rparr>)
      else if \<not> df_alive s then None
      else Some (s\<lparr> df_reader := (if ds_finished (df_stream s) then DR_done else DR_finish) \<rparr>))"

definition df_error_text :: "int \<Rightarrow> string \<Rightarrow> string \<Rightarrow> string" where
  "df_error_text code text details = ''{\"msg\": \"'' @ text @ ''\", \"code\": '' @ show_int code @
     (if details \<noteq> [] then '', \"details\": \"'' @ details @ ''\"'' else []) @ ''}''"

definition df_reader_finishes :: "int \<Rightarrow> string \<Rightarrow> string \<Rightarrow> df_session \<Rightarrow> df_session option" where
  "df_reader_finishes code text details s = do {
     s \<leftarrow> df_on_streamer df_stream_finish s;
     let s = (if code \<noteq> 0 then df_does (Df_error (df_error_text code text details)) s else s);
     Some (s\<lparr> df_reader := DR_done \<rparr>)
   }"

section \<open>The end of the session\<close>

definition df_at :: "nat \<Rightarrow> df_stop_pc \<Rightarrow> df_session \<Rightarrow> df_session" where
  "df_at n p s = s\<lparr> df_stopping := (df_stopping s)(n := p) \<rparr>"

text \<open>The bug is looked up before the mutex is taken, and not again after it.\<close>

definition df_stop_begin :: "nat \<Rightarrow> df_session \<Rightarrow> df_session" where
  "df_stop_begin n s = (if df_attached s then df_at n DS_waiting s else s)"

definition df_stop_locks :: "nat \<Rightarrow> df_session \<Rightarrow> df_session option" where
  "df_stop_locks n s = do {
     let s = s\<lparr> df_holder := Some (By_stop n) \<rparr>;
     if df_streamer s then do {
       s \<leftarrow> df_on_streamer df_stream_writes_done s;
       Some (df_at n (if ds_finished (df_stream s) then DS_join else DS_finish) s)
     } else Some (df_at n DS_join s)
   }"

definition df_stop_finishes :: "nat \<Rightarrow> df_session \<Rightarrow> df_session option" where
  "df_stop_finishes n s = do { s \<leftarrow> df_on_streamer df_stream_finish s; Some (df_at n DS_join s) }"

definition df_stop_joins :: "nat \<Rightarrow> df_session \<Rightarrow> df_session" where
  "df_stop_joins n s = df_at n DS_end (s\<lparr> df_thread := False \<rparr>)"

definition df_stop_ends :: "nat \<Rightarrow> df_session \<Rightarrow> df_session" where
  "df_stop_ends n s =
     (let s = (df_kill s)\<lparr> df_attached := False \<rparr>;
          s = (if n \<noteq> 0 then df_does Df_remove_bug s else s)
      in df_at n DS_out (s\<lparr> df_holder := None \<rparr>))"

section \<open>The hook\<close>

datatype channel_state = CS_HANGUP | CS_ROUTING | CS_other

definition session_files :: "string \<Rightarrow> (string \<times> string) list \<Rightarrow> string list" where
  "session_files sid fs = map snd (filter (\<lambda>(k, _). k = sid) fs)"

definition hanguphook :: "channel_state \<Rightarrow> df_session \<Rightarrow> df_session" where
  "hanguphook st s =
     (if st = CS_HANGUP \<or> st = CS_ROUTING then
        s\<lparr> df_did := df_did s @ map Df_removed (session_files (df_sid s) (df_files s)) @ [Df_unhook],
           df_files := filter (\<lambda>(k, _). k \<noteq> df_sid s) (df_files s), df_hooked := False \<rparr>
      else s)"

section \<open>Steps\<close>

datatype df_step =
    Frame_lock | Frame_data string | Frame_write | Frame_done
  | Response bool message | Responses_end | Reader_tests_finish bool | Reader_finishes int string string
  | Stop_begin nat | Stop_locks nat | Stop_finishes nat | Stop_joins nat | Stop_ends nat
  | Hook channel_state

fun df_enabled :: "df_step \<Rightarrow> df_session \<Rightarrow> bool" where
  "df_enabled Frame_lock s \<longleftrightarrow> df_media s = DM_out \<and> df_stopping s 0 = DS_out"
| "df_enabled (Frame_data d) s \<longleftrightarrow> df_media s = DM_in"
| "df_enabled Frame_write s \<longleftrightarrow> df_media s \<noteq> DM_out \<and> df_media s \<noteq> DM_in"
| "df_enabled Frame_done s \<longleftrightarrow> df_media s = DM_in"
| "df_enabled (Response l m) s \<longleftrightarrow> df_reader s = DR_read"
| "df_enabled Responses_end s \<longleftrightarrow> df_reader s = DR_read"
| "df_enabled (Reader_tests_finish l) s \<longleftrightarrow> df_reader s = DR_end"
| "df_enabled (Reader_finishes c t d) s \<longleftrightarrow> df_reader s = DR_finish"
| "df_enabled (Stop_begin n) s \<longleftrightarrow> df_stopping s n = DS_out \<and> (n = 0 \<longrightarrow> df_media s = DM_out)"
| "df_enabled (Stop_locks n) s \<longleftrightarrow> df_stopping s n = DS_waiting \<and> df_holder s = None"
| "df_enabled (Stop_finishes n) s \<longleftrightarrow> df_stopping s n = DS_finish"
| "df_enabled (Stop_joins n) s \<longleftrightarrow> df_stopping s n = DS_join \<and> (df_thread s \<longrightarrow> df_reader s = DR_done)"
| "df_enabled (Stop_ends n) s \<longleftrightarrow> df_stopping s n = DS_end"
| "df_enabled (Hook st) s \<longleftrightarrow> df_hooked s"

fun df_do :: "enum_zero \<Rightarrow> string \<Rightarrow> df_step \<Rightarrow> df_session \<Rightarrow> df_session option" where
  "df_do Z td Frame_lock s = df_frame_lock s"
| "df_do Z td (Frame_data d) s = df_frame_one d s"
| "df_do Z td Frame_write s = df_frame_write s"
| "df_do Z td Frame_done s = Some (df_frame_leave s)"
| "df_do Z td (Response l m) s = df_response Z td l m s"
| "df_do Z td Responses_end s = (if df_alive s then Some (s\<lparr> df_reader := DR_end \<rparr>) else None)"
| "df_do Z td (Reader_tests_finish l) s = df_reader_tests l s"
| "df_do Z td (Reader_finishes c t d) s = df_reader_finishes c t d s"
| "df_do Z td (Stop_begin n) s = Some (df_stop_begin n s)"
| "df_do Z td (Stop_locks n) s = df_stop_locks n s"
| "df_do Z td (Stop_finishes n) s = df_stop_finishes n s"
| "df_do Z td (Stop_joins n) s = Some (df_stop_joins n s)"
| "df_do Z td (Stop_ends n) s = Some (df_stop_ends n s)"
| "df_do Z td (Hook st) s = Some (hanguphook st s)"

end
