(* ===== verification/DialogflowSafety.thy ===== *)
theory DialogflowSafety
  imports DialogflowGlue Steps
begin

text \<open>
  The threads of a Dialogflow session: under every interleaving the stream object is used only while it
  exists; what is sent on the stream, and how often its status is fetched; the end of a session.
\<close>

section \<open>The invariant\<close>

definition df_mutex_inv :: "df_session \<Rightarrow> bool" where
  "df_mutex_inv s \<longleftrightarrow> (df_media s \<noteq> DM_out \<longleftrightarrow> df_holder s = Some By_media) \<and>
     (\<forall>n. df_stopping s n \<in> {DS_finish, DS_join, DS_end} \<longleftrightarrow> df_holder s = Some (By_stop n))"

definition df_life_inv :: "df_session \<Rightarrow> bool" where
  "df_life_inv s \<longleftrightarrow> (df_streamer s \<longleftrightarrow> df_alive s) \<and> (df_resampler s \<longleftrightarrow> df_alive s) \<and> (df_thread s \<longrightarrow> df_alive s) \<and>
     (df_reader s \<noteq> DR_done \<longrightarrow> df_thread s) \<and> (df_media s \<noteq> DM_out \<longrightarrow> df_alive s) \<and>
     (\<forall>n. df_stopping s n = DS_finish \<longrightarrow> df_alive s) \<and> (\<forall>n. df_stopping s n = DS_end \<longrightarrow> \<not> df_thread s)"

definition df_inv :: "df_session \<Rightarrow> bool" where
  "df_inv s \<longleftrightarrow> df_mutex_inv s \<and> df_life_inv s"

lemma df_inv_alive:
  "df_inv s \<Longrightarrow> df_reader s \<noteq> DR_done \<or> df_media s \<noteq> DM_out \<or> df_stopping s n = DS_finish \<Longrightarrow> df_alive s"
  by (auto simp: df_inv_def df_life_inv_def)

lemma df_stop_holds: "df_inv s \<Longrightarrow> df_stopping s n = DS_finish \<or> df_stopping s n = DS_join \<or> df_stopping s n = DS_end
    \<Longrightarrow> df_holder s = Some (By_stop n)"
  by (auto simp: df_inv_def df_mutex_inv_def)

text \<open>What the reader changes; what a step of a stop that keeps the mutex changes.\<close>

lemma df_inv_reader:
  assumes "df_inv s" and "p \<noteq> DR_done \<longrightarrow> df_reader s \<noteq> DR_done"
  shows "df_inv (s\<lparr> df_stream := g, df_did := d, df_files := f, df_play_count := c, df_reader := p \<rparr>)"
  using assms by (auto simp: df_inv_def df_mutex_inv_def df_life_inv_def)

lemma df_inv_stop:
  assumes "df_inv s" and "df_stopping s n = DS_finish \<or> df_stopping s n = DS_join \<or> (df_stopping s n = DS_waiting \<and> df_holder s = None)"
    and "p = DS_finish \<and> df_alive s \<and> t = df_thread s \<or> p = DS_join \<and> t = df_thread s \<or> p = DS_end \<and> \<not> t \<and> (df_thread s \<longrightarrow> df_reader s = DR_done)"
  shows "df_inv (s\<lparr> df_stream := g, df_thread := t, df_holder := Some (By_stop n), df_stopping := (df_stopping s)(n := p) \<rparr>)"
proof -
  have m: "df_mutex_inv s" and l: "df_life_inv s" using assms(1) by (simp_all add: df_inv_def)
  have others: "df_stopping s k \<notin> {DS_finish, DS_join, DS_end}" if "k \<noteq> n" for k
    using m assms(2) that unfolding df_mutex_inv_def by (metis df_holder.inject insertCI option.distinct(1) option.inject)
  have out: "df_media s = DM_out"
    using m assms(2) unfolding df_mutex_inv_def
    by (metis df_holder.distinct(1) insertCI option.distinct(1) option.inject)
  have "df_mutex_inv (s\<lparr> df_stream := g, df_thread := t, df_holder := Some (By_stop n), df_stopping := (df_stopping s)(n := p) \<rparr>)"
    unfolding df_mutex_inv_def using others out assms(3) by auto
  moreover have "df_life_inv (s\<lparr> df_stream := g, df_thread := t, df_holder := Some (By_stop n), df_stopping := (df_stopping s)(n := p) \<rparr>)"
    using l others assms(3) out unfolding df_life_inv_def by auto
  ultimately show ?thesis by (simp add: df_inv_def)
qed

lemma df_kill_shape:
  "df_kill s = s\<lparr> df_alive := df_alive s \<and> \<not> df_streamer s, df_streamer := False, df_resampler := False, df_did := df_did (df_kill s) \<rparr>"
  by (cases s; cases "df_streamer s"; cases "df_resampler s") (simp_all add: df_kill_def df_does_def Let_def)

lemma df_ends_shape:
  assumes "df_inv s"
  shows "\<exists>d. df_stop_ends n s = s\<lparr> df_alive := False, df_streamer := False, df_resampler := False, df_did := d, df_attached := False,
    df_holder := None, df_stopping := (df_stopping s)(n := DS_out) \<rparr>"
proof -
  have "df_streamer s \<longleftrightarrow> df_alive s" using assms by (simp add: df_inv_def df_life_inv_def)
  then obtain d where "df_kill s = s\<lparr> df_alive := False, df_streamer := False, df_resampler := False, df_did := d \<rparr>"
    using df_kill_shape [of s] by (metis (full_types))
  then show ?thesis
    by (intro exI [of _ "if n = 0 then d else d @ [Df_remove_bug]"]) (simp add: df_stop_ends_def df_does_def df_at_def Let_def)
qed

lemma df_ends_inv:
  assumes "df_inv s" and "df_stopping s n = DS_end"
  shows "df_inv (df_stop_ends n s)"
proof -
  have m: "df_mutex_inv s" and l: "df_life_inv s" using assms(1) by (simp_all add: df_inv_def)
  have h: "df_holder s = Some (By_stop n)" using df_stop_holds [OF assms(1)] assms(2) by simp
  have others: "df_stopping s k \<notin> {DS_finish, DS_join, DS_end}" if "k \<noteq> n" for k
    using m h that unfolding df_mutex_inv_def by (metis df_holder.inject option.inject)
  have out: "df_media s = DM_out"
    using m h unfolding df_mutex_inv_def by (metis df_holder.distinct(1) option.inject)
  have t: "\<not> df_thread s" "df_reader s = DR_done" using l assms(2) unfolding df_life_inv_def by auto
  obtain d where s': "df_stop_ends n s = s\<lparr> df_alive := False, df_streamer := False, df_resampler := False, df_did := d, df_attached := False,
    df_holder := None, df_stopping := (df_stopping s)(n := DS_out) \<rparr>" using df_ends_shape [OF assms(1)] by blast
  show ?thesis
    unfolding s' df_inv_def df_mutex_inv_def df_life_inv_def using others out t by auto
qed

lemma df_save_shape:
  "\<exists>d f c. df_save_audio Z td m s = s\<lparr> df_did := d, df_files := f, df_play_count := c \<rparr>"
proof (cases "text_of m ''output_audio'' = []")
  case True
  then have "df_save_audio Z td m s = s\<lparr> df_did := df_did s, df_files := df_files s, df_play_count := df_play_count s \<rparr>"
    by (simp add: df_save_audio_def)
  then show ?thesis by blast
next
  case False
  define t where "t = df_save_audio Z td m s"
  have "t = s\<lparr> df_did := df_did t, df_files := df_files t, df_play_count := df_play_count t \<rparr>"
    using False by (simp add: t_def df_save_audio_def df_does_def Let_def)
  then show ?thesis unfolding t_def by blast
qed

lemma df_response_shape:
  assumes "df_alive s"
  shows "\<exists>d f c p. df_response Z td l m s = Some (s\<lparr> df_did := d, df_files := f, df_play_count := c, df_reader := p \<rparr>) \<and>
    (p = df_reader s \<or> p = DR_end)"
proof (cases l)
  case True
  define e where "e = (if has m ''query_result'' \<or> has m ''recognition_result''
    then df_does (Df_event (df_event_type Z m) (parse_streaming_detect_intent_response Z m)) s else s)"
  have e: "e = s\<lparr> df_did := df_did e \<rparr>" by (simp add: e_def df_does_def)
  have r: "df_response Z td l m s = Some (df_save_audio Z td m e)"
    unfolding df_response_def e_def Let_def using True assms by simp
  obtain d f c where "df_save_audio Z td m e = e\<lparr> df_did := d, df_files := f, df_play_count := c \<rparr>" using df_save_shape by blast
  moreover have "e\<lparr> df_did := d, df_files := f, df_play_count := c \<rparr> =
      s\<lparr> df_did := d, df_files := f, df_play_count := c, df_reader := df_reader s \<rparr>" by (subst e) simp
  ultimately show ?thesis using r by metis
next
  case False
  then have "df_response Z td l m s = Some (s\<lparr> df_did := df_did s, df_files := df_files s, df_play_count := df_play_count s, df_reader := DR_end \<rparr>)"
    using assms by (simp add: df_response_def)
  then show ?thesis by blast
qed

section \<open>Steps\<close>

lemma df_inv_free:
  assumes "df_inv s" and "df_holder s = None"
  shows "df_stopping s n \<notin> {DS_finish, DS_join, DS_end}"
  using assms by (simp add: df_inv_def df_mutex_inv_def)

lemma df_inv_media:
  assumes "df_inv s" and "df_media s \<noteq> DM_out"
  shows "df_stopping s n \<notin> {DS_finish, DS_join, DS_end}"
  using assms by (simp add: df_inv_def df_mutex_inv_def)

lemma df_frame_lock_step:
  assumes "df_inv s"
  shows "\<exists>s'. df_frame_lock s = Some s' \<and> df_inv s'"
proof (cases "df_holder s = None \<and> df_streamer s \<and> \<not> ds_finished (df_stream s)")
  case True
  then have a: "df_alive s" using assms by (simp add: df_inv_def df_life_inv_def)
  have "df_mutex_inv (s\<lparr> df_holder := Some By_media, df_media := DM_in \<rparr>)"
    using df_inv_free [OF assms] True by (simp add: df_mutex_inv_def)
  moreover have "df_life_inv (s\<lparr> df_holder := Some By_media, df_media := DM_in \<rparr>)"
    using assms a by (simp add: df_inv_def df_life_inv_def)
  ultimately have "df_inv (s\<lparr> df_holder := Some By_media, df_media := DM_in \<rparr>)" by (simp add: df_inv_def)
  then show ?thesis using True a by (simp add: df_frame_lock_def)
next
  case False
  have "df_streamer s = df_alive s" using assms by (simp add: df_inv_def df_life_inv_def)
  then have "df_frame_lock s = Some s" using False by (auto simp: df_frame_lock_def)
  then show ?thesis using assms by simp
qed

lemma df_inv_writing:
  assumes "df_inv s" and "df_media s \<noteq> DM_out" and "p \<noteq> DM_out"
  shows "df_inv (s\<lparr> df_stream := g, df_media := p \<rparr>)"
  using assms by (simp add: df_inv_def df_mutex_inv_def df_life_inv_def)

lemma df_frame_one_step:
  assumes "df_inv s" and "df_media s \<noteq> DM_out"
  shows "\<exists>s'. df_frame_one d s = Some s' \<and> df_inv s'"
proof -
  have "df_alive s \<and> df_resampler s" using assms by (simp add: df_inv_def df_life_inv_def)
  moreover have "df_inv (s\<lparr> df_media := DM_write d \<rparr>)"
    using df_inv_writing [OF assms, of "DM_write d" "df_stream s"] by simp
  ultimately show ?thesis using assms(1) by (simp add: df_frame_one_def)
qed

lemma df_frame_write_step:
  assumes "df_inv s" and "df_media s \<noteq> DM_out"
  shows "\<exists>s'. df_frame_write s = Some s' \<and> df_inv s'"
proof -
  have "df_alive s" using assms by (simp add: df_inv_def df_life_inv_def)
  then show ?thesis
    using assms(1) df_inv_writing [OF assms, of DM_in]
    by (cases "df_media s") (simp_all add: df_frame_write_def df_on_streamer_def)
qed

lemma df_frame_leave_step:
  assumes "df_inv s" and "df_media s \<noteq> DM_out"
  shows "df_inv (df_frame_leave s)"
proof -
  have "df_mutex_inv (df_frame_leave s)"
    using df_inv_media [OF assms] by (simp add: df_frame_leave_def df_mutex_inv_def)
  moreover have "df_life_inv (df_frame_leave s)"
    using assms(1) by (simp add: df_frame_leave_def df_inv_def df_life_inv_def)
  ultimately show ?thesis by (simp add: df_inv_def)
qed

lemma df_reader_steps:
  assumes "df_inv s" and "df_reader s \<noteq> DR_done"
  shows "\<exists>s'. df_response Z td l m s = Some s' \<and> df_inv s'"
    and "\<exists>s'. df_reader_tests l s = Some s' \<and> df_inv s'"
    and "\<exists>s'. df_reader_finishes c t d s = Some s' \<and> df_inv s'"
proof -
  have a: "df_alive s" using df_inv_alive [OF assms(1)] assms(2) by blast
  show "\<exists>s'. df_response Z td l m s = Some s' \<and> df_inv s'"
  proof -
    obtain d f c p where r: "df_response Z td l m s = Some (s\<lparr> df_did := d, df_files := f, df_play_count := c, df_reader := p \<rparr>)"
      using df_response_shape [OF a] by blast
    have "df_inv (s\<lparr> df_stream := df_stream s, df_did := d, df_files := f, df_play_count := c, df_reader := p \<rparr>)"
      by (rule df_inv_reader) (use assms in auto)
    then show ?thesis using r by simp
  qed
  have keep: "df_inv (s\<lparr> df_reader := p \<rparr>)" for p
    using df_inv_reader [OF assms(1), where p = p and g = "df_stream s" and d = "df_did s" and f = "df_files s" and c = "df_play_count s"] assms(2) by simp
  then show "\<exists>s'. df_reader_tests l s = Some s' \<and> df_inv s'" using a by (auto simp: df_reader_tests_def)
  have "df_inv (s\<lparr> df_stream := g, df_did := h, df_reader := DR_done \<rparr>)" for g h
    using df_inv_reader [OF assms(1), where p = DR_done and g = g and d = h and f = "df_files s" and c = "df_play_count s"] by simp
  from this [where g = "df_stream_finish (df_stream s)" and h = "df_did s"]
    this [where g = "df_stream_finish (df_stream s)" and h = "df_did s @ [Df_error (df_error_text c t d)]"]
  show "\<exists>s'. df_reader_finishes c t d s = Some s' \<and> df_inv s'"
    using a by (cases "c = 0") (simp_all add: df_reader_finishes_def df_on_streamer_def df_does_def)
qed

lemma df_stop_locks_shape:
  assumes "df_inv s"
  shows "df_stop_locks n s = Some (s\<lparr>
      df_stream := (if df_alive s then df_stream_writes_done (df_stream s) else df_stream s), df_holder := Some (By_stop n),
      df_stopping := (df_stopping s)(n := if df_alive s \<and> \<not> ds_finished (df_stream s) then DS_finish else DS_join) \<rparr>)"
  using assms
  by (cases "df_alive s") (simp_all add: df_inv_def df_life_inv_def df_stop_locks_def df_on_streamer_def df_at_def
      df_stream_writes_done_def df_on_stream_def)

lemma df_stop_steps:
  assumes "df_inv s"
  shows "df_enabled (Stop_begin n) s \<Longrightarrow> df_inv (df_stop_begin n s)"
    and "df_enabled (Stop_locks n) s \<Longrightarrow> \<exists>s'. df_stop_locks n s = Some s' \<and> df_inv s'"
    and "df_enabled (Stop_finishes n) s \<Longrightarrow> \<exists>s'. df_stop_finishes n s = Some s' \<and> df_inv s'"
    and "df_enabled (Stop_joins n) s \<Longrightarrow> df_inv (df_stop_joins n s)"
proof -
  have m: "df_mutex_inv s" and l: "df_life_inv s" using assms by (simp_all add: df_inv_def)
  show "df_inv (df_stop_begin n s)" if "df_enabled (Stop_begin n) s"
  proof (cases "df_attached s")
    case True
    have "df_stopping s n = DS_out" using that by simp
    then have "df_holder s \<noteq> Some (By_stop n)" using m unfolding df_mutex_inv_def by (metis df_stop_pc.distinct(3,5,7) empty_iff insert_iff)
    then show ?thesis using True m l unfolding df_stop_begin_def df_at_def df_inv_def df_mutex_inv_def df_life_inv_def by auto
  qed (use assms in \<open>simp add: df_stop_begin_def\<close>)
  show "\<exists>s'. df_stop_locks n s = Some s' \<and> df_inv s'" if "df_enabled (Stop_locks n) s"
  proof -
    define p where "p = (if df_alive s \<and> \<not> ds_finished (df_stream s) then DS_finish else DS_join)"
    define g where "g = (if df_alive s then df_stream_writes_done (df_stream s) else df_stream s)"
    have p: "p = DS_finish \<and> df_alive s \<or> p = DS_join" by (simp add: p_def)
    have "df_inv (s\<lparr> df_stream := g, df_thread := df_thread s, df_holder := Some (By_stop n), df_stopping := (df_stopping s)(n := p) \<rparr>)"
      by (rule df_inv_stop [OF assms]) (use that p in auto)
    then show ?thesis unfolding df_stop_locks_shape [OF assms] p_def [symmetric] g_def [symmetric] by simp
  qed
  show "\<exists>s'. df_stop_finishes n s = Some s' \<and> df_inv s'" if "df_enabled (Stop_finishes n) s"
  proof -
    have a: "df_alive s" "df_holder s = Some (By_stop n)"
      using df_inv_alive [OF assms, of n] df_stop_holds [OF assms, of n] that by simp_all
    have "s\<lparr> df_stream := df_stream_finish (df_stream s), df_thread := df_thread s, df_holder := Some (By_stop n), df_stopping := q \<rparr> =
        s\<lparr> df_stream := df_stream_finish (df_stream s), df_stopping := q \<rparr>" for q using a(2) by (cases s) simp
    then show ?thesis
      using df_inv_stop [OF assms, of n DS_join "df_thread s" "df_stream_finish (df_stream s)"] that a(1)
      by (simp add: df_stop_finishes_def df_on_streamer_def df_at_def)
  qed
  show "df_inv (df_stop_joins n s)" if "df_enabled (Stop_joins n) s"
  proof -
    have "df_holder s = Some (By_stop n)" using df_stop_holds [OF assms, of n] that by simp
    then have "s\<lparr> df_stream := df_stream s, df_thread := False, df_holder := Some (By_stop n), df_stopping := q \<rparr> =
        s\<lparr> df_thread := False, df_stopping := q \<rparr>" for q by (cases s) simp
    then show ?thesis
      using df_inv_stop [OF assms, of n DS_end False "df_stream s"] that by (simp add: df_stop_joins_def df_at_def)
  qed
qed

lemma df_hook_inv: "df_inv s \<Longrightarrow> df_inv (hanguphook st s)"
  by (simp add: hanguphook_def df_inv_def df_mutex_inv_def df_life_inv_def)

lemma df_step_inv:
  assumes "df_inv s" and "df_enabled x s"
  shows "\<exists>s'. df_do Z td x s = Some s' \<and> df_inv s'"
proof (cases x)
  case Responses_end
  have "df_alive s" using df_inv_alive [OF assms(1)] assms(2) Responses_end by simp
  moreover have "df_inv (s\<lparr> df_reader := DR_end \<rparr>)"
    using df_inv_reader [OF assms(1), where p = DR_end and g = "df_stream s" and d = "df_did s" and f = "df_files s" and c = "df_play_count s"] assms(2) Responses_end by simp
  ultimately show ?thesis using Responses_end by simp
qed (use assms df_frame_lock_step [OF assms(1)] df_frame_one_step [OF assms(1)] df_frame_write_step [OF assms(1)] df_frame_leave_step [OF assms(1)] df_reader_steps [OF assms(1)] df_stop_steps [OF assms(1)] df_ends_inv [OF assms(1)]
    df_hook_inv [OF assms(1)] in \<open>simp_all\<close>)

text \<open>The sessions that can be reached from one that was set up.\<close>

abbreviation df_reach :: "enum_zero \<Rightarrow> string \<Rightarrow> df_session \<Rightarrow> df_session \<Rightarrow> bool" where
  "df_reach Z td \<equiv> steps_to df_enabled (df_do Z td)"

interpretation dialogue: step_system df_enabled "df_do Z td" df_inv for Z td
  by unfold_locales (rule df_step_inv)

definition df_opened :: "string \<Rightarrow> df_request \<Rightarrow> (string \<times> string) list \<Rightarrow> nat \<Rightarrow> df_session" where
  "df_opened sid r files count = \<lparr> df_sid = sid, df_stream = df_start_stream r, df_alive = True, df_streamer = True, df_resampler = True,
     df_thread = True, df_attached = True, df_holder = None, df_reader = DR_read, df_media = DM_out,
     df_stopping = (\<lambda>_. DS_out), df_hooked = True, df_files = files, df_play_count = count, df_did = [] \<rparr>"

lemma df_opened_inv: "df_inv (df_opened sid r files count)"
  by (simp add: df_opened_def df_inv_def df_mutex_inv_def df_life_inv_def)

lemma df_init_opened:
  "df_session_init V dc mok rok sid lng proj event txt files count = Some (Some s) \<Longrightarrow>
     \<exists>p r. df_parse_project V proj = Some p \<and> df_first_request V p lng sid event txt = Some r \<and> s = df_opened sid r files count"
  by (auto simp: df_session_init_def df_opened_def bind_eq_Some_conv split: if_splits)


end
