(* ===== verification/DialogflowRuns.thy ===== *)
theory DialogflowRuns
  imports DialogflowSafety
begin

text \<open>
  What a Dialogflow session sends and in which order, the races of its two threads at the end of the stream,
  the audio files and who removes them, and the end of a session.
\<close>

section \<open>The order of the calls\<close>

definition df_sent :: "df_session \<Rightarrow> df_call list" where
  "df_sent s = filter (\<lambda>c. c \<noteq> Df_finish) (ds_calls (df_stream s))"

definition df_finishes :: "df_session \<Rightarrow> nat" where
  "df_finishes s = count_list (ds_calls (df_stream s)) Df_finish"

definition df_audio :: "df_request \<Rightarrow> string list \<Rightarrow> df_call list" where
  "df_audio r ds = map (\<lambda>d. Df_write (df_audio_request r d)) ds"

definition df_opened_calls :: "df_request \<Rightarrow> df_call list \<Rightarrow> bool" where
  "df_opened_calls r cs \<longleftrightarrow> (\<exists>ds. cs = [Streaming_detect, Df_write r] @ df_audio r ds)"

definition df_stops :: "df_session \<Rightarrow> bool" where
  "df_stops s \<longleftrightarrow> (\<exists>n. df_stopping s n \<in> {DS_finish, DS_join, DS_end})"

definition df_order_inv :: "df_request \<Rightarrow> df_session \<Rightarrow> bool" where
  "df_order_inv r s \<longleftrightarrow> (ds_request (df_stream s) = r \<or> (\<exists>d. ds_request (df_stream s) = df_audio_request r d)) \<and>
     (if df_alive s \<and> \<not> df_stops s then df_opened_calls r (df_sent s) \<and> df_finishes s \<le> (if df_reader s = DR_done then 1 else 0)
      else (df_opened_calls r (df_sent s) \<or> (\<exists>cs. df_opened_calls r cs \<and> df_sent s = cs @ [Df_writes_done])) \<and>
        df_finishes s \<le> (if df_reader s = DR_done then 1 else 0) + (if \<exists>n. df_stopping s n = DS_finish then 0 else 1))"

lemma df_audio_request_again: "df_audio_request (df_audio_request r d) e = df_audio_request r e"
  by (simp add: df_audio_request_def)

lemma df_opened_calls_write: "df_opened_calls r cs \<Longrightarrow> df_opened_calls r (cs @ [Df_write (df_audio_request r d)])"
proof -
  assume "df_opened_calls r cs"
  then obtain ds where "cs = [Streaming_detect, Df_write r] @ df_audio r ds" by (auto simp: df_opened_calls_def)
  then have "cs @ [Df_write (df_audio_request r d)] = [Streaming_detect, Df_write r] @ df_audio r (ds @ [d])" by (simp add: df_audio_def)
  then show ?thesis unfolding df_opened_calls_def by blast
qed

lemma df_order_other:
  assumes "df_order_inv r s" and "df_stream s' = df_stream s" and "df_alive s' = df_alive s" and "df_stopping s' = df_stopping s"
    and "df_reader s' = df_reader s \<or> df_reader s \<noteq> DR_done"
  shows "df_order_inv r s'"
proof -
  have "df_sent s' = df_sent s" "df_finishes s' = df_finishes s" "df_stops s' = df_stops s"
    using assms by (simp_all add: df_sent_def df_finishes_def df_stops_def)
  then show ?thesis using assms(1,5) unfolding df_order_inv_def assms(2-4) by (auto split: if_splits)
qed

lemma df_order_write:
  assumes "df_inv s" and "df_order_inv r s" and "df_frame_write s = Some s'"
  shows "df_order_inv r s'"
proof (cases "df_media s")
  case (DM_write d)
  have a: "df_alive s" using df_inv_alive [OF assms(1)] DM_write by simp
  have free: "\<not> df_stops s" using df_inv_media [OF assms(1)] DM_write by (simp add: df_stops_def)
  have s': "s' = s\<lparr> df_stream := df_stream_write d (df_stream s), df_media := DM_in \<rparr>"
    using assms(3) DM_write a by (simp add: df_frame_write_def df_on_streamer_def)
  have r: "df_audio_request (ds_request (df_stream s)) d = df_audio_request r d"
    using assms(2) by (auto simp: df_order_inv_def df_audio_request_again)
  have "df_sent s' = df_sent s @ [Df_write (df_audio_request r d)]" "df_finishes s' = df_finishes s"
    "ds_request (df_stream s') = df_audio_request r d"
    by (simp_all add: s' df_sent_def df_finishes_def df_stream_write_def df_on_stream_def Let_def r)
  moreover have "df_alive s'" "\<not> df_stops s'" "df_reader s' = df_reader s" using a free by (simp_all add: s' df_stops_def)
  ultimately show ?thesis using assms(2) a free df_opened_calls_write unfolding df_order_inv_def by auto
qed (use assms in \<open>simp_all add: df_frame_write_def\<close>)

lemma df_order_reader_finishes:
  assumes "df_order_inv r s" and "df_alive s" and "df_reader s \<noteq> DR_done" and "df_reader_finishes c t d s = Some s'"
  shows "df_order_inv r s'"
proof -
  have s': "df_stream s' = df_stream_finish (df_stream s)" "df_alive s' = df_alive s" "df_stopping s' = df_stopping s" "df_reader s' = DR_done"
    using assms(2,4) by (auto simp: df_reader_finishes_def df_on_streamer_def df_does_def)
  then have "df_sent s' = df_sent s" "df_finishes s' = Suc (df_finishes s)" "df_stops s' = df_stops s"
    "ds_request (df_stream s') = ds_request (df_stream s)"
    by (simp_all add: df_sent_def df_finishes_def df_stops_def df_stream_finish_def df_on_stream_def)
  then show ?thesis using assms(1,3) unfolding df_order_inv_def s'(2-4) by (auto split: if_splits)
qed

lemma df_order_locks:
  assumes "df_inv s" and "df_order_inv r s" and "df_holder s = None" and "df_stop_locks n s = Some s'"
  shows "df_order_inv r s'"
proof -
  have free: "\<not> df_stops s" using df_inv_free [OF assms(1,3)] by (simp add: df_stops_def)
  have s': "s' = s\<lparr> df_stream := (if df_alive s then df_stream_writes_done (df_stream s) else df_stream s), df_holder := Some (By_stop n),
      df_stopping := (df_stopping s)(n := if df_alive s \<and> \<not> ds_finished (df_stream s) then DS_finish else DS_join) \<rparr>"
    using df_stop_locks_shape [OF assms(1)] assms(4) by simp
  have stops: "df_stops s'" by (auto simp: s' df_stops_def)
  have rest: "df_finishes s' = df_finishes s" "ds_request (df_stream s') = ds_request (df_stream s)" "df_reader s' = df_reader s"
    "df_sent s' = df_sent s @ (if df_alive s then [Df_writes_done] else [])"
    by (simp_all add: s' df_sent_def df_finishes_def df_stream_writes_done_def df_on_stream_def)
  show ?thesis
  proof (cases "df_alive s")
    case True
    then show ?thesis using assms(2) free stops unfolding df_order_inv_def rest by auto
  next
    case False
    then have "df_stopping s' k \<noteq> DS_finish" for k using free by (auto simp: s' df_stops_def)
    then show ?thesis using assms(2) False stops unfolding df_order_inv_def rest by (auto split: if_splits)
  qed
qed

lemma df_order_stop_finishes:
  assumes "df_inv s" and "df_order_inv r s" and "df_stopping s n = DS_finish" and "df_stop_finishes n s = Some s'"
  shows "df_order_inv r s'"
proof -
  have a: "df_alive s" using df_inv_alive [OF assms(1)] assms(3) by blast
  have s': "s' = s\<lparr> df_stream := df_stream_finish (df_stream s), df_stopping := (df_stopping s)(n := DS_join) \<rparr>"
    using assms(4) a by (simp add: df_stop_finishes_def df_on_streamer_def df_at_def)
  have h: "df_holder s = Some (By_stop n)" using df_stop_holds [OF assms(1)] assms(3) by blast
  have "df_stopping s k \<noteq> DS_finish" if "k \<noteq> n" for k using df_stop_holds [OF assms(1), of k] h that by auto
  then have none: "\<not> (\<exists>k. df_stopping s' k = DS_finish)" by (simp add: s')
  have stops: "df_stops s" "df_stops s'" using assms(3) by (auto simp: s' df_stops_def)
  have rest: "df_finishes s' = Suc (df_finishes s)" "ds_request (df_stream s') = ds_request (df_stream s)" "df_reader s' = df_reader s"
    "df_sent s' = df_sent s"
    by (simp_all add: s' df_sent_def df_finishes_def df_stream_finish_def df_on_stream_def)
  have "df_finishes s \<le> (if df_reader s = DR_done then 1 else 0)"
    using assms(2,3) stops(1) unfolding df_order_inv_def by (auto split: if_splits)
  then show ?thesis using assms(2) stops none unfolding df_order_inv_def rest by auto
qed

lemma df_order_still:
  assumes "df_order_inv r s" and "df_stream s' = df_stream s" and "df_reader s' = df_reader s"
    and "df_alive s' \<and> \<not> df_stops s' \<Longrightarrow> df_alive s \<and> \<not> df_stops s"
    and "\<exists>k. df_stopping s' k = DS_finish \<Longrightarrow> \<exists>k. df_stopping s k = DS_finish"
  shows "df_order_inv r s'"
proof -
  have "df_sent s' = df_sent s" "df_finishes s' = df_finishes s" using assms(2) by (simp_all add: df_sent_def df_finishes_def)
  then show ?thesis using assms(1,4,5) unfolding df_order_inv_def assms(2,3) by (smt (verit) add.right_neutral le_add1 le_trans)
qed

lemma df_order_stop:
  assumes "df_inv s" and "df_order_inv r s"
  shows "df_stopping s n = DS_out \<Longrightarrow> df_order_inv r (df_stop_begin n s)"
    and "df_stopping s n = DS_join \<Longrightarrow> df_order_inv r (df_stop_joins n s)"
    and "df_order_inv r (df_stop_ends n s)"
proof -
  show "df_order_inv r (df_stop_begin n s)" if "df_stopping s n = DS_out"
  proof (rule df_order_still [OF assms(2)])
    have same: "df_stopping (df_stop_begin n s) k \<in> {DS_finish, DS_join, DS_end} \<longleftrightarrow> df_stopping s k \<in> {DS_finish, DS_join, DS_end}"
      for k using that by (simp add: df_stop_begin_def df_at_def)
    show "df_alive s \<and> \<not> df_stops s" if "df_alive (df_stop_begin n s) \<and> \<not> df_stops (df_stop_begin n s)"
      using that unfolding df_stops_def same by (simp add: df_stop_begin_def df_at_def split: if_splits)
    show "\<exists>k. df_stopping s k = DS_finish" if "\<exists>k. df_stopping (df_stop_begin n s) k = DS_finish"
      using that by (auto simp: df_stop_begin_def df_at_def split: if_splits)
  qed (simp_all add: df_stop_begin_def df_at_def)
  show "df_order_inv r (df_stop_joins n s)" if "df_stopping s n = DS_join"
  proof (rule df_order_still [OF assms(2)])
    have "df_stops (df_stop_joins n s)" by (auto simp: df_stops_def df_stop_joins_def df_at_def)
    then show "df_alive (df_stop_joins n s) \<and> \<not> df_stops (df_stop_joins n s) \<Longrightarrow> df_alive s \<and> \<not> df_stops s" by simp
    show "\<exists>k. df_stopping s k = DS_finish" if "\<exists>k. df_stopping (df_stop_joins n s) k = DS_finish"
      using that by (auto simp: df_stop_joins_def df_at_def split: if_splits)
  qed (simp_all add: df_stop_joins_def df_at_def)
  obtain d where s': "df_stop_ends n s = s\<lparr> df_alive := False, df_streamer := False, df_resampler := False, df_did := d, df_attached := False,
    df_holder := None, df_stopping := (df_stopping s)(n := DS_out) \<rparr>" using df_ends_shape [OF assms(1)] by blast
  show "df_order_inv r (df_stop_ends n s)"
    by (rule df_order_still [OF assms(2)]) (auto simp: s' split: if_splits)
qed

lemma df_order_step:
  assumes "df_inv s" and "df_order_inv r s" and "df_enabled x s" and "df_do Z td x s = Some s'"
  shows "df_order_inv r s'"
proof -
  note other = df_order_other [OF assms(2), of s']
  show ?thesis
  proof (cases x)
    case Frame_lock
    then show ?thesis using assms(4) by (intro other) (auto simp: df_frame_lock_def split: if_splits)
  next
    case (Frame_data d)
    then show ?thesis using assms(4) by (intro other) (auto simp: df_frame_one_def split: if_splits)
  next
    case Frame_write
    then show ?thesis using df_order_write [OF assms(1,2)] assms(4) by simp
  next
    case Frame_done
    then show ?thesis using assms(4) by (intro other) (auto simp: df_frame_leave_def)
  next
    case (Response l m)
    have "df_alive s" using df_inv_alive [OF assms(1)] assms(3) Response by simp
    then obtain d f c p where "s' = s\<lparr> df_did := d, df_files := f, df_play_count := c, df_reader := p \<rparr>"
      using df_response_shape [of s Z td l m] assms(4) Response by auto
    then show ?thesis using assms(3) Response by (intro other) auto
  next
    case Responses_end
    then show ?thesis using assms(3,4) by (intro other) (auto split: if_splits)
  next
    case (Reader_tests_finish l)
    then show ?thesis using assms(3,4) by (intro other) (auto simp: df_reader_tests_def split: if_splits)
  next
    case (Reader_finishes c t d)
    have "df_alive s" using df_inv_alive [OF assms(1)] assms(3) Reader_finishes by simp
    then show ?thesis using df_order_reader_finishes [OF assms(2)] assms(3,4) Reader_finishes by simp
  next
    case (Hook st)
    then have "s' = hanguphook st s" using assms(4) by simp
    then show ?thesis by (intro other) (simp_all add: hanguphook_def)
  qed (use assms(3,4) df_order_stop [OF assms(1,2)] df_order_locks [OF assms(1,2)] df_order_stop_finishes [OF assms(1,2)] in auto)
qed

lemma df_order_opened: "df_order_inv r (df_opened sid r files count)"
  by (simp add: df_opened_def df_order_inv_def df_stops_def df_sent_def df_finishes_def df_start_stream_def df_opened_calls_def df_audio_def)

interpretation dialogue_order: step_invariant df_enabled "df_do Z td" df_inv "df_order_inv r" for Z td r
  by unfold_locales (rule df_order_step)

text \<open>
  C37. The protocol of the stream: it is opened once and the first write is the request with the query; then
  come requests with audio and without a query, in the session of the first; it is closed for writing at
  most once and nothing is written after that; and the status is fetched at most twice.
\<close>

theorem dialogflow_protocol:
  assumes "df_session_init V dc mok rok sid lng proj event txt files count = Some (Some s0)" and "df_reach Z td s0 s"
  shows "\<exists>p r ds closed. df_parse_project V proj = Some p \<and> df_first_request V p lng sid event txt = Some r \<and>
    filter (\<lambda>c. c \<noteq> Df_finish) (ds_calls (df_stream s)) =
      [Streaming_detect, Df_write r] @ map (\<lambda>d. Df_write (df_audio_request r d)) ds @ (if closed then [Df_writes_done] else []) \<and>
    count_list (ds_calls (df_stream s)) Df_finish \<le> 2"
proof -
  obtain p r where p: "df_parse_project V proj = Some p" "df_first_request V p lng sid event txt = Some r" "s0 = df_opened sid r files count"
    using df_init_opened [OF assms(1)] by blast
  have o: "df_order_inv r s" using dialogue_order.reach_keeps [OF assms(2)] p(3) df_opened_inv df_order_opened by blast
  obtain ds closed where "df_sent s = [Streaming_detect, Df_write r] @ df_audio r ds @ (if closed then [Df_writes_done] else [])"
  proof (cases "df_opened_calls r (df_sent s)")
    case True
    then show ?thesis using that [of _ False] by (auto simp: df_opened_calls_def)
  next
    case False
    then obtain cs where "df_opened_calls r cs" "df_sent s = cs @ [Df_writes_done]" using o by (auto simp: df_order_inv_def split: if_splits)
    then show ?thesis using that [of _ True] by (auto simp: df_opened_calls_def)
  qed
  moreover have "df_finishes s \<le> 2" using o by (auto simp: df_order_inv_def split: if_splits)
  ultimately show ?thesis using p(1,2) unfolding df_sent_def df_finishes_def df_audio_def by blast
qed

section \<open>Concrete runs\<close>

abbreviation df_run :: "enum_zero \<Rightarrow> string \<Rightarrow> df_step list \<Rightarrow> df_session \<Rightarrow> df_session option" where
  "df_run Z td \<equiv> run_allowed df_enabled (df_do Z td)"

lemmas df_run_defs = df_opened_def df_start_stream_def df_frame_lock_def df_frame_one_def df_frame_write_def df_on_streamer_def
  df_stream_write_def df_on_stream_def df_reader_tests_def df_reader_finishes_def df_stream_finish_def df_stop_begin_def df_stop_locks_def
  df_stop_finishes_def df_stop_joins_def df_stream_writes_done_def df_at_def df_does_def Let_def

text \<open>
  C38. The end of the stream is not safe: the reader and a stop may both find that the status was not fetched and fetch it
  twice; audio may be written after the status was fetched; and when the stop fetches the status
  first, an error of the session is not reported, whatever it is.
\<close>

theorem dialogflow_finish_races:
  assumes "df_session_init V dc mok rok sid lng proj event txt files count = Some (Some s0)"
  shows "(\<exists>s. df_reach Z td s0 s \<and> count_list (ds_calls (df_stream s)) Df_finish = 2) \<and>
    (\<exists>s r cs. df_reach Z td s0 s \<and> ds_calls (df_stream s) = cs @ [Df_finish, Df_write r]) \<and>
    (\<exists>s. df_reach Z td s0 s \<and> Df_finish \<in> set (ds_calls (df_stream s)) \<and> df_reader s = DR_done \<and> df_did s = [])"
proof -
  obtain p r where s0: "s0 = df_opened sid r files count" using df_init_opened [OF assms] by blast
  obtain s1 where s1: "df_run Z td [Responses_end, Reader_tests_finish True, Stop_begin 1, Stop_locks 1, Stop_finishes 1, Reader_finishes 0 [] []] s0 = Some s1"
    "count_list (ds_calls (df_stream s1)) Df_finish = 2" by (simp add: s0 df_run_defs)
  obtain s2 cs q where s2: "df_run Z td [Frame_lock, Frame_data [], Responses_end, Reader_tests_finish True, Reader_finishes 0 [] [], Frame_write] s0 = Some s2"
    "ds_calls (df_stream s2) = cs @ [Df_finish, Df_write q]" by (simp add: s0 df_run_defs)
  obtain s3 where s3: "df_run Z td [Stop_begin 1, Stop_locks 1, Stop_finishes 1, Responses_end, Reader_tests_finish True] s0 = Some s3"
    "Df_finish \<in> set (ds_calls (df_stream s3))" "df_reader s3 = DR_done" "df_did s3 = []" by (simp add: s0 df_run_defs)
  show ?thesis using run_allowed_steps [OF s1(1)] run_allowed_steps [OF s2(1)] run_allowed_steps [OF s3(1)] s1(2) s2(2) s3(2-4) by blast
qed

section \<open>The audio files\<close>

text \<open>
  What a step adds: the files of the session, each with the event that it was written, and never for
  another session.
\<close>

definition df_adds :: "df_session \<Rightarrow> df_session \<Rightarrow> string list \<Rightarrow> bool" where
  "df_adds s s' ps \<longleftrightarrow> df_sid s' = df_sid s \<and> df_hooked s' = df_hooked s \<and> df_files s' = df_files s @ map (Pair (df_sid s)) ps \<and>
     (\<exists>ds. df_did s' = df_did s @ ds \<and> (\<forall>p a. Df_wrote p a \<in> set ds \<longrightarrow> p \<in> set ps))"

lemma df_adds_nothing:
  "df_sid s' = df_sid s \<Longrightarrow> df_hooked s' = df_hooked s \<Longrightarrow> df_files s' = df_files s \<Longrightarrow> df_did s' = df_did s @ ds \<Longrightarrow>
     (\<forall>p a. Df_wrote p a \<notin> set ds) \<Longrightarrow> df_adds s s' []"
  by (simp add: df_adds_def)

lemma df_adds_event: "df_adds s t ps \<Longrightarrow> df_did s = df_did s0 @ [Df_event k j] \<Longrightarrow> df_sid s = df_sid s0 \<Longrightarrow> df_files s = df_files s0 \<Longrightarrow>
    df_hooked s = df_hooked s0 \<Longrightarrow> df_adds s0 t ps"
  by (auto simp: df_adds_def)

lemma df_save_adds:
  "\<exists>ps. df_adds s (df_save_audio Z td m s) ps \<and>
     (text_of m ''output_audio'' \<noteq> [] \<longrightarrow> (\<exists>p. ps = [p] \<and> Df_wrote p (text_of m ''output_audio'') \<in> set (df_did (df_save_audio Z td m s))))"
proof (cases "text_of m ''output_audio'' = []")
  case True
  then show ?thesis by (intro exI [of _ "[]"]) (simp add: df_save_audio_def df_adds_def)
next
  case False
  define n where "n = (df_play_count s + 1) mod 2 ^ 64"
  define p where "p = td @ ''/'' @ df_sid s @ ''_'' @ show_nat n @ df_extension Z m"
  have "df_save_audio Z td m s = df_does (Df_event DIALOGFLOW_EVENT_AUDIO_PROVIDED (JObject [(''path'', JText p)]))
      ((df_does (Df_wrote p (text_of m ''output_audio'')) (s\<lparr> df_play_count := n \<rparr>))\<lparr> df_files := df_files s @ [(df_sid s, p)] \<rparr>)"
    unfolding df_save_audio_def Let_def n_def p_def using False by (simp add: df_does_def)
  then show ?thesis by (intro exI [of _ "[p]"]) (simp add: df_adds_def df_does_def)
qed

lemma df_response_adds:
  assumes "df_response Z td l m s = Some s'"
  shows "\<exists>ps. df_adds s s' ps \<and> (l \<and> text_of m ''output_audio'' \<noteq> [] \<longrightarrow>
     (\<exists>p. ps = [p] \<and> Df_wrote p (text_of m ''output_audio'') \<in> set (df_did s')))"
proof (cases l)
  case True
  show ?thesis
  proof (cases "has m ''query_result'' \<or> has m ''recognition_result''")
    case reports: True
    define e where "e = df_does (Df_event (df_event_type Z m) (parse_streaming_detect_intent_response Z m)) s"
    have s': "s' = df_save_audio Z td m e" using assms reports True unfolding df_response_def e_def Let_def by (simp split: if_splits)
    obtain ps where ps: "df_adds e s' ps" "text_of m ''output_audio'' \<noteq> [] \<longrightarrow>
        (\<exists>p. ps = [p] \<and> Df_wrote p (text_of m ''output_audio'') \<in> set (df_did s'))"
      using df_save_adds [of e Z td m] unfolding s' by blast
    have "df_adds s s' ps" by (rule df_adds_event [OF ps(1)]) (simp_all add: e_def df_does_def)
    then show ?thesis using ps(2) by blast
  next
    case False
    then have "s' = df_save_audio Z td m s" using assms True unfolding df_response_def Let_def by (simp split: if_splits)
    then show ?thesis using df_save_adds [of s Z td m] by blast
  qed
next
  case False
  then have "s' = s\<lparr> df_reader := DR_end \<rparr>" using assms by (simp add: df_response_def split: if_splits)
  then show ?thesis using False by (intro exI [of _ "[]"]) (simp add: df_adds_def)
qed

lemma df_ends_adds:
  assumes "df_inv s"
  shows "df_adds s (df_stop_ends n s) []"
proof -
  have "\<exists>ds. df_did (df_stop_ends n s) = df_did s @ ds \<and> (\<forall>p a. Df_wrote p a \<notin> set ds)"
    by (auto simp: df_stop_ends_def df_kill_def df_does_def df_at_def Let_def)
  moreover have "df_sid (df_stop_ends n s) = df_sid s" "df_hooked (df_stop_ends n s) = df_hooked s" "df_files (df_stop_ends n s) = df_files s"
    using df_ends_shape [OF assms, of n] by auto
  ultimately show ?thesis by (auto simp: df_adds_def)
qed

lemma df_step_adds:
  assumes "df_inv s" and "df_enabled x s" and "df_do Z td x s = Some s'" and "\<forall>st. x \<noteq> Hook st"
  shows "\<exists>ps. df_adds s s' ps"
proof (cases x)
  case (Response l m)
  then show ?thesis using df_response_adds [of Z td l m s s'] assms(3) by auto
next
  case (Stop_ends n)
  then show ?thesis using df_ends_adds [OF assms(1), of n] assms(3) by auto
next
  case (Reader_finishes c t d)
  then show ?thesis using assms(3)
    by (intro exI [of _ "[]"]) (auto simp: df_adds_def df_reader_finishes_def df_on_streamer_def df_does_def split: if_splits)
next
  case Frame_write
  then show ?thesis using assms(3)
    by (intro exI [of _ "[]"]) (auto simp: df_adds_def df_frame_write_def df_on_streamer_def split: df_media_pc.splits if_splits)
next
  case (Stop_locks n)
  then show ?thesis using df_stop_locks_shape [OF assms(1), of n] assms(3) by (intro exI [of _ "[]"]) (auto simp: df_adds_def)
qed (use assms(3,4) in \<open>auto intro!: exI [of _ "[]"] simp: df_adds_def df_frame_lock_def df_frame_one_def df_frame_leave_def df_reader_tests_def
      df_stop_begin_def df_stop_finishes_def df_stop_joins_def df_on_streamer_def df_at_def split: if_splits\<close>)

definition df_files_inv :: "(string \<times> string) list \<Rightarrow> string \<Rightarrow> df_session \<Rightarrow> bool" where
  "df_files_inv files sid s \<longleftrightarrow> df_sid s = sid \<and> filter (\<lambda>(k, _). k \<noteq> sid) (df_files s) = filter (\<lambda>(k, _). k \<noteq> sid) files \<and>
     (\<forall>p a. Df_wrote p a \<in> set (df_did s) \<longrightarrow> p \<in> set (session_files sid (df_files s)) \<or> Df_removed p \<in> set (df_did s)) \<and>
     (\<forall>p\<in>set (session_files sid files). p \<in> set (session_files sid (df_files s)) \<or> Df_removed p \<in> set (df_did s))"

lemma session_files_simps [simp]:
  "session_files sid (fs @ gs) = session_files sid fs @ session_files sid gs" "session_files sid (map (Pair sid) ps) = ps"
  "session_files sid (filter (\<lambda>(k, _). k \<noteq> sid) fs) = []" "session_files sid [(sid, p)] = [p]"
  by (simp_all add: session_files_def filter_map o_def case_prod_unfold)

lemma df_files_step:
  assumes "df_inv s" and "df_files_inv files sid s" and "df_enabled x s" and "df_do Z td x s = Some s'"
  shows "df_files_inv files sid s'"
proof (cases "\<exists>st. x = Hook st")
  case True
  then obtain st where "s' = hanguphook st s" using assms(4) by auto
  then show ?thesis using assms(2) by (auto simp: df_files_inv_def hanguphook_def)
next
  case False
  then obtain ps where ps: "df_adds s s' ps" using df_step_adds [OF assms(1,3,4)] by blast
  then obtain ds where ds: "df_did s' = df_did s @ ds" "\<forall>p a. Df_wrote p a \<in> set ds \<longrightarrow> p \<in> set ps" by (auto simp: df_adds_def)
  have sid: "df_sid s = sid" using assms(2) by (simp add: df_files_inv_def)
  then have files: "df_files s' = df_files s @ map (Pair sid) ps" "df_sid s' = sid" using ps by (simp_all add: df_adds_def)
  have "filter (\<lambda>(k, _). k \<noteq> sid) (df_files s') = filter (\<lambda>(k, _). k \<noteq> sid) (df_files s)" by (simp add: files filter_map o_def)
  then show ?thesis using assms(2) ds files unfolding df_files_inv_def by auto
qed

interpretation dialogue_files: step_invariant df_enabled "df_do Z td" df_inv "df_files_inv files sid" for Z td files sid
  by unfold_locales (rule df_files_step)

lemma df_unhooked_keeps:
  assumes "df_reach Z td s s'" and "df_inv s" and "\<not> df_hooked s" and "p \<in> set (session_files (df_sid s) (df_files s))"
  shows "\<not> df_hooked s' \<and> df_sid s' = df_sid s \<and> p \<in> set (session_files (df_sid s) (df_files s'))"
  using assms(1)
proof (induction rule: steps_to.induct)
  case steps_start
  then show ?case using assms(3,4) by simp
next
  case (steps_next t x t')
  then have "\<forall>st. x \<noteq> Hook st" by auto
  then obtain ps where "df_adds t t' ps" using df_step_adds [OF dialogue.reach_inv [OF steps_next(1) assms(2)] steps_next(2,3)] by blast
  then show ?case using steps_next.IH by (simp add: df_adds_def)
qed


section \<open>A concrete session\<close>

definition sample_dialogflow :: DialogflowRequest.dialogflow_env where
  "sample_dialogflow = \<lparr> df_var = (\<lambda>_. Some ''key''), df_stod = (\<lambda>_. None), df_json = (\<lambda>_. None) \<rparr>"

definition sample_chat :: df_session where
  "sample_chat = the (the (df_session_init sample_dialogflow False True True ''abc'' ''en-US'' ''agent'' None None [] 0))"

lemma sample_chat:
  "df_session_init sample_dialogflow False True True ''abc'' ''en-US'' ''agent'' None None [] 0 = Some (Some sample_chat)"
  by (simp add: sample_chat_def df_session_init_def sample_dialogflow_def df_parse_project_def tokenize.simps [of _ "''agent''"]
      df_token_def df_first_request_def df_query_def)


lemma dialogflow_protocol_witness: "count_list (ds_calls (df_stream sample_chat)) Df_finish \<le> 2"
  using dialogflow_protocol [OF sample_chat steps_start] by blast

lemma dialogflow_finish_races_witness:
  "\<exists>s. df_reach (\<lambda>_. []) ''/tmp'' sample_chat s \<and> count_list (ds_calls (df_stream s)) Df_finish = 2"
  using dialogflow_finish_races [OF sample_chat] by blast


end
