(* ===== verification/TtsGlue.thy ===== *)
theory TtsGlue
  imports GoogleTts "HOL-Library.Sublist"
begin

text \<open>
  \<open>mod_google_tts/google_glue.cpp\<close>: the voices that were listed when the module was loaded, and the
  synthesis of a text into a file. What the service answers is a parameter.
\<close>

section \<open>Voices\<close>

record tts_voice =
  listed_name :: string
  language_codes :: "string list"

datatype listing =
    Listing_throws                       \<comment> \<open>an std::exception\<close>
  | Listing_fails string                 \<comment> \<open>the status is not ok\<close>
  | Listing_voices "tts_voice list"

text \<open>Loading again adds to \<open>setVoices\<close>.\<close>

definition google_speech_load :: "string option \<Rightarrow> listing \<Rightarrow> string set \<Rightarrow> switch_status \<times> string set" where
  "google_speech_load credentials answer setVoices = (case credentials of
     None \<Rightarrow> (SWITCH_STATUS_FALSE, setVoices)
   | Some _ \<Rightarrow> (case answer of
       Listing_throws \<Rightarrow> (SWITCH_STATUS_FALSE, setVoices)
     | Listing_fails _ \<Rightarrow> (SWITCH_STATUS_FALSE, setVoices)
     | Listing_voices vs \<Rightarrow> (SWITCH_STATUS_SUCCESS, fold (\<lambda>v. insert (listed_name v)) vs setVoices)))"

text \<open>A text is made of the name of the voice, which must not be NULL.\<close>

definition google_speech_open :: "string set \<Rightarrow> google_t \<Rightarrow> switch_status option" where
  "google_speech_open setVoices google = do {
     voice \<leftarrow> deref (voice_name google);
     Some (if voice \<in> setVoices then SWITCH_STATUS_SUCCESS else SWITCH_STATUS_FALSE)
   }"

section \<open>Synthesis\<close>

text \<open>\<open>strstr\<close>, as the distance of what it finds from the start.\<close>

fun c_strstr :: "string \<Rightarrow> string \<Rightarrow> nat option" where
  "c_strstr [] needle = (if needle = [] then Some 0 else None)"
| "c_strstr (c # s) needle = (if prefix needle (c # s) then Some 0 else map_option Suc (c_strstr s needle))"

datatype synthesis_input = Ssml string | Plain string

record synthesis_request =
  syn_input :: synthesis_input
  syn_voice_name :: string
  syn_language_code :: string
  syn_linear16 :: bool
  syn_sample_rate_hertz :: int

definition synthesis_request :: "google_t \<Rightarrow> string \<Rightarrow> synthesis_request option" where
  "synthesis_request google text = do {
     voice \<leftarrow> deref (voice_name google);
     Some \<lparr> syn_input = (if c_strstr text ''<speak'' = Some 0 then Ssml text else Plain text), syn_voice_name = voice,
       syn_language_code = take 5 voice, syn_linear16 = True, syn_sample_rate_hertz = tts_rate google \<rparr>
   }"

text \<open>The service gives the audio of a request, or fails. The file, with its new content, is the second result.\<close>

definition google_speech_feed_tts ::
  "(synthesis_request \<Rightarrow> string option) \<Rightarrow> google_t \<Rightarrow> string \<Rightarrow> (switch_status \<times> (string \<times> string) option) option" where
  "google_speech_feed_tts service google text = do {
     r \<leftarrow> synthesis_request google text;
     (case service r of
       None \<Rightarrow> Some (SWITCH_STATUS_FALSE, None)
     | Some audio \<Rightarrow> do { file \<leftarrow> deref (tts_file google); Some (SWITCH_STATUS_SUCCESS, Some (file, audio)) })
   }"

section \<open>What is spoken\<close>

lemma c_strstr_start: "needle \<noteq> [] \<Longrightarrow> c_strstr s needle = Some 0 \<longleftrightarrow> prefix needle s"
  by (cases s) auto

lemma c_strstr_found: "c_strstr s needle = Some n \<Longrightarrow> prefix needle (drop n s) \<and> n \<le> length s"
  by (induction s needle arbitrary: n rule: c_strstr.induct) (auto split: if_splits)

lemma load_voices: "fold (\<lambda>v. insert (listed_name v)) vs S = S \<union> listed_name ` set vs"
  by (induction vs arbitrary: S) auto

text \<open>
  After loading exactly the listed voices can be opened; and for such a voice a text goes to the service
  as it is, as SSML exactly when it starts with a speak element, and what comes back is the file.
\<close>

theorem tts_speaks_listed_voices:
  assumes "google_speech_load (Some key) (Listing_voices vs) {} = (st, voices)"
    and "google_speech_open voices google = Some SWITCH_STATUS_SUCCESS" and "tts_file google = Some file"
  shows "\<exists>v\<in>set vs. voice_name google = Some (listed_name v) \<and>
    (\<exists>r. synthesis_request google text = Some r \<and> syn_voice_name r = listed_name v \<and> prefix (syn_language_code r) (listed_name v) \<and>
      syn_input r = (if \<exists>rest. text = ''<speak'' @ rest then Ssml text else Plain text) \<and>
      google_speech_feed_tts service google text =
        Some (if service r = None then (SWITCH_STATUS_FALSE, None) else (SWITCH_STATUS_SUCCESS, Some (file, the (service r)))))"
proof -
  have voices: "voices = listed_name ` set vs" using assms(1) by (simp add: google_speech_load_def load_voices)
  obtain n where n: "voice_name google = Some n" using assms(2) by (cases "voice_name google") (simp_all add: google_speech_open_def)
  then have "n \<in> voices" using assms(2) by (simp add: google_speech_open_def split: if_splits)
  then obtain v where v: "v \<in> set vs" "n = listed_name v" using voices by blast
  have ssml: "c_strstr text ''<speak'' = Some 0 \<longleftrightarrow> (\<exists>rest. text = ''<speak'' @ rest)" by (simp add: c_strstr_start prefix_def)
  show ?thesis
    by (rule bexI [OF _ v(1)])
      (simp add: n v(2) synthesis_request_def google_speech_feed_tts_def assms(3) ssml take_is_prefix split: option.split)
qed

end
