(* ===== verification/Spec2Isabelle.thy ===== *)
theory Spec2Isabelle
  imports Vm Ruby YtelDial GoogleTts Dialogflow AudioFork Transcribe Amd AvmdLocks AvmdBarrier LwsRuns TranscribeRuns DialogflowRuns TtsGlue
begin

text \<open>
  A model of the FreeSWITCH modules this overlay adds to the \<open>net-voip/freeswitch\<close> ebuild. Their
  sources are under \<open>src/net-voip/freeswitch/files/\<close>; paths below are relative to it. Every module
  is loaded into the FreeSWITCH process and talks to it through calls of the core: it locates and
  locks sessions, attaches media bugs whose callbacks get the audio of a call frame by frame, and
  fires events.

  The core. Its code is not in the repository, so it is a parameter: \<open>Switch\<close> has the data type of
  the calls the modules make, and an environment (\<open>env\<close>) that answers every call as a function of the
  trace of all earlier calls and answers. A function of a module is a function from a trace to
  \<open>None\<close> or to its result and the longer trace. \<open>None\<close> means that the C code has no defined result
  there: a NULL pointer is read, an array is left, a thread is joined that was not created, or a
  loop does not end. Nothing is assumed about an environment unless a theorem says so, with the named
  predicates of \<open>Switch\<close> that state what the core documents (\<open>zstr_ok\<close>, \<open>separate_ok\<close>, \<open>alloc_ok\<close>,
  \<open>private_ok\<close>). Log lines and the time queries that only feed them are left out. The session given to
  an application or an API command is not NULL.

  The theories, in the order of their imports.

  \<^item> \<open>Prelude\<close>: \<open>post m Q\<close> (if \<open>m\<close> returns, its result satisfies \<open>Q\<close>) and \<open>returns m Q\<close> (it
    returns, and so), with the rules and collections by which runs are reasoned about call by call.
  \<^item> \<open>CString\<close>: \<open>strcasecmp\<close>, \<open>strtoul\<close>, \<open>atoi\<close>, \<open>snprintf\<close>, \<open>strcat\<close> and the zero-filled \<open>argv\<close>.
  \<^item> \<open>Switch\<close>: the core as above. \<open>Api\<close>: what the API commands share, the automaton of the read lock
    of the located session with the locale \<open>session_command\<close>, the attaching of a media bug with the
    locale \<open>capture_start\<close>, and the event subclasses of a module with the locale \<open>event_subclasses\<close>.
    Every command, start function and pair of load and shutdown interprets them.
  \<^item> \<open>Settings\<close>: the locale of a block of settings filled one entry at a time, interpreted by the
    settings of \<open>mod_avmd\<close> and of \<open>mod_amd\<close>.
  \<^item> \<open>AvmdSettings\<close>, \<open>AvmdDetector\<close>, \<open>AvmdSession\<close>, \<open>AvmdApp\<close>, \<open>AvmdLocks\<close>, \<open>AvmdBarrier\<close>:
    \<open>mod_avmd.new.c\<close>, the detector of voice mail beeps. A session cuts every frame into the ranges of
    its detectors, each a thread with its own resolution and offset; the first detector with a
    verdict decides. \<open>AvmdDetector\<close> and \<open>AvmdSession\<close> run a frame in one piece, each detector in turn;
    \<open>AvmdBarrier\<close> has the same protocol step by step, with its mutexes, its condition variables and
    every interleaving of the threads, and shows that the master and the detectors never touch the
    samples together, that no wake-up is lost and that a frame ends. The SMA and circular buffers,
    DESA-2 and the median filter are headers the repository does not have; they are the parameter
    \<open>lib\<close>, and \<open>Dbl\<close> has the doubles they compute with. \<open>AvmdLocks\<close> shows that the applications and
    the API command return with every mutex and every session released.
  \<^item> \<open>Amd\<close>: \<open>AMD/mod_amd.c\<close>, the answering machine detector, with its invariant and its verdicts.
  \<^item> \<open>Bridge\<close>, \<open>YtelDial\<close>, \<open>Vm\<close>, \<open>Ruby\<close>: the dialling applications of \<open>YTEL_DIAL/\<close>, \<open>VM/\<close> and
    \<open>RUBY/\<close>, with the rotation over numbers and caller ids and the read lock of the peer.
  \<^item> \<open>AudioFork\<close>, \<open>Transcribe\<close>, \<open>Dialogflow\<close>, \<open>GoogleTts\<close>: the FreeSWITCH side of \<open>mod_audio_fork\<close>,
    \<open>mod_google_transcribe\<close>, \<open>mod_dialogflow\<close> and \<open>mod_google_tts\<close>: API commands, media bugs,
    handlers, load and shutdown.
  \<^item> \<open>Base64\<close>, \<open>AudioPipe\<close>, \<open>PipeSafety\<close>: the websocket client of \<open>mod_audio_fork\<close>
    (\<open>base64.hpp\<close>, \<open>audio_pipe.cpp\<close>). A pipe is an object in a store; libwebsockets calls
    \<open>lws_callback\<close> with the events of its sockets, and the lists of pending connects, disconnects and
    writes are the state the callers and the service thread share.
  \<^item> \<open>WsUri\<close>, \<open>LwsGlue\<close>, \<open>LwsSafety\<close>, \<open>LwsRuns\<close>: \<open>lws_glue.cpp\<close>, the sessions over these pipes: the URI of
    a server, set-up, text messages and audio, the messages of the server (\<open>parser.cpp\<close> of that
    module), the callbacks of the pipe and the cleanup. \<open>LwsSafety\<close> has the step relation of a
    whole module, sessions and pipes together, and its type invariant; \<open>LwsRuns\<close> has what a session
    achieves and the runs that fail, with the hypothesis each of them breaks.
  \<^item> \<open>SimpleBuffer\<close>, \<open>RecognizeConfig\<close>, \<open>SpeechResult\<close>: the ring buffer, the first request and the JSON of a
    result of \<open>mod_google_transcribe\<close> (\<open>simple_buffer.h\<close>, \<open>google_glue.cpp\<close>), where the times go through
    single precision. \<open>TranscribeGlue\<close>, \<open>TranscribeSafety\<close>, \<open>TranscribeRuns\<close>: its sessions, a step
    relation of the media thread, the reader thread and the threads that end the session, over a
    record of the stream with the calls made on it.
  \<^item> \<open>DialogflowParser\<close>, \<open>DialogflowRequest\<close>: the messages of Dialogflow as JSON (\<open>parser.cpp\<close>), and the project
    string, the parameters of an event and the first request (\<open>google_glue.cpp\<close>). \<open>DialogflowGlue\<close>,
    \<open>DialogflowSafety\<close>, \<open>DialogflowRuns\<close>: its sessions, again as steps of their threads and of the hook that
    removes the audio files.
  \<^item> \<open>TtsGlue\<close>: \<open>mod_google_tts/google_glue.cpp\<close>, the listed voices and the synthesis of a text.

  The sessions of \<open>mod_audio_fork\<close>, of the recognizer and of Dialogflow are systems of steps, and \<open>Steps\<close> has
  what they share: runs, reachable states, and the locales \<open>step_system\<close> (an invariant under which a
  step that can happen is never undefined) and \<open>step_invariant\<close> (what such steps keep besides), which every
  one of them interprets. What may interleave with another thread is a step of its own (a test of a flag,
  and what is done after it); what is done under a mutex with no other thread able to see it is
  one step. A guard says when a thread may step, with the mutex and the join in it; the effect
  of a step is \<open>None\<close> where the code is undefined.

  Bounds and fuel. Byte counters of \<open>mod_avmd\<close> are kept at their width; loops over its detectors
  return \<open>None\<close> when the counter wraps before the last detector. Waiting loops whose end depends on the
  core are \<open>partial_function (option)\<close>, and the theorems that they end say under which answers. The
  32-bit counters of the ring buffer and of the packets and the 64-bit counter of the audio files wrap.

  Not modelled. The functions that register applications and commands when a module is loaded. What the
  C++ files call of gRPC, protobuf, libwebsockets, cJSON, speex and the regular expressions is a parameter
  or a recorded call; a protobuf message is a list of its set fields by name. The credentials and
  the channel of a gRPC client, the threads and contexts of libwebsockets (\<open>initialize\<close>, \<open>deinitialize\<close>,
  \<open>fork_init\<close>, \<open>fork_cleanup\<close>) and the log functions have no state that the rest reads. Data races on
  the module-wide list of audio files of \<open>mod_dialogflow\<close> are not modelled: each insertion and
  removal is one step. The ebuilds, init scripts and patches.
\<close>

end
